(* ===== verification/Prelude.thy ===== *)
theory Prelude
  imports Main "HOL-Library.Word" "HOL-Library.Monad_Syntax"
begin

text \<open>
  Shared vocabulary of the development: the machine types of the C sources, byte buffers with
  checked access, C strings, and the two generic interfaces (a byte codec and a transition system
  with an invariant) that several components instantiate.

  A pointer argument that the source compares with NULL is an \<open>option\<close> (\<open>None\<close> is NULL). A computation
  that reads or writes memory through unchecked indices returns an \<open>option\<close> whose \<open>None\<close> is undefined
  behaviour (an access outside its object), so that memory safety is the theorem that the result is
  never \<open>None\<close>. The data model is LP64: \<open>size_t\<close>, \<open>uintmax_t\<close> and \<open>time_t\<close> have 64 bits, \<open>int\<close> has 32.
\<close>

unbundle bit_operations_syntax

section \<open>Machine types\<close>

type_synonym u8 = "8 word"
type_synonym u16 = "16 word"
type_synonym u32 = "32 word"
type_synonym u64 = "64 word"
type_synonym bytes = "u8 list"

abbreviation SIZE_MAX :: nat where
  "SIZE_MAX \<equiv> 18446744073709551615"

abbreviation UINT16_MAX :: nat where
  "UINT16_MAX \<equiv> 65535"

abbreviation UINT32_MAX :: nat where
  "UINT32_MAX \<equiv> 4294967295"

abbreviation UINT64_MAX :: nat where
  "UINT64_MAX \<equiv> 18446744073709551615"

abbreviation BUFSIZ :: nat where
  "BUFSIZ \<equiv> 8192"

text \<open>Collections: buffer access, C strings and big-endian integers.\<close>

named_theorems buf_simps \<open>checked buffer access\<close>
named_theorems codec_simps \<open>decoders applied to encoded values\<close>

lemma take_bit_or_push_bit_drop_bit: "take_bit n v OR push_bit n (drop_bit n v) = (v :: 'a::len word)"
  by (rule bit_word_eqI) (auto simp: bit_simps, metis le_add_diff_inverse not_less)

lemma unat_bounds: "unat (a :: u8) < 256" "unat (b :: u16) < 65536" "unat (c :: u32) < 4294967296"
    "unat (d :: u64) < 18446744073709551616"
  by (rule order.strict_trans2 [OF unsigned_less], simp)+

lemma ucast_widen: "ucast (ucast (b :: u8) :: u16) = b" "ucast (ucast (p :: u16) :: u32) = p"
  by (rule bit_word_eqI; simp add: bit_simps)+

section \<open>Checked buffers\<close>

definition buf_write :: "nat \<Rightarrow> bytes \<Rightarrow> bytes \<Rightarrow> bytes option" where
  "buf_write off xs b =
     (if off + length xs \<le> length b then Some (take off b @ xs @ drop (off + length xs) b) else None)"

definition buf_read :: "nat \<Rightarrow> nat \<Rightarrow> bytes \<Rightarrow> bytes option" where
  "buf_read off n b = (if off + n \<le> length b then Some (take n (drop off b)) else None)"

definition buf_at :: "nat \<Rightarrow> bytes \<Rightarrow> u8 option" where
  "buf_at i b = (if i < length b then Some (b ! i) else None)"

lemma buf_write_append [buf_simps]:
  "off = length p \<Longrightarrow> length xs \<le> length b \<Longrightarrow>
     buf_write off xs (p @ b) = Some (p @ xs @ drop (length xs) b)"
  by (simp add: buf_write_def)

lemma buf_write_length: "buf_write off xs b = Some b' \<Longrightarrow> length b' = length b"
  by (auto simp: buf_write_def split: if_splits)

lemma buf_write_fits: "off + length xs \<le> length b \<Longrightarrow> \<exists>b'. buf_write off xs b = Some b'"
  by (simp add: buf_write_def)

section \<open>C strings\<close>

text \<open>
  \<open>strlen\<close> of an object: the offset of its first NUL byte; an object without one is read past its end.
\<close>

definition strlen :: "bytes \<Rightarrow> nat option" where
  "strlen b = (if 0 \<in> set b then Some (length (takeWhile (\<lambda>c. c \<noteq> 0) b)) else None)"

definition cstr :: "bytes \<Rightarrow> bytes" where
  "cstr b = takeWhile (\<lambda>c. c \<noteq> 0) b"

lemma takeWhile_nonzero_append: "0 \<notin> set s \<Longrightarrow> takeWhile (\<lambda>c. c \<noteq> (0::u8)) (s @ 0 # r) = s"
  by (induction s) auto

lemma strlen_cstr [buf_simps]: "0 \<notin> set s \<Longrightarrow> strlen (s @ 0 # r) = Some (length s)"
  by (simp add: strlen_def takeWhile_nonzero_append)

lemma cstr_append [buf_simps]: "0 \<notin> set s \<Longrightarrow> cstr (s @ 0 # r) = s"
  by (simp add: cstr_def takeWhile_nonzero_append)

text \<open>\<open>memchr\<close>: the offset of the first occurrence of a byte, if any.\<close>

fun memchr :: "u8 \<Rightarrow> bytes \<Rightarrow> nat option" where
  "memchr c [] = None"
| "memchr c (x # xs) = (if x = c then Some 0 else map_option Suc (memchr c xs))"

lemma memchr_None_iff: "memchr c xs = None \<longleftrightarrow> c \<notin> set xs"
  by (induction xs) auto

lemma memchr_append_fresh: "c \<notin> set p \<Longrightarrow> memchr c (p @ xs) = map_option (\<lambda>n. length p + n) (memchr c xs)"
  by (induction p) (cases "memchr c xs"; auto)+

lemma memchr_Some: "memchr c xs = Some n \<Longrightarrow> n < length xs \<and> xs ! n = c \<and> c \<notin> set (take n xs)"
  by (induction xs arbitrary: n) (auto split: if_splits)

lemma memchr_bound: "memchr c xs = Some n \<Longrightarrow> n < length xs"
  using memchr_Some by blast

section \<open>Interfaces\<close>

text \<open>
  A byte codec: an encoder whose output a decoder reads back from the front of any stream, handing the
  rest on. Sequences of values decode back one after the other.
\<close>

locale codec =
  fixes enc :: "'a \<Rightarrow> bytes"
    and dec :: "bytes \<Rightarrow> ('a \<times> bytes) option"
  assumes dec_enc: "dec (enc x @ rest) = Some (x, rest)"
    and enc_nonempty: "enc x \<noteq> []"
begin

fun dec_many :: "nat \<Rightarrow> bytes \<Rightarrow> ('a list \<times> bytes) option" where
  "dec_many 0 bs = Some ([], bs)"
| "dec_many (Suc n) bs =
     (case dec bs of None \<Rightarrow> None
      | Some (x, bs') \<Rightarrow> map_option (\<lambda>(xs, r). (x # xs, r)) (dec_many n bs'))"

lemma dec_many_concat: "dec_many (length xs) (concat (map enc xs) @ rest) = Some (xs, rest)"
  by (induction xs) (simp_all add: dec_enc)

lemma enc_prefix_free: "enc x @ r = enc y @ s \<Longrightarrow> x = y \<and> r = s"
  by (metis dec_enc option.inject prod.inject)

lemma enc_inj: "enc x = enc y \<Longrightarrow> x = y"
  using enc_prefix_free [of x "[]" y "[]"] by simp

lemma enc_length_pos: "0 < length (enc x)"
  using enc_nonempty by simp

end

text \<open>A transition system with an inductive invariant: every reachable state satisfies it.\<close>

locale invariant_system =
  fixes init :: "'s \<Rightarrow> bool"
    and step :: "'s \<Rightarrow> 's \<Rightarrow> bool"
    and inv :: "'s \<Rightarrow> bool"
  assumes inv_init: "init s \<Longrightarrow> inv s"
    and inv_step: "inv s \<Longrightarrow> step s t \<Longrightarrow> inv t"
begin

lemma inv_steps: "step\<^sup>*\<^sup>* s t \<Longrightarrow> inv s \<Longrightarrow> inv t"
  by (induction rule: rtranclp_induct) (auto intro: inv_step)

lemma inv_reachable: "init s \<Longrightarrow> step\<^sup>*\<^sup>* s t \<Longrightarrow> inv t"
  using inv_steps inv_init by blast

end

end
