(* ===== verification/Basic.thy ===== *)
theory Basic
  imports Prelude
begin

text \<open>
  The byte and string helpers of \<open>src/basic.c\<close>: the variable-length integers of the Minecraft protocol
  (\<open>int2varint\<close>, \<open>varint2int\<close>), the UTF-16 padding of legacy packets (\<open>packetexpand\<close>, \<open>packetshrink\<close>),
  the log escaping (\<open>escape_default\<close>) and the string splitters.

  Buffers are byte lists. The bytes an encoder stores one after the other from its destination pointer
  on are its result list; a caller places them with \<open>buf_write\<close>, which is undefined outside the object.
\<close>

section \<open>Variable-length integers\<close>

datatype varint_status = VARINT_COMPLETE | VARINT_INCOMPLETE | VARINT_INVALID

type_synonym varint_t = u32

definition VARINT_T_MAXIDX :: nat where
  "VARINT_T_MAXIDX = 4 * 8 div 7"

definition VARINT_T_LAST_MASK :: varint_t where
  "VARINT_T_LAST_MASK = push_bit ((4 * 8) mod 7) 1 - 1"

text \<open>
  The loop of \<open>int2varint\<close> stores every group with the continuation bit set; the bit of the last group is
  cleared after the loop (\<open>base[i - 1] & 0x7F\<close>).
\<close>

lemma drop_bit7_less: "drop_bit 7 (v::varint_t) \<noteq> 0 \<Longrightarrow> unat (drop_bit 7 v) < unat v"
proof -
  assume a: "drop_bit 7 v \<noteq> 0"
  have e: "unat (drop_bit 7 v) = unat v div 2 ^ 7"
    using unat_drop_bit_eq [of 7 v] drop_bit_eq_div [of 7 "unat v"] by simp
  from a have "unat (drop_bit 7 v) \<noteq> 0"
    by (metis unat_eq_zero)
  with e show ?thesis by simp
qed

function int2varint_loop :: "varint_t \<Rightarrow> bytes \<Rightarrow> bytes" where
  "int2varint_loop src base =
     (let base' = base @ [ucast ((src AND 0x7F) OR 0x80)]; src' = drop_bit 7 src
      in if src' \<noteq> 0 then int2varint_loop src' base' else base')"
  by pat_completeness auto
termination
  by (relation "measure (\<lambda>(src, _). unat src)") (auto simp: drop_bit7_less)

declare int2varint_loop.simps [simp del]

definition int2varint_bytes :: "varint_t \<Rightarrow> bytes" where
  "int2varint_bytes src =
     (let base = int2varint_loop src []; i = length base
      in base[i - 1 := (base ! (i - 1)) AND 0x7F])"

text \<open>
  \<open>int2varint\<close> stores them at a destination (an object and an offset into it) and returns the advanced
  destination. Its test for a NULL destination is never true: every caller passes a buffer of its own.
\<close>

definition int2varint :: "varint_t \<Rightarrow> bytes \<times> nat \<Rightarrow> (bytes \<times> nat) option" where
  "int2varint src = (\<lambda>(dst, off). do {
     dst' \<leftarrow> buf_write off (int2varint_bytes src) dst;
     Some (dst', off + length (int2varint_bytes src))
   })"

text \<open>
  \<open>varint2int\<close> reads from \<open>src\<close> up to \<open>end\<close>. The argument is the list of bytes between the two pointers,
  or \<open>None\<close> when one of them is NULL or \<open>src\<close> lies behind \<open>end\<close>. On success it yields the value and the
  bytes that were not consumed.
\<close>

function varint2int_loop :: "nat \<Rightarrow> varint_t \<Rightarrow> bytes \<Rightarrow> varint_status \<times> (varint_t \<times> bytes) option" where
  "varint2int_loop i result base =
     (if i \<le> VARINT_T_MAXIDX then
        (case base of
           [] \<Rightarrow> (VARINT_INCOMPLETE, None)
         | byte # base' \<Rightarrow>
             (let result_single = ucast (byte AND 0x7F) :: varint_t in
              if i = VARINT_T_MAXIDX \<and> (byte AND 0x80 \<noteq> 0 \<or> result_single > VARINT_T_LAST_MASK)
              then (VARINT_INVALID, None)
              else
                (let result' = result OR push_bit (i * 7) result_single in
                 if byte AND 0x80 = 0 then (VARINT_COMPLETE, Some (result', base'))
                 else varint2int_loop (i + 1) result' base')))
      else (VARINT_INVALID, None))"
  by pat_completeness auto
termination
  by (relation "measure (\<lambda>(i, _, _). Suc VARINT_T_MAXIDX - i)") auto

declare varint2int_loop.simps [simp del]

definition varint2int :: "bytes option \<Rightarrow> varint_status \<times> (varint_t \<times> bytes) option" where
  "varint2int src = (case src of None \<Rightarrow> (VARINT_INVALID, None) | Some bs \<Rightarrow> varint2int_loop 0 0 bs)"

section \<open>Memory helpers and the padding of legacy packets\<close>

definition memcat :: "bytes \<Rightarrow> nat \<Rightarrow> bytes \<Rightarrow> nat \<Rightarrow> (bytes \<times> nat) option" where
  "memcat dst dst_size src src_size =
     do {
       xs \<leftarrow> buf_read 0 src_size src;
       dst' \<leftarrow> buf_write dst_size xs dst;
       Some (dst', dst_size + src_size)
     }"

fun packetexpand :: "bytes \<Rightarrow> bytes" where
  "packetexpand [] = []"
| "packetexpand (b # source) = 0 # b # packetexpand source"

definition packetshrink :: "bytes option \<Rightarrow> bytes option \<Rightarrow> nat \<Rightarrow> (bytes option \<times> nat) option" where
  "packetshrink source target target_capacity =
     (case (source, target) of
        (Some src, Some tgt) \<Rightarrow>
          (let needed = length (filter (\<lambda>b. b \<noteq> 0) src) in
           if needed > target_capacity then Some (Some tgt, 0)
           else do {
             tgt' \<leftarrow> buf_write 0 (filter (\<lambda>b. b \<noteq> 0) src) tgt;
             Some (Some tgt', needed)
           })
      | _ \<Rightarrow> Some (target, 0))"

section \<open>String helpers\<close>

text \<open>\<open>snprintf(dst, n, "%s", s)\<close>: at most \<open>n - 1\<close> bytes of the text and a terminator.\<close>

definition snprintf :: "bytes \<Rightarrow> nat \<Rightarrow> bytes \<Rightarrow> bytes option" where
  "snprintf dst n text = (if n = 0 then Some dst else buf_write 0 (take (n - 1) text @ [0]) dst)"

text \<open>Decimal digits, as \<open>snprintf("%u")\<close> prints them.\<close>

fun decimal :: "nat \<Rightarrow> bytes" where
  "decimal n = (if n < 10 then [of_nat (48 + n)] else decimal (n div 10) @ [of_nat (48 + n mod 10)])"

declare decimal.simps [simp del]

definition is_digit :: "u8 \<Rightarrow> bool" where
  "is_digit c \<longleftrightarrow> 0x30 \<le> c \<and> c \<le> 0x39"

definition digits_value :: "bytes \<Rightarrow> nat" where
  "digits_value ds = foldl (\<lambda>v d. v * 10 + (unat d - 48)) 0 ds"

definition resolve_path :: "bytes option \<Rightarrow> bytes option \<Rightarrow> bytes option \<Rightarrow> nat \<Rightarrow> bytes option option" where
  "resolve_path path cwd out out_size =
     (case (path, cwd, out) of
        (Some p, Some c, Some d) \<Rightarrow>
          (if out_size = 0 then Some out
           else do {
             first \<leftarrow> buf_at 0 p;
             _ \<leftarrow> strlen p;
             if first \<noteq> 0x2F then do {
               _ \<leftarrow> strlen c;
               d' \<leftarrow> snprintf d out_size (cstr c @ [0x2F] @ cstr p);
               Some (Some d')
             } else do {
               d' \<leftarrow> snprintf d out_size (cstr p);
               Some (Some d')
             }
           })
      | _ \<Rightarrow> Some out)"

text \<open>
  \<open>strtok_head\<close> copies the text before the first delimiter to \<open>dst\<close> and returns the pointer behind the
  delimiter; a pointer into a string is the rest of the object it points into.
\<close>

definition strtok_head :: "bytes option \<Rightarrow> nat \<Rightarrow> bytes option \<Rightarrow> u8 \<Rightarrow> (bytes option \<times> bytes option) option" where
  "strtok_head dst dst_size src delim =
     (case src of
        None \<Rightarrow> Some (dst, None)
      | Some s \<Rightarrow>
          if dst_size = 0 then Some (dst, None)
          else do {
            n \<leftarrow> strlen s;
            if n = 0 then
              (case dst of None \<Rightarrow> Some (None, None)
               | Some d \<Rightarrow> do { d' \<leftarrow> buf_write 0 [0] d; Some (Some d', None) })
            else
              (case memchr delim (cstr s) of
                 None \<Rightarrow>
                   (case dst of None \<Rightarrow> Some (None, None)
                    | Some d \<Rightarrow> do { d' \<leftarrow> snprintf d dst_size (cstr s); Some (Some d', None) })
               | Some ptr_delim \<Rightarrow>
                   (let len = (if ptr_delim \<ge> dst_size then dst_size - 1 else ptr_delim);
                        rest = Some (drop (ptr_delim + 1) s) in
                    (case dst of None \<Rightarrow> Some (None, rest)
                     | Some d \<Rightarrow> do { d' \<leftarrow> buf_write 0 (take len s @ [0]) d; Some (Some d', rest) })))
          })"

text \<open>\<open>strrchr\<close> on the text of a string: the offset of the last occurrence.\<close>

fun strrchr :: "u8 \<Rightarrow> bytes \<Rightarrow> nat option" where
  "strrchr c [] = None"
| "strrchr c (x # xs) =
     (case strrchr c xs of Some n \<Rightarrow> Some (Suc n) | None \<Rightarrow> if x = c then Some 0 else None)"

definition strtok_tail :: "bool \<Rightarrow> bytes option \<Rightarrow> nat \<Rightarrow> bytes option \<Rightarrow> nat \<Rightarrow> u8 \<Rightarrow> (bytes option \<times> nat) option" where
  "strtok_tail malloc_ok dst dst_size src src_size delim =
     (case src of
        None \<Rightarrow> Some (dst, 0)
      | Some s \<Rightarrow>
          if src_size = 0 then
            (case dst of None \<Rightarrow> Some (None, 0)
             | Some d \<Rightarrow> do { d' \<leftarrow> buf_write 0 [0] d; Some (Some d', 0) })
          else if \<not> malloc_ok then Some (dst, src_size)
          else do {
            copy \<leftarrow> buf_read 0 src_size s;
            (let buffer = cstr (copy @ [0]) in
             case strrchr delim buffer of
               None \<Rightarrow>
                 (case dst of None \<Rightarrow> Some (None, 0)
                  | Some d \<Rightarrow> do { d' \<leftarrow> snprintf d dst_size buffer; Some (Some d', 0) })
             | Some offset \<Rightarrow>
                 (case dst of None \<Rightarrow> Some (None, offset)
                  | Some d \<Rightarrow> do { d' \<leftarrow> snprintf d dst_size (drop (offset + 1) buffer); Some (Some d', offset) }))
          })"

section \<open>Correctness of the variable-length integers\<close>

lemma mask7: "(0x7F :: 'a::len word) = mask 7"
  by (simp add: mask_eq_exp_minus_1)

lemma bit7: "(0x80 :: 'a::len word) = push_bit 7 1"
  by simp

lemma int2varint_loop_acc: "int2varint_loop v acc = acc @ int2varint_loop v []"
proof (induction "unat v" arbitrary: v acc rule: less_induct)
  case less
  let ?b = "ucast ((v AND 0x7F) OR 0x80) :: u8" and ?v = "drop_bit 7 v"
  show ?case
  proof (cases "?v = 0")
    case True
    then show ?thesis by (simp add: int2varint_loop.simps [of v])
  next
    case False
    then have "int2varint_loop ?v xs = xs @ int2varint_loop ?v []" for xs
      by (rule less [OF drop_bit7_less])
    from this [of "acc @ [?b]"] this [of "[?b]"] False show ?thesis
      by (simp add: int2varint_loop.simps [of v] Let_def)
  qed
qed

lemma int2varint_loop_nonempty: "int2varint_loop v [] \<noteq> []"
  by (subst int2varint_loop.simps) (simp add: Let_def int2varint_loop_acc [of _ "[_]"])

lemma int2varint_bytes_rec:
  "int2varint_bytes v =
     (if drop_bit 7 v = 0 then [ucast (v AND 0x7F)]
      else ucast ((v AND 0x7F) OR 0x80) # int2varint_bytes (drop_bit 7 v))"
proof (cases "drop_bit 7 v = 0")
  case True
  have "(ucast ((v AND 0x7F) OR 0x80) :: u8) AND 0x7F = ucast (v AND 0x7F)"
    unfolding mask7 bit7 by (rule bit_word_eqI) (auto simp: bit_simps simp del: push_bit_of_1)
  with True show ?thesis
    by (simp add: int2varint_bytes_def int2varint_loop.simps [of v])
next
  case False
  let ?b = "ucast ((v AND 0x7F) OR 0x80) :: u8" and ?r = "int2varint_loop (drop_bit 7 v) []"
  have e: "int2varint_loop v [] = ?b # ?r"
    using False int2varint_loop_acc [of "drop_bit 7 v" "[?b]"]
    by (simp add: int2varint_loop.simps [of v] Let_def)
  have "?r \<noteq> []" by (rule int2varint_loop_nonempty)
  then obtain n where n: "length ?r = Suc n" by (cases ?r) auto
  from False show ?thesis
    by (simp add: int2varint_bytes_def Let_def e n)
qed

lemma group_last: "(ucast (v AND 0x7F :: u32) :: u8) AND 0x80 = 0"
  unfolding mask7 bit7 by (rule bit_word_eqI) (auto simp: bit_simps simp del: push_bit_of_1)

lemma group_more: "(ucast ((v AND 0x7F :: u32) OR 0x80) :: u8) AND 0x80 \<noteq> 0"
proof -
  have "bit ((ucast ((v AND mask 7 :: u32) OR push_bit 7 1) :: u8) AND push_bit 7 1) 7"
    by (simp add: bit_simps del: push_bit_of_1)
  then show ?thesis unfolding mask7 bit7 by (metis bit_0_eq bot_apply bot_boolE)
qed

lemma group_value:
  "(ucast ((ucast (v AND 0x7F :: u32) :: u8) AND 0x7F) :: u32) = v AND 0x7F"
  "(ucast ((ucast ((v AND 0x7F :: u32) OR 0x80) :: u8) AND 0x7F) :: u32) = v AND 0x7F"
  unfolding mask7 bit7 by (rule bit_word_eqI; auto simp: bit_simps simp del: push_bit_of_1)+

lemma group_join:
  "push_bit k (v AND 0x7F :: u32) OR push_bit (k + 7) (drop_bit 7 v) = push_bit k v"
proof -
  have "push_bit k (v AND 0x7F) OR push_bit (k + 7) (drop_bit 7 v)
      = push_bit k (take_bit 7 v OR push_bit 7 (drop_bit 7 v))"
    by (simp add: mask7 push_bit_or take_bit_eq_mask push_bit_push_bit)
  also have "take_bit 7 v OR push_bit 7 (drop_bit 7 v) = v"
    by (rule take_bit_or_push_bit_drop_bit)
  finally show ?thesis .
qed

lemma group_whole: "drop_bit 7 (v :: u32) = 0 \<Longrightarrow> v AND 0x7F = v"
proof -
  assume "drop_bit 7 v = 0"
  moreover have "push_bit 7 (drop_bit 7 v) + take_bit 7 v = v"
    using bits_ident by blast
  ultimately show ?thesis by (simp add: mask7 flip: take_bit_eq_mask)
qed

lemma drop_bit_eq_0_iff_unat: "drop_bit n (v :: u32) = 0 \<longleftrightarrow> unat v < 2 ^ n"
proof -
  have "unat (drop_bit n v) = unat v div 2 ^ n"
    using unat_drop_bit_eq [of n v] drop_bit_eq_div [of n "unat v"] by simp
  then show ?thesis
    using unat_eq_zero [of "drop_bit n v"] div_eq_0_iff [of "unat v" "2 ^ n"] by simp
qed

lemma unat_drop_bit7: "unat (drop_bit 7 (v :: u32)) = unat v div 128"
  using unat_drop_bit_eq [of 7 v] drop_bit_eq_div [of 7 "unat v"] by simp

lemma varint2int_loop_enc:
  "i \<le> 4 \<Longrightarrow> unat v < 2 ^ (32 - 7 * i) \<Longrightarrow>
   varint2int_loop i r (int2varint_bytes v @ rest) = (VARINT_COMPLETE, Some (r OR push_bit (7 * i) v, rest))"
proof (induction "unat v" arbitrary: v i r rule: less_induct)
  case less
  note maxidx = VARINT_T_MAXIDX_def VARINT_T_LAST_MASK_def
  show ?case
  proof (cases "drop_bit 7 v = 0")
    case True
    have small: "i = 4 \<Longrightarrow> v \<le> 15"
      using less.prems by (simp add: word_le_nat_alt)
    from True small less.prems group_last [of v] group_value(1) [of v] group_whole [OF True] show ?thesis
      by (simp add: int2varint_bytes_rec [of v] varint2int_loop.simps [of i] maxidx Let_def mult.commute not_less)
  next
    case False
    then have big: "128 \<le> unat v" by (simp add: drop_bit_eq_0_iff_unat)
    have i: "i < 4"
      using less.prems big by (cases "i = 4") auto
    have p: "unat (drop_bit 7 v) < 2 ^ (32 - 7 * Suc i)"
      using less.prems i by (cases i; cases "i - 1"; cases "i - 2"; cases "i - 3") (auto simp: unat_drop_bit7 less_Suc_eq)
    have step: "varint2int_loop i r (int2varint_bytes v @ rest)
       = varint2int_loop (Suc i) (r OR push_bit (7 * i) (v AND 0x7F)) (int2varint_bytes (drop_bit 7 v) @ rest)"
      using False i
      by (simp add: int2varint_bytes_rec [of v] varint2int_loop.simps [of i] maxidx group_value group_more Let_def mult.commute)
    have "varint2int_loop (Suc i) (r OR push_bit (7 * i) (v AND 0x7F)) (int2varint_bytes (drop_bit 7 v) @ rest)
       = (VARINT_COMPLETE, Some ((r OR push_bit (7 * i) (v AND 0x7F)) OR push_bit (7 * i + 7) (drop_bit 7 v), rest))"
      using less.hyps [OF drop_bit7_less [OF False], of "Suc i"] i p by (simp add: add.commute [of 7])
    then show ?thesis
      unfolding step by (simp only: or.assoc group_join)
  qed
qed

lemma varint2int_enc [codec_simps]: "varint2int (Some (int2varint_bytes v @ rest)) = (VARINT_COMPLETE, Some (v, rest))"
proof -
  have "unat v < 2 ^ LENGTH(32)" by (rule unsigned_less)
  then show ?thesis by (simp add: varint2int_def varint2int_loop_enc)
qed

lemma varint2int_loop_local:
  "varint2int_loop i r bs = (VARINT_COMPLETE, Some (v, rest)) \<Longrightarrow>
   \<exists>p. bs = p @ rest \<and> p \<noteq> [] \<and> i + length p \<le> 5 \<and>
       (\<forall>rest'. varint2int_loop i r (p @ rest') = (VARINT_COMPLETE, Some (v, rest')))"
proof (induction i r bs rule: varint2int_loop.induct)
  case (1 i r bs)
  show ?case
  proof (cases bs)
    case Nil
    with "1.prems" show ?thesis by (simp add: varint2int_loop.simps [of i] split: if_splits)
  next
    case (Cons byte bs')
    let ?s = "ucast (byte AND 0x7F) :: varint_t" and ?r = "r OR push_bit (i * 7) (ucast (byte AND 0x7F))"
    have i: "i \<le> 4" using "1.prems" by (auto simp: varint2int_loop.simps [of i] VARINT_T_MAXIDX_def split: if_splits)
    have ok: "\<not> (i = VARINT_T_MAXIDX \<and> (byte AND 0x80 \<noteq> 0 \<or> ?s > VARINT_T_LAST_MASK))"
      using "1.prems" Cons by (auto simp: varint2int_loop.simps [of i] Let_def split: if_splits)
    show ?thesis
    proof (cases "byte AND 0x80 = 0")
      case True
      with "1.prems" Cons ok i have "v = ?r" "rest = bs'"
        by (auto simp: varint2int_loop.simps [of i] Let_def VARINT_T_MAXIDX_def split: if_splits)
      with True Cons ok i show ?thesis
        by (intro exI [of _ "[byte]"]) (simp add: varint2int_loop.simps [of i] Let_def VARINT_T_MAXIDX_def)
    next
      case False
      with ok i have i4: "i \<noteq> 4" by (auto simp: VARINT_T_MAXIDX_def)
      from False "1.prems" Cons ok i have "varint2int_loop (i + 1) ?r bs' = (VARINT_COMPLETE, Some (v, rest))"
        by (simp add: varint2int_loop.simps [of i] Let_def VARINT_T_MAXIDX_def)
      from "1.IH" [OF _ Cons refl _ refl False this] ok i obtain p where
        "bs' = p @ rest" "p \<noteq> []" "i + 1 + length p \<le> 5"
        "\<forall>rest'. varint2int_loop (i + 1) ?r (p @ rest') = (VARINT_COMPLETE, Some (v, rest'))"
        by (auto simp: VARINT_T_MAXIDX_def)
      with False Cons ok i i4 show ?thesis
        by (intro exI [of _ "byte # p"]) (simp add: varint2int_loop.simps [of i] Let_def VARINT_T_MAXIDX_def)
    qed
  qed
qed

lemma varint2int_local:
  assumes "varint2int (Some bs) = (VARINT_COMPLETE, Some (v, rest))"
  obtains p where "bs = p @ rest" "p \<noteq> []" "length p \<le> 5"
    "\<And>rest'. varint2int (Some (p @ rest')) = (VARINT_COMPLETE, Some (v, rest'))"
  using varint2int_loop_local [of 0 0 bs v rest] assms by (auto simp: varint2int_def)

lemma varint2int_loop_invalid:
  "varint2int_loop i r bs = (VARINT_INVALID, x) \<Longrightarrow> varint2int_loop i r (bs @ more) = (VARINT_INVALID, None)"
proof (induction i r bs rule: varint2int_loop.induct)
  case (1 i r bs)
  then show ?case
    by (cases bs) (auto simp: varint2int_loop.simps [of i] Let_def split: if_splits)
qed

lemma varint2int_loop_status:
  "varint2int_loop i r bs = (st, res) \<Longrightarrow> (st = VARINT_COMPLETE) = (res \<noteq> None)"
proof (induction i r bs rule: varint2int_loop.induct)
  case (1 i r bs)
  then show ?case
    by (cases bs) (auto simp: varint2int_loop.simps [of i] Let_def split: if_splits)
qed

lemma varint2int_loop_incomplete:
  "varint2int_loop i r bs = (VARINT_INCOMPLETE, x) \<Longrightarrow> i + length bs < 5 \<and> (\<forall>b \<in> set bs. b AND 0x80 \<noteq> 0)"
proof (induction i r bs rule: varint2int_loop.induct)
  case (1 i r bs)
  then show ?case
    by (cases bs) (auto simp: varint2int_loop.simps [of i] Let_def VARINT_T_MAXIDX_def split: if_splits)
qed

interpretation varint: codec int2varint_bytes "\<lambda>bs. snd (varint2int (Some bs))"
proof
  show "snd (varint2int (Some (int2varint_bytes v @ rest))) = Some (v, rest)" for v rest
    by (simp add: varint2int_enc)
  show "int2varint_bytes v \<noteq> []" for v
    by (subst int2varint_bytes_rec) simp
qed

lemma int2varint_bytes_length: "length (int2varint_bytes v) \<le> 5"
proof (rule varint2int_local [OF varint2int_enc [of v "[]"]])
  fix p assume "int2varint_bytes v @ [] = p @ []" "length p \<le> 5"
  then show ?thesis by simp
qed

text \<open>Fewer than 7 bits take one byte, fewer than 14 take two.\<close>

lemma int2varint_bytes_small: "unat v < 128 \<Longrightarrow> int2varint_bytes v = [ucast v]"
  using group_whole [of v] by (simp add: int2varint_bytes_rec [of v] drop_bit_eq_0_iff_unat)

lemma int2varint_bytes_length2: "unat v < 16384 \<Longrightarrow> length (int2varint_bytes v) \<le> 2"
  by (cases "unat v < 128")
    (simp_all add: int2varint_bytes_small int2varint_bytes_rec [of v] drop_bit_eq_0_iff_unat unat_drop_bit7)

section \<open>Decimal text\<close>

lemma length_decimal: "n < 10 ^ k \<Longrightarrow> 0 < k \<Longrightarrow> 0 < length (decimal n) \<and> length (decimal n) \<le> k"
proof (induction k arbitrary: n)
  case (Suc k)
  show ?case
  proof (cases "n < 10")
    case True
    then show ?thesis by (simp add: decimal.simps [of n])
  next
    case False
    with Suc.prems have "n div 10 < 10 ^ k" "0 < k"
      by (auto intro!: Nat.gr0I)
    with Suc.IH [of "n div 10"] False show ?thesis
      by (simp add: decimal.simps [of n])
  qed
qed simp

lemma decimal_nonzero: "0 \<notin> set (decimal n)"
proof (induction n rule: decimal.induct)
  case (1 n)
  have "(of_nat (48 + k) :: u8) \<noteq> 0" if "k < 10" for k
  proof -
    have "unat (of_nat (48 + k) :: u8) = 48 + k"
      using that by (simp add: unat_of_nat del: of_nat_add)
    then show ?thesis by (metis add_is_0 unat_0 zero_neq_numeral)
  qed
  from this [of n] this [of "n mod 10"] 1 show ?case
    by (subst decimal.simps) auto
qed

lemma digit_unat: "k < 10 \<Longrightarrow> unat (of_nat (48 + k) :: u8) = 48 + k"
  by (simp add: unat_of_nat del: of_nat_add)

lemma digit_is_digit: "k < 10 \<Longrightarrow> is_digit (of_nat (48 + k))"
  by (simp add: is_digit_def word_le_nat_alt digit_unat del: of_nat_add)

lemma decimal_digits: "list_all is_digit (decimal n)"
proof (induction n rule: decimal.induct)
  case (1 n)
  then show ?case
    using digit_is_digit [of n] digit_is_digit [of "n mod 10"]
    by (subst decimal.simps) (simp del: of_nat_add)
qed

lemma digits_value_decimal: "digits_value (decimal n) = n"
proof (induction n rule: decimal.induct)
  case (1 n)
  then show ?case
    using digit_unat [of n] digit_unat [of "n mod 10"]
    by (subst decimal.simps) (simp add: digits_value_def del: of_nat_add)
qed

lemma decimal_nonempty: "decimal n \<noteq> []"
  by (subst decimal.simps) simp

section \<open>The padding of legacy packets\<close>

lemma length_packetexpand [simp]: "length (packetexpand s) = 2 * length s"
  by (induction s) auto

lemma filter_packetexpand: "filter (\<lambda>b. b \<noteq> 0) (packetexpand s) = filter (\<lambda>b. b \<noteq> 0) s"
  by (induction s) auto

lemma packetexpand_append: "packetexpand (s @ t) = packetexpand s @ packetexpand t"
  by (induction s) auto

section \<open>Log escaping\<close>

definition hexadecimal :: bytes where
  "hexadecimal = [0x30, 0x31, 0x32, 0x33, 0x34, 0x35, 0x36, 0x37, 0x38, 0x39, 0x61, 0x62, 0x63, 0x64, 0x65, 0x66]"

definition escape_unit :: "u8 \<Rightarrow> bytes" where
  "escape_unit character =
     (if character = 0x0A then [0x5C, 0x6E]
      else if character = 0x0D then [0x5C, 0x72]
      else if character = 0x09 then [0x5C, 0x74]
      else if character = 0x5C then [0x5C, 0x5C]
      else if character < 0x20 \<or> character \<ge> 0x7F then
        [0x5C, 0x78, hexadecimal ! unat (drop_bit 4 character), hexadecimal ! unat (character AND 0x0F)]
      else [character])"

text \<open>
  The loop of \<open>escape_default\<close>: the escaped unit of each byte is appended while it leaves room for the
  terminator, and the loop stops at the first one that does not fit. \<open>offset\<close> is the length of \<open>out\<close>.
\<close>

fun escape_default_loop :: "nat \<Rightarrow> bytes \<Rightarrow> bytes \<Rightarrow> bytes" where
  "escape_default_loop dst_size out [] = out"
| "escape_default_loop dst_size out (c # src) =
     (if dst_size - length out - 1 < length (escape_unit c) then out
      else escape_default_loop dst_size (out @ escape_unit c) src)"

definition escape_default :: "bytes option \<Rightarrow> nat \<Rightarrow> bytes option \<Rightarrow> nat \<Rightarrow> bytes option option" where
  "escape_default dst dst_size src src_size =
     (case (dst, src) of
        (Some d, Some s) \<Rightarrow>
          if dst_size = 0 then Some None
          else do {
            text \<leftarrow> buf_read 0 src_size s;
            d' \<leftarrow> buf_write 0 (escape_default_loop dst_size [] text @ [0]) d;
            Some (Some d')
          }
      | _ \<Rightarrow> Some None)"

lemma hexadecimal_visible: "n < 16 \<Longrightarrow> 0x20 \<le> hexadecimal ! n \<and> hexadecimal ! n < 0x7F"
  by (simp add: hexadecimal_def numeral_eq_Suc less_Suc_eq) auto

lemma nibble_less: "unat (drop_bit 4 (c::u8)) < 16" "unat ((c::u8) AND 0x0F) < 16"
proof -
  have "unat c < 2 ^ LENGTH(8)" by (rule unsigned_less)
  then show "unat (drop_bit 4 c) < 16"
    using unat_drop_bit_eq [of 4 c] drop_bit_eq_div [of 4 "unat c"] by simp
  have "c AND 0x0F = take_bit 4 c" by (simp add: take_bit_eq_mask mask_eq_exp_minus_1)
  then have "unat (c AND 0x0F) = take_bit 4 (unat c)" by (simp only: unsigned_take_bit_eq)
  then show "unat (c AND 0x0F) < 16" using take_bit_nat_less_exp [of 4 "unat c"] by simp
qed

lemma nibble_join: "push_bit 4 (drop_bit 4 c) OR (c AND 0x0F) = (c::u8)"
proof -
  have "c AND 0x0F = take_bit 4 c" by (simp add: take_bit_eq_mask mask_eq_exp_minus_1)
  then show ?thesis using take_bit_or_push_bit_drop_bit [of 4 c] by (simp add: or.commute)
qed

lemma escape_unit_visible: "b \<in> set (escape_unit c) \<Longrightarrow> 0x20 \<le> b \<and> b < 0x7F"
  using hexadecimal_visible [OF nibble_less(1) [of c]] hexadecimal_visible [OF nibble_less(2) [of c]]
  by (auto simp: escape_unit_def not_less not_le split: if_splits)

text \<open>
  A reader of the log can undo the escaping: the units are uniquely decodable, so distinct byte strings
  never share an escaped text.
\<close>

definition unhex :: "u8 \<Rightarrow> u8 option" where
  "unhex b = (if 0x30 \<le> b \<and> b \<le> 0x39 then Some (b - 0x30)
     else if 0x61 \<le> b \<and> b \<le> 0x66 then Some (b - 0x61 + 10) else None)"

fun unescape_unit :: "bytes \<Rightarrow> (u8 \<times> bytes) option" where
  "unescape_unit (b # rest) =
     (if b \<noteq> 0x5C then Some (b, rest)
      else (case rest of
         [] \<Rightarrow> None
       | e # rest' \<Rightarrow>
           if e = 0x6E then Some (0x0A, rest')
           else if e = 0x72 then Some (0x0D, rest')
           else if e = 0x74 then Some (0x09, rest')
           else if e = 0x5C then Some (0x5C, rest')
           else (case rest' of h # l # rest'' \<Rightarrow>
                   do { hi \<leftarrow> unhex h; lo \<leftarrow> unhex l; Some (push_bit 4 hi OR lo, rest'') }
                 | _ \<Rightarrow> None)))"
| "unescape_unit [] = None"

lemma unhex_hexadecimal: "n < 16 \<Longrightarrow> unhex (hexadecimal ! n) = Some (of_nat n)"
  by (simp add: hexadecimal_def unhex_def numeral_eq_Suc less_Suc_eq) auto

lemma unescape_escape: "unescape_unit (escape_unit c @ rest) = Some (c, rest)"
  using unhex_hexadecimal [OF nibble_less(1) [of c]] unhex_hexadecimal [OF nibble_less(2) [of c]] nibble_join [of c]
  by (auto simp: escape_unit_def)

interpretation escape: codec escape_unit unescape_unit
  by unfold_locales (auto simp: unescape_escape, simp add: escape_unit_def split: if_splits)

lemma escape_default_loop_prefix:
  "length out < n \<Longrightarrow> \<exists>k \<le> length src. escape_default_loop n out src = out @ concat (map escape_unit (take k src)) \<and>
     length (escape_default_loop n out src) < n \<and>
     (k < length src \<longrightarrow> n \<le> length (escape_default_loop n out src) + length (escape_unit (src ! k)))"
proof (induction src arbitrary: out)
  case Nil
  then show ?case by simp
next
  case (Cons c src)
  show ?case
  proof (cases "n - length out - 1 < length (escape_unit c)")
    case True
    with Cons.prems show ?thesis by (intro exI [of _ 0]) auto
  next
    case False
    with Cons.prems have "length (out @ escape_unit c) < n" by simp
    from Cons.IH [OF this] obtain k where
      "k \<le> length src"
      "escape_default_loop n (out @ escape_unit c) src = (out @ escape_unit c) @ concat (map escape_unit (take k src))"
      "length (escape_default_loop n (out @ escape_unit c) src) < n"
      "k < length src \<longrightarrow> n \<le> length (escape_default_loop n (out @ escape_unit c) src) + length (escape_unit (src ! k))"
      by blast
    with False show ?thesis by (intro exI [of _ "Suc k"]) auto
  qed
qed

section \<open>Properties\<close>

text \<open>
  C23: every 32-bit value survives the wire. \<open>varint2int\<close> applied to the bytes \<open>int2varint\<close> stored, followed
  by anything, returns exactly that value and leaves exactly the bytes that followed; the encoding takes
  between one and five bytes.
\<close>

theorem varint_roundtrip:
  "varint2int (Some (int2varint_bytes v @ rest)) = (VARINT_COMPLETE, Some (v, rest)) \<and>
   1 \<le> length (int2varint_bytes v) \<and> length (int2varint_bytes v) \<le> 5"
  using varint2int_enc int2varint_bytes_length varint.enc_length_pos [of v] by (simp add: Suc_le_eq)

text \<open>
  C24: decoding does not depend on what has arrived behind a varint. A successful decode consumes a prefix
  of one to five bytes and gives the same value whatever follows that prefix; an encoding rejected as
  invalid stays invalid when more bytes arrive; and one reported incomplete is shorter than five bytes,
  all of them with the continuation bit.
\<close>

theorem varint2int_streaming:
  "case varint2int (Some bs) of
     (VARINT_COMPLETE, Some (v, rest)) \<Rightarrow>
       (\<exists>p. bs = p @ rest \<and> 1 \<le> length p \<and> length p \<le> 5 \<and>
            (\<forall>rest'. varint2int (Some (p @ rest')) = (VARINT_COMPLETE, Some (v, rest'))))
   | (VARINT_COMPLETE, None) \<Rightarrow> False
   | (VARINT_INCOMPLETE, r) \<Rightarrow> r = None \<and> length bs < 5 \<and> list_all (\<lambda>b. b AND 0x80 \<noteq> 0) bs
   | (VARINT_INVALID, r) \<Rightarrow> r = None \<and> varint2int (Some (bs @ more)) = (VARINT_INVALID, None)"
proof -
  obtain st res where e: "varint2int_loop 0 0 bs = (st, res)" by fastforce
  show ?thesis
  proof (cases st)
    case VARINT_COMPLETE
    with e varint2int_loop_status [OF e] obtain v rest where "res = Some (v, rest)" by auto
    with e VARINT_COMPLETE varint2int_loop_local [of 0 0 bs v rest] show ?thesis
      by (auto simp: varint2int_def Suc_le_eq)
  next
    case VARINT_INCOMPLETE
    with e varint2int_loop_status [OF e] varint2int_loop_incomplete [of 0 0 bs res] show ?thesis
      by (cases res) (auto simp: varint2int_def list_all_iff)
  next
    case VARINT_INVALID
    with e varint2int_loop_status [OF e] varint2int_loop_invalid [of 0 0 bs res more] show ?thesis
      by (cases res) (auto simp: varint2int_def)
  qed
qed

text \<open>
  C25: a log line cannot be forged. With a destination of \<open>dst_size\<close> bytes, \<open>escape_default\<close> stays inside
  it, writes only printable ASCII followed by a terminator, and stops at a whole unit: the text is the
  escaped form of a prefix of the source, the whole source unless the next unit would not have fitted.
\<close>

theorem escape_default_visible:
  assumes "0 < dst_size" "length d = dst_size" "src_size \<le> length s"
  shows "\<exists>k text d'. escape_default (Some d) dst_size (Some s) src_size = Some (Some d') \<and>
    length d' = dst_size \<and> take (length text + 1) d' = text @ [0] \<and>
    text = concat (map escape_unit (take k s)) \<and> k \<le> src_size \<and>
    (\<forall>b \<in> set text. 0x20 \<le> b \<and> b < 0x7F) \<and>
    (k < src_size \<longrightarrow> dst_size \<le> length text + length (escape_unit (s ! k)))"
proof -
  let ?src = "take src_size s"
  from assms(3) have len: "length ?src = src_size" by simp
  from assms(1) have "length ([]::bytes) < dst_size" by simp
  from escape_default_loop_prefix [OF this, of ?src, unfolded len append_Nil] obtain k where
    k: "k \<le> src_size" "escape_default_loop dst_size [] ?src = concat (map escape_unit (take k ?src))"
      "length (escape_default_loop dst_size [] ?src) < dst_size"
      "k < src_size \<longrightarrow> dst_size \<le> length (escape_default_loop dst_size [] ?src) + length (escape_unit (?src ! k))"
    by blast
  define t where "t = concat (map escape_unit (take k s))"
  from k have t: "escape_default_loop dst_size [] ?src = t" by (simp add: t_def)
  from k(3) t assms have "escape_default (Some d) dst_size (Some s) src_size
      = Some (Some (t @ 0 # drop (length t + 1) d))"
    by (simp add: escape_default_def buf_read_def buf_write_def)
  moreover have "\<forall>b \<in> set t. 0x20 \<le> b \<and> b < 0x7F"
    using escape_unit_visible by (auto simp: t_def)
  moreover have "k < src_size \<longrightarrow> dst_size \<le> length t + length (escape_unit (s ! k))"
    using k(4) by (simp add: t)
  ultimately show ?thesis
    using k(1,3) t assms
    by (intro exI [of _ k] exI [of _ t] exI [of _ "t @ 0 # drop (length t + 1) d"]) (auto simp: t_def)
qed

theorem escape_default_visible_witness:
  "\<exists>k text d'. escape_default (Some [1, 1, 1, 1, 1]) 5 (Some [0x41, 0x0A, 0x07]) 3 = Some (Some d') \<and>
    length d' = 5 \<and> take (length text + 1) d' = text @ [0] \<and>
    text = concat (map escape_unit (take k [0x41, 0x0A, 0x07])) \<and> k \<le> 3 \<and>
    (\<forall>b \<in> set text. 0x20 \<le> b \<and> b < 0x7F) \<and>
    (k < 3 \<longrightarrow> 5 \<le> length text + length (escape_unit ([0x41, 0x0A, 0x07] ! k)))"
  by (rule escape_default_visible) simp_all

end
