(* ===== verification/Base64.thy ===== *)
theory Base64
  imports Basic
begin

unbundle bit_operations_syntax

text \<open>
  \<open>base64_encode\<close> of \<open>src/basic.c\<close>, which prepares the server icon for the status reply: the encoder with its
  treatment of short destinations, and its equivalence with a reference encoder that cuts the bit stream into groups of six.
  The two buffers are distinct objects, as at the only call.
\<close>

section \<open>The encoder\<close>

definition base64_map :: bytes where
  "base64_map = map of_char ''ABCDEFGHIJKLMNOPQRSTUVWXYZabcdefghijklmnopqrstuvwxyz0123456789+/''"

definition base64_encode_block :: "nat \<Rightarrow> nat \<Rightarrow> bytes \<Rightarrow> nat \<Rightarrow> bytes option" where
  "base64_encode_block full_blocks remainder src i = do {
     let s = i * 3;
     b0 \<leftarrow> buf_at s src;
     b1 \<leftarrow> (if i < full_blocks \<or> remainder > 1 then buf_at (s + 1) src else Some 0);
     b2 \<leftarrow> (if i < full_blocks then buf_at (s + 2) src else Some 0);
     c0 \<leftarrow> buf_at (unat (drop_bit 2 (b0 AND 0xFC))) base64_map;
     c1 \<leftarrow> buf_at (unat (push_bit 4 (b0 AND 0x03) OR drop_bit 4 (b1 AND 0xF0))) base64_map;
     c2 \<leftarrow> (if i < full_blocks \<or> remainder > 1 then buf_at (unat (push_bit 2 (b1 AND 0x0F) OR drop_bit 6 (b2 AND 0xC0))) base64_map else Some 0x3D);
     c3 \<leftarrow> (if i < full_blocks then buf_at (unat (b2 AND 0x3F)) base64_map else Some 0x3D);
     Some [c0, c1, c2, c3]
   }"

function base64_encode_loop :: "nat \<Rightarrow> nat \<Rightarrow> nat \<Rightarrow> bytes \<Rightarrow> nat \<Rightarrow> bytes \<Rightarrow> bytes option" where
  "base64_encode_loop total_blocks full_blocks remainder src i dst =
     (if i < total_blocks then do {
        block \<leftarrow> base64_encode_block full_blocks remainder src i;
        dst \<leftarrow> buf_write (i * 4) block dst;
        base64_encode_loop total_blocks full_blocks remainder src (i + 1) dst
      }
      else Some dst)"
  by pat_completeness auto
termination
  by (relation "measure (\<lambda>(total_blocks, _, _, _, i, _). total_blocks - i)") auto

declare base64_encode_loop.simps [simp del]

text \<open>The product \<open>total_blocks * 4\<close> is computed in \<open>size_t\<close>, with its wrap-around.\<close>

definition base64_encode :: "bytes option \<Rightarrow> nat \<Rightarrow> bytes option \<Rightarrow> nat \<Rightarrow> (bytes option \<times> nat) option" where
  "base64_encode dst dst_cap src src_len =
     (case (dst, src) of
        (Some d, Some s) \<Rightarrow>
          if dst_cap = 0 \<or> src_len = 0 then Some (dst, 0)
          else
            (let full_blocks = src_len div 3; remainder = src_len mod 3;
                 total_blocks = full_blocks + (if remainder > 0 then 1 else 0);
                 (total_blocks, full_blocks, remainder) =
                   (if dst_cap < (total_blocks * 4) mod (SIZE_MAX + 1) then (dst_cap div 4, dst_cap div 4, 0) else (total_blocks, full_blocks, remainder)) in
             do {
               d \<leftarrow> base64_encode_loop total_blocks full_blocks remainder s 0 d;
               Some (Some d, (total_blocks * 4) mod (SIZE_MAX + 1))
             })
      | _ \<Rightarrow> Some (dst, 0))"

section \<open>The reference encoder\<close>

text \<open>
  The encoding as the standard (RFC 4648, section 4) describes it: the bits of the input, most significant first, are cut into groups of
  six, the last one filled up with zeros; each group selects a letter; the letters are filled up with \<open>=\<close> to a multiple of four.
\<close>

definition byte_bits :: "u8 \<Rightarrow> bool list" where
  "byte_bits b = map (bit b) [7, 6, 5, 4, 3, 2, 1, 0]"

definition bits_value :: "bool list \<Rightarrow> nat" where
  "bits_value = foldl (\<lambda>v b. 2 * v + of_bool b) 0"

fun sextets :: "bool list \<Rightarrow> nat list" where
  "sextets (a # b # c # d # e # f # bs) = bits_value [a, b, c, d, e, f] # sextets bs"
| "sextets [] = []"
| "sextets bs = [bits_value (bs @ replicate (6 - length bs) False)]"

definition base64_reference :: "bytes \<Rightarrow> bytes" where
  "base64_reference xs =
     (let letters = map ((!) base64_map) (sextets (concat (map byte_bits xs))) in
      letters @ replicate ((4 - length letters mod 4) mod 4) 0x3D)"

section \<open>Equivalence\<close>

lemma length_base64_map: "length base64_map = 64"
  by (simp add: base64_map_def)

lemma base64_map_at: "n < 64 \<Longrightarrow> buf_at n base64_map = Some (base64_map ! n)"
  by (simp add: buf_at_def length_base64_map)

lemma sextet_value:
  fixes w :: u8
  assumes "\<not> bit w 7" "\<not> bit w 6"
  shows "unat w = bits_value (map (bit w) [5, 4, 3, 2, 1, 0])" and "unat w < 64"
proof -
  have "take_bit 8 (unat w) = unat w"
    by (rule take_bit_nat_eq_self) (use unsigned_less [of w] in simp)
  moreover have bit_unat: "bit (unat w) = bit w"
    by (auto simp: fun_eq_iff bit_unsigned_iff dest: bit_imp_le_length)
  ultimately have e: "unat w = horner_sum of_bool 2 (map (bit w) [0..<8])"
    using horner_sum_bit_eq_take_bit [of "unat w" 8] by (simp add: bit_unat)
  then show v: "unat w = bits_value (map (bit w) [5, 4, 3, 2, 1, 0])"
    using assms by (simp add: bits_value_def upt_rec numeral_eq_Suc)
  show "unat w < 64"
    unfolding v by (simp add: bits_value_def)
qed

text \<open>The four table indices of a block.\<close>

abbreviation index0 :: "u8 \<Rightarrow> nat" where
  "index0 b0 \<equiv> unat (drop_bit 2 (b0 AND 0xFC))"

abbreviation index1 :: "u8 \<Rightarrow> u8 \<Rightarrow> nat" where
  "index1 b0 b1 \<equiv> unat (push_bit 4 (b0 AND 0x03) OR drop_bit 4 (b1 AND 0xF0))"

abbreviation index2 :: "u8 \<Rightarrow> u8 \<Rightarrow> nat" where
  "index2 b1 b2 \<equiv> unat (push_bit 2 (b1 AND 0x0F) OR drop_bit 6 (b2 AND 0xC0))"

abbreviation index3 :: "u8 \<Rightarrow> nat" where
  "index3 b2 \<equiv> unat (b2 AND 0x3F)"

lemma index_values:
  "index0 b0 = bits_value (map (bit b0) [7, 6, 5, 4, 3, 2])"
  "index1 b0 b1 = bits_value (map (bit b0) [1, 0] @ map (bit b1) [7, 6, 5, 4])"
  "index2 b1 b2 = bits_value (map (bit b1) [3, 2, 1, 0] @ map (bit b2) [7, 6])"
  "index3 b2 = bits_value (map (bit b2) [5, 4, 3, 2, 1, 0])"
  using sextet_value(1) [of "drop_bit 2 (b0 AND 0xFC)"] sextet_value(1) [of "push_bit 4 (b0 AND 0x03) OR drop_bit 4 (b1 AND 0xF0)"]
    sextet_value(1) [of "push_bit 2 (b1 AND 0x0F) OR drop_bit 6 (b2 AND 0xC0)"] sextet_value(1) [of "b2 AND 0x3F"]
  by (simp_all add: bit_simps)

lemma index_less: "index0 b0 < 64" "index1 b0 b1 < 64" "index2 b1 b2 < 64" "index3 b2 < 64"
  by (rule sextet_value(2); simp add: bit_simps)+

lemmas index_letters = index_less [THEN base64_map_at]

lemma sextets_bytes:
  "sextets (byte_bits b0 @ byte_bits b1 @ byte_bits b2 @ bs) = index0 b0 # index1 b0 b1 # index2 b1 b2 # index3 b2 # sextets bs"
  "sextets (byte_bits b0 @ byte_bits b1) = [index0 b0, index1 b0 b1, index2 b1 0]"
  "sextets (byte_bits b0) = [index0 b0, index1 b0 0]"
  unfolding index_values by (simp_all add: byte_bits_def numeral_eq_Suc)

lemma base64_reference_steps:
  "base64_reference (b0 # b1 # b2 # xs) = map ((!) base64_map) [index0 b0, index1 b0 b1, index2 b1 b2, index3 b2] @ base64_reference xs"
  "base64_reference [b0, b1] = map ((!) base64_map) [index0 b0, index1 b0 b1, index2 b1 0] @ [0x3D]"
  "base64_reference [b0] = map ((!) base64_map) [index0 b0, index1 b0 0] @ [0x3D, 0x3D]"
  "base64_reference [] = []"
  unfolding base64_reference_def by (simp_all add: sextets_bytes Let_def numeral_2_eq_2)

lemma length_base64_reference: "length (base64_reference xs) = 4 * ((length xs + 2) div 3)"
proof (induction xs rule: length_induct)
  case (1 xs)
  consider "xs = []" | a where "xs = [a]" | a b where "xs = [a, b]" | a b c ys where "xs = a # b # c # ys"
    by (metis list.exhaust)
  then show ?case
  proof cases
    case 4
    have "(5 + length ys) div 3 = Suc ((2 + length ys) div 3)" by presburger
    with 1 4 show ?thesis by (simp add: base64_reference_steps)
  qed (simp_all add: base64_reference_steps)
qed

lemma encode_block:
  fixes s i
  defines "a \<equiv> s ! (i * 3)" and "b \<equiv> s ! (i * 3 + 1)" and "c \<equiv> s ! (i * 3 + 2)"
  shows "i < full \<Longrightarrow> i * 3 + 2 < length s \<Longrightarrow> base64_encode_block full r s i = Some (map ((!) base64_map) [index0 a, index1 a b, index2 b c, index3 c])"
    and "i * 3 + 1 < length s \<Longrightarrow> base64_encode_block i 2 s i = Some (map ((!) base64_map) [index0 a, index1 a b, index2 b 0] @ [0x3D])"
    and "i * 3 < length s \<Longrightarrow> base64_encode_block i 1 s i = Some (map ((!) base64_map) [index0 a, index1 a 0] @ [0x3D, 0x3D])"
proof -
  have at: "j < length s \<Longrightarrow> buf_at j s = Some (s ! j)" for j by (simp add: buf_at_def)
  note eval = base64_encode_block_def Let_def index_letters simp_thms if_True if_False bind.bind_lunit list.map append.simps at a_def b_def c_def
  show "i < full \<Longrightarrow> i * 3 + 2 < length s \<Longrightarrow> base64_encode_block full r s i = Some (map ((!) base64_map) [index0 a, index1 a b, index2 b c, index3 c])"
    by (simp only: eval)
  show "i * 3 + 1 < length s \<Longrightarrow> base64_encode_block i 2 s i = Some (map ((!) base64_map) [index0 a, index1 a b, index2 b 0] @ [0x3D])"
    by (simp only: eval less_irrefl one_less_numeral_iff semiring_norm)
  show "i * 3 < length s \<Longrightarrow> base64_encode_block i 1 s i = Some (map ((!) base64_map) [index0 a, index1 a 0] @ [0x3D, 0x3D])"
    by (simp only: eval less_irrefl)
qed

lemma block_reference:
  assumes "n = 3 * full + r" "r < 3" "n \<le> length s" "i < full + (if r > 0 then 1 else 0)"
  shows "\<exists>block. base64_encode_block full r s i = Some block \<and> length block = 4
    \<and> base64_reference (drop (3 * i) (take n s)) = block @ base64_reference (drop (3 * (i + 1)) (take n s))"
proof -
  have d: "drop j (take n s) = s ! j # drop (j + 1) (take n s)" if "j < n" for j
    using that assms(3) Cons_nth_drop_Suc [of j "take n s"] by simp
  have arith: "i * 3 + 1 + 1 = i * 3 + 2" "i * 3 + 2 + 1 = 3 * (i + 1)" "3 * i = i * 3" by simp_all
  consider "i < full" | "i = full" "r = 1" | "i = full" "r = 2"
    using assms(2,4) by (cases "i < full"; cases "r = 0"; cases "r = 1"; simp)
  then show ?thesis
  proof cases
    case 1
    then have "drop (3 * i) (take n s) = s ! (i * 3) # s ! (i * 3 + 1) # s ! (i * 3 + 2) # drop (3 * (i + 1)) (take n s)" "i * 3 + 2 < length s"
      using d [of "i * 3"] d [of "i * 3 + 1"] d [of "i * 3 + 2"] assms(1,3) unfolding arith by simp_all
    with encode_block(1) [of i full s r] 1 show ?thesis
      unfolding base64_reference_steps by (simp only: base64_reference_steps) simp
  next
    case 2
    then have "drop (3 * i) (take n s) = [s ! (i * 3)]" "drop (3 * (i + 1)) (take n s) = []" "i * 3 < length s"
      using d [of "i * 3"] assms(1,3) by (simp_all add: arith mult.commute [of full])
    with encode_block(3) [of i s] 2 show ?thesis
      by (simp only: base64_reference_steps) simp
  next
    case 3
    then have "drop (3 * i) (take n s) = [s ! (i * 3), s ! (i * 3 + 1)]" "drop (3 * (i + 1)) (take n s) = []" "i * 3 + 1 < length s"
      using d [of "i * 3"] d [of "i * 3 + 1"] assms(1,3) by (simp_all add: arith mult.commute [of full])
    with encode_block(2) [of i s] 3 show ?thesis
      by (simp only: base64_reference_steps) simp
  qed
qed

lemma loop_reference:
  assumes "n = 3 * full + r" "r < 3" "n \<le> length s" "blocks = full + (if r > 0 then 1 else 0)" "i \<le> blocks" "4 * blocks \<le> length dst"
  shows "base64_encode_loop blocks full r s i dst = Some (take (4 * i) dst @ base64_reference (drop (3 * i) (take n s)) @ drop (4 * blocks) dst)"
  using assms(5,6)
proof (induction "blocks - i" arbitrary: i dst)
  case 0
  then have "drop (3 * i) (take n s) = []"
    using assms(1,2,4) by (auto split: if_splits)
  with 0 show ?case
    by (subst base64_encode_loop.simps) (simp add: base64_reference_steps)
next
  case (Suc k)
  then have i: "i < blocks" by simp
  then obtain block where b: "base64_encode_block full r s i = Some block" "length block = 4"
      "base64_reference (drop (3 * i) (take n s)) = block @ base64_reference (drop (3 * (i + 1)) (take n s))"
    using block_reference [OF assms(1-3), of i] unfolding assms(4) by blast
  define dst' where "dst' = take (4 * i) dst @ block @ drop (4 * i + 4) dst"
  have w: "buf_write (i * 4) block dst = Some dst'"
    using i Suc.prems b(2) by (simp add: buf_write_def dst'_def mult.commute)
  have "take (4 * (i + 1)) dst' = take (4 * i) dst @ block" "drop (4 * blocks) dst' = drop (4 * blocks) dst" "length dst' = length dst"
    using i Suc.prems(2) b(2) by (simp_all add: dst'_def)
  moreover have "base64_encode_loop blocks full r s (i + 1) dst' =
      Some (take (4 * (i + 1)) dst' @ base64_reference (drop (3 * (i + 1)) (take n s)) @ drop (4 * blocks) dst')"
    by (rule Suc.hyps(1)) (use Suc.hyps(2) Suc.prems(2) i calculation(3) in auto)
  ultimately show ?case
    using i by (subst base64_encode_loop.simps) (simp add: b w)
qed

text \<open>
  C38: the icon encoder is equivalent to the reference encoding. For every input and capacity it stays inside both objects and stores exactly the reference
  encoding of the input or, where the destination is too short for it, of the whole three-byte groups that fit; nothing behind it changes, and the
  returned size is that of the encoding.
\<close>

theorem base64_encode_reference:
  assumes "src_len \<le> length s" "dst_cap \<le> length d" "length s \<le> SIZE_MAX div 2"
  shows "base64_encode (Some d) dst_cap (Some s) src_len =
    (let n = (if dst_cap < 4 * ((src_len + 2) div 3) then 3 * (dst_cap div 4) else src_len); out = base64_reference (take n s) in
     Some (Some (out @ drop (length out) d), length out))"
proof -
  define full blocks where "full = src_len div 3" and "blocks = (src_len + 2) div 3"
  have t: "full + (if src_len mod 3 > 0 then 1 else 0) = blocks" "src_len = 3 * full + src_len mod 3"
    unfolding full_def blocks_def by presburger+
  have wrap: "(blocks * 4) mod (SIZE_MAX + 1) = 4 * blocks"
    using assms(1,3) unfolding blocks_def by simp
  note loop = loop_reference [where i = 0, simplified]
  consider (none) "dst_cap = 0 \<or> src_len = 0" | (short) "0 < dst_cap" "0 < src_len" "dst_cap < 4 * blocks" | (fits) "0 < dst_cap" "0 < src_len" "4 * blocks \<le> dst_cap"
    by linarith
  then show ?thesis
  proof cases
    case none
    then have "(if dst_cap < 4 * blocks then 3 * (dst_cap div 4) else src_len) = 0"
      unfolding blocks_def by (cases "src_len = 0") auto
    moreover have "base64_encode (Some d) dst_cap (Some s) src_len = Some (Some d, 0)"
      unfolding base64_encode_def prod.case option.case if_P [OF none] by (rule refl)
    ultimately show ?thesis
      unfolding blocks_def [symmetric] by (simp add: base64_reference_steps)
  next
    case short
    define k where "k = dst_cap div 4"
    have "k < blocks"
      using short(3) unfolding k_def by (simp add: less_mult_imp_div_less mult.commute)
    moreover have "blocks \<le> full + 1" "3 * full \<le> src_len"
      using t by (simp_all split: if_splits)
    ultimately have "3 * k \<le> src_len" by simp
    then have k: "3 * k \<le> length s" "4 * k \<le> length d" "(k * 4) mod (SIZE_MAX + 1) = 4 * k"
      using short assms unfolding k_def blocks_def by auto
    have "base64_encode_loop k k 0 s 0 d = Some (base64_reference (take (3 * k) s) @ drop (4 * k) d)"
      using loop [of "3 * k" k 0 s k d] k by simp
    moreover have "length (base64_reference (take (3 * k) s)) = 4 * k"
      using k(1) by (simp add: length_base64_reference)
    ultimately show ?thesis
      using short k(3) wrap t(1) unfolding base64_encode_def full_def [symmetric] blocks_def [symmetric] k_def [symmetric] by (simp add: Let_def)
  next
    case fits
    have "base64_encode_loop blocks full (src_len mod 3) s 0 d = Some (base64_reference (take src_len s) @ drop (4 * blocks) d)"
      using loop [OF t(2) _ assms(1) t(1) [symmetric], of d] fits assms(2) by simp
    moreover have "length (base64_reference (take src_len s)) = 4 * blocks"
      using assms(1) by (simp add: length_base64_reference blocks_def)
    ultimately show ?thesis
      using fits wrap t(1) unfolding base64_encode_def full_def [symmetric] blocks_def [symmetric] by (simp add: Let_def)
  qed
qed

lemma sample_reference:
  "base64_reference [0x72, 0x65, 0x6C, 0x61, 0x79] = [0x63, 0x6D, 0x56, 0x73, 0x59, 0x58, 0x6B, 0x3D]"
  "base64_reference [0x72, 0x65, 0x6C] = [0x63, 0x6D, 0x56, 0x73]"
  by (simp_all add: base64_reference_steps base64_map_def)

theorem base64_encode_reference_witness:
  "base64_encode (Some [0, 0, 0, 0, 0, 0, 0, 0]) 8 (Some [0x72, 0x65, 0x6C, 0x61, 0x79]) 5 = Some (Some [0x63, 0x6D, 0x56, 0x73, 0x59, 0x58, 0x6B, 0x3D], 8)
   \<and> base64_encode (Some [0, 0, 0, 0, 0, 0, 0, 0]) 7 (Some [0x72, 0x65, 0x6C, 0x61, 0x79]) 5 = Some (Some [0x63, 0x6D, 0x56, 0x73, 0, 0, 0, 0], 4)"
  using base64_encode_reference [of 5 "[0x72, 0x65, 0x6C, 0x61, 0x79]" 8 "[0, 0, 0, 0, 0, 0, 0, 0]"] base64_encode_reference [of 5 "[0x72, 0x65, 0x6C, 0x61, 0x79]" 7 "[0, 0, 0, 0, 0, 0, 0, 0]"]
  by (simp add: sample_reference Let_def)

end
