(* ===== verification/Proto_Common.thy ===== *)
theory Proto_Common
  imports Basic
begin

text \<open>
  Packet identification and framing (\<open>src/protocol/common.c\<close>): \<open>protocol_identify\<close> classifies the first
  bytes of a connection, \<open>protocol_packet_length\<close> tells the connection setup code whether the handshake has
  arrived in full and how many bytes it takes, and the big-endian integers of the wire are read and written.

  A received buffer is \<open>None\<close> when \<open>src\<close> is NULL and otherwise the list of its \<open>src_size\<close> bytes. The values the
  functions store through their result pointers, which every caller passes, are part of the result.
\<close>

section \<open>Types\<close>

datatype protocol_packet_status =
    PROTOCOL_PACKET_AMBIGUOUS
  | PROTOCOL_PACKET_COMPLETE
  | PROTOCOL_PACKET_INCOMPLETE
  | PROTOCOL_PACKET_INVALID

datatype protocol_version =
    PVER_UNIDENT
  | PVER_ORIGPRO
  | PVER_LEGACYL1
  | PVER_LEGACYL2
  | PVER_LEGACYL3
  | PVER_LEGACYL4
  | PVER_LEGACYM1
  | PVER_LEGACYM2
  | PVER_LEGACYM3
  | PVER_MODERN1
  | PVER_MODERN2

text \<open>The handshake intents, by their values on the wire.\<close>

type_synonym intent_t = u32

abbreviation (input) CLIENT_INTENT_UNSPECIFIED :: intent_t where "CLIENT_INTENT_UNSPECIFIED \<equiv> 0"
abbreviation (input) CLIENT_INTENT_STATUS :: intent_t where "CLIENT_INTENT_STATUS \<equiv> 1"
abbreviation (input) CLIENT_INTENT_LOGIN :: intent_t where "CLIENT_INTENT_LOGIN \<equiv> 2"
abbreviation (input) CLIENT_INTENT_TRANSFER :: intent_t where "CLIENT_INTENT_TRANSFER \<equiv> 3"

section \<open>Integers in network byte order\<close>

definition protocol_uint16_bytes :: "u16 \<Rightarrow> bytes" where
  "protocol_uint16_bytes value = [ucast (drop_bit 8 value), ucast value]"

definition protocol_uint16_write :: "bytes \<times> nat \<Rightarrow> u16 \<Rightarrow> bytes option" where
  "protocol_uint16_write = (\<lambda>(dst, off) value. buf_write off (protocol_uint16_bytes value) dst)"

definition protocol_uint16_read :: "bytes \<Rightarrow> nat \<Rightarrow> u16 option" where
  "protocol_uint16_read src off =
     do {
       hi \<leftarrow> buf_at off src;
       lo \<leftarrow> buf_at (off + 1) src;
       Some (push_bit 8 (ucast hi) OR ucast lo)
     }"

definition protocol_uint32_bytes :: "u32 \<Rightarrow> bytes" where
  "protocol_uint32_bytes value =
     [ucast (drop_bit 24 value), ucast (drop_bit 16 value), ucast (drop_bit 8 value), ucast value]"

definition protocol_uint32_write :: "bytes \<times> nat \<Rightarrow> u32 \<Rightarrow> bytes option" where
  "protocol_uint32_write = (\<lambda>(dst, off) value. buf_write off (protocol_uint32_bytes value) dst)"

definition protocol_uint32_read :: "bytes \<Rightarrow> nat \<Rightarrow> u32 option" where
  "protocol_uint32_read src off =
     do {
       b3 \<leftarrow> buf_at off src;
       b2 \<leftarrow> buf_at (off + 1) src;
       b1 \<leftarrow> buf_at (off + 2) src;
       b0 \<leftarrow> buf_at (off + 3) src;
       Some (push_bit 24 (ucast b3) OR push_bit 16 (ucast b2) OR push_bit 8 (ucast b1) OR ucast b0)
     }"

section \<open>Identification\<close>

text \<open>\<open>protocol_varint_read\<close> reads a varint between a cursor and an end and advances the cursor.\<close>

definition protocol_varint_read :: "bytes \<Rightarrow> protocol_packet_status \<times> (varint_t \<times> bytes) option" where
  "protocol_varint_read cursor =
     (case varint2int (Some cursor) of
        (status, None) \<Rightarrow>
          (if status = VARINT_INCOMPLETE then PROTOCOL_PACKET_INCOMPLETE else PROTOCOL_PACKET_INVALID, None)
      | (status, Some r) \<Rightarrow> (PROTOCOL_PACKET_COMPLETE, Some r))"

text \<open>
  The \<open>default\<close> branch of \<open>protocol_identify\<close>: a modern handshake frame. The frame is read between its start and its declared
  end, and a read behind the received bytes is undefined.
\<close>

definition protocol_identify_modern :: "bytes \<Rightarrow> (protocol_version \<times> intent_t) option" where
  "protocol_identify_modern source =
     (let unident = Some (PVER_UNIDENT, CLIENT_INTENT_UNSPECIFIED) in
      case protocol_varint_read source of
        (_, None) \<Rightarrow> unident
      | (_, Some (frame_size, frame_start)) \<Rightarrow>
          if frame_size = 0 \<or> unat frame_size > length frame_start then unident
          else do {
            frame \<leftarrow> buf_read 0 (unat frame_size) frame_start;
            (case protocol_varint_read frame of
               (_, None) \<Rightarrow> unident
             | (_, Some (packet_id, cursor)) \<Rightarrow>
                 if packet_id \<noteq> 0 then unident
                 else
                   (case protocol_varint_read cursor of
                      (_, None) \<Rightarrow> unident
                    | (_, Some (version, cursor')) \<Rightarrow>
                        if cursor' = [] then unident
                        else do {
                          last_byte \<leftarrow> buf_at (unat frame_size - 1) frame;
                          let frame_intent = (ucast last_byte :: intent_t);
                          if frame_intent = CLIENT_INTENT_STATUS \<or> frame_intent = CLIENT_INTENT_LOGIN
                             \<or> frame_intent = CLIENT_INTENT_TRANSFER
                          then Some (if version \<noteq> 0 then PVER_MODERN2 else PVER_MODERN1, frame_intent)
                          else unident
                        }))
          })"

definition protocol_identify :: "bytes option \<Rightarrow> (protocol_version \<times> intent_t) option" where
  "protocol_identify src =
     (let is = (\<lambda>v. Some (v, CLIENT_INTENT_UNSPECIFIED)) in
      case src of
        None \<Rightarrow> is PVER_UNIDENT
      | Some source \<Rightarrow>
          (let src_size = length source in
           if src_size = 0 then is PVER_UNIDENT
           else do {
             s0 \<leftarrow> buf_at 0 source;
             if s0 = 0x01 then is PVER_ORIGPRO
             else if s0 = 0x02 then
               (if src_size < 2 then is PVER_UNIDENT
                else do {
                  s1 \<leftarrow> buf_at 1 source;
                  if s1 = 0x00 then
                    (if src_size < 3 then is PVER_UNIDENT
                     else do {
                       field \<leftarrow> buf_read 3 (src_size - 3) source;
                       if memchr 0x3B field \<noteq> None \<and> memchr 0x3A field \<noteq> None then is PVER_LEGACYL2 else is PVER_LEGACYL1
                     })
                  else if s1 = 0x1F then is PVER_LEGACYL3
                  else is PVER_LEGACYL4
                })
             else if s0 = 0xFE then
               (if src_size = 1 then is PVER_LEGACYM1
                else do {
                  s1 \<leftarrow> buf_at 1 source;
                  if s1 = 0x01 then
                    (if src_size = 2 then is PVER_LEGACYM2
                     else do {
                       s2 \<leftarrow> buf_at 2 source;
                       if s2 = 0xFA then is PVER_LEGACYM3 else protocol_identify_modern source
                     })
                  else protocol_identify_modern source
                })
             else protocol_identify_modern source
           }))"

section \<open>Framing\<close>

text \<open>
  The size a varint at the end of the buffer asks for when it is incomplete (\<open>src_size + 1\<close>), and 0 when
  it is invalid.
\<close>

definition protocol_varint_need :: "protocol_packet_status \<Rightarrow> nat \<Rightarrow> nat" where
  "protocol_varint_need status src_size =
     (if status = PROTOCOL_PACKET_INCOMPLETE \<and> src_size < SIZE_MAX then src_size + 1 else 0)"

text \<open>The \<open>default\<close> branch of \<open>protocol_packet_length\<close>: one modern frame, or two when a login follows.\<close>

definition protocol_packet_length_modern :: "bytes \<Rightarrow> (protocol_packet_status \<times> nat) option" where
  "protocol_packet_length_modern source =
     (let src_size = length source in
      (case protocol_varint_read source of
         (status, None) \<Rightarrow> Some (status, protocol_varint_need status src_size)
       | (_, Some (frame_size, cursor)) \<Rightarrow>
           (let frame_prefix_size = src_size - length cursor in
            if frame_size = 0 \<or> unat frame_size > SIZE_MAX - frame_prefix_size then Some (PROTOCOL_PACKET_INVALID, 0)
            else
              (let first_frame_size = frame_prefix_size + unat frame_size in
               if src_size < first_frame_size then Some (PROTOCOL_PACKET_INCOMPLETE, first_frame_size)
               else do {
                 first_frame \<leftarrow> buf_read 0 first_frame_size source;
                 (protocol, intent) \<leftarrow> protocol_identify (Some first_frame);
                 if protocol = PVER_UNIDENT then Some (PROTOCOL_PACKET_INVALID, first_frame_size)
                 else if protocol = PVER_MODERN1 \<or> intent = CLIENT_INTENT_STATUS
                 then Some (PROTOCOL_PACKET_COMPLETE, first_frame_size)
                 else do {
                   behind \<leftarrow> buf_read first_frame_size (src_size - first_frame_size) source;
                   (case protocol_varint_read behind of
                      (status, None) \<Rightarrow> Some (status, protocol_varint_need status src_size)
                    | (_, Some (frame_size2, cursor2)) \<Rightarrow>
                        (let frame_prefix_size2 = length behind - length cursor2 in
                         if frame_size2 = 0 \<or> frame_prefix_size2 > SIZE_MAX - first_frame_size
                            \<or> unat frame_size2 > SIZE_MAX - first_frame_size - frame_prefix_size2
                         then Some (PROTOCOL_PACKET_INVALID, first_frame_size)
                         else
                           (let packet_size = first_frame_size + frame_prefix_size2 + unat frame_size2 in
                            Some (if src_size < packet_size then PROTOCOL_PACKET_INCOMPLETE else PROTOCOL_PACKET_COMPLETE, packet_size))))
                 }
               }))))"

text \<open>
  \<open>protocol_packet_length\<close> yields the status and the value stored through \<open>packet_size\<close>, if one is stored.
  Reads through fixed indices are guarded by the size checks that precede them.
\<close>

definition protocol_packet_finish :: "nat \<Rightarrow> nat \<Rightarrow> protocol_packet_status \<times> nat" where
  "protocol_packet_finish src_size packet_size =
     (if src_size < packet_size then PROTOCOL_PACKET_INCOMPLETE else PROTOCOL_PACKET_COMPLETE, packet_size)"

definition protocol_packet_length_legacy_login :: "bytes \<Rightarrow> (protocol_packet_status \<times> nat) option" where
  "protocol_packet_length_legacy_login source =
     (let src_size = length source in
      if src_size < 2 then Some (PROTOCOL_PACKET_INCOMPLETE, 2)
      else do {
        s1 \<leftarrow> buf_at 1 source;
        if s1 = 0 then
          (if src_size < 4 then Some (PROTOCOL_PACKET_INCOMPLETE, 4)
           else do {
             s2 \<leftarrow> buf_at 2 source;
             s3 \<leftarrow> buf_at 3 source;
             (let character_size = (if s3 = 0 then 2 else 1) in
              Some (protocol_packet_finish src_size (3 + unat s2 * character_size)))
           })
        else if src_size < 4 then Some (PROTOCOL_PACKET_INCOMPLETE, 4)
        else do {
          username_length \<leftarrow> protocol_uint16_read source 2;
          (let username_end = 4 + unat username_length * 2 in
           if s1 = 0x1F then Some (protocol_packet_finish src_size username_end)
           else if src_size < username_end + 2 then Some (PROTOCOL_PACKET_INCOMPLETE, username_end + 2)
           else do {
             address_length \<leftarrow> protocol_uint16_read source username_end;
             Some (protocol_packet_finish src_size (username_end + 2 + unat address_length * 2 + 4))
           })
        }
      })"

definition protocol_packet_length :: "bytes option \<Rightarrow> (protocol_packet_status \<times> nat option) option" where
  "protocol_packet_length src =
     (case src of
        None \<Rightarrow> Some (PROTOCOL_PACKET_INVALID, None)
      | Some source \<Rightarrow>
          (let src_size = length source in
           if src_size = 0 then Some (PROTOCOL_PACKET_INCOMPLETE, Some 1)
           else do {
             s0 \<leftarrow> buf_at 0 source;
             r \<leftarrow>
               (if s0 = 0x01 then Some (PROTOCOL_PACKET_COMPLETE, 1)
                else if s0 = 0x02 then protocol_packet_length_legacy_login source
                else if s0 = 0xFE then
                  (if src_size = 1 then Some (PROTOCOL_PACKET_AMBIGUOUS, 3)
                   else do {
                     s1 \<leftarrow> buf_at 1 source;
                     if src_size = 2 \<and> s1 = 0x01 then Some (PROTOCOL_PACKET_AMBIGUOUS, 3)
                     else if s1 = 0x01 then do {
                       s2 \<leftarrow> buf_at 2 source;
                       if s2 = 0xFA then
                         (if src_size < 0x20 then Some (PROTOCOL_PACKET_INCOMPLETE, 0x20)
                          else do {
                            address_length \<leftarrow> protocol_uint16_read source 0x1E;
                            Some (protocol_packet_finish src_size (0x20 + unat address_length * 2 + 4))
                          })
                       else protocol_packet_length_modern source
                     }
                     else protocol_packet_length_modern source
                   })
                else protocol_packet_length_modern source);
             Some (fst r, Some (snd r))
           }))"

section \<open>Network byte order\<close>

lemma uint16_join: "push_bit 8 (ucast (ucast (drop_bit 8 v) :: u8)) OR ucast (ucast v :: u8) = (v :: u16)"
proof -
  have "(ucast (ucast v :: u8) :: u16) = take_bit 8 v"
    by (rule bit_word_eqI) (auto simp: bit_simps)
  moreover have "(ucast (ucast (drop_bit 8 v) :: u8) :: u16) = drop_bit 8 v"
    by (rule bit_word_eqI) (auto simp: bit_simps dest: bit_imp_le_length)
  ultimately show ?thesis
    using take_bit_or_push_bit_drop_bit [of 8 v] by (simp add: or.commute)
qed

lemma uint32_join:
  "push_bit 24 (ucast (ucast (drop_bit 24 v) :: u8)) OR push_bit 16 (ucast (ucast (drop_bit 16 v) :: u8)) OR
   push_bit 8 (ucast (ucast (drop_bit 8 v) :: u8)) OR ucast (ucast v :: u8) = (v :: u32)" (is "?w = v")
proof (rule bit_word_eqI)
  fix n :: nat
  assume "n < LENGTH(32)"
  then consider "n < 8" | "8 \<le> n" "n < 16" | "16 \<le> n" "n < 24" | "24 \<le> n" "n < 32" by fastforce
  then show "bit ?w n = bit v n"
    by cases (auto simp: bit_simps)
qed

lemma uint16_read_write [codec_simps]:
  "off = length p \<Longrightarrow> protocol_uint16_read (p @ protocol_uint16_bytes v @ rest) off = Some v"
  by (simp add: protocol_uint16_read_def protocol_uint16_bytes_def buf_at_def nth_append uint16_join)

lemma uint32_read_write [codec_simps]:
  "off = length p \<Longrightarrow> protocol_uint32_read (p @ protocol_uint32_bytes v @ rest) off = Some v"
  by (simp add: protocol_uint32_read_def protocol_uint32_bytes_def buf_at_def nth_append uint32_join)

lemma length_uint_bytes [simp]:
  "length (protocol_uint16_bytes v) = 2" "length (protocol_uint32_bytes w) = 4"
  by (simp_all add: protocol_uint16_bytes_def protocol_uint32_bytes_def)

interpretation uint16: codec protocol_uint16_bytes
  "\<lambda>bs. map_option (\<lambda>v. (v, drop 2 bs)) (protocol_uint16_read bs 0)"
  by unfold_locales (use uint16_read_write [of 0 "[]"] in \<open>auto simp: protocol_uint16_bytes_def\<close>)

interpretation uint32: codec protocol_uint32_bytes
  "\<lambda>bs. map_option (\<lambda>v. (v, drop 4 bs)) (protocol_uint32_read bs 0)"
  by unfold_locales (use uint32_read_write [of 0 "[]"] in \<open>auto simp: protocol_uint32_bytes_def\<close>)

lemma uint16_read_defined: "off + 2 \<le> length src \<Longrightarrow> \<exists>v. protocol_uint16_read src off = Some v"
  by (simp add: protocol_uint16_read_def buf_at_def)

lemma uint16_read_append: "off + 2 \<le> length src \<Longrightarrow> protocol_uint16_read (src @ more) off = protocol_uint16_read src off"
  by (simp add: protocol_uint16_read_def buf_at_def nth_append)

section \<open>Varints at a cursor\<close>

lemma protocol_varint_read_enc [codec_simps]:
  "protocol_varint_read (int2varint_bytes v @ rest) = (PROTOCOL_PACKET_COMPLETE, Some (v, rest))"
  by (simp add: protocol_varint_read_def varint2int_enc)

lemma varint2int_Some_status: "varint2int (Some bs) = (st, Some r) \<Longrightarrow> st = VARINT_COMPLETE"
  using varint2int_loop_status [of 0 0 bs st "Some r"] by (simp add: varint2int_def)

lemma protocol_varint_read_Some:
  assumes "protocol_varint_read bs = (s, Some (v, rest))"
  obtains p where "s = PROTOCOL_PACKET_COMPLETE" "bs = p @ rest" "p \<noteq> []" "length p \<le> 5"
    "\<And>rest'. protocol_varint_read (p @ rest') = (PROTOCOL_PACKET_COMPLETE, Some (v, rest'))"
proof -
  from assms have s: "s = PROTOCOL_PACKET_COMPLETE" and "\<exists>st. varint2int (Some bs) = (st, Some (v, rest))"
    by (auto simp: protocol_varint_read_def split: prod.splits option.splits)
  then have "varint2int (Some bs) = (VARINT_COMPLETE, Some (v, rest))"
    using varint2int_Some_status by blast
  then show ?thesis
  proof (rule varint2int_local)
    fix p
    assume "bs = p @ rest" "p \<noteq> []" "length p \<le> 5"
      "\<And>rest'. varint2int (Some (p @ rest')) = (VARINT_COMPLETE, Some (v, rest'))"
    with s show thesis by (intro that [of p]) (auto simp: protocol_varint_read_def)
  qed
qed

lemma protocol_varint_read_None:
  assumes "protocol_varint_read bs = (s, None)"
  shows "s = PROTOCOL_PACKET_INCOMPLETE \<and> length bs < 5
    \<or> s = PROTOCOL_PACKET_INVALID \<and> (\<forall>more. protocol_varint_read (bs @ more) = (PROTOCOL_PACKET_INVALID, None))"
proof -
  from assms obtain st where st: "varint2int_loop 0 0 bs = (st, None)"
    by (auto simp: protocol_varint_read_def varint2int_def split: prod.splits option.splits)
  with varint2int_loop_status [OF st] show ?thesis
    using assms varint2int_loop_incomplete [of 0 0 bs None] varint2int_loop_invalid [of 0 0 bs None]
    by (cases st) (auto simp: protocol_varint_read_def varint2int_def)
qed

section \<open>The framing demands are exact\<close>

lemma buf_read_within: "off + n \<le> length b \<Longrightarrow> buf_read off n b = Some (take n (drop off b))"
  by (simp add: buf_read_def)

lemma buf_read_tail: "n \<le> length b \<Longrightarrow> buf_read n (length b - n) b = Some (drop n b)"
  by (simp add: buf_read_def)

lemma buf_read_append [buf_simps]:
  "buf_read 0 (length p) (p @ rest) = Some p" "buf_read (length p) (length rest) (p @ rest) = Some rest"
  by (simp_all add: buf_read_def)

lemma protocol_identify_modern_defined: "\<exists>v. protocol_identify_modern source = Some v"
  by (auto simp: protocol_identify_modern_def Let_def buf_read_def buf_at_def unat_gt_0 split: prod.splits option.splits)

lemma protocol_identify_defined: "\<exists>v. protocol_identify src = Some v"
proof (cases src)
  case (Some source)
  obtain v where "protocol_identify_modern source = Some v" using protocol_identify_modern_defined by blast
  with Some show ?thesis
    by (cases source; cases "tl source"; cases "tl (tl source)") (auto simp: protocol_identify_def Let_def buf_read_def buf_at_def)
qed (simp add: protocol_identify_def Let_def)

text \<open>What the modern framing yields, by the two varints and the identification of the first frame.\<close>

lemma protocol_packet_length_modern_eq:
  assumes "protocol_varint_read source = (s, Some (frame_size, cursor))"
  defines "n \<equiv> length source - length cursor + unat frame_size"
  shows "protocol_packet_length_modern source = Some
    (if frame_size = 0 \<or> unat frame_size > SIZE_MAX - (length source - length cursor) then (PROTOCOL_PACKET_INVALID, 0)
     else if length source < n then (PROTOCOL_PACKET_INCOMPLETE, n)
     else
       (let (protocol, intent) = the (protocol_identify (Some (take n source))) in
        if protocol = PVER_UNIDENT then (PROTOCOL_PACKET_INVALID, n)
        else if protocol = PVER_MODERN1 \<or> intent = CLIENT_INTENT_STATUS then (PROTOCOL_PACKET_COMPLETE, n)
        else
          (case protocol_varint_read (drop n source) of
             (status, None) \<Rightarrow> (status, protocol_varint_need status (length source))
           | (_, Some (frame_size2, cursor2)) \<Rightarrow>
               (let prefix2 = length source - n - length cursor2 in
                if frame_size2 = 0 \<or> prefix2 > SIZE_MAX - n \<or> unat frame_size2 > SIZE_MAX - n - prefix2 then (PROTOCOL_PACKET_INVALID, n)
                else (if length source < n + prefix2 + unat frame_size2 then PROTOCOL_PACKET_INCOMPLETE else PROTOCOL_PACKET_COMPLETE, n + prefix2 + unat frame_size2)))))"
proof -
  obtain v where v: "protocol_identify (Some (take n source)) = Some v" using protocol_identify_defined by blast
  show ?thesis
    by (cases v; cases "protocol_varint_read (drop n source)")
      (auto simp: protocol_packet_length_modern_def assms(1) Let_def buf_read_within v simp flip: n_def split: option.splits)
qed

lemma protocol_packet_length_modern_demand:
  assumes "length source < SIZE_MAX"
  shows "\<exists>st n. protocol_packet_length_modern source = Some (st, n) \<and> (st = PROTOCOL_PACKET_COMPLETE \<longrightarrow> 0 < n \<and> n \<le> length source)
    \<and> (st = PROTOCOL_PACKET_INCOMPLETE \<longrightarrow> length source < n) \<and> st \<noteq> PROTOCOL_PACKET_AMBIGUOUS"
proof (cases "protocol_varint_read source")
  case (Pair s o1)
  show ?thesis
  proof (cases o1)
    case None
    with Pair protocol_varint_read_None [of source s] assms show ?thesis
      by (auto simp: protocol_packet_length_modern_def protocol_varint_need_def Let_def)
  next
    case (Some fc)
    obtain frame_size cursor where fc: "fc = (frame_size, cursor)" by fastforce
    let ?n = "length source - length cursor + unat frame_size"
    let ?snd = "protocol_varint_read (drop ?n source)"
    have "fst ?snd \<noteq> PROTOCOL_PACKET_AMBIGUOUS \<and> (snd ?snd = None \<longrightarrow> fst ?snd \<noteq> PROTOCOL_PACKET_COMPLETE)"
      by (auto simp: protocol_varint_read_def split: prod.splits option.splits)
    with Pair Some fc assms show ?thesis
      by (cases ?snd; cases "snd ?snd")
        (auto simp: protocol_packet_length_modern_eq protocol_varint_need_def Let_def unat_eq_zero split: if_splits prod.splits)
  qed
qed

lemma protocol_packet_finish_demand:
  "0 < n \<Longrightarrow> protocol_packet_finish len n = (st, m) \<Longrightarrow>
   (st = PROTOCOL_PACKET_COMPLETE \<longrightarrow> 0 < m \<and> m \<le> len) \<and> (st = PROTOCOL_PACKET_INCOMPLETE \<longrightarrow> len < m)
   \<and> st \<noteq> PROTOCOL_PACKET_AMBIGUOUS"
  by (auto simp: protocol_packet_finish_def split: if_splits)

lemma protocol_packet_length_legacy_login_demand:
  assumes "0 < length source"
  shows "\<exists>st n. protocol_packet_length_legacy_login source = Some (st, n) \<and>
    (st = PROTOCOL_PACKET_COMPLETE \<longrightarrow> 0 < n \<and> n \<le> length source)
    \<and> (st = PROTOCOL_PACKET_INCOMPLETE \<longrightarrow> length source < n) \<and> st \<noteq> PROTOCOL_PACKET_AMBIGUOUS"
proof (cases "length source < 4")
  case True
  with assms show ?thesis
    by (auto simp: protocol_packet_length_legacy_login_def buf_at_def Let_def)
next
  case False
  then obtain u where u: "protocol_uint16_read source 2 = Some u" using uint16_read_defined [of 2 source] by auto
  show ?thesis
  proof (cases "length source < 4 + unat u * 2 + 2")
    case True
    with False u show ?thesis
      by (auto simp: protocol_packet_length_legacy_login_def buf_at_def protocol_packet_finish_def Let_def)
  next
    case nt: False
    then obtain a where "protocol_uint16_read source (4 + unat u * 2) = Some a"
      using uint16_read_defined [of "4 + unat u * 2" source] by auto
    with False u nt show ?thesis
      by (auto simp: protocol_packet_length_legacy_login_def buf_at_def protocol_packet_finish_def Let_def)
  qed
qed

lemma protocol_packet_length_cases:
  assumes "source \<noteq> []" "hd source \<noteq> 0x01" "hd source \<noteq> 0x02"
    "\<not> (hd source = 0xFE \<and> (length source = 1 \<or> source ! 1 = 0x01 \<and> (length source = 2 \<or> source ! 2 = 0xFA)))"
  shows "protocol_packet_length (Some source) = map_option (\<lambda>(st, n). (st, Some n)) (protocol_packet_length_modern source)"
proof -
  from assms(1) obtain s0 s where s: "source = s0 # s" by (cases source) auto
  then show ?thesis using assms
    by (cases s; cases "tl s"; cases "protocol_packet_length_modern source") (auto simp: protocol_packet_length_def buf_at_def Let_def)
qed

lemma protocol_packet_length_total:
  assumes "length source < SIZE_MAX"
  shows "\<exists>st n. protocol_packet_length (Some source) = Some (st, Some n) \<and>
    (st = PROTOCOL_PACKET_COMPLETE \<longrightarrow> 0 < n \<and> n \<le> length source) \<and>
    (st = PROTOCOL_PACKET_INCOMPLETE \<longrightarrow> length source < n) \<and>
    (st = PROTOCOL_PACKET_AMBIGUOUS \<longrightarrow> length source < 3 \<and> n = 3)"
proof (cases source)
  case Nil
  then show ?thesis by (simp add: protocol_packet_length_def)
next
  case (Cons s0 s)
  consider "s0 = 0x01" | "s0 = 0x02"
    | "s0 = 0xFE" "length source = 1 \<or> source ! 1 = 0x01 \<and> (length source = 2 \<or> source ! 2 = 0xFA)"
    | "s0 \<noteq> 0x01" "s0 \<noteq> 0x02" "\<not> (s0 = 0xFE \<and> (length source = 1 \<or> source ! 1 = 0x01 \<and> (length source = 2 \<or> source ! 2 = 0xFA)))"
    by blast
  then show ?thesis
  proof cases
    case 1
    with Cons show ?thesis by (simp add: protocol_packet_length_def buf_at_def)
  next
    case 2
    with Cons protocol_packet_length_legacy_login_demand [of source] show ?thesis
      by (auto simp: protocol_packet_length_def buf_at_def)
  next
    case 3
    show ?thesis
    proof (cases "length source < 0x20")
      case True
      with 3 Cons show ?thesis by (cases s) (auto simp: protocol_packet_length_def buf_at_def Let_def)
    next
      case False
      then obtain a where "protocol_uint16_read source 0x1E = Some a" using uint16_read_defined [of "0x1E" source] by auto
      with 3 Cons False show ?thesis
        by (cases s) (auto simp: protocol_packet_length_def buf_at_def Let_def protocol_packet_finish_def)
    qed
  next
    case 4
    with Cons protocol_packet_length_cases [of source] protocol_packet_length_modern_demand [OF assms]
    show ?thesis by auto
  qed
qed

section \<open>Framing does not depend on segmentation\<close>

lemma protocol_packet_length_modern_extend:
  assumes "protocol_packet_length_modern source = Some (st, n)"
    and "st = PROTOCOL_PACKET_COMPLETE \<or> st = PROTOCOL_PACKET_INVALID"
  shows "\<exists>m. protocol_packet_length_modern (source @ more) = Some (st, m) \<and> (st = PROTOCOL_PACKET_COMPLETE \<longrightarrow> m = n)"
proof (cases "protocol_varint_read source")
  case (Pair s o1)
  show ?thesis
  proof (cases o1)
    case None
    with Pair protocol_varint_read_None [of source s] assms show ?thesis
      by (auto simp: protocol_packet_length_modern_def protocol_varint_need_def Let_def)
  next
    case (Some fc)
    obtain frame_size cursor where fc: "fc = (frame_size, cursor)" by fastforce
    from Pair Some fc obtain p where p: "source = p @ cursor"
      "\<And>rest'. protocol_varint_read (p @ rest') = (PROTOCOL_PACKET_COMPLETE, Some (frame_size, rest'))"
      using protocol_varint_read_Some [of source s frame_size cursor] by blast
    let ?n = "length p + unat frame_size"
    let ?snd = "protocol_varint_read (drop ?n source)"
    show ?thesis
    proof (cases ?snd)
      case (Pair s2 o2)
      have app: "?n \<le> length source \<Longrightarrow> drop ?n (source @ more) = drop ?n source @ more"
        "?n \<le> length source \<Longrightarrow> take ?n (source @ more) = take ?n source" by simp_all
      show ?thesis
      proof (cases o2)
        case None
        with Pair protocol_varint_read_None [of "drop ?n source" s2] p assms app show ?thesis
          by (auto simp: protocol_packet_length_modern_eq protocol_varint_need_def Let_def split: if_splits prod.splits)
      next
        case (Some fc2)
        obtain f2 c2 where fc2: "fc2 = (f2, c2)" by fastforce
        from Pair Some fc2 obtain p2 where p2: "drop ?n source = p2 @ c2"
          "\<And>rest'. protocol_varint_read (p2 @ rest') = (PROTOCOL_PACKET_COMPLETE, Some (f2, rest'))"
          using protocol_varint_read_Some [of "drop ?n source" s2 f2 c2] by blast
        from p p2 assms app show ?thesis
          by (auto simp: protocol_packet_length_modern_eq Let_def split: if_splits prod.splits)
      qed
    qed
  qed
qed

lemma buf_at_append: "i < length b \<Longrightarrow> buf_at i (b @ more) = buf_at i b"
  by (simp add: buf_at_def nth_append)

lemma protocol_packet_length_legacy_login_extend:
  assumes "protocol_packet_length_legacy_login source = Some (PROTOCOL_PACKET_COMPLETE, n)"
  shows "protocol_packet_length_legacy_login (source @ more) = Some (PROTOCOL_PACKET_COMPLETE, n)"
proof -
  from assms have len: "4 \<le> length source"
    by (auto simp: protocol_packet_length_legacy_login_def Let_def buf_at_def split: if_splits)
  then obtain u where u: "protocol_uint16_read source 2 = Some u" using uint16_read_defined [of 2 source] by auto
  have u': "protocol_uint16_read (source @ more) 2 = Some u" using u len uint16_read_append [of 2 source more] by simp
  show ?thesis
  proof (cases "length source < 4 + unat u * 2 + 2")
    case True
    with assms len u u' show ?thesis
      by (auto simp: protocol_packet_length_legacy_login_def Let_def buf_at_append buf_at_def nth_append
          protocol_packet_finish_def split: if_splits)
  next
    case False
    then obtain a where a: "protocol_uint16_read source (4 + unat u * 2) = Some a"
      using uint16_read_defined [of "4 + unat u * 2" source] by auto
    with False have "protocol_uint16_read (source @ more) (4 + unat u * 2) = Some a"
      using uint16_read_append [of "4 + unat u * 2" source more] by simp
    with False assms len u u' a show ?thesis
      by (auto simp: protocol_packet_length_legacy_login_def Let_def buf_at_append buf_at_def nth_append
          protocol_packet_finish_def split: if_splits)
  qed
qed

lemma protocol_packet_length_legacy_login_not_invalid:
  "protocol_packet_length_legacy_login source \<noteq> Some (PROTOCOL_PACKET_INVALID, n)"
  by (auto simp: protocol_packet_length_legacy_login_def Let_def protocol_packet_finish_def bind_eq_Some_conv split: if_splits)

lemma protocol_packet_length_extend:
  assumes "protocol_packet_length (Some source) = Some (st, Some n)"
    and "st = PROTOCOL_PACKET_COMPLETE \<or> st = PROTOCOL_PACKET_INVALID"
  shows "\<exists>m. protocol_packet_length (Some (source @ more)) = Some (st, Some m) \<and>
    (st = PROTOCOL_PACKET_COMPLETE \<longrightarrow> m = n)"
proof (cases source)
  case Nil
  with assms show ?thesis by (auto simp: protocol_packet_length_def)
next
  case (Cons s0 s)
  consider "s0 = 0x01" | "s0 = 0x02"
    | "s0 = 0xFE" "length source = 1 \<or> source ! 1 = 0x01 \<and> (length source = 2 \<or> source ! 2 = 0xFA)"
    | "s0 \<noteq> 0x01" "s0 \<noteq> 0x02" "\<not> (s0 = 0xFE \<and> (length source = 1 \<or> source ! 1 = 0x01 \<and> (length source = 2 \<or> source ! 2 = 0xFA)))"
    by blast
  then show ?thesis
  proof cases
    case 1
    with Cons assms show ?thesis by (auto simp: protocol_packet_length_def buf_at_def)
  next
    case 2
    with Cons assms protocol_packet_length_legacy_login_extend [of source n more]
      protocol_packet_length_legacy_login_not_invalid [of source n] show ?thesis
      by (auto simp: protocol_packet_length_def buf_at_def bind_eq_Some_conv)
  next
    case 3
    with Cons assms have len: "32 \<le> length source"
      by (cases s; cases "tl s") (auto simp: protocol_packet_length_def buf_at_def Let_def bind_eq_Some_conv split: if_splits)
    then obtain a where a: "protocol_uint16_read source 0x1E = Some a"
      using uint16_read_defined [of "0x1E" source] by auto
    with len have "protocol_uint16_read (source @ more) 0x1E = Some a"
      using uint16_read_append [of "0x1E" source more] by simp
    with 3 Cons assms len a show ?thesis
      by (cases s; cases "tl s")
        (auto simp: protocol_packet_length_def buf_at_def Let_def protocol_packet_finish_def split: if_splits)
  next
    case 4
    from 4 Cons have m: "protocol_packet_length_modern source = Some (st, n)"
      using protocol_packet_length_cases [of source] assms by auto
    have "\<not> (s0 = 0xFE \<and> (length (source @ more) = 1 \<or> (source @ more) ! 1 = 0x01 \<and> (length (source @ more) = 2 \<or> (source @ more) ! 2 = 0xFA)))"
      using 4 Cons by (cases s; cases "tl s") auto
    with 4 Cons protocol_packet_length_cases [of "source @ more"] protocol_packet_length_modern_extend [OF m assms(2), of more]
    show ?thesis by auto
  qed
qed

section \<open>Properties\<close>

text \<open>
  C21: the framing demands are exact and memory safe. On any received buffer \<open>protocol_packet_length\<close> reads only
  bytes that are there; when it reports a complete packet, the packet is not empty and lies inside the
  buffer; when it reports an incomplete one, the size it asks for is larger than what has arrived, so the
  reader always makes progress; an ambiguous prefix is at most two bytes long and asks for a third.
\<close>

theorem protocol_packet_length_exact:
  assumes "length source < SIZE_MAX"
  shows "\<exists>st n. protocol_packet_length (Some source) = Some (st, Some n) \<and>
    (st = PROTOCOL_PACKET_COMPLETE \<longrightarrow> 0 < n \<and> n \<le> length source) \<and>
    (st = PROTOCOL_PACKET_INCOMPLETE \<longrightarrow> length source < n) \<and>
    (st = PROTOCOL_PACKET_AMBIGUOUS \<longrightarrow> length source < 3 \<and> n = 3)"
  using assms by (rule protocol_packet_length_total)

theorem protocol_packet_length_exact_witness:
  "\<exists>st n. protocol_packet_length (Some [0xFE, 0x01]) = Some (st, Some n) \<and>
    (st = PROTOCOL_PACKET_COMPLETE \<longrightarrow> 0 < n \<and> n \<le> length ([0xFE, 0x01] :: bytes)) \<and>
    (st = PROTOCOL_PACKET_INCOMPLETE \<longrightarrow> length ([0xFE, 0x01] :: bytes) < n) \<and>
    (st = PROTOCOL_PACKET_AMBIGUOUS \<longrightarrow> length ([0xFE, 0x01] :: bytes) < 3 \<and> n = 3)"
  by (rule protocol_packet_length_exact) simp

text \<open>
  C22: the verdict does not depend on how TCP cut the stream. Once a buffer is reported complete with a
  packet of \<open>n\<close> bytes, or invalid, the same verdict (with the same \<open>n\<close>) is given for that buffer with any
  further bytes behind it.
\<close>

theorem protocol_packet_length_segmentation:
  assumes "protocol_packet_length (Some source) = Some (st, Some n)"
    and "st = PROTOCOL_PACKET_COMPLETE \<or> st = PROTOCOL_PACKET_INVALID"
  shows "\<exists>m. protocol_packet_length (Some (source @ more)) = Some (st, Some m) \<and>
    (st = PROTOCOL_PACKET_COMPLETE \<longrightarrow> m = n)"
  using assms by (rule protocol_packet_length_extend)

theorem protocol_packet_length_segmentation_witness:
  "\<exists>m. protocol_packet_length (Some ([0x02, 0x1F, 0x00, 0x00] @ [0x41])) = Some (PROTOCOL_PACKET_COMPLETE, Some m) \<and>
    (PROTOCOL_PACKET_COMPLETE = PROTOCOL_PACKET_COMPLETE \<longrightarrow> m = 4)"
  by (rule protocol_packet_length_segmentation)
    (simp_all add: protocol_packet_length_def protocol_packet_length_legacy_login_def buf_at_def
      protocol_uint16_read_def protocol_packet_finish_def)

end
