(* ===== verification/Handshake.thy ===== *)
theory Handshake
  imports Proto_Common
begin

text \<open>
  The modern handshake (\<open>src/protocol/handshake.c\<close>): parsing a client's handshake and login start
  (\<open>packet_read\<close>), re-encoding it towards the backend (\<open>packet_write\<close>) and the disconnect and status
  replies the proxy makes itself (\<open>make_kickreason\<close>, \<open>make_motd\<close>).

  Heap objects are byte lists; text objects include their terminator. Allocations are answered by an oracle
  \<open>alloc i n\<close> (does the \<open>i\<close>-th allocation of the call, of \<open>n\<close> bytes, succeed?). The outer \<open>option\<close> of a
  writing function is undefined behaviour; the destination comes back with the number of bytes written.
\<close>

section \<open>Types and constants\<close>

record p_handshake =
  id_part1 :: varint_t
  id_part2 :: varint_t
  nextstate :: varint_t
  version :: varint_t
  address :: "bytes option"
  address_extra :: "bytes option"
  signature_data :: "bytes option"
  username :: "bytes option"
  address_extra_length :: nat
  signature_data_length :: nat
  port :: u16

definition p_handshake_zero :: p_handshake where
  "p_handshake_zero =
     \<lparr>id_part1 = 0, id_part2 = 0, nextstate = 0, version = 0, address = None, address_extra = None,
      signature_data = None, username = None, address_extra_length = 0, signature_data_length = 0, port = 0\<rparr>"

abbreviation ADDRESS_MAXLEN :: nat where "ADDRESS_MAXLEN \<equiv> 1024"

definition PROTOHANDSHAKE_ADDRESSMAXLEN :: nat where
  "PROTOHANDSHAKE_ADDRESSMAXLEN = ADDRESS_MAXLEN * 3"

definition PROTOHANDSHAKE_USERNAMEMAXLEN :: nat where
  "PROTOHANDSHAKE_USERNAMEMAXLEN = 128"

definition PVERDB_SNAPMASK :: varint_t where "PVERDB_SNAPMASK = 0xBFFFFFFF"
definition PVERDB_R_1_20_1 :: varint_t where "PVERDB_R_1_20_1 = 763"
definition PVERDB_S_1_20_1_RC1 :: varint_t where "PVERDB_S_1_20_1_RC1 = 0x8E"

text \<open>The versions whose login start carries a placeholder byte in front of its signature data.\<close>

definition signature_placeholder :: "varint_t \<Rightarrow> bool" where
  "signature_placeholder ver \<longleftrightarrow> ver \<le> PVERDB_R_1_20_1 \<or> (ver AND PVERDB_SNAPMASK) \<le> PVERDB_S_1_20_1_RC1"

definition login_intent :: "varint_t \<Rightarrow> bool" where
  "login_intent n \<longleftrightarrow> n = CLIENT_INTENT_LOGIN \<or> n = CLIENT_INTENT_TRANSFER"

section \<open>Checked varint output\<close>

function varint_size_loop :: "varint_t \<Rightarrow> nat \<Rightarrow> nat" where
  "varint_size_loop value result =
     (let value' = drop_bit 7 value in if value' \<noteq> 0 then varint_size_loop value' (result + 1) else result)"
  by pat_completeness auto
termination
  by (relation "measure (\<lambda>(value, _). unat value)") (auto simp: drop_bit7_less)

declare varint_size_loop.simps [simp del]

definition varint_size :: "varint_t \<Rightarrow> nat" where
  "varint_size value = varint_size_loop value 1"

function handshake_varint_loop :: "varint_t \<Rightarrow> bytes \<Rightarrow> bytes" where
  "handshake_varint_loop value cursor =
     (let byte = ucast (value AND 0x7F) :: u8;
          value' = drop_bit 7 value;
          byte' = (if value' \<noteq> 0 then byte OR 0x80 else byte)
      in if value' \<noteq> 0 then handshake_varint_loop value' (cursor @ [byte']) else cursor @ [byte'])"
  by pat_completeness auto
termination
  by (relation "measure (\<lambda>(value, _). unat value)") (auto simp: drop_bit7_less)

declare handshake_varint_loop.simps [simp del]

text \<open>A bounded cursor: the object written to, the offset of the cursor in it and the room that remains.\<close>

type_synonym cursor = "bytes \<times> nat \<times> nat"

definition handshake_varint_write :: "cursor \<Rightarrow> varint_t \<Rightarrow> (bool \<times> cursor) option" where
  "handshake_varint_write = (\<lambda>(destination, off, remaining) value.
     let encoded_size = varint_size value in
     if remaining < encoded_size then Some (False, destination, off, remaining)
     else do {
       destination' \<leftarrow> buf_write off (handshake_varint_loop value []) destination;
       Some (True, destination', off + encoded_size, remaining - encoded_size)
     })"

section \<open>Replies of the proxy\<close>

text \<open>Text literals of the source; a tilde stands for the double quote.\<close>

definition ascii :: "string \<Rightarrow> bytes" where
  "ascii s = map (\<lambda>c. if c = CHR ''~'' then 0x22 else of_char c) s"

text \<open>
  The common tail of \<open>make_kickreason\<close> and \<open>make_motd\<close>: the size checks, the frame length, the packet id 0
  and the string length through the bounded cursor, then the pieces of the JSON text one after the other.
\<close>

fun memcpy_pieces :: "bytes \<Rightarrow> nat \<Rightarrow> bytes list \<Rightarrow> bytes option" where
  "memcpy_pieces dst off [] = Some dst"
| "memcpy_pieces dst off (p # ps) =
     do { dst' \<leftarrow> buf_write off p dst; memcpy_pieces dst' (off + length p) ps }"

definition handshake_json_write :: "bytes \<Rightarrow> nat \<Rightarrow> nat \<Rightarrow> bytes list \<Rightarrow> (bytes \<times> nat) option" where
  "handshake_json_write dst dst_capacity json_size pieces =
     (if json_size > UINT32_MAX then Some (dst, 0)
      else
        (let string_length_size = varint_size (of_nat json_size) in
         if json_size > SIZE_MAX - string_length_size - 1 then Some (dst, 0)
         else
           (let frame_size = 1 + string_length_size + json_size in
            if frame_size > UINT32_MAX then Some (dst, 0)
            else
              (let frame_length_size = varint_size (of_nat frame_size) in
               if frame_size > SIZE_MAX - frame_length_size \<or> dst_capacity < frame_length_size + frame_size
               then Some (dst, 0)
               else do {
                 (ok1, c1) \<leftarrow> handshake_varint_write (dst, 0, dst_capacity) (of_nat frame_size);
                 if \<not> ok1 then Some (fst c1, 0)
                 else do {
                   (ok2, c2) \<leftarrow> handshake_varint_write c1 0;
                   if \<not> ok2 then Some (fst c2, 0)
                   else do {
                     (ok3, c3) \<leftarrow> handshake_varint_write c2 (of_nat json_size);
                     (case c3 of (dst3, off3, remaining3) \<Rightarrow>
                        if \<not> ok3 \<or> remaining3 < json_size then Some (dst3, 0)
                        else do {
                          dst4 \<leftarrow> memcpy_pieces dst3 off3 pieces;
                          Some (dst4, frame_length_size + frame_size)
                        })
                   }
                 }
               }))))"

definition kickreason_json_prefix :: bytes where
  "kickreason_json_prefix = ascii ''{~extra~:[{~text~:~''"

definition kickreason_json_suffix :: bytes where
  "kickreason_json_suffix = ascii ''~}],~text~:~~}''"

definition make_kickreason :: "bytes option \<Rightarrow> nat \<Rightarrow> bytes option \<Rightarrow> (bytes option \<times> nat) option" where
  "make_kickreason dst dst_capacity src =
     (case (dst, src) of
        (Some d, Some s) \<Rightarrow>
          (if dst_capacity = 0 then Some (dst, 0)
           else do {
             let prefix_size = length kickreason_json_prefix;
             let suffix_size = length kickreason_json_suffix;
             source_size \<leftarrow> strlen s;
             if source_size > SIZE_MAX - prefix_size \<or> source_size + prefix_size > SIZE_MAX - suffix_size
             then Some (dst, 0)
             else do {
               (d', n) \<leftarrow> handshake_json_write d dst_capacity (prefix_size + source_size + suffix_size)
                 [kickreason_json_prefix, take source_size s, kickreason_json_suffix];
               Some (Some d', n)
             }
           })
      | _ \<Rightarrow> Some (dst, 0))"

definition motd_version_prefix :: bytes where
  "motd_version_prefix = ascii ''{~version~:{~name~:~~,~protocol~:''"

definition motd_players_middle :: bytes where
  "motd_players_middle = ascii ''},~players~:{~max~:0,~online~:0,~sample~:[]},~description~:{~text~:~''"

definition motd_favicon_prefix :: bytes where
  "motd_favicon_prefix = ascii ''~},~favicon~:~data:image/png;base64,''"

definition motd_json_suffix :: bytes where
  "motd_json_suffix = ascii ''~}''"

text \<open>
  \<open>make_motd\<close>; the built-in icon \<open>FAVICON_BASE64\<close>, a string constant of the header, is the parameter
  \<open>builtin_icon\<close>.
\<close>

definition make_motd ::
  "bytes \<Rightarrow> bytes option \<Rightarrow> nat \<Rightarrow> bytes option \<Rightarrow> varint_t \<Rightarrow> bytes option \<Rightarrow> (bytes option \<times> nat) option" where
  "make_motd builtin_icon dst dst_capacity src ver favicon_b64 =
     (let icon = (case favicon_b64 of Some f \<Rightarrow> f | None \<Rightarrow> builtin_icon) in
      (case (dst, src) of
         (Some d, Some s) \<Rightarrow>
           (if dst_capacity = 0 then Some (dst, 0)
            else
              (let version_text = decimal (unat ver) in
               if length version_text = 0 \<or> length version_text \<ge> 11 then Some (dst, 0)
               else do {
                 let fixed_size = length motd_version_prefix + length motd_players_middle
                   + length motd_favicon_prefix + length motd_json_suffix;
                 let version_size = length version_text;
                 message_size \<leftarrow> strlen s;
                 icon_size \<leftarrow> strlen icon;
                 if message_size > SIZE_MAX - fixed_size \<or> version_size > SIZE_MAX - fixed_size - message_size
                    \<or> icon_size > SIZE_MAX - fixed_size - message_size - version_size
                 then Some (dst, 0)
                 else do {
                   (d', n) \<leftarrow> handshake_json_write d dst_capacity
                     (fixed_size + (message_size + version_size + icon_size))
                     [motd_version_prefix, version_text, motd_players_middle, take message_size s,
                      motd_favicon_prefix, take icon_size icon, motd_json_suffix];
                   Some (Some d', n)
                 }
               }))
       | _ \<Rightarrow> Some (dst, 0)))"

section \<open>Parsing\<close>

text \<open>\<open>packet_destroy\<close> frees what its copy of the record points to and clears the pointers.\<close>

definition packet_destroy :: "p_handshake \<Rightarrow> p_handshake" where
  "packet_destroy object =
     object\<lparr>address := None, address_extra := None, signature_data := None, username := None\<rparr>"

text \<open>
  The body of \<open>packet_read\<close> up to its label \<open>cleanup\<close>, in the three stages of the source: the address with
  what a client appended to it, the handshake frame, the login start frame. \<open>Some None\<close> is the jump to
  \<open>cleanup\<close>; a value carries the bytes that were not consumed. The first argument of each stage is the
  allocation oracle.
\<close>

definition packet_read_extra :: "bytes \<Rightarrow> nat option" where
  "packet_read_extra field =
     (case (memchr 0 field, memchr 0x3F field) of
        (None, query) \<Rightarrow> query
      | (Some e, Some q) \<Rightarrow> (if q < e then Some q else Some e)
      | (Some e, None) \<Rightarrow> Some e)"

definition packet_read_address ::
  "(nat \<Rightarrow> nat \<Rightarrow> bool) \<Rightarrow> p_handshake \<Rightarrow> bytes \<Rightarrow> nat \<Rightarrow> (p_handshake \<times> bytes) option option" where
  "packet_read_address alloc result src address_length =
     (if address_length > PROTOHANDSHAKE_ADDRESSMAXLEN then Some None
      else if address_length = 0 then Some None
      else if length src < address_length then Some None
      else do {
        field \<leftarrow> buf_read 0 address_length src;
        behind \<leftarrow> buf_read address_length (length src - address_length) src;
        let extra = packet_read_extra field;
        let address_size = (case extra of None \<Rightarrow> address_length | Some e \<Rightarrow> e);
        if \<not> alloc 0 (address_size + 1) then Some None
        else do {
          text \<leftarrow> buf_read 0 address_size src;
          let result = result\<lparr>address := Some (text @ [0])\<rparr>;
          (case extra of
             None \<Rightarrow> Some (Some (result, behind))
           | Some e \<Rightarrow>
               if \<not> alloc 1 (address_length - e) then Some None
               else do {
                 xs \<leftarrow> buf_read e (address_length - e) src;
                 Some (Some (result\<lparr>address_extra := Some xs, address_extra_length := address_length - e\<rparr>, behind))
               })
        }
      })"

definition packet_read_part1 :: "(nat \<Rightarrow> nat \<Rightarrow> bool) \<Rightarrow> bytes option \<Rightarrow> (p_handshake \<times> bytes) option option" where
  "packet_read_part1 alloc src =
     (case snd (varint2int src) of None \<Rightarrow> Some None
      | Some (size_part1, src) \<Rightarrow>
     if length src < unat size_part1 then Some None
     else do {
       frame1 \<leftarrow> buf_read 0 (unat size_part1) src;
       behind \<leftarrow> buf_read (unat size_part1) (length src - unat size_part1) src;
     (case snd (varint2int (Some frame1)) of None \<Rightarrow> Some None
      | Some (id1, src) \<Rightarrow>
     (case snd (varint2int (Some src)) of None \<Rightarrow> Some None
      | Some (ver, src) \<Rightarrow>
     (case snd (varint2int (Some src)) of None \<Rightarrow> Some None
      | Some (address_length, src) \<Rightarrow> do {
          r \<leftarrow> packet_read_address alloc (p_handshake_zero\<lparr>id_part1 := id1, version := ver\<rparr>) src (unat address_length);
          (case r of None \<Rightarrow> Some None
           | Some (result, src) \<Rightarrow>
               if length src < 2 then Some None
               else do {
                 p \<leftarrow> protocol_uint16_read src 0;
                 src \<leftarrow> buf_read 2 (length src - 2) src;
                 (case snd (varint2int (Some src)) of None \<Rightarrow> Some None
                  | Some (next, src) \<Rightarrow>
                      if src \<noteq> [] then Some None
                      else Some (Some (result\<lparr>port := p, nextstate := next\<rparr>, behind)))
               })
        })))})"

definition packet_read_part2 ::
  "(nat \<Rightarrow> nat \<Rightarrow> bool) \<Rightarrow> p_handshake \<Rightarrow> bytes \<Rightarrow> p_handshake option option" where
  "packet_read_part2 alloc result src =
     (case snd (varint2int (Some src)) of None \<Rightarrow> Some None
      | Some (size_part2, src) \<Rightarrow>
     if length src < unat size_part2 then Some None
     else do {
       frame2 \<leftarrow> buf_read 0 (unat size_part2) src;
     (case snd (varint2int (Some frame2)) of None \<Rightarrow> Some None
      | Some (id2, src) \<Rightarrow>
     (case snd (varint2int (Some src)) of None \<Rightarrow> Some None
      | Some (username_length, src) \<Rightarrow>
     if unat username_length > PROTOHANDSHAKE_USERNAMEMAXLEN then Some None
     else if length src < unat username_length then Some None
     else if \<not> alloc 2 (unat username_length + 1) then Some None
     else do {
       name \<leftarrow> buf_read 0 (unat username_length) src;
       src \<leftarrow> buf_read (unat username_length) (length src - unat username_length) src;
       let result = result\<lparr>id_part2 := id2, username := Some (name @ [0]), signature_data_length := length src\<rparr>;
       if length src = 0 then Some (Some result)
       else do {
         flag \<leftarrow> buf_at 0 src;
         let src = (if signature_placeholder (version result) \<and> flag = 1 then drop 1 src else src);
         if \<not> alloc 3 (length src) then Some None
         else Some (Some (result\<lparr>signature_data := Some src, signature_data_length := length src\<rparr>))
       }
     }))})"

definition packet_read :: "(nat \<Rightarrow> nat \<Rightarrow> bool) \<Rightarrow> bytes option \<Rightarrow> p_handshake option" where
  "packet_read alloc src =
     do {
       part1 \<leftarrow> packet_read_part1 alloc src;
       (case part1 of
          None \<Rightarrow> Some p_handshake_zero
        | Some (result, src) \<Rightarrow>
            if login_intent (nextstate result) then do {
              part2 \<leftarrow> packet_read_part2 alloc result src;
              Some (case part2 of None \<Rightarrow> p_handshake_zero | Some result \<Rightarrow> result)
            }
            else Some result)
     }"

section \<open>Re-encoding\<close>

text \<open>The argument checks of \<open>packet_write\<close>: the lengths of address and user name, or a refusal.\<close>

definition packet_write_check :: "p_handshake \<Rightarrow> (nat \<times> nat) option option" where
  "packet_write_check src =
     (case address src of
        None \<Rightarrow> Some None
      | Some addr \<Rightarrow> do {
          address_size \<leftarrow> strlen addr;
          if address_size > PROTOHANDSHAKE_ADDRESSMAXLEN
             \<or> address_extra_length src > PROTOHANDSHAKE_ADDRESSMAXLEN - address_size
          then Some None
          else do {
            bad_extra \<leftarrow>
              (if address_extra_length src > 0 then
                 (case address_extra src of
                    None \<Rightarrow> Some True
                  | Some xs \<Rightarrow> do { b \<leftarrow> buf_at 0 xs; Some (b \<noteq> 0 \<and> b \<noteq> 0x3F) })
               else Some False);
            if bad_extra then Some None
            else if \<not> login_intent (nextstate src) then Some (Some (address_size, 0))
            else
              (case username src of
                 None \<Rightarrow> Some None
               | Some name \<Rightarrow> do {
                   username_length \<leftarrow> strlen name;
                   if username_length > PROTOHANDSHAKE_USERNAMEMAXLEN
                      \<or> (signature_data_length src > 0 \<and> signature_data src = None)
                      \<or> signature_data_length src > BUFSIZ - username_length - 8
                   then Some None
                   else Some (Some (address_size, username_length))
                 })
          }
        })"

text \<open>\<open>memcpy\<close> of \<open>n\<close> bytes from an object that may be absent to a destination.\<close>

definition memcpy_to :: "bytes \<times> nat \<Rightarrow> bytes option \<Rightarrow> nat \<Rightarrow> (bytes \<times> nat) option" where
  "memcpy_to = (\<lambda>(dst, off) src n.
     case src of
       None \<Rightarrow> None
     | Some s \<Rightarrow> do { xs \<leftarrow> buf_read 0 n s; dst' \<leftarrow> buf_write off xs dst; Some (dst', off + n) })"

definition packet_write_part1 :: "p_handshake \<Rightarrow> nat \<Rightarrow> (bytes \<times> nat) option" where
  "packet_write_part1 src address_size =
     do {
       let address_length = address_size + address_extra_length src;
       c \<leftarrow> int2varint (id_part1 src) (replicate BUFSIZ 0, 0);
       c \<leftarrow> int2varint (version src) c;
       c \<leftarrow> int2varint (of_nat address_length) c;
       c \<leftarrow> memcpy_to c (address src) address_size;
       c \<leftarrow> (if address_extra_length src > 0 then memcpy_to c (address_extra src) (address_extra_length src)
             else Some c);
       b \<leftarrow> protocol_uint16_write c (port src);
       int2varint (nextstate src) (b, snd c + 2)
     }"

definition packet_write_part2 :: "p_handshake \<Rightarrow> nat \<Rightarrow> (bytes \<times> nat) option" where
  "packet_write_part2 src username_length =
     do {
       c \<leftarrow> int2varint (id_part2 src) (replicate BUFSIZ 0, 0);
       if login_intent (nextstate src) then do {
         c \<leftarrow> int2varint (of_nat username_length) c;
         c \<leftarrow> memcpy_to c (username src) username_length;
         if signature_data_length src > 0 then do {
           c \<leftarrow> (if signature_placeholder (version src) then int2varint 1 c else Some c);
           memcpy_to c (signature_data src) (signature_data_length src)
         }
         else Some c
       }
       else Some c
     }"

definition packet_write ::
  "(nat \<Rightarrow> nat \<Rightarrow> bool) \<Rightarrow> bytes option \<Rightarrow> nat \<Rightarrow> p_handshake \<Rightarrow> (bytes option \<times> nat) option" where
  "packet_write alloc dst dst_capacity src =
     (case dst of
        None \<Rightarrow> Some (dst, 0)
      | Some d \<Rightarrow> do {
          checked \<leftarrow> packet_write_check src;
          (case checked of
             None \<Rightarrow> Some (dst, 0)
           | Some (address_size, username_length) \<Rightarrow>
               if \<not> alloc 0 BUFSIZ \<or> \<not> alloc 1 BUFSIZ then Some (dst, 0)
               else do {
                 (part1, size_part1) \<leftarrow> packet_write_part1 src address_size;
                 (part2, size_part2) \<leftarrow> packet_write_part2 src username_length;
                 if dst_capacity < varint_size (of_nat size_part1) + size_part1
                     + varint_size (of_nat size_part2) + size_part2
                 then Some (dst, 0)
                 else do {
                   c \<leftarrow> int2varint (of_nat size_part1) (d, 0);
                   c \<leftarrow> memcpy_to c (Some part1) size_part1;
                   c \<leftarrow> int2varint (of_nat size_part2) c;
                   c \<leftarrow> memcpy_to c (Some part2) size_part2;
                   Some (Some (fst c), snd c)
                 }
               })
        })"

section \<open>Encoding lemmas\<close>

lemma group_more_byte: "(ucast (v AND 0x7F :: u32) :: u8) OR 0x80 = ucast ((v AND 0x7F) OR 0x80)"
  unfolding mask7 bit7 by (rule bit_word_eqI) (auto simp: bit_simps simp del: push_bit_of_1)

lemma handshake_varint_loop_bytes: "handshake_varint_loop v acc = acc @ int2varint_bytes v"
proof (induction v acc rule: handshake_varint_loop.induct)
  case (1 v acc)
  then show ?case
    by (subst handshake_varint_loop.simps) (simp add: Let_def int2varint_bytes_rec [of v] group_more_byte)
qed

lemma varint_size_loop_bytes: "varint_size_loop v n + 1 = n + length (int2varint_bytes v)"
proof (induction v n rule: varint_size_loop.induct)
  case (1 v n)
  then show ?case
    by (subst varint_size_loop.simps) (simp add: Let_def int2varint_bytes_rec [of v])
qed

lemma varint_size_bytes: "varint_size v = length (int2varint_bytes v)"
  using varint_size_loop_bytes [of v 1] by (simp add: varint_size_def)

text \<open>
  An object \<open>d\<close> whose first bytes have been overwritten by \<open>p\<close>, with the cursor behind them. Every write
  at the cursor extends \<open>p\<close>.
\<close>

definition staged :: "bytes \<Rightarrow> bytes \<Rightarrow> bytes \<times> nat" where
  "staged d p = (p @ drop (length p) d, length p)"

named_theorems staging \<open>writes at a cursor\<close>

lemma staged_start [staging]: "(d, 0) = staged d []"
  by (simp add: staged_def)

lemma buf_write_staged:
  "length p + length xs \<le> length d \<Longrightarrow>
     buf_write (length p) xs (p @ drop (length p) d) = Some (fst (staged d (p @ xs)))"
  by (simp add: staged_def buf_simps add.commute)

lemma int2varint_staged [staging]:
  "length p + length (int2varint_bytes v) \<le> length d \<Longrightarrow>
     int2varint v (staged d p) = Some (staged d (p @ int2varint_bytes v))"
  by (simp add: int2varint_def staged_def [of _ p] buf_write_staged) (simp add: staged_def)

lemma memcpy_to_staged [staging]:
  "length p + n \<le> length d \<Longrightarrow> n \<le> length s \<Longrightarrow>
     memcpy_to (staged d p) (Some s) n = Some (staged d (p @ take n s))"
  by (simp add: memcpy_to_def staged_def [of _ p] buf_read_def buf_write_staged) (simp add: staged_def)

lemma uint16_write_staged [staging]:
  "length p + 2 \<le> length d \<Longrightarrow>
     protocol_uint16_write (staged d p) v = Some (fst (staged d (p @ protocol_uint16_bytes v)))"
  by (simp add: protocol_uint16_write_def staged_def [of _ p] buf_write_staged)

lemma snd_staged [staging]: "snd (staged d p) = length p"
  by (simp add: staged_def)

lemma staged_advance [staging]: "n = length p \<Longrightarrow> (fst (staged d p), n) = staged d p"
  by (simp add: staged_def)

lemma memcpy_pieces_staged:
  "length p + length (concat ps) \<le> length d \<Longrightarrow>
     memcpy_pieces (fst (staged d p)) (length p) ps = Some (fst (staged d (p @ concat ps)))"
proof (induction ps arbitrary: p)
  case (Cons x xs)
  then have "buf_write (length p) x (fst (staged d p)) = Some (fst (staged d (p @ x)))"
    by (simp add: staged_def [of _ p] buf_write_staged)
  with Cons.prems Cons.IH [of "p @ x"] show ?case by simp
qed simp

lemma handshake_varint_write_staged:
  assumes "cap \<le> length d" "length p \<le> cap"
  shows "handshake_varint_write (fst (staged d p), length p, cap - length p) v =
    (let p' = p @ int2varint_bytes v in
     if length p' \<le> cap then Some (True, fst (staged d p'), length p', cap - length p')
     else Some (False, fst (staged d p), length p, cap - length p))"
  using assms
  by (auto simp: handshake_varint_write_def Let_def varint_size_bytes handshake_varint_loop_bytes
      staged_def [of _ p] buf_write_staged)

section \<open>The replies on the wire\<close>

text \<open>A login or status packet with one JSON string: length, packet id 0, string length, string.\<close>

definition json_frame :: "bytes \<Rightarrow> bytes" where
  "json_frame js = int2varint_bytes 0 @ int2varint_bytes (of_nat (length js)) @ js"

definition json_packet :: "bytes \<Rightarrow> bytes" where
  "json_packet js = int2varint_bytes (of_nat (length (json_frame js))) @ json_frame js"

lemma length_json_frame:
  "length (json_frame js) = 1 + length (int2varint_bytes (of_nat (length js))) + length js"
  by (simp add: json_frame_def int2varint_bytes_small)

lemma handshake_json_write_refused:
  assumes "\<not> (length (json_frame js) \<le> UINT32_MAX \<and> length (json_packet js) \<le> cap)"
  shows "handshake_json_write d cap (length js) pieces = Some (d, 0)"
  using assms unfolding json_packet_def length_append length_json_frame handshake_json_write_def Let_def varint_size_bytes
    de_Morgan_conj not_le
  by (elim disjE) (simp_all only: if_True if_cancel simp_thms)

lemma handshake_json_write_exact:
  assumes "cap \<le> length d" and js: "concat pieces = js"
    and fits: "length (json_frame js) \<le> UINT32_MAX" "length (json_packet js) \<le> cap"
  shows "handshake_json_write d cap (length js) pieces =
    Some (fst (staged d (json_packet js)), length (json_packet js))"
proof -
  define p1 where "p1 = int2varint_bytes (of_nat (length (json_frame js)))"
  define p2 where "p2 = p1 @ int2varint_bytes 0"
  define p3 where "p3 = p2 @ int2varint_bytes (of_nat (length js))"
  have p: "json_packet js = p3 @ js"
    by (simp add: p3_def p2_def p1_def json_packet_def json_frame_def)
  have le: "length p1 \<le> cap" "length p2 \<le> cap" "length p3 \<le> cap"
    using fits(2) by (simp_all add: p p3_def p2_def)
  note W = handshake_varint_write_staged [OF assms(1)]
  have w1: "handshake_varint_write (d, 0, cap) (of_nat (length (json_frame js))) =
      Some (True, fst (staged d p1), length p1, cap - length p1)"
    using W [of "[]" "of_nat (length (json_frame js))"] le
    by (simp add: staged_def [of _ "[]"] p1_def Let_def)
  have w2: "handshake_varint_write (fst (staged d p1), length p1, cap - length p1) 0 =
      Some (True, fst (staged d p2), length p2, cap - length p2)"
    using W [of p1 0] le by (simp add: p2_def Let_def)
  have w3: "handshake_varint_write (fst (staged d p2), length p2, cap - length p2) (of_nat (length js)) =
      Some (True, fst (staged d p3), length p3, cap - length p3)"
    using W [of p2 "of_nat (length js)"] le by (simp add: p3_def Let_def)
  have m: "memcpy_pieces (fst (staged d p3)) (length p3) pieces = Some (fst (staged d (p3 @ js)))"
    using memcpy_pieces_staged [of p3 pieces d] js fits(2) assms(1) p by simp
  have f: "1 + length (int2varint_bytes (of_nat (length js))) + length js = length (json_frame js)"
    by (simp add: length_json_frame)
  have l: "length (int2varint_bytes v) \<le> 5" for v
    by (rule int2varint_bytes_length)
  have g: "\<not> length js > UINT32_MAX" "\<not> length js > SIZE_MAX - length (int2varint_bytes (of_nat (length js))) - 1"
    "\<not> length (json_frame js) > UINT32_MAX"
    "\<not> (length (json_frame js) > SIZE_MAX - length p1 \<or> cap < length p1 + length (json_frame js))"
    using fits l [of "of_nat (length js)"] l [of "of_nat (length (json_frame js))"] f p
    by (simp_all add: json_packet_def p1_def)
  have r: "\<not> cap - length p3 < length js"
    using fits(2) p by simp
  show ?thesis
    unfolding handshake_json_write_def Let_def varint_size_bytes f p1_def [symmetric]
    by (simp only: g r if_False w1 w2 w3 m bind.bind_lunit prod.case fst_conv not_True_eq_False simp_thms p)
      (simp add: json_packet_def p1_def [symmetric] p [symmetric])
qed

lemma length_decimal_u32: "0 < length (decimal (unat (v :: u32)))" "length (decimal (unat (v :: u32))) \<le> 10"
proof -
  have "unat v < 10 ^ 10"
    by (rule order.strict_trans2 [OF unsigned_less]) simp
  then show "0 < length (decimal (unat v))" "length (decimal (unat v)) \<le> 10"
    using length_decimal [of "unat v" 10] by simp_all
qed

definition kickreason_json :: "bytes \<Rightarrow> bytes" where
  "kickreason_json message = kickreason_json_prefix @ message @ kickreason_json_suffix"

definition motd_json :: "varint_t \<Rightarrow> bytes \<Rightarrow> bytes \<Rightarrow> bytes" where
  "motd_json ver message icon =
     motd_version_prefix @ decimal (unat ver) @ motd_players_middle @ message
       @ motd_favicon_prefix @ icon @ motd_json_suffix"

text \<open>The outcome of a reply: the packet at the front of the destination, or the untouched destination.\<close>

definition reply :: "bytes \<Rightarrow> nat \<Rightarrow> bytes \<Rightarrow> bytes \<times> nat" where
  "reply d cap js =
     (if length (json_frame js) \<le> UINT32_MAX \<and> length (json_packet js) \<le> cap
      then (json_packet js @ drop (length (json_packet js)) d, length (json_packet js)) else (d, 0))"

lemma handshake_json_write_reply:
  assumes "cap \<le> length d" "concat pieces = js" "n = length js"
  shows "handshake_json_write d cap n pieces = Some (reply d cap js)"
  using handshake_json_write_exact [OF assms(1,2)] handshake_json_write_refused [of js cap d pieces] assms(3)
  by (simp add: reply_def staged_def)

lemma make_kickreason_reply:
  assumes "cap \<le> length d" "0 \<notin> set s" "length s < SIZE_MAX - 64"
  shows "make_kickreason (Some d) cap (Some (s @ 0 # r)) = Some (map_prod Some id (reply d cap (kickreason_json s)))"
proof -
  have len: "length kickreason_json_prefix = 19" "length kickreason_json_suffix = 14"
    by (simp_all add: kickreason_json_prefix_def kickreason_json_suffix_def ascii_def)
  have "reply d 0 (kickreason_json s) = (d, 0)"
    using varint.enc_length_pos by (simp add: reply_def json_packet_def)
  moreover have "handshake_json_write d cap (length kickreason_json_prefix + length s + length kickreason_json_suffix)
      [kickreason_json_prefix, s, kickreason_json_suffix] = Some (reply d cap (kickreason_json s))"
    by (rule handshake_json_write_reply [OF assms(1)]) (simp_all add: kickreason_json_def)
  ultimately show ?thesis
    using assms len
    by (auto simp: make_kickreason_def buf_simps split: prod.splits)
qed

lemma make_motd_reply:
  assumes "cap \<le> length d" "0 \<notin> set s" "0 \<notin> set icon" "length s + length icon < SIZE_MAX - 256"
    and icon: "(case favicon of None \<Rightarrow> builtin | Some f \<Rightarrow> f) = icon @ 0 # r'"
  shows "make_motd builtin (Some d) cap (Some (s @ 0 # r)) ver favicon =
    Some (map_prod Some id (reply d cap (motd_json ver s icon)))"
proof -
  let ?fixed = "length motd_version_prefix + length motd_players_middle + length motd_favicon_prefix + length motd_json_suffix"
  have len: "?fixed = 139"
    by (simp add: motd_version_prefix_def motd_players_middle_def motd_favicon_prefix_def motd_json_suffix_def ascii_def)
  have "reply d 0 (motd_json ver s icon) = (d, 0)"
    using varint.enc_length_pos by (simp add: reply_def json_packet_def)
  moreover have "handshake_json_write d cap (?fixed + (length s + length (decimal (unat ver)) + length icon))
      [motd_version_prefix, decimal (unat ver), motd_players_middle, s, motd_favicon_prefix, icon, motd_json_suffix]
      = Some (reply d cap (motd_json ver s icon))"
    by (rule handshake_json_write_reply [OF assms(1)]) (simp_all add: motd_json_def)
  ultimately show ?thesis
    using assms len length_decimal_u32 [of ver] icon
    by (auto simp: make_motd_def Let_def buf_simps split: prod.splits option.splits)
qed

section \<open>The rewritten handshake on the wire\<close>

text \<open>The texts and data of a record, and the two frames the specification prescribes for it.\<close>

definition text_of :: "bytes option \<Rightarrow> bytes" where
  "text_of x = (case x of None \<Rightarrow> [] | Some b \<Rightarrow> cstr b)"

definition data_of :: "bytes option \<Rightarrow> nat \<Rightarrow> bytes" where
  "data_of x n = (case x of None \<Rightarrow> [] | Some b \<Rightarrow> take n b)"

definition wire_address :: "p_handshake \<Rightarrow> bytes" where
  "wire_address h = text_of (address h) @ data_of (address_extra h) (address_extra_length h)"

definition wire_signature :: "p_handshake \<Rightarrow> bytes" where
  "wire_signature h =
     (if signature_data_length h = 0 then []
      else (if signature_placeholder (version h) then [1] else [])
        @ data_of (signature_data h) (signature_data_length h))"

definition handshake_frame :: "p_handshake \<Rightarrow> bytes" where
  "handshake_frame h =
     int2varint_bytes (id_part1 h) @ int2varint_bytes (version h)
       @ int2varint_bytes (of_nat (length (wire_address h))) @ wire_address h
       @ protocol_uint16_bytes (port h) @ int2varint_bytes (nextstate h)"

definition login_frame :: "p_handshake \<Rightarrow> bytes" where
  "login_frame h =
     int2varint_bytes (id_part2 h)
       @ (if login_intent (nextstate h)
          then int2varint_bytes (of_nat (length (text_of (username h)))) @ text_of (username h) @ wire_signature h
          else [])"

definition framed :: "bytes \<Rightarrow> bytes" where
  "framed xs = int2varint_bytes (of_nat (length xs)) @ xs"

definition handshake_wire :: "p_handshake \<Rightarrow> bytes" where
  "handshake_wire h = framed (handshake_frame h) @ framed (login_frame h)"

text \<open>
  The objects a record points to are what the code takes them for: texts are terminated, data objects
  have the recorded size.
\<close>

definition handshake_objects :: "p_handshake \<Rightarrow> bool" where
  "handshake_objects h \<longleftrightarrow>
     (case address h of None \<Rightarrow> True | Some a \<Rightarrow> 0 \<in> set a) \<and>
     (case username h of None \<Rightarrow> True | Some u \<Rightarrow> 0 \<in> set u) \<and>
     (case address_extra h of None \<Rightarrow> True | Some x \<Rightarrow> length x = address_extra_length h) \<and>
     (case signature_data h of None \<Rightarrow> True | Some x \<Rightarrow> length x = signature_data_length h)"

text \<open>Appended bytes begin with the separator that \<open>packet_read\<close> recognises.\<close>

definition extra_marked :: "p_handshake \<Rightarrow> bool" where
  "extra_marked h \<longleftrightarrow>
     address_extra_length h = 0 \<or> (\<exists>x \<in> set_option (address_extra h). x \<noteq> [] \<and> hd x \<in> {0, 0x3F})"

text \<open>The limits \<open>packet_write\<close> enforces.\<close>

definition handshake_limits :: "p_handshake \<Rightarrow> bool" where
  "handshake_limits h \<longleftrightarrow>
     address h \<noteq> None
     \<and> length (text_of (address h)) + address_extra_length h \<le> PROTOHANDSHAKE_ADDRESSMAXLEN
     \<and> extra_marked h
     \<and> (\<not> login_intent (nextstate h)
        \<or> username h \<noteq> None
          \<and> length (text_of (username h)) \<le> PROTOHANDSHAKE_USERNAMEMAXLEN
          \<and> (signature_data_length h = 0 \<or> signature_data h \<noteq> None)
          \<and> length (text_of (username h)) + signature_data_length h + 8 \<le> BUFSIZ)"

lemma strlen_text: "0 \<in> set b \<Longrightarrow> strlen b = Some (length (text_of (Some b)))"
  by (simp add: strlen_def text_of_def cstr_def)

lemma take_text: "take (length (cstr b)) b = cstr b"
  unfolding cstr_def by (metis takeWhile_eq_take)

lemma length_cstr: "length (cstr b) \<le> length b"
  by (simp add: cstr_def length_takeWhile_le)

lemma extra_check:
  assumes "case address_extra h of None \<Rightarrow> True | Some x \<Rightarrow> length x = address_extra_length h"
  shows "(if address_extra_length h > 0 then
       (case address_extra h of None \<Rightarrow> Some True | Some xs \<Rightarrow> do { b \<leftarrow> buf_at 0 xs; Some (b \<noteq> 0 \<and> b \<noteq> 0x3F) })
     else Some False) = Some (\<not> extra_marked h)"
proof (cases "address_extra h")
  case None
  then show ?thesis by (simp add: extra_marked_def)
next
  case (Some x)
  with assms show ?thesis
    by (cases x) (simp_all add: extra_marked_def buf_at_def)
qed

lemma packet_write_check_limits:
  assumes "handshake_objects h"
  shows "packet_write_check h = Some (if handshake_limits h then
    Some (length (text_of (address h)), if login_intent (nextstate h) then length (text_of (username h)) else 0) else None)"
proof (cases "address h")
  case None
  then show ?thesis by (simp add: packet_write_check_def handshake_limits_def)
next
  case addr: (Some a)
  have len: "strlen a = Some (length (text_of (address h)))"
    using assms addr by (simp add: handshake_objects_def strlen_text)
  have limit: "(length (text_of (address h)) > PROTOHANDSHAKE_ADDRESSMAXLEN
      \<or> address_extra_length h > PROTOHANDSHAKE_ADDRESSMAXLEN - length (text_of (address h))) \<longleftrightarrow>
      \<not> length (text_of (address h)) + address_extra_length h \<le> PROTOHANDSHAKE_ADDRESSMAXLEN"
    by auto
  have extra: "case address_extra h of None \<Rightarrow> True | Some x \<Rightarrow> length x = address_extra_length h"
    using assms by (simp add: handshake_objects_def)
  have head: "packet_write_check h =
    (if \<not> length (text_of (address h)) + address_extra_length h \<le> PROTOHANDSHAKE_ADDRESSMAXLEN then Some None
     else if \<not> extra_marked h then Some None
     else if \<not> login_intent (nextstate h) then Some (Some (length (text_of (address h)), 0))
     else (case username h of None \<Rightarrow> Some None | Some name \<Rightarrow> do {
         n \<leftarrow> strlen name;
         if n > PROTOHANDSHAKE_USERNAMEMAXLEN \<or> (signature_data_length h > 0 \<and> signature_data h = None)
           \<or> signature_data_length h > BUFSIZ - n - 8
         then Some None else Some (Some (length (text_of (address h)), n)) }))"
    by (simp only: packet_write_check_def addr [THEN arg_cong, of "\<lambda>x. case x of None \<Rightarrow> _ | Some a \<Rightarrow> _ a"]
      option.case len bind.bind_lunit limit [unfolded addr] extra_check [OF extra] addr)
  show ?thesis
  proof (cases "username h")
    case None
    with addr show ?thesis by (simp add: head handshake_limits_def)
  next
    case (Some u)
    then have "strlen u = Some (length (text_of (username h)))"
      using assms by (simp add: handshake_objects_def strlen_text)
    with Some addr show ?thesis
      by (auto simp: head handshake_limits_def PROTOHANDSHAKE_USERNAMEMAXLEN_def)
  qed
qed

lemma data_of_0 [simp]: "data_of x 0 = []"
  by (simp add: data_of_def split: option.split)

lemma data_of_length:
  assumes "handshake_objects h" "handshake_limits h"
  shows "length (data_of (address_extra h) (address_extra_length h)) = address_extra_length h"
    and "login_intent (nextstate h) \<Longrightarrow>
      length (data_of (signature_data h) (signature_data_length h)) = signature_data_length h"
  using assms
  by (auto simp: data_of_def handshake_objects_def handshake_limits_def extra_marked_def split: option.splits)

lemma packet_write_part1_exact:
  assumes ok: "handshake_objects h" "handshake_limits h"
  shows "packet_write_part1 h (length (text_of (address h))) =
    Some (staged (replicate BUFSIZ 0) (handshake_frame h))"
proof -
  obtain a where a: "address h = Some a"
    using ok by (auto simp: handshake_limits_def)
  have l: "length (int2varint_bytes v) \<le> 5" for v
    by (rule int2varint_bytes_length)
  have n: "length (wire_address h) \<le> 3072"
    "length (wire_address h) = length (text_of (address h)) + address_extra_length h"
    using ok data_of_length(1) [OF ok]
    by (simp_all add: wire_address_def handshake_limits_def PROTOHANDSHAKE_ADDRESSMAXLEN_def)
  show ?thesis
  proof (cases "address_extra_length h = 0")
    case True
    then show ?thesis
      using n l [of "id_part1 h"] l [of "version h"] l [of "nextstate h"] l [of "of_nat (length (wire_address h))"] a
        length_cstr [of a] take_text [of a]
      by (simp add: packet_write_part1_def handshake_frame_def staging text_of_def wire_address_def)
  next
    case False
    then obtain x where x: "address_extra h = Some x" "length x = address_extra_length h"
      using ok by (auto simp: handshake_limits_def handshake_objects_def extra_marked_def)
    with False show ?thesis
      using n l [of "id_part1 h"] l [of "version h"] l [of "nextstate h"] l [of "of_nat (length (wire_address h))"] a
        length_cstr [of a] take_text [of a]
      by (simp add: packet_write_part1_def handshake_frame_def staging text_of_def wire_address_def data_of_def)
  qed
qed

lemma packet_write_part2_exact:
  assumes ok: "handshake_objects h" "handshake_limits h"
  shows "packet_write_part2 h (if login_intent (nextstate h) then length (text_of (username h)) else 0) =
    Some (staged (replicate BUFSIZ 0) (login_frame h))"
proof -
  have l: "length (int2varint_bytes v) \<le> 5" for v
    by (rule int2varint_bytes_length)
  show ?thesis
  proof (cases "login_intent (nextstate h)")
    case False
    then show ?thesis
      using l [of "id_part2 h"] by (simp add: packet_write_part2_def login_frame_def staging)
  next
    case True
    with ok obtain u where u: "username h = Some u" "length (cstr u) \<le> 128"
        "length (cstr u) + signature_data_length h + 8 \<le> BUFSIZ"
      by (auto simp: handshake_limits_def text_of_def PROTOHANDSHAKE_USERNAMEMAXLEN_def)
    have "length (int2varint_bytes (of_nat (length (cstr u)))) \<le> 2"
      using u(2) by (intro int2varint_bytes_length2) (simp add: unat_of_nat)
    moreover have "int2varint_bytes 1 = [1]"
      by (simp add: int2varint_bytes_small)
    moreover have "signature_data_length h > 0 \<Longrightarrow>
        \<exists>x. signature_data h = Some x \<and> length x = signature_data_length h"
      using ok True by (auto simp: handshake_limits_def handshake_objects_def)
    ultimately show ?thesis
      using True u l [of "id_part2 h"] length_cstr [of u] take_text [of u]
      by (auto simp: packet_write_part2_def login_frame_def staging text_of_def data_of_def wire_signature_def)
  qed
qed

lemma packet_write_exact:
  assumes ok: "handshake_objects h" and cap: "cap \<le> length d"
  shows "packet_write alloc (Some d) cap h =
    Some (map_prod Some id
      (if handshake_limits h \<and> alloc 0 BUFSIZ \<and> alloc 1 BUFSIZ \<and> length (handshake_wire h) \<le> cap
       then staged d (handshake_wire h) else (d, 0)))"
proof (cases "handshake_limits h \<and> alloc 0 BUFSIZ \<and> alloc 1 BUFSIZ")
  case True
  let ?f = "handshake_frame h" and ?g = "login_frame h"
  have take: "take (length p) (fst (staged (replicate BUFSIZ 0) p)) = p" "snd (staged (replicate BUFSIZ 0) p) = length p"
    "length p \<le> length (fst (staged (replicate BUFSIZ 0) p))" for p
    by (simp_all add: staged_def)
  have "packet_write alloc (Some d) cap h =
    (if cap < length (handshake_wire h) then Some (Some d, 0)
     else do {
       c \<leftarrow> int2varint (of_nat (length ?f)) (d, 0);
       c \<leftarrow> memcpy_to c (Some (fst (staged (replicate BUFSIZ 0) ?f))) (length ?f);
       c \<leftarrow> int2varint (of_nat (length ?g)) c;
       c \<leftarrow> memcpy_to c (Some (fst (staged (replicate BUFSIZ 0) ?g))) (length ?g);
       Some (Some (fst c), snd c) })"
    using True ok
    by (simp add: packet_write_def packet_write_check_limits packet_write_part1_exact packet_write_part2_exact
        case_prod_beta take(2) varint_size_bytes handshake_wire_def framed_def add.assoc)
  moreover have "length (handshake_wire h) \<le> cap \<Longrightarrow> do {
       c \<leftarrow> int2varint (of_nat (length ?f)) (d, 0);
       c \<leftarrow> memcpy_to c (Some (fst (staged (replicate BUFSIZ 0) ?f))) (length ?f);
       c \<leftarrow> int2varint (of_nat (length ?g)) c;
       memcpy_to c (Some (fst (staged (replicate BUFSIZ 0) ?g))) (length ?g) } = Some (staged d (handshake_wire h))"
    using cap by (simp add: staging take handshake_wire_def framed_def)
  ultimately show ?thesis
    using True by (auto simp: bind_eq_Some_conv prod_eq_iff)
next
  case False
  then show ?thesis
    using ok by (auto simp: packet_write_def packet_write_check_limits split: option.splits)
qed

section \<open>Reading a rewritten handshake back\<close>

text \<open>
  The records \<open>packet_read\<close> makes: terminated texts without the separators, absent objects for empty data,
  a login part exactly when the intent asks for one.
\<close>

definition handshake_canonical :: "p_handshake \<Rightarrow> bool" where
  "handshake_canonical h \<longleftrightarrow>
     handshake_objects h \<and> handshake_limits h \<and> wire_address h \<noteq> []
     \<and> address h = Some (text_of (address h) @ [0]) \<and> 0x3F \<notin> set (text_of (address h))
     \<and> (address_extra_length h = 0 \<longrightarrow> address_extra h = None)
     \<and> (signature_data_length h = 0 \<longrightarrow> signature_data h = None)
     \<and> (if login_intent (nextstate h) then username h = Some (text_of (username h) @ [0])
        else username h = None \<and> signature_data h = None \<and> signature_data_length h = 0 \<and> id_part2 h = 0)"

lemma zero_notin_text [simp]: "0 \<notin> set (text_of x)"
  by (auto simp: text_of_def cstr_def dest: set_takeWhileD split: option.splits)

lemma packet_read_extra_split:
  assumes "0 \<notin> set a" "0x3F \<notin> set a" "x = [] \<or> hd x \<in> {0, 0x3F}"
  shows "packet_read_extra (a @ x) = (if x = [] then None else Some (length a))"
proof (cases x)
  case Nil
  then have "memchr 0 (a @ x) = None" "memchr 0x3F (a @ x) = None"
    using assms by (simp_all add: memchr_None_iff)
  then show ?thesis using Nil by (simp add: packet_read_extra_def)
next
  case (Cons b y)
  then show ?thesis
    using assms by (auto simp: packet_read_extra_def memchr_append_fresh split: option.splits)
qed

lemma packet_read_address_wire:
  assumes "0 \<notin> set a" "0x3F \<notin> set a" "x = [] \<or> hd x \<in> {0, 0x3F}" "a @ x \<noteq> []"
    and "length (a @ x) \<le> PROTOHANDSHAKE_ADDRESSMAXLEN" "\<And>i n. alloc i n"
  shows "packet_read_address alloc r ((a @ x) @ rest) (length (a @ x)) =
    Some (Some (if x = [] then r\<lparr>address := Some (a @ [0])\<rparr>
      else r\<lparr>address := Some (a @ [0]), address_extra := Some x, address_extra_length := length x\<rparr>, rest))"
  using assms(4-) packet_read_extra_split [OF assms(1-3)]
  by (cases "x = []") (simp_all add: packet_read_address_def buf_read_def)

text \<open>What the first frame contributes to the record.\<close>

definition handshake_head :: "p_handshake \<Rightarrow> p_handshake" where
  "handshake_head h =
     h\<lparr>id_part2 := 0, username := None, signature_data := None, signature_data_length := 0\<rparr>"

lemma canonical_extra:
  assumes "handshake_canonical h"
  defines "x \<equiv> data_of (address_extra h) (address_extra_length h)"
  shows "x = [] \<or> hd x \<in> {0, 0x3F}" "length x = address_extra_length h"
    "address_extra h = (if x = [] then None else Some x)"
  using assms
  by (auto simp: handshake_canonical_def handshake_limits_def handshake_objects_def extra_marked_def data_of_def
      split: option.splits)

lemma framed_read:
  assumes "length f \<le> BUFSIZ + 3"
  shows "snd (varint2int (Some (framed f @ rest))) = Some (of_nat (length f), f @ rest)"
    "unat (of_nat (length f) :: u32) = length f"
  using assms by (simp_all add: framed_def varint2int_enc unat_of_nat)

lemma length_frames:
  assumes ok: "handshake_objects h" "handshake_limits h"
  shows "length (handshake_frame h) \<le> BUFSIZ" "length (login_frame h) \<le> BUFSIZ + 3"
proof -
  have l: "length (int2varint_bytes v) \<le> 5" for v
    by (rule int2varint_bytes_length)
  have "length (wire_address h) \<le> 3072"
    using ok data_of_length(1) [OF ok]
    by (simp add: wire_address_def handshake_limits_def PROTOHANDSHAKE_ADDRESSMAXLEN_def)
  then show "length (handshake_frame h) \<le> BUFSIZ"
    using l [of "id_part1 h"] l [of "version h"] l [of "nextstate h"] l [of "of_nat (length (wire_address h))"]
    by (simp add: handshake_frame_def)
  show "length (login_frame h) \<le> BUFSIZ + 3"
    using ok data_of_length(2) [OF ok] l [of "id_part2 h"] l [of "of_nat (length (text_of (username h)))"]
    by (auto simp: login_frame_def wire_signature_def handshake_limits_def)
qed

lemma packet_read_part1_wire:
  assumes c: "handshake_canonical h" and al: "\<And>i n. alloc i n"
  shows "packet_read_part1 alloc (Some (framed (handshake_frame h) @ behind)) = Some (Some (handshake_head h, behind))"
proof -
  let ?x = "data_of (address_extra h) (address_extra_length h)" and ?a = "text_of (address h)"
  have ok: "handshake_objects h" "handshake_limits h"
    using c by (simp_all add: handshake_canonical_def)
  have w: "wire_address h = ?a @ ?x"
    by (simp add: wire_address_def)
  have len: "length (wire_address h) \<le> PROTOHANDSHAKE_ADDRESSMAXLEN"
    using ok data_of_length(1) [OF ok] by (simp add: w handshake_limits_def)
  then have n: "unat (of_nat (length (wire_address h)) :: u32) = length (wire_address h)"
    by (simp add: unat_of_nat PROTOHANDSHAKE_ADDRESSMAXLEN_def)
  have "packet_read_address alloc r (wire_address h @ rest) (length (wire_address h)) =
    Some (Some (r\<lparr>address := address h, address_extra := address_extra h,
      address_extra_length := address_extra_length h\<rparr>, rest))" if "address_extra r = None" "address_extra_length r = 0" for r rest
    unfolding w using c len that canonical_extra [OF c]
    by (subst packet_read_address_wire) (auto simp: w handshake_canonical_def al)
  note addr = this
  have f: "handshake_frame h = int2varint_bytes (id_part1 h) @ int2varint_bytes (version h)
       @ int2varint_bytes (of_nat (length (wire_address h))) @ wire_address h
       @ protocol_uint16_bytes (port h) @ int2varint_bytes (nextstate h)"
    by (rule handshake_frame_def)
  have u: "protocol_uint16_read (protocol_uint16_bytes (port h) @ int2varint_bytes (nextstate h)) 0 = Some (port h)"
    using uint16_read_write [of 0 "[]"] by simp
  have d: "buf_read 2 (length (int2varint_bytes (nextstate h))) (protocol_uint16_bytes (port h) @ int2varint_bytes (nextstate h)) = Some (int2varint_bytes (nextstate h))"
    by (simp add: buf_read_def)
  have e: "snd (varint2int (Some (int2varint_bytes (nextstate h)))) = Some (nextstate h, [])"
    using varint2int_enc [of "nextstate h" "[]"] by simp
  show ?thesis
    using framed_read [of "handshake_frame h"] length_frames(1) [OF ok]
    by (simp add: packet_read_part1_def buf_read_append) (simp add: f varint2int_enc n addr u d e p_handshake_zero_def handshake_head_def)
qed

lemma packet_read_part2_wire:
  assumes c: "handshake_canonical h" and "login_intent (nextstate h)" and al: "\<And>i n. alloc i n"
  shows "packet_read_part2 alloc (handshake_head h) (framed (login_frame h) @ behind) = Some (Some h)"
proof -
  let ?u = "text_of (username h)" and ?s = "data_of (signature_data h) (signature_data_length h)"
  have ok: "handshake_objects h" "handshake_limits h"
    using c by (simp_all add: handshake_canonical_def)
  have len: "length ?u \<le> 128" and s: "length ?s = signature_data_length h"
    and sig: "signature_data h = (if ?s = [] then None else Some ?s)"
    using assms ok data_of_length(2) [OF ok]
    by (auto simp: handshake_limits_def PROTOHANDSHAKE_USERNAMEMAXLEN_def handshake_canonical_def data_of_def handshake_objects_def
        split: option.splits)
  then have n: "unat (of_nat (length ?u) :: u32) = length ?u"
    by (simp add: unat_of_nat)
  have f: "login_frame h = int2varint_bytes (id_part2 h) @ int2varint_bytes (of_nat (length ?u)) @ ?u @ wire_signature h"
    using assms by (simp add: login_frame_def)
  have un: "username h = Some (?u @ [0])"
    using assms by (simp add: handshake_canonical_def)
  show ?thesis
    using framed_read [OF length_frames(2) [OF ok]] len s sig un
    apply (simp add: packet_read_part2_def buf_read_append)
    apply (simp add: f varint2int_enc n al buf_read_def PROTOHANDSHAKE_USERNAMEMAXLEN_def handshake_head_def)
    apply (cases ?s; cases h)
     apply (simp_all add: wire_signature_def buf_at_def Let_def al)
    done
qed

lemma packet_read_wire:
  assumes c: "handshake_canonical h" and al: "\<And>i n. alloc i n"
  shows "packet_read alloc (Some (handshake_wire h @ behind)) = Some h"
proof (cases "login_intent (nextstate h)")
  case True
  then show ?thesis
    using packet_read_part1_wire [OF c al, where behind = "framed (login_frame h) @ behind"] packet_read_part2_wire [OF c True al, where behind = behind]
    by (simp add: packet_read_def handshake_wire_def handshake_head_def)
next
  case False
  then have "handshake_head h = h"
    using c by (cases h) (simp add: handshake_head_def handshake_canonical_def)
  with False show ?thesis
    using packet_read_part1_wire [OF c al, where behind = "framed (login_frame h) @ behind"]
    by (simp add: packet_read_def handshake_wire_def)
qed

section \<open>Parsing is memory safe and yields proper objects\<close>

definition address_parsed :: "p_handshake \<Rightarrow> bool" where
  "address_parsed h \<longleftrightarrow>
     handshake_objects h \<and> address h = Some (text_of (address h) @ [0]) \<and> 0x3F \<notin> set (text_of (address h))
     \<and> extra_marked h \<and> 0 < length (text_of (address h)) + address_extra_length h
     \<and> length (text_of (address h)) + address_extra_length h \<le> PROTOHANDSHAKE_ADDRESSMAXLEN"

lemma packet_read_extra_sound:
  assumes "packet_read_extra f = e"
  shows "case e of
      None \<Rightarrow> 0 \<notin> set f \<and> 0x3F \<notin> set f
    | Some n \<Rightarrow> n < length f \<and> f ! n \<in> {0, 0x3F} \<and> 0 \<notin> set (take n f) \<and> 0x3F \<notin> set (take n f)"
proof -
  have sub: "n \<le> m \<Longrightarrow> b \<notin> set (take m f) \<Longrightarrow> b \<notin> set (take n f)" for n m b
    by (metis set_take_subset_set_take subsetD)
  have "m < length f \<Longrightarrow> b \<notin> set f \<Longrightarrow> b \<notin> set (take m f)" for m b
    by (metis in_set_takeD)
  then show ?thesis
    using assms memchr_Some [of 0 f] memchr_Some [of "0x3F" f] sub sub [OF less_imp_le]
    by (cases "memchr 0 f"; cases "memchr 0x3F f")
      (auto simp: packet_read_extra_def memchr_None_iff not_less split: if_splits option.splits)
qed

lemma text_of_terminated: "0 \<notin> set a \<Longrightarrow> text_of (Some (a @ [0])) = a"
  using cstr_append [of a "[]"] by (simp add: text_of_def)

lemma packet_read_address_safe:
  assumes r: "address_extra r = None" "address_extra_length r = 0" "username r = None" "signature_data r = None"
  shows "packet_read_address alloc r src n = Some None \<or>
    (\<exists>r' rest. packet_read_address alloc r src n = Some (Some (r', rest)) \<and> address_parsed r'
       \<and> username r' = None \<and> signature_data r' = None)"
proof (cases "n > PROTOHANDSHAKE_ADDRESSMAXLEN \<or> n = 0 \<or> length src < n")
  case True
  then show ?thesis by (auto simp: packet_read_address_def)
next
  case False
  define f where "f = take n src"
  have f: "buf_read 0 n src = Some f" "length f = n" "buf_read n (length src - n) src = Some (drop n src)"
    using False by (simp_all add: buf_read_def f_def)
  show ?thesis
  proof (cases "packet_read_extra f")
    case None
    then have "0 \<notin> set f" "0x3F \<notin> set f"
      using packet_read_extra_sound [of f] by simp_all
    then show ?thesis
      using None False f r
      by (auto simp: packet_read_address_def address_parsed_def handshake_objects_def extra_marked_def
          text_of_terminated)
  next
    case (Some e)
    then have e: "e < n" "f ! e \<in> {0, 0x3F}" "0 \<notin> set (take e f)" "0x3F \<notin> set (take e f)"
      using packet_read_extra_sound [of f] f by simp_all
    have b: "buf_read 0 e src = Some (take e f)" "buf_read e (n - e) src = Some (drop e f)"
      using e False by (simp_all add: buf_read_def f_def take_drop min_def)
    have h: "drop e f \<noteq> []" "hd (drop e f) = f ! e"
      using e f by (simp_all add: hd_drop_conv_nth)
    from e b h show ?thesis
      using Some False f r
      by (auto simp: packet_read_address_def address_parsed_def handshake_objects_def extra_marked_def
          text_of_terminated)
  qed
qed

lemma packet_read_part1_safe:
  "packet_read_part1 alloc src = Some None \<or>
    (\<exists>r rest. packet_read_part1 alloc src = Some (Some (r, rest)) \<and> address_parsed r
       \<and> username r = None \<and> signature_data r = None)"
proof -
  have safe: "packet_read_address alloc (p_handshake_zero\<lparr>id_part1 := i, version := v\<rparr>) s n = Some None \<or>
    (\<exists>r' rest. packet_read_address alloc (p_handshake_zero\<lparr>id_part1 := i, version := v\<rparr>) s n = Some (Some (r', rest))
      \<and> address_parsed r' \<and> username r' = None \<and> signature_data r' = None)" for i v s n
    by (rule packet_read_address_safe) (simp_all add: p_handshake_zero_def)
  have keep: "address_parsed (r\<lparr>port := p, nextstate := m\<rparr>) = address_parsed r" for r p m
    by (simp add: address_parsed_def handshake_objects_def extra_marked_def cong: option.case_cong)
  have port: "\<not> length s < 2 \<Longrightarrow> \<exists>p. protocol_uint16_read s 0 = Some p" for s
    using uint16_read_defined [of 0 s] by simp
  show ?thesis
  proof (cases "\<exists>size src1 i s1 v s2 n s3. snd (varint2int src) = Some (size, src1) \<and> \<not> length src1 < unat size
      \<and> snd (varint2int (Some (take (unat size) src1))) = Some (i, s1)
      \<and> snd (varint2int (Some s1)) = Some (v, s2) \<and> snd (varint2int (Some s2)) = Some (n, s3)")
    case False
    then show ?thesis
      by (auto simp: packet_read_part1_def buf_read_within buf_read_tail split: option.split prod.split)
  next
    case True
    then obtain size src1 i s1 v s2 n s3 where head: "snd (varint2int src) = Some (size, src1)"
      "\<not> length src1 < unat size" "snd (varint2int (Some (take (unat size) src1))) = Some (i, s1)"
      "snd (varint2int (Some s1)) = Some (v, s2)" "snd (varint2int (Some s2)) = Some (n, s3)"
      by blast
    then consider "packet_read_address alloc (p_handshake_zero\<lparr>id_part1 := i, version := v\<rparr>) s3 (unat n) = Some None"
      | r rest where "packet_read_address alloc (p_handshake_zero\<lparr>id_part1 := i, version := v\<rparr>) s3 (unat n) = Some (Some (r, rest))"
        "address_parsed r" "username r = None" "signature_data r = None"
      using safe [of v i s3 "unat n"] by auto
    then show ?thesis
    proof cases
      case 1
      with head show ?thesis by (simp add: packet_read_part1_def buf_read_within buf_read_tail)
    next
      case 2
      with head show ?thesis
        using port [of rest] keep
        by (auto simp: packet_read_part1_def buf_read_within buf_read_tail split: option.split prod.split)
    qed
  qed
qed

lemma packet_read_part2_safe:
  assumes r: "address_parsed r" "signature_data r = None"
  shows "packet_read_part2 alloc r src = Some None \<or>
    (\<exists>r'. packet_read_part2 alloc r src = Some (Some r') \<and> address_parsed r')"
proof (cases "\<exists>size src1 i s1 n s2. snd (varint2int (Some src)) = Some (size, src1) \<and> \<not> length src1 < unat size
    \<and> snd (varint2int (Some (take (unat size) src1))) = Some (i, s1) \<and> snd (varint2int (Some s1)) = Some (n, s2)")
  case False
  then show ?thesis
    by (auto simp: packet_read_part2_def buf_read_within split: option.split prod.split)
next
  case True
  then obtain size src1 i s1 n s2 where head: "snd (varint2int (Some src)) = Some (size, src1)"
    "\<not> length src1 < unat size" "snd (varint2int (Some (take (unat size) src1))) = Some (i, s1)"
    "snd (varint2int (Some s1)) = Some (n, s2)"
    by blast
  have keep: "address_parsed (r\<lparr>id_part2 := i', username := Some (u @ [0]), signature_data_length := l\<rparr>)"
      for i' u l
    using r by (simp add: address_parsed_def handshake_objects_def extra_marked_def cong: option.case_cong)
  have keep': "address_parsed (r\<lparr>id_part2 := i', username := Some (u @ [0]), signature_data := Some x,
      signature_data_length := l\<rparr>)" if "l = length x" for i' u l x
    using that r by (simp_all add: address_parsed_def handshake_objects_def extra_marked_def cong: option.case_cong)
  show ?thesis
  proof (cases "unat n > PROTOHANDSHAKE_USERNAMEMAXLEN \<or> length s2 < unat n \<or> \<not> alloc 2 (unat n + 1)")
    case True
    with head show ?thesis by (auto simp: packet_read_part2_def buf_read_within)
  next
    case False
    have "\<not> unat n < length s2 \<Longrightarrow> s2 = [] \<or> unat n = length s2"
      using False by auto
    with False head show ?thesis
      by (cases "unat n < length s2")
        (simp_all add: packet_read_part2_def buf_read_def buf_at_def Let_def keep keep')
  qed
qed

lemma packet_read_safe:
  "\<exists>h. packet_read alloc src = Some h \<and> (h = p_handshake_zero \<or> address_parsed h)"
proof -
  from packet_read_part1_safe [of alloc src] show ?thesis
  proof (elim disjE exE conjE)
    fix r rest
    assume "packet_read_part1 alloc src = Some (Some (r, rest))" "address_parsed r" "signature_data r = None"
    then show ?thesis
      using packet_read_part2_safe [of r alloc rest] by (auto simp: packet_read_def)
  qed (simp add: packet_read_def)
qed

section \<open>Properties\<close>

text \<open>
  C12: parsing a client's handshake is memory safe on every input and under every outcome of its
  allocations: no read leaves the received bytes, and the result is either the cleared record or one whose
  objects are proper (terminated texts, data of the recorded size), with a non-empty address field within the
  limit, no separator inside the host name and a separator in front of appended bytes.
\<close>

theorem packet_read_memory_safe:
  "\<exists>h. packet_read alloc src = Some h \<and> (h = p_handshake_zero \<or> address_parsed h)"
  by (rule packet_read_safe)

text \<open>
  C11: re-encoding never overflows its staging buffers or the destination, and its output is exact. For
  every record with proper objects, \<open>packet_write\<close> either stores precisely the two specified frames at the
  front of the destination and returns their size, or returns 0 and leaves the destination as it was; it
  does the former exactly when the documented limits hold, both allocations succeed and the packet fits.
\<close>

theorem packet_write_specification:
  assumes "handshake_objects h" "cap \<le> length d"
  shows "packet_write alloc (Some d) cap h =
    Some (if handshake_limits h \<and> alloc 0 BUFSIZ \<and> alloc 1 BUFSIZ \<and> length (handshake_wire h) \<le> cap
          then (Some (handshake_wire h @ drop (length (handshake_wire h)) d), length (handshake_wire h))
          else (Some d, 0))"
  using packet_write_exact [OF assms, of alloc] by (simp add: staged_def)

definition sample_login :: p_handshake where
  "sample_login =
     \<lparr>id_part1 = 0, id_part2 = 0, nextstate = 2, version = 47, address = Some [0x61, 0x2E, 0x62, 0],
      address_extra = Some [0, 0x46], signature_data = Some [9, 8], username = Some [0x4A, 0x6F, 0],
      address_extra_length = 2, signature_data_length = 2, port = 25565\<rparr>"

lemma sample_login_objects: "handshake_objects sample_login"
  by (simp add: sample_login_def handshake_objects_def)

lemma sample_login_canonical: "handshake_canonical sample_login"
  by (simp add: sample_login_def handshake_canonical_def handshake_objects_def handshake_limits_def wire_address_def
      text_of_def data_of_def cstr_def extra_marked_def login_intent_def PROTOHANDSHAKE_ADDRESSMAXLEN_def
      PROTOHANDSHAKE_USERNAMEMAXLEN_def)

theorem packet_write_specification_witness:
  "packet_write (\<lambda>_ _. True) (Some (replicate 64 0)) 64 sample_login =
    Some (if handshake_limits sample_login \<and> True \<and> True \<and> length (handshake_wire sample_login) \<le> 64
          then (Some (handshake_wire sample_login @ drop (length (handshake_wire sample_login)) (replicate 64 0)),
                length (handshake_wire sample_login))
          else (Some (replicate 64 0), 0))"
  by (rule packet_write_specification [where alloc = "\<lambda>_ _. True"]) (simp_all add: sample_login_objects)

text \<open>
  C13: the round trip of canonical records. A record is canonical (\<open>handshake_canonical\<close>) if its objects are proper, it is within the documented
  limits, its address field is not empty, the host name holds no separator ('?' or a zero byte), empty data is an absent object, and it has a login part
  exactly when its intent asks for one. Whenever the allocations succeed and the destination has room, re-encoding a canonical record (with its
  appended data, with or without a login start and signature) and parsing the bytes that were stored, with anything behind them,
  gives that record back.
\<close>

theorem packet_write_read_roundtrip:
  assumes "handshake_canonical h" "length (handshake_wire h) \<le> cap" "cap \<le> length d"
  shows "\<exists>d' n. packet_write (\<lambda>_ _. True) (Some d) cap h = Some (Some d', n)
    \<and> packet_read (\<lambda>_ _. True) (Some (take n d' @ behind)) = Some h"
proof -
  have "handshake_objects h" "handshake_limits h"
    using assms(1) by (simp_all add: handshake_canonical_def)
  then show ?thesis
    using packet_write_exact [of h cap d "\<lambda>_ _. True"] packet_read_wire [OF assms(1), of "\<lambda>_ _. True" behind] assms
    by (simp add: staged_def)
qed

theorem packet_write_read_roundtrip_witness:
  "\<exists>d' n. packet_write (\<lambda>_ _. True) (Some (replicate 64 0)) 64 sample_login = Some (Some d', n)
    \<and> packet_read (\<lambda>_ _. True) (Some (take n d' @ [1, 2])) = Some sample_login"
proof (rule packet_write_read_roundtrip [OF sample_login_canonical])
  have "length (int2varint_bytes v) \<le> 5" for v
    by (rule int2varint_bytes_length)
  then show "length (handshake_wire sample_login) \<le> 64"
    by (simp add: handshake_wire_def framed_def handshake_frame_def login_frame_def sample_login_def wire_address_def
        wire_signature_def text_of_def data_of_def cstr_def int2varint_bytes_small login_intent_def)
qed simp

text \<open>
  C26: the login disconnect the proxy sends. For any message \<open>s\<close>, \<open>make_kickreason\<close> either stores exactly the
  frame (length, packet id 0, string length, JSON text around the message) and returns its size, or returns
  0 without touching the destination; the latter happens only when the frame does not fit.
\<close>

theorem make_kickreason_exact:
  assumes "cap \<le> length d" "0 \<notin> set s" "length s < SIZE_MAX - 64"
  shows "make_kickreason (Some d) cap (Some (s @ 0 # r)) = Some (map_prod Some id (reply d cap (kickreason_json s)))"
  using assms by (rule make_kickreason_reply)

theorem make_kickreason_exact_witness:
  "make_kickreason (Some (replicate 64 7)) 64 (Some ([0x68, 0x69] @ 0 # [])) =
    Some (map_prod Some id (reply (replicate 64 7) 64 (kickreason_json [0x68, 0x69])))"
  by (rule make_kickreason_exact) simp_all

text \<open>
  C27: the status reply. \<open>make_motd\<close> writes its destination only on success, and then stores exactly one
  status frame whose JSON carries the protocol number, the message and the configured icon, or the built-in
  one when no icon is configured.
\<close>

theorem make_motd_exact:
  assumes "cap \<le> length d" "0 \<notin> set s" "0 \<notin> set icon" "length s + length icon < SIZE_MAX - 256"
    and "(case favicon of None \<Rightarrow> builtin | Some f \<Rightarrow> f) = icon @ 0 # r'"
  shows "make_motd builtin (Some d) cap (Some (s @ 0 # r)) ver favicon =
    Some (map_prod Some id (reply d cap (motd_json ver s icon)))"
  using assms by (rule make_motd_reply)

theorem make_motd_exact_witness:
  "make_motd ([0x41] @ 0 # []) (Some (replicate 256 7)) 256 (Some ([0x68, 0x69] @ 0 # [])) 763 None =
    Some (map_prod Some id (reply (replicate 256 7) 256 (motd_json 763 [0x68, 0x69] [0x41])))"
  by (rule make_motd_exact) simp_all

section \<open>The signature placeholder\<close>

text \<open>
  A login start of protocol 761 that declares no signature (flag byte 0): parsing keeps the flag byte as
  signature data, and re-encoding puts a flag byte 1 in front of it.
\<close>

definition unsigned_login :: bytes where
  "unsigned_login =
     framed (int2varint_bytes 0 @ int2varint_bytes 761 @ [3, 0x61, 0x2E, 0x62, 0x63, 0xDD, 2])
     @ framed [0, 2, 0x4A, 0x6F, 0]"

lemma unsigned_login_corrupted:
  "\<exists>h. packet_read (\<lambda>_ _. True) (Some unsigned_login) = Some h
    \<and> handshake_wire h \<noteq> unsigned_login \<and> wire_signature h = [1, 0]"
proof -
  let ?h = "\<lparr>id_part1 = 0, id_part2 = 0, nextstate = 2, version = 761, address = Some [0x61, 0x2E, 0x62, 0],
      address_extra = None, signature_data = Some [0], username = Some [0x4A, 0x6F, 0],
      address_extra_length = 0, signature_data_length = 1, port = 0x63DD\<rparr> :: p_handshake"
  have "packet_read (\<lambda>_ _. True) (Some unsigned_login) = Some ?h"
    by code_simp
  moreover have "handshake_wire ?h \<noteq> unsigned_login \<and> wire_signature ?h = [1, 0]"
    by code_simp
  ultimately show ?thesis by blast
qed

end
