(* ===== verification/Handshake_Legacy.thy ===== *)
theory Handshake_Legacy
  imports Handshake
begin

text \<open>
  The handshakes before 13w41a (\<open>src/protocol/handshake_legacy.c\<close>): the four login layouts L1 to L4, the
  third status ping M3, and the disconnect and status replies, whose text is sent as 16-bit characters.

  Fixed-size arrays are byte lists of that length. \<open>packet_read_legacy_login\<close> leaves some fields of its
  result unset on some paths; the record they come from is the argument \<open>result0\<close>, an arbitrary record.
\<close>

section \<open>Types\<close>

record p_login_legacy =
  proto_ver :: protocol_version
  login_username :: bytes
  login_address :: bytes
  login_port :: u16
  login_version :: u8

record p_motd_legacy =
  motd_address :: "bytes option"
  motd_port :: u16
  motd_version :: u8

definition p_login_legacy_zero :: p_login_legacy where
  "p_login_legacy_zero =
     \<lparr>proto_ver = PVER_UNIDENT, login_username = replicate 128 0, login_address = replicate 128 0,
      login_port = 0, login_version = 0\<rparr>"

definition p_motd_legacy_zero :: p_motd_legacy where
  "p_motd_legacy_zero = \<lparr>motd_address = None, motd_port = 0, motd_version = 0\<rparr>"

section \<open>Replies\<close>

definition legacy_char_write :: "bytes \<times> nat \<Rightarrow> u8 \<Rightarrow> (bytes \<times> nat) option" where
  "legacy_char_write cursor value =
     do { dst \<leftarrow> protocol_uint16_write cursor (ucast value); Some (dst, snd cursor + 2) }"

text \<open>The loops over \<open>legacy_char_write\<close>: the characters of a section one after the other.\<close>

fun legacy_section_write :: "bytes \<times> nat \<Rightarrow> bytes \<Rightarrow> (bytes \<times> nat) option" where
  "legacy_section_write cursor [] = Some cursor"
| "legacy_section_write cursor (b # bs) =
     do { cursor' \<leftarrow> legacy_char_write cursor b; legacy_section_write cursor' bs }"

definition make_kickreason_legacy :: "bytes option \<Rightarrow> nat \<Rightarrow> bytes option \<Rightarrow> (bytes option \<times> nat) option" where
  "make_kickreason_legacy dst dst_capacity src =
     (case (dst, src) of
        (Some d, Some s) \<Rightarrow>
          (if dst_capacity < 3 then Some (dst, 0)
           else do {
             source_size \<leftarrow> strlen s;
             if source_size > UINT16_MAX \<or> source_size > (SIZE_MAX - 3) div 2 \<or> dst_capacity < 3 + source_size * 2
             then Some (dst, 0)
             else do {
               d \<leftarrow> buf_write 0 [0xFF] d;
               d \<leftarrow> protocol_uint16_write (d, 1) (of_nat source_size);
               c \<leftarrow> legacy_section_write (d, 3) (take source_size s);
               Some (Some (fst c), 3 + source_size * 2)
             }
           })
      | _ \<Rightarrow> Some (dst, 0))"

definition section_open :: bytes where "section_open = [0xA7, 0x31, 0]"
definition section_split :: bytes where "section_split = [0, 0]"
definition section_tail :: bytes where "section_tail = [0x30, 0, 0x30]"
definition section_zero :: bytes where "section_zero = [0xA7, 0x30, 0xA7, 0x30]"

text \<open>The digits of the protocol number, least significant first, as the loop collects them.\<close>

fun version_digits :: "nat \<Rightarrow> bytes" where
  "version_digits v = of_nat (48 + v mod 10) # (if v div 10 = 0 then [] else version_digits (v div 10))"

declare version_digits.simps [simp del]

text \<open>The second \<open>switch\<close> of \<open>make_motd_legacy\<close>: the sections of the reply.\<close>

definition motd_legacy_sections :: "bytes \<times> nat \<Rightarrow> protocol_version \<Rightarrow> bytes \<Rightarrow> bytes \<Rightarrow> (bytes \<times> nat) option" where
  "motd_legacy_sections cursor motd_kind digits message =
     (if motd_kind = PVER_LEGACYM1 then do {
        c \<leftarrow> legacy_section_write cursor message;
        legacy_section_write c section_zero
      }
      else do {
        c \<leftarrow> legacy_section_write cursor section_open;
        c \<leftarrow> legacy_section_write c (rev digits);
        c \<leftarrow> legacy_section_write c section_split;
        c \<leftarrow> legacy_section_write c (message @ [0]);
        legacy_section_write c section_tail
      })"

definition make_motd_legacy ::
  "bytes option \<Rightarrow> nat \<Rightarrow> bytes option \<Rightarrow> protocol_version \<Rightarrow> u8 \<Rightarrow> (bytes option \<times> nat) option" where
  "make_motd_legacy dst dst_capacity src motd_kind ver =
     (case (dst, src) of
        (Some d, Some s) \<Rightarrow>
          (if dst_capacity < 3 then Some (dst, 0)
           else do {
             message_length \<leftarrow> strlen s;
             let digits = (if motd_kind = PVER_LEGACYM1 then [] else version_digits (unat ver));
             let overhead = (if motd_kind = PVER_LEGACYM1 then length section_zero
               else length digits + length section_open + length section_split + length section_tail + 1);
             if motd_kind \<notin> {PVER_LEGACYM1, PVER_LEGACYM2, PVER_LEGACYM3} then Some (dst, 0)
             else if message_length > UINT16_MAX - overhead then Some (dst, 0)
             else
               (let character_count = message_length + overhead in
                if character_count > (dst_capacity - 3) div 2 then Some (dst, 0)
                else do {
                  d \<leftarrow> buf_write 0 [0xFF] d;
                  d \<leftarrow> protocol_uint16_write (d, 1) (of_nat character_count);
                  c \<leftarrow> motd_legacy_sections (d, 3) motd_kind digits (take message_length s);
                  Some (Some (fst c), 3 + character_count * 2)
                })
           })
      | _ \<Rightarrow> Some (dst, 0))"

section \<open>The status ping M3\<close>

definition packet_destroy_legacy_motd :: "p_motd_legacy \<Rightarrow> p_motd_legacy" where
  "packet_destroy_legacy_motd object = object\<lparr>motd_address := None\<rparr>"

text \<open>The copy loop: the low byte of every 16-bit character of the address.\<close>

fun legacy_chars_read :: "bytes \<Rightarrow> nat \<Rightarrow> nat \<Rightarrow> bytes option" where
  "legacy_chars_read src off 0 = Some []"
| "legacy_chars_read src off (Suc n) =
     do { c \<leftarrow> protocol_uint16_read src off; cs \<leftarrow> legacy_chars_read src (off + 2) n; Some (ucast c # cs) }"

definition packet_read_legacy_motd :: "(nat \<Rightarrow> bool) \<Rightarrow> bytes option \<Rightarrow> p_motd_legacy option" where
  "packet_read_legacy_motd alloc src =
     (case src of
        None \<Rightarrow> Some p_motd_legacy_zero
      | Some s \<Rightarrow>
          (let src_size = length s in
           if src_size < 0x24 then Some p_motd_legacy_zero
           else do {
             v \<leftarrow> buf_at 0x1D s;
             let result = p_motd_legacy_zero\<lparr>motd_version := v\<rparr>;
             address_length \<leftarrow> protocol_uint16_read s 0x1E;
             if unat address_length > (src_size - 0x24) div 2 then Some result
             else if \<not> alloc (unat address_length + 1) then Some result
             else do {
               cs \<leftarrow> legacy_chars_read s 0x20 (unat address_length);
               p \<leftarrow> protocol_uint32_read s (0x20 + unat address_length * 2);
               Some (result\<lparr>motd_address := Some (cs @ [0]), motd_port := ucast p\<rparr>)
             }
           }))"

text \<open>The fixed head of an M3 ping: the request bytes and the name of the plugin channel.\<close>

definition motd_legacy_head :: bytes where
  "motd_legacy_head =
     [0xFE, 0x01, 0xFA, 0, 0x0B, 0, 0x4D, 0, 0x43, 0, 0x7C, 0, 0x50, 0, 0x69, 0, 0x6E, 0, 0x67,
      0, 0x48, 0, 0x6F, 0, 0x73, 0, 0x74]"

definition packet_write_legacy_motd :: "bytes \<Rightarrow> p_motd_legacy \<Rightarrow> (bytes \<times> nat) option" where
  "packet_write_legacy_motd dst src =
     (case motd_address src of
        None \<Rightarrow> None
      | Some addr \<Rightarrow> do {
          d \<leftarrow> buf_write 0 motd_legacy_head dst;
          address_length \<leftarrow> strlen addr;
          d \<leftarrow> protocol_uint16_write (d, 0x1B) (of_nat (address_length * 2 + 7));
          d \<leftarrow> buf_write 0x1D [motd_version src] d;
          d \<leftarrow> protocol_uint16_write (d, 0x1E) (of_nat address_length);
          c \<leftarrow> legacy_section_write (d, 0x20) (take address_length addr);
          d \<leftarrow> protocol_uint32_write c (ucast (motd_port src));
          Some (d, snd c + 4)
        })"

section \<open>The login layouts\<close>

text \<open>
  \<open>atoi\<close>: optional white space and sign, then digits; the value saturates at 64 bits and is reduced to the
  width of the variable it is assigned to.
\<close>

definition atoi :: "bytes \<Rightarrow> int" where
  "atoi s =
     (let t = dropWhile (\<lambda>c. c = 0x20 \<or> 9 \<le> c \<and> c \<le> 13) s;
          neg = (t \<noteq> [] \<and> hd t = 0x2D);
          u = (if t \<noteq> [] \<and> hd t \<in> {0x2B, 0x2D} then tl t else t);
          v = int (digits_value (takeWhile is_digit u))
      in if neg then max (- (2 ^ 63)) (- v) else min (2 ^ 63 - 1) v)"

text \<open>The L2 branch: one field \<open>user;host:port\<close>, cut at the size of the name array.\<close>

definition login_L2_tail :: "bool \<Rightarrow> p_login_legacy \<Rightarrow> bytes \<Rightarrow> bytes \<Rightarrow> p_login_legacy option" where
  "login_L2_tail malloc_ok result name ptr =
     do {
       len \<leftarrow> strlen ptr;
       (_, fieldsize_address) \<leftarrow> strtok_tail malloc_ok None 0 (Some ptr) len 0x3A;
       addr \<leftarrow> snprintf (login_address result) 128 (take fieldsize_address (cstr ptr));
       if fieldsize_address + 1 > length ptr then None
       else do {
         _ \<leftarrow> strlen (drop (fieldsize_address + 1) ptr);
         Some (result\<lparr>login_username := name, login_address := addr,
           login_port := of_int (atoi (cstr (drop (fieldsize_address + 1) ptr)))\<rparr>)
       }
     }"

definition packet_read_legacy_login_L2 :: "bool \<Rightarrow> p_login_legacy \<Rightarrow> bytes \<Rightarrow> p_login_legacy option" where
  "packet_read_legacy_login_L2 malloc_ok result source =
     do {
       n \<leftarrow> buf_at 1 source;
       xs \<leftarrow> buf_read 2 (unat n) source;
       login_field \<leftarrow> buf_write 0 xs (replicate 512 0);
       login_field \<leftarrow> buf_write 127 [0] login_field;
       (name, rest) \<leftarrow> strtok_head (Some (login_username result)) 128 (Some login_field) 0x3B;
       (case rest of
          None \<Rightarrow> Some p_login_legacy_zero
        | Some ptr \<Rightarrow> login_L2_tail malloc_ok result (the name) ptr)
     }"

text \<open>The other branch: the name with its length byte and, for L4, the address and the port behind it.\<close>

definition packet_read_legacy_login_fields :: "p_login_legacy \<Rightarrow> bytes \<Rightarrow> protocol_version \<Rightarrow> p_login_legacy option" where
  "packet_read_legacy_login_fields result source ver =
     do {
       v \<leftarrow> buf_at 1 source;
       let result = (if ver = PVER_LEGACYL1 then result else result\<lparr>login_version := v\<rparr>);
       let ptr = (if ver = PVER_LEGACYL1 then 1 else 2);
       username_length \<leftarrow> buf_at ptr source;
       if unat username_length \<ge> 128 then Some p_login_legacy_zero
       else do {
         us \<leftarrow> buf_read (ptr + 1) (unat username_length) source;
         name \<leftarrow> buf_write 0 us (login_username result);
         let result = result\<lparr>login_username := name\<rparr>;
         let ptr = ptr + 1 + unat username_length;
         if ver \<noteq> PVER_LEGACYL4 then Some result
         else do {
           address_length \<leftarrow> buf_at ptr source;
           if unat address_length \<ge> 128 then Some p_login_legacy_zero
           else do {
             as \<leftarrow> buf_read (ptr + 1) (unat address_length) source;
             addr \<leftarrow> buf_write 0 as (login_address result);
             let ptr = ptr + 1 + unat address_length;
             p0 \<leftarrow> buf_at ptr source;
             p1 \<leftarrow> buf_at (ptr + 1) source;
             Some (result\<lparr>login_address := addr, login_port := of_nat (unat p0 * 256 + unat p1)\<rparr>)
           }
         }
       }
     }"

definition packet_read_legacy_login ::
  "bool \<Rightarrow> p_login_legacy \<Rightarrow> bytes option \<Rightarrow> protocol_version \<Rightarrow> p_login_legacy option" where
  "packet_read_legacy_login malloc_ok result0 sourcepacket ver =
     do {
       let result = result0\<lparr>proto_ver := ver, login_username := replicate 128 0, login_address := replicate 128 0\<rparr>;
       (source, _) \<leftarrow> packetshrink sourcepacket (Some (replicate BUFSIZ 0)) BUFSIZ;
       if ver = PVER_LEGACYL2 then packet_read_legacy_login_L2 malloc_ok result (the source)
       else packet_read_legacy_login_fields result (the source) ver
     }"

text \<open>A text with its length byte, expanded to 16-bit characters at the end of the target.\<close>

definition legacy_field_write :: "nat \<Rightarrow> bytes \<Rightarrow> nat \<Rightarrow> bytes \<Rightarrow> nat \<Rightarrow> (bytes \<times> nat) option" where
  "legacy_field_write array_size target sz text n =
     do {
       field \<leftarrow> buf_write 0 [of_nat n] (replicate array_size 0);
       (field, m) \<leftarrow> memcat field 1 text n;
       field \<leftarrow> buf_read 0 m field;
       tmp \<leftarrow> buf_write 0 (packetexpand field) (replicate BUFSIZ 0);
       memcat target sz tmp (length (packetexpand field))
     }"

definition packet_write_legacy_login :: "p_login_legacy \<Rightarrow> bytes \<Rightarrow> (bytes \<times> nat) option" where
  "packet_write_legacy_login source target =
     do {
       t \<leftarrow> buf_write 0 [2] target;
       username_length \<leftarrow> strlen (login_username source);
       address_length \<leftarrow> (if proto_ver source \<in> {PVER_LEGACYL2, PVER_LEGACYL4} then strlen (login_address source) else Some 0);
       if proto_ver source = PVER_LEGACYL2 then do {
         let text = cstr (login_username source) @ [0x3B] @ cstr (login_address source) @ [0x3A]
           @ decimal (unat (login_port source));
         login_field \<leftarrow> buf_write 0 (text @ [0]) (replicate 512 0);
         n \<leftarrow> strlen login_field;
         legacy_field_write 512 t 1 login_field n
       }
       else do {
         (t, sz) \<leftarrow> (if proto_ver source = PVER_LEGACYL1 then Some (t, 1)
           else do { t \<leftarrow> buf_write 1 [login_version source] t; Some (t, 2) });
         (t, sz) \<leftarrow> legacy_field_write 128 t sz (login_username source) username_length;
         if proto_ver source \<noteq> PVER_LEGACYL4 then Some (t, sz)
         else do {
           (t, sz) \<leftarrow> legacy_field_write 128 t sz (login_address source) address_length;
           t \<leftarrow> buf_write sz [0, 0] t;
           let hi = (of_nat (unat (login_port source) div 256) :: u8);
           t \<leftarrow> buf_write (sz + 2) [hi] t;
           t \<leftarrow> buf_write (sz + 3) [of_nat (unat (login_port source) - unat hi * 256)] t;
           Some (t, sz + 4)
         }
       }
     }"

section \<open>Sixteen-bit text\<close>

lemma uint16_bytes_char: "protocol_uint16_bytes (ucast (b :: u8)) = [0, b]"
  unfolding protocol_uint16_bytes_def
  by (auto intro!: bit_word_eqI simp: bit_simps impossible_bit)

lemma legacy_section_write_staged [staging]:
  "length p + 2 * length xs \<le> length d \<Longrightarrow>
     legacy_section_write (staged d p) xs = Some (staged d (p @ packetexpand xs))"
proof (induction xs arbitrary: p)
  case (Cons b xs)
  have "legacy_char_write (staged d p) b = Some (staged d (p @ [0, b]))"
    using Cons.prems by (simp add: legacy_char_write_def staging uint16_bytes_char)
  with Cons show ?case by simp
qed simp

lemma buf_write_at [staging]:
  "n = length p \<Longrightarrow> length p + length xs \<le> length d \<Longrightarrow>
     buf_write n xs (fst (staged d p)) = Some (fst (staged d (p @ xs)))"
  by (simp add: staged_def [of _ p] buf_write_staged)

lemma uint16_write_at [staging]:
  "n = length p \<Longrightarrow> length p + 2 \<le> length d \<Longrightarrow>
     protocol_uint16_write (fst (staged d p), n) v = Some (fst (staged d (p @ protocol_uint16_bytes v)))"
  by (simp add: staged_advance uint16_write_staged)

lemma uint32_write_staged [staging]:
  "length p + 4 \<le> length d \<Longrightarrow>
     protocol_uint32_write (staged d p) v = Some (fst (staged d (p @ protocol_uint32_bytes v)))"
  by (simp add: protocol_uint32_write_def staged_def [of _ p] buf_write_staged)

lemma staged_object [staging]: "fst (staged d []) = d"
  by (simp add: staged_def)

lemma section_write_at [staging]:
  "n = length p \<Longrightarrow> length p + 2 * length xs \<le> length d \<Longrightarrow>
     legacy_section_write (fst (staged d p), n) xs = Some (staged d (p @ packetexpand xs))"
  by (simp add: staged_advance legacy_section_write_staged)

text \<open>A legacy reply: its packet id, the number of characters, the characters.\<close>

definition legacy_packet :: "bytes \<Rightarrow> bytes" where
  "legacy_packet text = 0xFF # protocol_uint16_bytes (of_nat (length text)) @ packetexpand text"

lemma length_legacy_packet [simp]: "length (legacy_packet text) = 3 + 2 * length text"
  by (simp add: legacy_packet_def)

lemma legacy_packet_start:
  assumes "3 \<le> length d"
  shows "buf_write 0 [0xFF] d = Some (fst (staged d [0xFF]))"
    "protocol_uint16_write (fst (staged d [0xFF]), Suc 0) n = Some (fst (staged d (0xFF # protocol_uint16_bytes n)))"
  using assms buf_write_at [of 0 "[]" "[0xFF]" d] uint16_write_at [of 1 "[0xFF]" d n]
  by (simp_all add: staging)

lemma make_kickreason_legacy_exact:
  assumes "cap \<le> length d" "0 \<notin> set s"
  shows "make_kickreason_legacy (Some d) cap (Some (s @ 0 # r)) =
    Some (if length s \<le> UINT16_MAX \<and> length (legacy_packet s) \<le> cap
          then (Some (legacy_packet s @ drop (length (legacy_packet s)) d), length (legacy_packet s))
          else (Some d, 0))"
proof (cases "length s \<le> UINT16_MAX \<and> length (legacy_packet s) \<le> cap")
  case True
  then have "legacy_section_write (fst (staged d (0xFF # protocol_uint16_bytes (of_nat (length s)))), 3) s =
      Some (staged d (legacy_packet s))"
    using assms section_write_at [of 3 "0xFF # protocol_uint16_bytes (of_nat (length s))" s d]
    by (simp add: legacy_packet_def)
  with True assms show ?thesis
    by (simp add: make_kickreason_legacy_def buf_simps legacy_packet_start mult.commute) (simp add: staged_def mult.commute)
next
  case False
  with assms show ?thesis
    by (auto simp: make_kickreason_legacy_def buf_simps)
qed

text \<open>The text of a legacy status reply.\<close>

definition motd_legacy_text :: "protocol_version \<Rightarrow> u8 \<Rightarrow> bytes \<Rightarrow> bytes" where
  "motd_legacy_text kind ver s =
     (if kind = PVER_LEGACYM1 then s @ section_zero
      else section_open @ decimal (unat ver) @ section_split @ s @ [0] @ section_tail)"

lemma rev_version_digits: "rev (version_digits n) = decimal n"
proof (induction n rule: version_digits.induct)
  case (1 v)
  show ?case
  proof (cases "v < 10")
    case True
    then show ?thesis by (simp add: version_digits.simps [of v] decimal.simps [of v])
  next
    case False
    then have "v div 10 \<noteq> 0" by auto
    with False 1 show ?thesis by (simp add: version_digits.simps [of v] decimal.simps [of v])
  qed
qed

lemma length_version_digits: "length (version_digits n) = length (decimal n)"
  by (metis rev_version_digits length_rev)

lemma make_motd_legacy_exact:
  fixes ver :: u8
  assumes "cap \<le> length d" "0 \<notin> set s" and k: "kind \<in> {PVER_LEGACYM1, PVER_LEGACYM2, PVER_LEGACYM3}"
  defines "text \<equiv> motd_legacy_text kind ver s"
  shows "make_motd_legacy (Some d) cap (Some (s @ 0 # r)) kind ver =
    Some (if length text \<le> UINT16_MAX \<and> length (legacy_packet text) \<le> cap
          then (Some (legacy_packet text @ drop (length (legacy_packet text)) d), length (legacy_packet text))
          else (Some d, 0))"
proof -
  define o' where "o' = length text - length s"
  have o: "o' = (if kind = PVER_LEGACYM1 then length section_zero
      else length (decimal (unat ver)) + length section_open + length section_split + length section_tail + 1)"
    and n: "length s + o' = length text"
    by (auto simp: o'_def text_def motd_legacy_text_def)
  have dec: "length (decimal (unat ver)) \<le> 3"
    using length_decimal [of "unat ver" 3] unat_bounds(1) [of ver] by simp
  note start = legacy_packet_start [of d]
  have body: "length text \<le> UINT16_MAX \<Longrightarrow> length (legacy_packet text) \<le> cap \<Longrightarrow>
    motd_legacy_sections (fst (staged d (0xFF # protocol_uint16_bytes (of_nat (length text)))), 3) kind digits s =
      Some (staged d (legacy_packet text))"
    if "kind \<noteq> PVER_LEGACYM1 \<Longrightarrow> digits = version_digits (unat ver)" for digits
    using assms(1) that
    by (cases "kind = PVER_LEGACYM1")
      (simp_all add: motd_legacy_sections_def rev_version_digits staging text_def motd_legacy_text_def legacy_packet_def packetexpand_append)
  have fits: "(length text > (cap - 3) div 2) = (cap < length (legacy_packet text))" if "3 \<le> cap"
    using that by auto
  have limit: "(length s > UINT16_MAX - o') = (UINT16_MAX < length text)"
    using n o dec by (auto simp: section_zero_def section_open_def section_split_def section_tail_def)
  show ?thesis
  proof (cases "3 \<le> cap \<and> length text \<le> UINT16_MAX \<and> length (legacy_packet text) \<le> cap")
    case True
    then show ?thesis
      using assms(1,2) k body start fits limit o n
      by (auto simp: make_motd_legacy_def buf_simps length_version_digits mult.commute) (auto simp: staged_def mult.commute)
  next
    case False
    then show ?thesis
      using assms(1,2) k fits limit o n
      by (auto simp: make_motd_legacy_def buf_simps length_version_digits)
  qed
qed

section \<open>The status ping on the wire\<close>

definition motd_legacy_wire :: "u8 \<Rightarrow> bytes \<Rightarrow> u16 \<Rightarrow> bytes" where
  "motd_legacy_wire ver a p =
     motd_legacy_head @ protocol_uint16_bytes (of_nat (length a * 2 + 7)) @ [ver]
       @ protocol_uint16_bytes (of_nat (length a)) @ packetexpand a @ protocol_uint32_bytes (ucast p)"

lemma length_motd_legacy_head [simp]: "length motd_legacy_head = 0x1B"
  by (simp add: motd_legacy_head_def)

lemma length_motd_legacy_wire [simp]: "length (motd_legacy_wire ver a p) = 0x24 + 2 * length a"
  by (simp add: motd_legacy_wire_def)

lemma packet_write_legacy_motd_exact:
  assumes "motd_address m = Some (a @ 0 # r)" "0 \<notin> set a" "0x24 + 2 * length a \<le> length d"
  shows "packet_write_legacy_motd d m =
    Some (staged d (motd_legacy_wire (motd_version m) a (motd_port m)))"
proof -
  have head: "buf_write 0 motd_legacy_head d = Some (fst (staged d motd_legacy_head))"
    using buf_write_at [of 0 "[]" motd_legacy_head d] assms(3) by (simp add: staging)
  show ?thesis
    using assms
    by (simp add: packet_write_legacy_motd_def head buf_simps staging motd_legacy_wire_def mult.commute)
qed

lemma legacy_chars_read_expand:
  "off = length p \<Longrightarrow> legacy_chars_read (p @ packetexpand a @ s) off (length a) = Some a"
proof (induction a arbitrary: p off)
  case (Cons b a)
  have "protocol_uint16_read (p @ protocol_uint16_bytes (ucast b) @ packetexpand a @ s) off = Some (ucast b)"
    using Cons.prems by (rule uint16_read_write)
  moreover have "legacy_chars_read ((p @ [0, b]) @ packetexpand a @ s) (off + 2) (length a) = Some a"
    using Cons.prems by (intro Cons.IH) simp
  ultimately show ?case by (simp add: uint16_bytes_char ucast_widen)
qed simp

lemma packet_read_legacy_motd_wire:
  assumes "length a \<le> UINT16_MAX" "alloc (length a + 1)"
  shows "packet_read_legacy_motd alloc (Some (motd_legacy_wire ver a p @ behind)) =
    Some \<lparr>motd_address = Some (a @ [0]), motd_port = p, motd_version = ver\<rparr>"
proof -
  let ?w = "motd_legacy_wire ver a p @ behind"
  let ?h = "motd_legacy_head @ protocol_uint16_bytes (of_nat (length a * 2 + 7)) @ [ver]"
  have n: "unat (of_nat (length a) :: u16) = length a"
    using assms(1) by (simp add: unat_of_nat)
  have v: "buf_at 0x1D ?w = Some ver"
    by (simp add: buf_at_def motd_legacy_wire_def nth_append)
  have l: "protocol_uint16_read ?w 0x1E = Some (of_nat (length a))"
    using uint16_read_write [of "0x1E" ?h "of_nat (length a)"] by (simp add: motd_legacy_wire_def)
  have c: "legacy_chars_read ?w 0x20 (length a) = Some a"
    using legacy_chars_read_expand [of "0x20" "?h @ protocol_uint16_bytes (of_nat (length a))" a]
    by (simp add: motd_legacy_wire_def)
  have q: "protocol_uint32_read ?w (0x20 + length a * 2) = Some (ucast p)"
    using uint32_read_write [of "0x20 + length a * 2" "?h @ protocol_uint16_bytes (of_nat (length a)) @ packetexpand a"]
    by (simp add: motd_legacy_wire_def)
  show ?thesis
    using assms by (simp add: ucast_widen packet_read_legacy_motd_def v l c q n p_motd_legacy_zero_def)
qed

lemma protocol_packet_length_motd_wire:
  assumes "length a \<le> UINT16_MAX"
  shows "protocol_packet_length (Some (motd_legacy_wire ver a p @ behind)) =
    Some (PROTOCOL_PACKET_COMPLETE, Some (length (motd_legacy_wire ver a p)))"
proof -
  let ?w = "motd_legacy_wire ver a p @ behind"
  let ?h = "motd_legacy_head @ protocol_uint16_bytes (of_nat (length a * 2 + 7)) @ [ver]"
  have n: "unat (of_nat (length a) :: u16) = length a"
    using assms(1) by (simp add: unat_of_nat)
  have l: "protocol_uint16_read ?w 0x1E = Some (of_nat (length a))"
    using uint16_read_write [of "0x1E" ?h "of_nat (length a)"] by (simp add: motd_legacy_wire_def)
  have b: "buf_at 0 ?w = Some 0xFE" "buf_at (Suc 0) ?w = Some 1" "buf_at 2 ?w = Some 0xFA"
    by (simp_all add: buf_at_def motd_legacy_wire_def motd_legacy_head_def)
  show ?thesis
    using l b n by (simp add: protocol_packet_length_def protocol_packet_finish_def)
qed

lemma legacy_chars_read_safe: "off + 2 * n \<le> length s \<Longrightarrow> \<exists>cs. legacy_chars_read s off n = Some cs \<and> length cs = n"
proof (induction n arbitrary: off)
  case (Suc n)
  then obtain c where "protocol_uint16_read s off = Some c"
    using uint16_read_defined [of off s] by auto
  with Suc.IH [of "off + 2"] Suc.prems show ?case by auto
qed simp

lemma uint32_read_defined: "off + 4 \<le> length s \<Longrightarrow> \<exists>v. protocol_uint32_read s off = Some v"
  by (simp add: protocol_uint32_read_def buf_at_def)

lemma packet_read_legacy_motd_safe: "\<exists>m. packet_read_legacy_motd alloc src = Some m"
proof (cases src)
  case (Some s)
  show ?thesis
  proof (cases "length s < 0x24")
    case False
    then obtain n where n: "protocol_uint16_read s 0x1E = Some n"
      using uint16_read_defined [of "0x1E" s] by auto
    show ?thesis
    proof (cases "unat n > (length s - 0x24) div 2")
      case True
      with Some False n show ?thesis by (simp add: packet_read_legacy_motd_def buf_at_def)
    next
      case fits: False
      with False have lim: "0x24 + 2 * unat n \<le> length s" by presburger
      then obtain cs where "legacy_chars_read s 0x20 (unat n) = Some cs"
        using legacy_chars_read_safe [of "0x20" "unat n" s] by auto
      moreover obtain q where "protocol_uint32_read s (0x20 + unat n * 2) = Some q"
        using uint32_read_defined [of "0x20 + unat n * 2" s] lim by auto
      ultimately show ?thesis
        using Some False n by (simp add: packet_read_legacy_motd_def buf_at_def Let_def)
    qed
  qed (simp add: Some packet_read_legacy_motd_def)
qed (simp add: packet_read_legacy_motd_def)

section \<open>Logins: memory safety\<close>

text \<open>
  The bytes of a packet without its zero bytes, padded to the size of the parser's buffer: what the login
  parser works on.
\<close>

definition shrunk :: "bytes option \<Rightarrow> bytes" where
  "shrunk src =
     (let xs = (case src of None \<Rightarrow> [] | Some p \<Rightarrow> filter (\<lambda>b. b \<noteq> 0) p)
      in if length xs \<le> BUFSIZ then xs @ replicate (BUFSIZ - length xs) 0 else replicate BUFSIZ 0)"

lemma packetshrink_shrunk:
  "\<exists>n. packetshrink src (Some (replicate BUFSIZ 0)) BUFSIZ = Some (Some (shrunk src), n)"
  by (cases src) (auto simp: packetshrink_def shrunk_def buf_write_def Let_def)

lemma length_shrunk [simp]: "length (shrunk src) = BUFSIZ"
  by (simp add: shrunk_def Let_def split: option.split)

definition login_arrays :: "p_login_legacy \<Rightarrow> bool" where
  "login_arrays l \<longleftrightarrow> length (login_username l) = 128 \<and> length (login_address l) = 128
     \<and> 0 \<in> set (login_username l) \<and> 0 \<in> set (login_address l)"

lemma buf_write_terminated:
  assumes "buf_write 0 xs (replicate n 0) = Some b" "length xs < n"
  shows "length b = n \<and> 0 \<in> set b"
  using assms by (auto simp: buf_write_def split: if_splits)

lemma packet_read_legacy_login_fields_safe:
  assumes "length s = BUFSIZ" "login_username r = replicate 128 0" "login_address r = replicate 128 0"
  shows "\<exists>l. packet_read_legacy_login_fields r s ver = Some l \<and> login_arrays l"
proof -
  let ?ptr = "if ver = PVER_LEGACYL1 then 1 else 2 :: nat"
  let ?n = "unat (s ! ?ptr)"
  let ?m = "unat (s ! (?ptr + 1 + ?n))"
  have zero: "login_arrays p_login_legacy_zero"
    by (simp add: login_arrays_def p_login_legacy_zero_def)
  have w: "n < 128 \<Longrightarrow> \<exists>b. buf_write 0 (take n (drop k s)) (replicate 128 0) = Some b \<and> length b = 128 \<and> 0 \<in> set b"
    for n k
    by (auto simp: buf_write_def)
  show ?thesis
  proof (cases "?n \<ge> 128")
    case True
    then show ?thesis
      using assms zero by (auto simp: packet_read_legacy_login_fields_def buf_at_def Let_def)
  next
    case n: False
    then obtain u where u: "buf_write 0 (take ?n (drop (?ptr + 1) s)) (replicate 128 0) = Some u" "length u = 128" "0 \<in> set u"
      using w [of ?n "?ptr + 1"] by auto
    show ?thesis
    proof (cases "ver = PVER_LEGACYL4 \<and> ?m < 128")
      case True
      then have ver: "ver = PVER_LEGACYL4" and m: "?m < 128" by blast+
      from w [OF m, of "?ptr + 1 + ?n + 1"] obtain a
        where a: "buf_write 0 (take ?m (drop (?ptr + 1 + ?n + 1) s)) (replicate 128 0) = Some a" "length a = 128" "0 \<in> set a"
        by blast
      show ?thesis
        using ver m a n u assms
        by (simp add: packet_read_legacy_login_fields_def buf_at_def buf_read_def Let_def login_arrays_def)
    next
      case False
      then show ?thesis
        using n u assms zero
        by (auto simp: packet_read_legacy_login_fields_def buf_at_def buf_read_def Let_def login_arrays_def)
    qed
  qed
qed

lemma nth_in_drop: "k \<le> i \<Longrightarrow> i < length f \<Longrightarrow> f ! i \<in> set (drop k f)"
  using nth_mem [of "i - k" "drop k f"] by simp

lemma strlen_bound:
  assumes "f ! i = 0" "i < length f"
  shows "\<exists>n. strlen f = Some n \<and> n \<le> i \<and> length (cstr f) = n"
proof -
  let ?t = "takeWhile (\<lambda>c. c \<noteq> 0) f"
  have "length ?t \<le> i"
  proof (rule ccontr)
    assume "\<not> length ?t \<le> i"
    then have "i < length ?t" by simp
    then have "?t ! i = f ! i" "?t ! i \<in> set ?t"
      by (rule takeWhile_nth, rule nth_mem)
    with assms show False by (auto dest: set_takeWhileD)
  qed
  moreover have "0 \<in> set f" using assms by (metis nth_mem)
  ultimately show ?thesis by (simp add: strlen_def cstr_def)
qed

lemma strrchr_bound: "strrchr c xs = Some n \<Longrightarrow> n < length xs"
  by (induction xs arbitrary: n) (auto split: option.splits if_splits)

lemma strtok_tail_bound:
  assumes "n \<le> length p"
  shows "\<exists>k. strtok_tail ok None 0 (Some p) n c = Some (None, k) \<and> k \<le> n"
proof -
  have "length (cstr (take n p @ [0])) \<le> n"
    using assms length_takeWhile_le [of "\<lambda>c. c \<noteq> 0" "take n p"]
    by (simp add: cstr_def takeWhile_tail)
  then show ?thesis
    using assms by (auto simp: strtok_tail_def buf_read_def Let_def dest!: strrchr_bound split: option.splits)
qed

lemma snprintf_terminated:
  assumes "length d = n" "0 < n"
  shows "\<exists>a. snprintf d n t = Some a \<and> length a = n \<and> 0 \<in> set a"
  using assms by (simp add: snprintf_def buf_write_def)

lemma strtok_head_field:
  assumes "strlen f = Some k" "length (cstr f) = k" "k < 128" "length d = 128"
  shows "\<exists>d' rest. strtok_head (Some d) 128 (Some f) c = Some (Some d', rest) \<and> length d' = 128 \<and> 0 \<in> set d'
    \<and> (\<forall>p. rest = Some p \<longrightarrow> (\<exists>e<k. p = drop (e + 1) f))"
proof (cases "k = 0 \<or> memchr c (cstr f) = None")
  case True
  then show ?thesis
    using assms by (auto simp: strtok_head_def snprintf_def buf_write_def)
next
  case False
  then obtain e where "memchr c (cstr f) = Some e" "e < k"
    using memchr_bound [of c "cstr f"] assms by auto
  moreover have "k \<le> length f"
    using assms length_cstr [of f] by simp
  ultimately show ?thesis
    using False assms by (auto simp: strtok_head_def buf_write_def)
qed

lemma login_L2_tail_safe:
  assumes "p ! i = 0" "i < length p" "i < 127" "384 \<le> length p" "p ! (length p - 1) = 0"
    and u: "length u = 128" "0 \<in> set u" and r: "login_address r = replicate 128 0"
  shows "\<exists>l. login_L2_tail ok r u p = Some l \<and> login_arrays l"
proof -
  obtain n where n: "strlen p = Some n" "n \<le> i" "length (cstr p) = n"
    using strlen_bound [OF assms(1,2)] by auto
  then obtain k where k: "strtok_tail ok None 0 (Some p) n 0x3A = Some (None, k)" "k \<le> n"
    using strtok_tail_bound [of n p ok "0x3A"] assms(2) by auto
  let ?t = "take k (cstr p)"
  have t: "length ?t \<le> 126" using n k assms(3) by simp
  obtain a where a: "snprintf (replicate 128 0) 128 ?t = Some a" "length a = 128" "0 \<in> set a"
    using snprintf_terminated [of "replicate 128 0" 128 ?t] by auto
  have "p ! (length p - 1) \<in> set (drop (k + 1) p)"
    using n k assms by (intro nth_in_drop) auto
  then have "\<exists>m. strlen (drop (k + 1) p) = Some m"
    using assms(5) by (simp add: strlen_def)
  then show ?thesis
    using n k a u r assms by (auto simp: login_L2_tail_def login_arrays_def)
qed

lemma packet_read_legacy_login_L2_safe:
  assumes "length s = BUFSIZ" and r: "login_username r = replicate 128 0" "login_address r = replicate 128 0"
  shows "\<exists>l. packet_read_legacy_login_L2 ok r s = Some l \<and> login_arrays l"
proof -
  let ?n = "unat (s ! 1)"
  define g where "g = take ?n (drop 2 s) @ replicate (512 - ?n) 0"
  define f where "f = g[127 := 0]"
  have n: "?n < 256" by (rule unat_bounds)
  have g: "length g = 512" "g ! 511 = 0"
    using n assms(1) by (simp_all add: g_def nth_append)
  have x: "buf_read 2 ?n s = Some (take ?n (drop 2 s))"
    "buf_write 0 (take ?n (drop 2 s)) (replicate 512 0) = Some g"
    using n assms(1) by (simp_all add: g_def buf_read_def buf_write_def)
  have y: "buf_write 127 [0] g = Some f"
    using g(1) by (simp add: f_def buf_write_def upd_conv_take_nth_drop)
  have len: "length f = 512" and z: "f ! 127 = 0" "f ! 511 = 0"
    using g by (simp_all add: f_def)
  obtain k where k: "strlen f = Some k" "k \<le> 127" "length (cstr f) = k"
    using strlen_bound [OF z(1)] len by auto
  have zero: "login_arrays p_login_legacy_zero"
    by (simp add: login_arrays_def p_login_legacy_zero_def)
  obtain u rest where u: "strtok_head (Some (replicate 128 0)) 128 (Some f) 0x3B = Some (Some u, rest)"
    "length u = 128" "0 \<in> set u" and rest: "\<And>p. rest = Some p \<Longrightarrow> \<exists>e<k. p = drop (e + 1) f"
    using strtok_head_field [OF k(1,3), of "replicate 128 0" "0x3B"] k(2) by force
  have head: "packet_read_legacy_login_L2 ok r s =
    (case rest of None \<Rightarrow> Some p_login_legacy_zero | Some ptr \<Rightarrow> login_L2_tail ok r u ptr)"
    using x y u assms(1) r(1) by (simp add: packet_read_legacy_login_L2_def buf_at_def)
  show ?thesis
  proof (cases rest)
    case (Some p)
    with rest obtain e where e: "e < k" "p = drop (e + 1) f" by blast
    then have "p ! (126 - e) = 0" "126 - e < length p" "length p \<ge> 384" "p ! (length p - 1) = 0"
      using z k len by simp_all
    then show ?thesis
      using head Some login_L2_tail_safe [of p "126 - e" u r ok] u(2,3) r(2) by simp
  qed (use head zero in simp)
qed

lemma packet_read_legacy_login_safe:
  "\<exists>l. packet_read_legacy_login ok r src ver = Some l \<and> login_arrays l"
proof -
  let ?r = "r\<lparr>proto_ver := ver, login_username := replicate 128 0, login_address := replicate 128 0\<rparr>"
  obtain n where "packetshrink src (Some (replicate BUFSIZ 0)) BUFSIZ = Some (Some (shrunk src), n)"
    using packetshrink_shrunk by blast
  then show ?thesis
    using packet_read_legacy_login_L2_safe [of "shrunk src" ?r ok]
      packet_read_legacy_login_fields_safe [of "shrunk src" ?r ver]
    by (auto simp: packet_read_legacy_login_def Let_def)
qed

section \<open>Logins on the wire\<close>

definition legacy_field :: "bytes \<Rightarrow> bytes" where
  "legacy_field text = packetexpand (of_nat (length text) # text)"

lemma length_legacy_field [simp]: "length (legacy_field t) = 2 + 2 * length t"
  by (simp add: legacy_field_def)

definition login_legacy_wire :: "p_login_legacy \<Rightarrow> bytes" where
  "login_legacy_wire l =
     (let u = cstr (login_username l); a = cstr (login_address l); p = login_port l in
      2 # (if proto_ver l = PVER_LEGACYL2
           then legacy_field (u @ [0x3B] @ a @ [0x3A] @ decimal (unat p))
           else (if proto_ver l = PVER_LEGACYL1 then [] else [login_version l]) @ legacy_field u
             @ (if proto_ver l = PVER_LEGACYL4 then legacy_field a @ [0, 0] @ protocol_uint16_bytes p else [])))"

lemma memcat_at [staging]:
  "k = length p \<Longrightarrow> length p + n \<le> length d \<Longrightarrow> n \<le> length s \<Longrightarrow>
     memcat (fst (staged d p)) k s n = Some (staged d (p @ take n s))"
  by (simp add: memcat_def buf_read_def buf_write_at) (simp add: staged_def)

lemma legacy_field_write_at [staging]:
  assumes "k = length p" "n < asz" "n \<le> length s" "asz \<le> 512" "length p + 2 * n + 2 \<le> length d"
  shows "legacy_field_write asz (fst (staged d p)) k s n = Some (staged d (p @ legacy_field (take n s)))"
proof -
  let ?z = "replicate asz 0 :: bytes"
  have f: "buf_write 0 [of_nat n] ?z = Some (fst (staged ?z [of_nat n]))"
    using buf_write_at [of 0 "[]" "[of_nat n]" ?z] assms by (simp add: staging)
  have m: "memcat (fst (staged ?z [of_nat n])) 1 s n = Some (staged ?z (of_nat n # take n s))"
    using memcat_at [of 1 "[of_nat n]" n ?z s] assms by simp
  have r: "buf_read 0 (Suc n) (fst (staged ?z (of_nat n # take n s))) = Some (of_nat n # take n s)"
    using assms by (simp add: buf_read_def staged_def)
  show ?thesis
    using assms f m r
    by (simp add: legacy_field_write_def legacy_field_def case_prod_beta snd_staged buf_write_def memcat_at)
qed

lemma unat_high: "unat (ucast (drop_bit 8 (p :: u16)) :: u8) = unat p div 256"
proof -
  have "unat (ucast (drop_bit 8 p) :: u8) = take_bit 8 (unat (drop_bit 8 p))"
    by (simp add: unsigned_ucast_eq)
  also have "unat (drop_bit 8 p) = unat p div 256"
    using unat_drop_bit_eq [of 8 p] drop_bit_eq_div [of 8 "unat p"] by simp
  also have "take_bit 8 (unat p div 256) = unat p div 256"
    using unat_bounds(2) [of p] by (simp add: take_bit_eq_mod)
  finally show ?thesis .
qed

lemma unat_low: "unat (ucast (p :: u16) :: u8) = unat p mod 256"
  by (simp add: unsigned_ucast_eq take_bit_eq_mod)

lemma uint16_div_mod:
  "(of_nat (unat (p :: u16) div 256) :: u8) = ucast (drop_bit 8 p)"
  "(of_nat (unat p - unat (ucast (drop_bit 8 p) :: u8) * 256) :: u8) = ucast p"
proof -
  show "(of_nat (unat p div 256) :: u8) = ucast (drop_bit 8 p)"
    by (metis unat_high of_nat_unat ucast_id)
  have "unat p - unat p div 256 * 256 = unat p mod 256"
    by (simp add: minus_div_mult_eq_mod)
  then show "(of_nat (unat p - unat (ucast (drop_bit 8 p) :: u8) * 256) :: u8) = ucast p"
    by (metis unat_high unat_low of_nat_unat ucast_id)
qed

lemma cstr_array: "0 \<in> set b \<Longrightarrow> length (cstr b) < length b"
  unfolding cstr_def by (metis (full_types) length_takeWhile_le nless_le takeWhile_eq_all_conv takeWhile_eq_take take_all_iff verit_comp_simplify1(2))

lemma packet_write_legacy_login_exact:
  assumes ok: "login_arrays l" and t: "640 \<le> length t"
  shows "packet_write_legacy_login l t = Some (staged t (login_legacy_wire l))"
proof -
  let ?u = "cstr (login_username l)" and ?a = "cstr (login_address l)" and ?p = "login_port l"
  have len: "length ?u \<le> 127" "length ?a \<le> 127"
    using ok cstr_array [of "login_username l"] cstr_array [of "login_address l"] by (simp_all add: login_arrays_def)
  have sl: "strlen (login_username l) = Some (length ?u)" "strlen (login_address l) = Some (length ?a)"
    using ok strlen_text by (simp_all add: login_arrays_def text_of_def)
  have s: "buf_write 0 [2] t = Some (fst (staged t [2]))"
    using buf_write_at [of 0 "[]" "[2]" t] t by (simp add: staging)
  have dec: "length (decimal (unat ?p)) \<le> 5" 
    using length_decimal [of "unat ?p" 5] unat_bounds(2) [of ?p] by simp
  have le: "length ?u \<le> length (login_username l)" "length ?a \<le> length (login_address l)"
    by (rule length_cstr)+
  show ?thesis
  proof (cases "proto_ver l = PVER_LEGACYL2")
    case True
    define x where "x = ?u @ 0x3B # ?a @ 0x3A # decimal (unat ?p)"
    have x: "length x \<le> 261" "0 \<notin> set x" "?u @ 0x3B # ?a @ 0x3A # decimal (unat ?p) @ [0] = x @ [0]"
      using len dec decimal_nonzero by (auto simp: x_def cstr_def dest: set_takeWhileD)
    let ?f = "x @ 0 # replicate (511 - length x) 0"
    have "buf_write 0 (x @ [0]) (replicate 512 0) = Some ?f" "strlen ?f = Some (length x)"
      using x by (simp_all add: buf_write_def buf_simps)
    then show ?thesis
      using True s sl t x
      by (simp add: packet_write_legacy_login_def login_legacy_wire_def Let_def staging flip: x_def)
  next
    case False
    then show ?thesis
      using s sl len t le
      by (cases "proto_ver l = PVER_LEGACYL1"; cases "proto_ver l = PVER_LEGACYL4")
        (simp_all add: packet_write_legacy_login_def login_legacy_wire_def Let_def case_prod_beta staging take_text
          uint16_div_mod protocol_uint16_bytes_def)
  qed
qed

section \<open>Reading a login back\<close>

text \<open>An L4 login whose every byte survives the removal of zero bytes.\<close>

definition padded :: "bytes \<Rightarrow> bool" where
  "padded b \<longleftrightarrow> b = cstr b @ replicate (128 - length (cstr b)) 0 \<and> cstr b \<noteq> [] \<and> length (cstr b) < 128"

definition login_L4_fields :: "p_login_legacy \<Rightarrow> bool" where
  "login_L4_fields l \<longleftrightarrow>
     proto_ver l = PVER_LEGACYL4 \<and> login_version l \<noteq> 0 \<and> padded (login_username l) \<and> padded (login_address l)"

lemma padded_length: "padded b \<Longrightarrow> cstr b \<noteq> [] \<and> length (cstr b) < 128"
  unfolding padded_def by blast

lemma padded_write: "padded b \<Longrightarrow> buf_write 0 (cstr b) (replicate 128 0) = Some b"
proof -
  assume b: "padded b"
  have "buf_write 0 (cstr b) (replicate 128 0) = Some (cstr b @ replicate (128 - length (cstr b)) 0)"
    using padded_length [OF b] by (simp add: buf_write_def)
  also have "cstr b @ replicate (128 - length (cstr b)) 0 = b"
    using b unfolding padded_def by metis
  finally show ?thesis .
qed

lemma filter_legacy_field:
  assumes "0 \<notin> set t" "t \<noteq> []" "length t < 256"
  shows "filter (\<lambda>b. b \<noteq> 0) (legacy_field t) = of_nat (length t) # t"
proof -
  have "unat (of_nat (length t) :: u8) = length t"
    using assms by (simp add: unat_of_nat)
  then have "(of_nat (length t) :: u8) \<noteq> 0"
    using assms(2) by (metis length_0_conv unat_0)
  moreover have "filter (\<lambda>b. b \<noteq> 0) t = t"
    using assms(1) by (auto simp: filter_id_conv)
  ultimately show ?thesis
    by (simp add: legacy_field_def filter_packetexpand)
qed

lemma buf_read_middle [buf_simps]: "off = length p \<Longrightarrow> n = length x \<Longrightarrow> buf_read off n (p @ x @ s) = Some x"
  by (simp add: buf_read_def)

lemma login_L4_shrunk:
  assumes fields: "login_L4_fields l"
  defines "u \<equiv> cstr (login_username l)" and "a \<equiv> cstr (login_address l)"
    and "q \<equiv> filter (\<lambda>b. b \<noteq> 0) (protocol_uint16_bytes (login_port l)) @ [0, 0]"
  shows "\<exists>zs. shrunk (Some (login_legacy_wire l)) =
    2 # login_version l # of_nat (length u) # u @ of_nat (length a) # a @ q ! 0 # q ! 1 # zs"
proof -
  have v: "proto_ver l = PVER_LEGACYL4" "login_version l \<noteq> 0"
    and n: "u \<noteq> []" "a \<noteq> []" "length u < 128" "length a < 128"
    using fields padded_length by (simp_all add: login_L4_fields_def u_def a_def)
  have z: "0 \<notin> set u" "0 \<notin> set a"
    by (auto simp: u_def a_def cstr_def dest: set_takeWhileD)
  define h where "h = 2 # login_version l # of_nat (length u) # u @ of_nat (length a) # a"
  let ?q = "filter (\<lambda>b. b \<noteq> 0) (protocol_uint16_bytes (login_port l))"
  have f: "filter (\<lambda>b. b \<noteq> 0) (login_legacy_wire l) = h @ ?q"
    using v n z by (simp add: login_legacy_wire_def Let_def filter_legacy_field h_def flip: u_def a_def)
  have len: "length h \<le> 260" "length ?q \<le> 2"
    using n length_filter_le [of "\<lambda>b. b \<noteq> 0" "protocol_uint16_bytes (login_port l)"] by (simp_all add: h_def)
  have m: "BUFSIZ - length h = Suc (Suc (8190 - length h))" "8191 - length h = Suc (8190 - length h)"
    using len by simp_all
  then have "?q @ replicate (BUFSIZ - length h - length ?q) 0 = q ! 0 # q ! 1 # replicate (8190 - length h) 0"
    by (simp add: q_def protocol_uint16_bytes_def)
  then have "shrunk (Some (login_legacy_wire l)) = h @ q ! 0 # q ! 1 # replicate (8190 - length h) 0"
    using len f by (simp add: shrunk_def)
  then show ?thesis by (auto simp: h_def)
qed

lemma packet_read_legacy_login_L4:
  assumes fields: "login_L4_fields l"
  defines "q \<equiv> filter (\<lambda>b. b \<noteq> 0) (protocol_uint16_bytes (login_port l)) @ [0, 0]"
  shows "packet_read_legacy_login ok r (Some (login_legacy_wire l)) PVER_LEGACYL4 =
    Some (l\<lparr>login_port := of_nat (unat (q ! 0) * 256 + unat (q ! 1))\<rparr>)"
proof -
  let ?u = "cstr (login_username l)" and ?a = "cstr (login_address l)"
  have v: "proto_ver l = PVER_LEGACYL4"
    and w: "buf_write 0 ?u (replicate 128 0) = Some (login_username l)"
      "buf_write 0 ?a (replicate 128 0) = Some (login_address l)"
    and n: "length ?u < 128" "length ?a < 128"
    using fields padded_write padded_length by (simp_all add: login_L4_fields_def)
  then have len: "unat (of_nat (length ?u) :: u8) = length ?u" "unat (of_nat (length ?a) :: u8) = length ?a"
    by (simp_all add: unat_of_nat)
  obtain zs where s: "shrunk (Some (login_legacy_wire l)) =
      2 # login_version l # of_nat (length ?u) # ?u @ of_nat (length ?a) # ?a @ q ! 0 # q ! 1 # zs"
    using login_L4_shrunk [OF fields] by (auto simp: q_def)
  let ?s = "shrunk (Some (login_legacy_wire l))"
  have b: "buf_at (Suc 0) ?s = Some (login_version l)" "buf_at 2 ?s = Some (of_nat (length ?u))"
    "buf_read 3 (length ?u) ?s = Some ?u" "buf_at (3 + length ?u) ?s = Some (of_nat (length ?a))"
    "buf_at (4 + (length ?u + length ?a)) ?s = Some (q ! 0)"
    "buf_at (5 + (length ?u + length ?a)) ?s = Some (q ! 1)"
    unfolding s by (simp_all add: buf_at_def buf_read_def nth_append nth_Cons')
  have a: "buf_read (4 + length ?u) (length ?a) ?s = Some ?a"
    unfolding s
    using buf_read_middle [of "4 + length ?u" "2 # login_version l # of_nat (length ?u) # ?u @ [of_nat (length ?a)]"
      "length ?a" ?a "q ! 0 # q ! 1 # zs"] by simp
  obtain k where "packetshrink (Some (login_legacy_wire l)) (Some (replicate BUFSIZ 0)) BUFSIZ = Some (Some ?s, k)"
    using packetshrink_shrunk [of "Some (login_legacy_wire l)"] by auto
  then show ?thesis
    using n len a b w v
    by (cases l) (simp add: packet_read_legacy_login_def packet_read_legacy_login_fields_def Let_def add.assoc)
qed

lemma port_bytes_kept:
  assumes "256 \<le> unat p"
  defines "q \<equiv> filter (\<lambda>b. b \<noteq> 0) (protocol_uint16_bytes p) @ [0, 0]"
  shows "of_nat (unat (q ! 0) * 256 + unat (q ! 1)) = p"
proof -
  let ?hi = "ucast (drop_bit 8 p) :: u8" and ?lo = "ucast p :: u8"
  have "unat ?hi \<noteq> 0"
    unfolding unat_high using assms(1) by (simp add: div_greater_zero_iff)
  then have hi: "?hi \<noteq> 0" by (metis unat_0)
  have p: "(of_nat (unat ?hi * 256 + unat ?lo) :: u16) = p"
    unfolding unat_high unat_low [of p] by (simp only: div_mult_mod_eq of_nat_unat ucast_id)
  have "q ! 0 = ?hi" "q ! 1 = ?lo"
    using hi by (simp_all add: q_def protocol_uint16_bytes_def)
  with p show ?thesis by simp
qed

lemma port_bytes_dropped:
  assumes "unat p < 256"
  defines "q \<equiv> filter (\<lambda>b. b \<noteq> 0) (protocol_uint16_bytes p) @ [0, 0]"
  shows "of_nat (unat (q ! 0) * 256 + unat (q ! 1)) = p \<longleftrightarrow> p = 0"
proof -
  let ?hi = "ucast (drop_bit 8 p) :: u8" and ?lo = "ucast p :: u8"
  have "unat ?hi = 0" using unat_high [of p] assms(1) by simp
  moreover have "unat ?lo = unat p" using unat_low [of p] assms(1) by simp
  ultimately have hi: "?hi = 0" and lo: "unat ?lo = unat p" by (simp_all add: unat_eq_0)
  have "q ! 0 = ?lo" "q ! 1 = 0"
    using hi by (auto simp: q_def protocol_uint16_bytes_def)
  then have "unat (q ! 0) * 256 + unat (q ! 1) = unat p * 256" using lo by simp
  moreover have "unat (of_nat (unat p * 256) :: u16) = unat p * 256"
    using assms(1) by (simp add: unat_of_nat del: of_nat_mult)
  ultimately have "(of_nat (unat (q ! 0) * 256 + unat (q ! 1)) = p) = (unat p * 256 = unat p)"
    by (metis unsigned_word_eqI)
  then show ?thesis by (simp add: unat_eq_0)
qed

lemma login_L4_arrays: "login_L4_fields l \<Longrightarrow> login_arrays l"
proof -
  have "length b = 128 \<and> 0 \<in> set b" if "padded b" for b
  proof -
    have b: "b = cstr b @ replicate (128 - length (cstr b)) 0" "length (cstr b) < 128"
      using that unfolding padded_def by blast+
    let ?c = "cstr b @ replicate (128 - length (cstr b)) (0 :: u8)"
    have "length ?c = 128 \<and> 0 \<in> set ?c" using b(2) by simp
    then show ?thesis unfolding b(1) [symmetric] .
  qed
  then show "login_L4_fields l \<Longrightarrow> login_arrays l"
    by (simp add: login_L4_fields_def login_arrays_def)
qed

section \<open>Properties\<close>

text \<open>
  C28: legacy logins are handled without leaving their fixed-size arrays. For every received packet, every
  login layout and every outcome of the allocation, the parser stays inside its buffers and yields
  terminated 128-byte arrays; writing such a record into a target of at least 640 bytes stays inside every
  array and stores exactly the specified packet.
\<close>

theorem legacy_login_memory_safe:
  "\<exists>l. packet_read_legacy_login ok r src ver = Some l \<and> login_arrays l
    \<and> (\<forall>t. 640 \<le> length t \<longrightarrow> packet_write_legacy_login l t =
        Some (login_legacy_wire l @ drop (length (login_legacy_wire l)) t, length (login_legacy_wire l)))"
proof -
  obtain l where "packet_read_legacy_login ok r src ver = Some l" "login_arrays l"
    using packet_read_legacy_login_safe by blast
  then show ?thesis
    using packet_write_legacy_login_exact [of l] by (simp add: staged_def)
qed

theorem legacy_login_memory_safe_witness:
  "\<exists>l. packet_read_legacy_login True p_login_legacy_zero (Some [2, 0x1F, 0, 1, 0, 0x61]) PVER_LEGACYL3 = Some l
    \<and> login_arrays l
    \<and> (\<forall>t. 640 \<le> length t \<longrightarrow> packet_write_legacy_login l t =
        Some (login_legacy_wire l @ drop (length (login_legacy_wire l)) t, length (login_legacy_wire l)))"
  by (rule legacy_login_memory_safe)

text \<open>
  C29: which L4 logins survive the proxy. Whatever L4 record with non-empty texts and a version is written into a target of at least
  640 bytes, the bytes stored are parsed back; and the result is the record itself exactly when its port is 0 or at least 256. Below
  that the zero high byte of the port is dropped together with the padding, and another port is read.
\<close>

theorem legacy_login_L4_roundtrip:
  assumes "login_L4_fields l" "640 \<le> length t"
  shows "\<exists>t' n l'. packet_write_legacy_login l t = Some (t', n) \<and> packet_read_legacy_login ok r (Some (take n t')) PVER_LEGACYL4 = Some l'
    \<and> (l' = l \<longleftrightarrow> login_port l = 0 \<or> 256 \<le> unat (login_port l)) \<and> l' = l\<lparr>login_port := login_port l'\<rparr>"
proof -
  define q where "q = filter (\<lambda>b. b \<noteq> 0) (protocol_uint16_bytes (login_port l)) @ [0, 0]"
  define p where "p = (of_nat (unat (q ! 0) * 256 + unat (q ! 1)) :: u16)"
  have "packet_write_legacy_login l t = Some (login_legacy_wire l @ drop (length (login_legacy_wire l)) t, length (login_legacy_wire l))"
    using packet_write_legacy_login_exact [OF login_L4_arrays [OF assms(1)] assms(2)] by (simp add: staged_def)
  moreover have "packet_read_legacy_login ok r (Some (login_legacy_wire l)) PVER_LEGACYL4 = Some (l\<lparr>login_port := p\<rparr>)"
    using packet_read_legacy_login_L4 [OF assms(1), of ok r] by (simp add: p_def q_def)
  moreover have "p = login_port l \<longleftrightarrow> login_port l = 0 \<or> 256 \<le> unat (login_port l)"
    using port_bytes_kept [of "login_port l"] port_bytes_dropped [of "login_port l"]
    by (cases "256 \<le> unat (login_port l)") (auto simp: p_def q_def)
  moreover have "l\<lparr>login_port := p\<rparr> = l \<longleftrightarrow> p = login_port l" by (cases l) auto
  ultimately show ?thesis by simp
qed

definition sample_login_L4 :: p_login_legacy where
  "sample_login_L4 =
     \<lparr>proto_ver = PVER_LEGACYL4, login_username = [0x4A, 0x6F] @ replicate 126 0,
      login_address = [0x61, 0x2E, 0x62] @ replicate 125 0, login_port = 25565, login_version = 0x4E\<rparr>"

theorem legacy_login_L4_roundtrip_witness:
  "\<exists>t' n l'. packet_write_legacy_login sample_login_L4 (replicate 640 0) = Some (t', n)
    \<and> packet_read_legacy_login True p_login_legacy_zero (Some (take n t')) PVER_LEGACYL4 = Some l'
    \<and> (l' = sample_login_L4 \<longleftrightarrow> login_port sample_login_L4 = 0 \<or> 256 \<le> unat (login_port sample_login_L4))
    \<and> l' = sample_login_L4\<lparr>login_port := login_port l'\<rparr>"
  by (rule legacy_login_L4_roundtrip) (simp_all add: login_L4_fields_def sample_login_L4_def padded_def cstr_def)

text \<open>The same login with port 80 comes back with port 20480: the zero high byte of the port is dropped.\<close>

lemma legacy_login_low_port:
  "packet_read_legacy_login True p_login_legacy_zero (Some (login_legacy_wire (sample_login_L4\<lparr>login_port := 80\<rparr>)))
     PVER_LEGACYL4 = Some (sample_login_L4\<lparr>login_port := 20480\<rparr>)"
  by (subst packet_read_legacy_login_L4)
    (simp_all add: login_L4_fields_def sample_login_L4_def padded_def cstr_def protocol_uint16_bytes_def)

text \<open>
  C30: an M3 status ping survives the proxy. Written for any host name of at most 65535 bytes, it is
  recognised by the framing code as one complete packet of exactly the written size, whatever follows it,
  and is parsed back to the same version, host name and port.
\<close>

theorem legacy_motd_roundtrip:
  assumes "motd_address m = Some (a @ [0])" "0 \<notin> set a" "length a \<le> UINT16_MAX" "alloc (length a + 1)"
    and "0x24 + 2 * length a \<le> length d"
  shows "\<exists>d' n. packet_write_legacy_motd d m = Some (d', n) \<and> n = 0x24 + 2 * length a
    \<and> protocol_packet_length (Some (take n d' @ behind)) = Some (PROTOCOL_PACKET_COMPLETE, Some n)
    \<and> packet_read_legacy_motd alloc (Some (take n d' @ behind)) = Some m"
proof -
  have w: "packet_write_legacy_motd d m = Some (staged d (motd_legacy_wire (motd_version m) a (motd_port m)))"
    using packet_write_legacy_motd_exact [of m a "[]" d] assms by simp
  show ?thesis
    using w assms protocol_packet_length_motd_wire [OF assms(3), of "motd_version m" "motd_port m" behind]
      packet_read_legacy_motd_wire [OF assms(3), of alloc "motd_version m" "motd_port m" behind]
    by (cases m) (simp add: staged_def)
qed

theorem legacy_motd_roundtrip_witness:
  "\<exists>d' n. packet_write_legacy_motd (replicate 64 0) \<lparr>motd_address = Some ([0x61, 0x2E, 0x62] @ [0]), motd_port = 80,
      motd_version = 0x4A\<rparr> = Some (d', n) \<and> n = 0x24 + 2 * length [0x61, 0x2E, 0x62 :: u8]
    \<and> protocol_packet_length (Some (take n d' @ [1])) = Some (PROTOCOL_PACKET_COMPLETE, Some n)
    \<and> packet_read_legacy_motd (\<lambda>_. True) (Some (take n d' @ [1])) =
        Some \<lparr>motd_address = Some ([0x61, 0x2E, 0x62] @ [0]), motd_port = 80, motd_version = 0x4A\<rparr>"
  by (rule legacy_motd_roundtrip) simp_all

text \<open>
  C31: the status reply for old clients. For each of the three ping kinds, \<open>make_motd_legacy\<close> stores exactly
  the packet id, the character count and the characters of the reply, with the protocol number in decimal
  for the later two kinds, or returns 0 with the destination untouched when the text exceeds 65535
  characters or the packet does not fit.
\<close>

theorem make_motd_legacy_reply:
  assumes "cap \<le> length d" "0 \<notin> set s" "kind \<in> {PVER_LEGACYM1, PVER_LEGACYM2, PVER_LEGACYM3}"
  shows "make_motd_legacy (Some d) cap (Some (s @ 0 # r)) kind ver =
    (let text = motd_legacy_text kind ver s in
     Some (if length text \<le> UINT16_MAX \<and> length (legacy_packet text) \<le> cap
           then (Some (legacy_packet text @ drop (length (legacy_packet text)) d), length (legacy_packet text))
           else (Some d, 0)))"
  using make_motd_legacy_exact [OF assms, of r ver] by (simp add: Let_def)

theorem make_motd_legacy_reply_witness:
  "make_motd_legacy (Some (replicate 64 7)) 64 (Some ([0x68, 0x69] @ 0 # [])) PVER_LEGACYM3 78 =
    (let text = motd_legacy_text PVER_LEGACYM3 78 [0x68, 0x69] in
     Some (if length text \<le> UINT16_MAX \<and> length (legacy_packet text) \<le> 64
           then (Some (legacy_packet text @ drop (length (legacy_packet text)) (replicate 64 7)), length (legacy_packet text))
           else (Some (replicate 64 7), 0)))"
  by (rule make_motd_legacy_reply) simp_all

end
