(* ===== verification/Network.thy ===== *)
theory Network
  imports Basic
begin

text \<open>
  Addresses and socket set-up (\<open>src/network.c\<close>, \<open>src/network.h\<close>). The text conversions of the C library,
  \<open>inet_pton\<close> and \<open>inet_ntop\<close>, are the parameter \<open>inet\<close>; \<open>inet_contract\<close> states what their documentation
  promises. The outcomes of the system calls are arguments, and the functions that open descriptors also
  yield the descriptors they leave open. The byte relay of the same file is in theory Relay.
\<close>

section \<open>Types\<close>

datatype errno = EINTR | EAGAIN | EINPROGRESS | EALREADY | ECONNRESET | ENOTCONN | EPIPE | EIO | EINVAL | EOTHER

datatype net_error =
    NET_OK
  | NET_EARGFAMILY
  | NET_EMALLOC
  | NET_ENORECORD
  | NET_EARGACTION
  | NET_EARGADDR
  | NET_ESOCKET
  | NET_EREUSEADDR
  | NET_EBIND
  | NET_ELISTEN
  | NET_ECONNECT

datatype sa_family = AF_UNSPEC | AF_INET | AF_INET6 | AF_OTHER

text \<open>The union of the two address forms is its 16 bytes; an IPv4 address is the first four.\<close>

record net_addr =
  addr_family :: sa_family
  addr_err :: net_error
  addr_bytes :: bytes

definition net_addr_zero :: net_addr where
  "net_addr_zero = \<lparr>addr_family = AF_UNSPEC, addr_err = NET_OK, addr_bytes = replicate 16 0\<rparr>"

datatype net_connect_status =
    NET_CONNECT_OK
  | NET_CONNECT_PENDING
  | NET_CONNECT_FAILURE
  | NET_CONNECT_BAD_ARGUMENT
  | NET_CONNECT_INTERNAL

datatype net_socket_action = NETSOCK_BIND | NETSOCK_CONN | NETSOCK_OTHER

section \<open>Text conversions of the C library\<close>

record inet =
  pton4 :: "bytes \<Rightarrow> bytes option"
  pton6 :: "bytes \<Rightarrow> bytes option"
  ntop4 :: "bytes \<Rightarrow> bytes option"
  ntop6 :: "bytes \<Rightarrow> bytes option"

text \<open>
  The promises of the library that the code relies on: presentation forms are short texts over digits,
  letters, dots and colons, they convert back to the address they were made from, no IPv6 text is also an
  IPv4 text, and converted addresses have 4 and 16 bytes.
\<close>

definition address_text :: "bytes \<Rightarrow> bool" where
  "address_text t \<longleftrightarrow> t \<noteq> [] \<and> list_all (\<lambda>c. 0x2E \<le> c \<and> c < 0x7F) t"

definition inet_contract :: "inet \<Rightarrow> bool" where
  "inet_contract i \<longleftrightarrow>
     (\<forall>a. length a = 4 \<longrightarrow> (\<exists>t. ntop4 i a = Some t \<and> address_text t \<and> length t \<le> 15 \<and> pton4 i t = Some a)) \<and>
     (\<forall>a. length a = 16 \<longrightarrow>
       (\<exists>t. ntop6 i a = Some t \<and> address_text t \<and> length t \<le> 45 \<and> pton6 i t = Some a \<and> pton4 i t = None)) \<and>
     (\<forall>t a. pton4 i t = Some a \<longrightarrow> length a = 4) \<and> (\<forall>t a. pton6 i t = Some a \<longrightarrow> length a = 16)"

section \<open>Addresses\<close>

definition net_addr_parse :: "inet \<Rightarrow> bytes option \<Rightarrow> net_addr option" where
  "net_addr_parse i addr =
     (case addr of
        None \<Rightarrow> Some (net_addr_zero\<lparr>addr_err := NET_EARGADDR\<rparr>)
      | Some t \<Rightarrow> do {
          _ \<leftarrow> strlen t;
          Some (case pton4 i (cstr t) of
                  Some v4 \<Rightarrow> net_addr_zero\<lparr>addr_family := AF_INET, addr_bytes := v4 @ replicate 12 0\<rparr>
                | None \<Rightarrow>
                    (case pton6 i (cstr t) of
                       Some v6 \<Rightarrow> net_addr_zero\<lparr>addr_family := AF_INET6, addr_bytes := v6\<rparr>
                     | None \<Rightarrow> net_addr_zero\<lparr>addr_err := NET_EARGADDR\<rparr>))
        })"

text \<open>
  \<open>net_ntop\<close> yields the 48 bytes of a \<open>net_addrp\<close>; \<open>inet_ntop\<close> fails when its text does not fit them.
\<close>

definition inet_ntop :: "inet \<Rightarrow> sa_family \<Rightarrow> bytes \<Rightarrow> bytes option" where
  "inet_ntop i family src =
     (if family = AF_INET then ntop4 i (take 4 src) else if family = AF_INET6 then ntop6 i (take 16 src) else None)"

definition net_ntop :: "inet \<Rightarrow> sa_family \<Rightarrow> bytes option \<Rightarrow> bool \<Rightarrow> bytes option" where
  "net_ntop i family src v6addition =
     (let zero = replicate 48 0 in
      if family \<noteq> AF_INET \<and> family \<noteq> AF_INET6 then Some zero
      else
        (case src of
           None \<Rightarrow> Some zero
         | Some s \<Rightarrow>
             (case inet_ntop i family s of
                None \<Rightarrow> Some zero
              | Some t \<Rightarrow>
                  if length t \<ge> 48 then Some zero
                  else if v6addition \<and> family = AF_INET6 then snprintf zero 48 ([0x5B] @ t @ [0x5D])
                  else buf_write 0 (t @ [0]) zero)))"

section \<open>Connecting and binding\<close>

text \<open>
  \<open>sock\<close> is the result of \<open>socket()\<close> (\<open>None\<close> is -1) and \<open>conn\<close> the error of \<open>connect()\<close>, if any. The result is
  the status, the descriptor stored for the caller (\<open>None\<close> is -1) and the descriptors left open.
\<close>

definition net_connect_nonblocking ::
  "nat option \<Rightarrow> errno option \<Rightarrow> net_addr option \<Rightarrow> bool \<Rightarrow> net_connect_status \<times> nat option \<times> nat list" where
  "net_connect_nonblocking sock conn address has_result =
     (case address of
        None \<Rightarrow> (NET_CONNECT_BAD_ARGUMENT, None, [])
      | Some a \<Rightarrow>
          if \<not> has_result \<or> addr_err a \<noteq> NET_OK \<or> addr_family a \<noteq> AF_INET \<and> addr_family a \<noteq> AF_INET6
          then (NET_CONNECT_BAD_ARGUMENT, None, [])
          else
            (case sock of
               None \<Rightarrow> (NET_CONNECT_INTERNAL, None, [])
             | Some fd \<Rightarrow>
                 (case conn of
                    None \<Rightarrow> (NET_CONNECT_OK, Some fd, [fd])
                  | Some e \<Rightarrow>
                      if e \<in> {EINPROGRESS, EALREADY, EINTR} then (NET_CONNECT_PENDING, Some fd, [fd])
                      else (NET_CONNECT_FAILURE, None, []))))"

definition net_connect_nonblocking_complete :: "nat option \<Rightarrow> errno option option \<Rightarrow> net_connect_status" where
  "net_connect_nonblocking_complete socket_fd so_error =
     (if socket_fd = None then NET_CONNECT_BAD_ARGUMENT
      else (case so_error of
              None \<Rightarrow> NET_CONNECT_INTERNAL
            | Some None \<Rightarrow> NET_CONNECT_OK
            | Some (Some _) \<Rightarrow> NET_CONNECT_FAILURE))"

text \<open>The outcomes of the calls of \<open>net_socket\<close>, in the order in which it makes them.\<close>

record socket_outcomes =
  malloc_ok :: bool
  socket_fd :: "nat option"
  setsockopt_ok :: bool
  bind_ok :: bool
  listen_ok :: bool
  connect_ok :: bool

definition net_socket ::
  "socket_outcomes \<Rightarrow> net_socket_action \<Rightarrow> sa_family \<Rightarrow> bytes option \<Rightarrow> bool \<Rightarrow> (net_error + nat) \<times> nat list" where
  "net_socket os action family address reuseaddr =
     (if action \<noteq> NETSOCK_BIND \<and> action \<noteq> NETSOCK_CONN then (Inl NET_EARGACTION, [])
      else if family \<noteq> AF_INET \<and> family \<noteq> AF_INET6 then (Inl NET_EARGFAMILY, [])
      else if address = None then (Inl NET_EARGADDR, [])
      else if \<not> malloc_ok os then (Inl NET_EMALLOC, [])
      else
        (case socket_fd os of
           None \<Rightarrow> (Inl NET_ESOCKET, [])
         | Some fd \<Rightarrow>
             if reuseaddr \<and> \<not> setsockopt_ok os then (Inl NET_EREUSEADDR, [])
             else if action = NETSOCK_BIND \<and> \<not> bind_ok os then (Inl NET_EBIND, [])
             else if action = NETSOCK_BIND \<and> \<not> listen_ok os then (Inl NET_ELISTEN, [])
             else if action = NETSOCK_CONN \<and> \<not> connect_ok os then (Inl NET_ECONNECT, [])
             else (Inr fd, [fd])))"

text \<open>A descriptor stays open exactly when it is handed to the caller.\<close>

lemma net_connect_nonblocking_no_leak:
  "(case net_connect_nonblocking sock conn a r of (st, fd, open_fds) \<Rightarrow>
     open_fds = (case fd of None \<Rightarrow> [] | Some n \<Rightarrow> [n]) \<and> (fd \<noteq> None \<longleftrightarrow> st = NET_CONNECT_OK \<or> st = NET_CONNECT_PENDING))"
  by (auto simp: net_connect_nonblocking_def split: option.splits)

lemma net_socket_no_leak:
  "(case net_socket os act fam a r of (Inl _, open_fds) \<Rightarrow> open_fds = [] | (Inr fd, open_fds) \<Rightarrow> open_fds = [fd])"
  by (auto simp: net_socket_def split: option.splits)

lemma net_addr_parse_terminated:
  assumes "inet_contract i"
  shows "\<exists>a. net_addr_parse i (Some (t @ [0])) = Some a \<and> length (addr_bytes a) = 16 \<and> addr_family a \<in> {AF_INET, AF_INET6, AF_UNSPEC}"
proof -
  have "pton4 i x = Some v \<Longrightarrow> length v = 4" "pton6 i x = Some v \<Longrightarrow> length v = 16" for x v
    using assms by (auto simp: inet_contract_def)
  moreover have "\<exists>n. strlen (t @ [0]) = Some n"
    by (simp add: strlen_def)
  ultimately show ?thesis
    by (auto simp: net_addr_parse_def net_addr_zero_def split: option.splits)
qed

text \<open>A text form that satisfies the contract: two letters for every byte.\<close>

fun letters :: "bytes \<Rightarrow> bytes" where
  "letters [] = []"
| "letters (b # bs) = (0x61 + drop_bit 4 b) # (0x61 + (b AND 0x0F)) # letters bs"

fun unletters :: "bytes \<Rightarrow> bytes" where
  "unletters (h # l # cs) = (push_bit 4 (h - 0x61) OR (l - 0x61)) # unletters cs"
| "unletters _ = []"

definition letter_inet :: inet where
  "letter_inet =
     \<lparr>pton4 = (\<lambda>t. if length t = 8 then Some (unletters t) else None),
      pton6 = (\<lambda>t. if length t = 32 then Some (unletters t) else None),
      ntop4 = (\<lambda>a. Some (letters a)), ntop6 = (\<lambda>a. Some (letters a))\<rparr>"

lemma unletters_letters: "unletters (letters bs) = bs"
  by (induction bs) (simp_all add: nibble_join)

lemma length_letters [simp]: "length (letters bs) = 2 * length bs"
  by (induction bs) simp_all

lemma letters_text: "bs \<noteq> [] \<Longrightarrow> address_text (letters bs)"
proof -
  have "0x2E \<le> (0x61 + n :: u8) \<and> 0x61 + n < 0x7F" if "unat n < 16" for n :: u8
  proof -
    have "unat (0x61 + n) = 97 + unat n"
      using that by (simp add: unat_word_ariths)
    with that show ?thesis by (simp add: word_le_nat_alt word_less_nat_alt)
  qed
  then have "list_all (\<lambda>c. 0x2E \<le> c \<and> c < 0x7F) (letters bs)"
    using nibble_less by (induction bs) simp_all
  then show "bs \<noteq> [] \<Longrightarrow> address_text (letters bs)"
    by (cases bs) (simp_all add: address_text_def)
qed

lemma length_unletters: "length (unletters t) = length t div 2"
  by (induction t rule: unletters.induct) simp_all

lemma letter_inet_contract: "inet_contract letter_inet"
proof -
  have "bs \<noteq> []" if "length bs = 4 \<or> length bs = 16" for bs :: bytes
    using that by auto
  then show ?thesis
    by (auto simp: inet_contract_def letter_inet_def unletters_letters letters_text length_unletters)
qed

end
