(* ===== verification/Proxy.thy ===== *)
theory Proxy
  imports Network Proto_Common
begin

text \<open>
  The PROXY protocol, version 1 (\<open>src/protocol/proxy.c\<close>): parsing and printing the header line that carries
  the original endpoints of a connection.
\<close>

section \<open>Types\<close>

definition PROTOPROXY_PACKETMAXLEN :: nat where "PROTOPROXY_PACKETMAXLEN = 128"

record p_proxy =
  proxy_family :: sa_family
  srcaddr :: net_addr
  dstaddr :: net_addr
  srcport :: u16
  dstport :: u16

definition p_proxy_zero :: p_proxy where
  "p_proxy_zero = \<lparr>proxy_family = AF_UNSPEC, srcaddr = net_addr_zero, dstaddr = net_addr_zero, srcport = 0, dstport = 0\<rparr>"

text \<open>A socket address: the address bytes and the port in host order.\<close>

datatype sockaddr = Sockaddr_in bytes u16 | Sockaddr_in6 bytes u16 | Sockaddr_other

section \<open>Endpoints of a socket\<close>

definition v4mapped :: "bytes \<Rightarrow> bool" where
  "v4mapped a \<longleftrightarrow> take 12 a = replicate 10 0 @ [0xFF, 0xFF]"

definition protocol_proxy_endpoint_read :: "sockaddr \<Rightarrow> (net_addr \<times> u16) option" where
  "protocol_proxy_endpoint_read source =
     (case source of
        Sockaddr_in a p \<Rightarrow>
          Some (net_addr_zero\<lparr>addr_family := AF_INET, addr_bytes := a @ replicate 12 0\<rparr>, p)
      | Sockaddr_in6 a p \<Rightarrow>
          Some (if v4mapped a
                then net_addr_zero\<lparr>addr_family := AF_INET, addr_bytes := take 4 (drop 12 a) @ replicate 12 0\<rparr>
                else net_addr_zero\<lparr>addr_family := AF_INET6, addr_bytes := a\<rparr>, p)
      | Sockaddr_other \<Rightarrow> None)"

text \<open>\<open>peer\<close> and \<open>sock\<close> are the answers of \<open>getpeername\<close> and \<open>getsockname\<close> (\<open>None\<close> is an error).\<close>

definition protocol_proxy_socket_read :: "sockaddr option \<Rightarrow> sockaddr option \<Rightarrow> bool \<Rightarrow> p_proxy option \<Rightarrow> bool \<times> p_proxy option" where
  "protocol_proxy_socket_read peer sock fd_valid result =
     (if result = None then (False, None)
      else if \<not> fd_valid then (False, Some p_proxy_zero)
      else
        (case (Option.bind peer protocol_proxy_endpoint_read, Option.bind sock protocol_proxy_endpoint_read) of
           (Some (sa, sp), Some (da, dp)) \<Rightarrow>
             if addr_family sa \<noteq> addr_family da then (False, Some p_proxy_zero)
             else (True, Some \<lparr>proxy_family = addr_family sa, srcaddr = sa, dstaddr = da, srcport = sp, dstport = dp\<rparr>)
         | _ \<Rightarrow> (False, Some p_proxy_zero)))"

section \<open>Parsing\<close>

text \<open>
  A cursor and an end are the bytes between them; a field yields its value and the advanced cursor. In the results of the
  readers the outer \<open>None\<close> is an access outside an object, \<open>Some None\<close> the value \<open>false\<close>.
\<close>

definition field_then :: "'a option option \<Rightarrow> ('a \<Rightarrow> 'b option option) \<Rightarrow> 'b option option" where
  "field_then r k = (case r of None \<Rightarrow> None | Some None \<Rightarrow> Some None | Some (Some x) \<Rightarrow> k x)"

text \<open>The address field is copied into the array \<open>dst\<close>, of which \<open>dst_size\<close> bytes may be used.\<close>

definition protocol_proxy_field_address :: "bytes \<Rightarrow> bytes \<Rightarrow> nat \<Rightarrow> (bytes \<times> bytes) option option" where
  "protocol_proxy_field_address cursor dst dst_size =
     (case memchr 0x20 cursor of
        None \<Rightarrow> Some None
      | Some n \<Rightarrow> do {
          field \<leftarrow> buf_read 0 n cursor;
          if n = 0 \<or> n \<ge> dst_size \<or> memchr 0 field \<noteq> None then Some None
          else do {
            dst \<leftarrow> buf_write 0 field dst;
            dst \<leftarrow> buf_write n [0] dst;
            cursor \<leftarrow> buf_read n (length cursor - n) cursor;
            Some (Some (dst, cursor))
          }
        })"

fun proxy_port_loop :: "u32 \<Rightarrow> nat \<Rightarrow> bytes \<Rightarrow> (u32 \<times> nat \<times> bytes) option" where
  "proxy_port_loop value n [] = Some (value, n, [])"
| "proxy_port_loop value n (c # cursor) =
     (if is_digit c then
        (let value' = value * 10 + (ucast c - 0x30) in
         if value' > 65535 then None else proxy_port_loop value' (n + 1) cursor)
      else Some (value, n, c # cursor))"

definition protocol_proxy_field_port :: "bytes \<Rightarrow> (u16 \<times> bytes) option" where
  "protocol_proxy_field_port cursor =
     (case proxy_port_loop 0 0 cursor of
        None \<Rightarrow> None
      | Some (value, n, rest) \<Rightarrow> if n = 0 then None else Some (ucast value, rest))"

definition protocol_proxy_field_space :: "bytes \<Rightarrow> bytes option option" where
  "protocol_proxy_field_space cursor =
     (if length cursor = 0 then Some None
      else do {
        c \<leftarrow> buf_at 0 cursor;
        if c \<noteq> 0x20 then Some None
        else do { cursor \<leftarrow> buf_read 1 (length cursor - 1) cursor; Some (Some cursor) }
      })"

definition proxy_tcp :: bytes where
  "proxy_tcp = [0x50, 0x52, 0x4F, 0x58, 0x59, 0x20, 0x54, 0x43, 0x50]"

definition protocol_proxy_getfamily :: "bytes \<Rightarrow> sa_family option" where
  "protocol_proxy_getfamily src =
     (let n = length src in
      if n < 11 \<or> n > PROTOPROXY_PACKETMAXLEN then Some AF_UNSPEC
      else do {
        head \<leftarrow> buf_read 0 9 src;
        if head \<noteq> proxy_tcp then Some AF_UNSPEC
        else
          (case memchr 0x0D src of
             None \<Rightarrow> Some AF_UNSPEC
           | Some e \<Rightarrow>
               if n \<noteq> e + 2 then Some AF_UNSPEC
               else do {
                 tail \<leftarrow> buf_read e 2 src;
                 if tail \<noteq> [0x0D, 0x0A] then Some AF_UNSPEC
                 else do {
                   sp \<leftarrow> buf_at 10 src;
                   if sp \<noteq> 0x20 then Some AF_UNSPEC
                   else do {
                     v \<leftarrow> buf_at 9 src;
                     Some (if v = 0x34 then AF_INET else if v = 0x36 then AF_INET6 else AF_UNSPEC)
                   }
                 }
               })
      })"

text \<open>
  The chain of field readers of \<open>protocol_proxy_read\<close>: both address texts, each in an array of \<open>INET6_ADDRSTRLEN + 2\<close> bytes, and
  both ports.
\<close>

definition INET6_ADDRSTRLEN :: nat where
  "INET6_ADDRSTRLEN = 46"

definition protocol_proxy_fields :: "bytes \<Rightarrow> (bytes \<times> bytes \<times> u16 \<times> u16) option option" where
  "protocol_proxy_fields cursor =
     (let text = replicate (INET6_ADDRSTRLEN + 2) 0 in
      field_then (protocol_proxy_field_address cursor text (INET6_ADDRSTRLEN + 2)) (\<lambda>(source_text, cursor).
      field_then (protocol_proxy_field_space cursor) (\<lambda>cursor.
      field_then (protocol_proxy_field_address cursor text (INET6_ADDRSTRLEN + 2)) (\<lambda>(dest_text, cursor).
      field_then (protocol_proxy_field_space cursor) (\<lambda>cursor.
      field_then (Some (protocol_proxy_field_port cursor)) (\<lambda>(source_port, cursor).
      field_then (protocol_proxy_field_space cursor) (\<lambda>cursor.
      field_then (Some (protocol_proxy_field_port cursor)) (\<lambda>(dest_port, cursor).
        Some (if cursor \<noteq> [] then None else Some (source_text, dest_text, source_port, dest_port))))))))))"

definition protocol_proxy_read :: "inet \<Rightarrow> bytes option \<Rightarrow> p_proxy option" where
  "protocol_proxy_read i src =
     (case src of
        None \<Rightarrow> Some p_proxy_zero
      | Some s \<Rightarrow> do {
          family \<leftarrow> protocol_proxy_getfamily s;
          if family = AF_UNSPEC then Some p_proxy_zero
          else if length s - 2 \<le> 11 then Some p_proxy_zero
          else do {
            body \<leftarrow> buf_read 11 (length s - 2 - 11) s;
            fields \<leftarrow> protocol_proxy_fields body;
            (case fields of
               None \<Rightarrow> Some p_proxy_zero
             | Some (source_text, dest_text, source_port, dest_port) \<Rightarrow> do {
                 sa \<leftarrow> net_addr_parse i (Some source_text);
                 da \<leftarrow> net_addr_parse i (Some dest_text);
                 Some \<lparr>proxy_family =
                         (if addr_err sa \<noteq> NET_OK \<or> addr_err da \<noteq> NET_OK
                             \<or> addr_family sa \<noteq> family \<or> addr_family da \<noteq> family
                          then AF_UNSPEC else family),
                       srcaddr = sa, dstaddr = da, srcport = source_port, dstport = dest_port\<rparr>
               })
          }
        })"

section \<open>Printing\<close>

definition protocol_proxy_text :: "u8 \<Rightarrow> bytes \<Rightarrow> bytes \<Rightarrow> u16 \<Rightarrow> u16 \<Rightarrow> bytes" where
  "protocol_proxy_text v sa da sp dp =
     proxy_tcp @ [v, 0x20] @ sa @ [0x20] @ da @ [0x20] @ decimal (unat sp) @ [0x20] @ decimal (unat dp) @ [0x0D, 0x0A]"

definition protocol_proxy_write :: "inet \<Rightarrow> bytes \<Rightarrow> p_proxy \<Rightarrow> (bytes \<times> nat) option" where
  "protocol_proxy_write i dst src =
     do {
       sa \<leftarrow> net_ntop i (proxy_family src) (Some (addr_bytes (srcaddr src))) False;
       da \<leftarrow> net_ntop i (proxy_family src) (Some (addr_bytes (dstaddr src))) False;
       if proxy_family src \<noteq> AF_INET \<and> proxy_family src \<noteq> AF_INET6 then Some (dst, 0)
       else do {
         let text = protocol_proxy_text (if proxy_family src = AF_INET then 0x34 else 0x36)
           (cstr sa) (cstr da) (srcport src) (dstport src);
         dst \<leftarrow> snprintf dst (PROTOPROXY_PACKETMAXLEN + 1) text;
         Some (dst, length text)
       }
     }"

section \<open>Fields\<close>

definition digits_from :: "nat \<Rightarrow> bytes \<Rightarrow> nat" where
  "digits_from m ds = foldl (\<lambda>v d. v * 10 + (unat d - 48)) m ds"

lemma digits_from_mono: "m \<le> digits_from m ds"
proof (induction ds arbitrary: m)
  case (Cons d ds)
  have "m \<le> m * 10 + (unat d - 48)" by simp
  with Cons [of "m * 10 + (unat d - 48)"] show ?case by (simp add: digits_from_def)
qed (simp add: digits_from_def)

lemma digit_bounds: "is_digit c \<longleftrightarrow> 48 \<le> unat c \<and> unat c \<le> 57"
  by (simp add: is_digit_def word_le_nat_alt)

lemma digit_step:
  assumes "is_digit c" "m \<le> 65535"
  shows "(of_nat m * 10 + (ucast c - 0x30) :: u32) = of_nat (m * 10 + (unat c - 48))"
proof -
  have "(of_nat (unat c - 48) :: u32) = of_nat (unat c) - of_nat 48"
    using assms(1) by (intro of_nat_diff) (simp add: digit_bounds)
  then show ?thesis by simp
qed

lemma proxy_port_loop_digits:
  assumes "list_all is_digit ds" "digits_from m ds \<le> 65535" "rest = [] \<or> \<not> is_digit (hd rest)"
  shows "proxy_port_loop (of_nat m) n (ds @ rest) = Some (of_nat (digits_from m ds), n + length ds, rest)"
  using assms
proof (induction ds arbitrary: m n)
  case Nil
  then show ?case by (cases rest) (simp_all add: digits_from_def)
next
  case (Cons d ds)
  let ?m = "m * 10 + (unat d - 48)"
  have f: "digits_from ?m ds = digits_from m (d # ds)"
    by (simp add: digits_from_def)
  have le: "?m \<le> 65535" "m \<le> 65535"
    using Cons.prems(2) digits_from_mono [of ?m ds] f by simp_all
  have "unat (of_nat ?m :: u32) = ?m"
    using le by (simp add: unat_of_nat del: of_nat_add of_nat_mult)
  then have "\<not> (of_nat ?m :: u32) > 65535"
    using le by (simp add: word_less_nat_alt del: of_nat_add of_nat_mult)
  moreover have "(of_nat m * 10 + (ucast d - 0x30) :: u32) = of_nat ?m"
    using Cons.prems le by (intro digit_step) simp_all
  ultimately show ?case
    using Cons.IH [of ?m "n + 1"] Cons.prems f by (simp del: of_nat_add of_nat_mult)
qed

lemma field_port_decimal:
  assumes "rest = [] \<or> \<not> is_digit (hd rest)"
  shows "protocol_proxy_field_port (decimal (unat p) @ rest) = Some (p, rest)"
proof -
  have "digits_from 0 (decimal (unat p)) = unat p"
    using digits_value_decimal by (simp add: digits_from_def digits_value_def)
  then have "proxy_port_loop 0 0 (decimal (unat p) @ rest) = Some (of_nat (unat p), length (decimal (unat p)), rest)"
    using proxy_port_loop_digits [OF decimal_digits, of 0 "unat p" rest 0] assms unat_bounds(2) [of p] by simp
  moreover have "(ucast (of_nat (unat p) :: u32) :: u16) = p"
    by (metis ucast_widen(2) of_nat_unat)
  ultimately show ?thesis
    using decimal_nonempty by (simp add: protocol_proxy_field_port_def)
qed

text \<open>A text in its zeroed array.\<close>

definition in_array :: "bytes \<Rightarrow> bytes" where
  "in_array t = t @ replicate (48 - length t) 0"

lemma in_array_write:
  assumes "length t < 48"
  shows "buf_write 0 t (replicate 48 0) = Some (in_array t)" "buf_write (length t) [0] (in_array t) = Some (in_array t)"
proof -
  obtain k where "48 - length t = Suc k" using assms by (cases "48 - length t") auto
  then show "buf_write 0 t (replicate 48 0) = Some (in_array t)" "buf_write (length t) [0] (in_array t) = Some (in_array t)"
    using assms by (simp_all add: buf_write_def in_array_def)
qed

lemma in_array_parse:
  assumes "length t < 48" "0 \<notin> set t"
  shows "net_addr_parse i (Some (in_array t)) = net_addr_parse i (Some (t @ [0]))" "net_addr_parse i (Some (in_array t)) \<noteq> None"
proof -
  obtain k where "48 - length t = Suc k" using assms(1) by (cases "48 - length t") auto
  then have "in_array t = t @ 0 # replicate k 0" by (simp add: in_array_def)
  then show "net_addr_parse i (Some (in_array t)) = net_addr_parse i (Some (t @ [0]))" "net_addr_parse i (Some (in_array t)) \<noteq> None"
    using strlen_cstr [OF assms(2)] cstr_append [OF assms(2)] by (simp_all add: net_addr_parse_def cong: option.case_cong)
qed

lemma field_address_text:
  assumes "t \<noteq> []" "0x20 \<notin> set t" "0 \<notin> set t" "length t < 48"
  shows "protocol_proxy_field_address (t @ 0x20 # rest) (replicate 48 0) 48 = Some (Some (in_array t, 0x20 # rest))"
  using assms in_array_write [OF assms(4)]
  by (simp add: protocol_proxy_field_address_def memchr_append_fresh memchr_None_iff buf_read_def)



lemma field_space_text: "protocol_proxy_field_space (0x20 # rest) = Some (Some rest)"
  by (simp add: protocol_proxy_field_space_def buf_at_def buf_read_def)



lemma address_text_chars:
  assumes "address_text t"
  shows "t \<noteq> []" "0x20 \<notin> set t" "0 \<notin> set t" "0x0D \<notin> set t"
  using assms by (auto simp: address_text_def list_all_iff dest!: bspec)

lemma decimal_chars: "0x20 \<notin> set (decimal n)" "0x0D \<notin> set (decimal n)"
  using decimal_digits [of n] by (auto simp: list_all_iff is_digit_def dest!: bspec)

lemma protocol_proxy_fields_text:
  assumes "address_text sa" "address_text da" "length sa < 48" "length da < 48"
  shows "protocol_proxy_fields (sa @ [0x20] @ da @ [0x20] @ decimal (unat sp) @ [0x20] @ decimal (unat dp)) =
    Some (Some (in_array sa, in_array da, sp, dp))"
  using assms address_text_chars [of sa] address_text_chars [of da] field_port_decimal [of "[]" dp]
    field_port_decimal [of "0x20 # decimal (unat dp)" sp]
  by (simp add: protocol_proxy_fields_def field_then_def INET6_ADDRSTRLEN_def field_address_text field_space_text is_digit_def)


section \<open>Header lines\<close>

definition proxy_address :: "sa_family \<Rightarrow> net_addr \<Rightarrow> bool" where
  "proxy_address family a \<longleftrightarrow>
     addr_family a = family \<and> addr_err a = NET_OK \<and> length (addr_bytes a) = 16
     \<and> (family = AF_INET \<longrightarrow> drop 4 (addr_bytes a) = replicate 12 0)"

text \<open>The records the proxy makes from accepted sockets: both endpoints of one family.\<close>

definition proxy_record :: "p_proxy \<Rightarrow> bool" where
  "proxy_record p \<longleftrightarrow>
     proxy_family p \<in> {AF_INET, AF_INET6} \<and> proxy_address (proxy_family p) (srcaddr p)
     \<and> proxy_address (proxy_family p) (dstaddr p)"

lemma net_ntop_text:
  assumes "inet_contract i" "family \<in> {AF_INET, AF_INET6}" "proxy_address family a"
  shows "\<exists>t b. net_ntop i family (Some (addr_bytes a)) False = Some b \<and> cstr b = t \<and> address_text t \<and> length t \<le> 45
    \<and> net_addr_parse i (Some (t @ [0])) = Some a"
proof -
  have tx: "net_ntop i family (Some (addr_bytes a)) False = Some (t @ 0 # replicate (47 - length t) 0)
      \<and> cstr (t @ 0 # replicate (47 - length t) 0) = t"
    if "inet_ntop i family (addr_bytes a) = Some t" "address_text t" "length t \<le> 45" for t
    using that assms(2) address_text_chars [of t]
    by (auto simp: net_ntop_def buf_write_def cstr_append)
  have z: "strlen (t @ [0]) = Some (length t)" "cstr (t @ [0]) = t" if "address_text t" for t
    using strlen_cstr [of t "[]"] cstr_append [of t "[]"] address_text_chars [OF that] by auto
  from assms(2) consider "family = AF_INET" | "family = AF_INET6" by blast
  then show ?thesis
  proof cases
    case 1
    have "length (take 4 (addr_bytes a)) = 4"
      using assms(3) by (simp add: proxy_address_def)
    then obtain t where t: "ntop4 i (take 4 (addr_bytes a)) = Some t" "address_text t" "length t \<le> 15"
        "pton4 i t = Some (take 4 (addr_bytes a))"
      using assms(1) unfolding inet_contract_def by blast
    have "take 4 (addr_bytes a) @ replicate 12 0 = addr_bytes a"
      using assms(3) 1 unfolding proxy_address_def by (metis append_take_drop_id)
    then have "net_addr_parse i (Some (t @ [0])) = Some a"
      using t z [OF t(2)] 1 assms(3) by (cases a) (simp add: net_addr_parse_def net_addr_zero_def proxy_address_def)
    with tx [of t] t 1 show ?thesis by (auto simp: inet_ntop_def)
  next
    case 2
    then obtain t where t: "ntop6 i (addr_bytes a) = Some t" "address_text t" "length t \<le> 45"
        "pton6 i t = Some (addr_bytes a)" "pton4 i t = None"
      using assms(1,3) unfolding inet_contract_def proxy_address_def by blast
    then have "net_addr_parse i (Some (t @ [0])) = Some a"
      using z [OF t(2)] 2 assms(3) by (cases a) (simp add: net_addr_parse_def net_addr_zero_def proxy_address_def)
    with tx [of t] t 2 assms(3) show ?thesis by (auto simp: inet_ntop_def proxy_address_def)
  qed
qed

lemma proxy_text_read:
  fixes sp dp :: u16
  assumes t: "address_text sa" "address_text da" "length sa \<le> 45" "length da \<le> 45" and v: "v \<in> {0x34, 0x36}"
  defines "text \<equiv> protocol_proxy_text v sa da sp dp"
  shows "length text \<le> 116" "protocol_proxy_getfamily text = Some (if v = 0x34 then AF_INET else AF_INET6)"
    "protocol_proxy_fields (take (length text - 2 - 11) (drop 11 text)) = Some (Some (in_array sa, in_array da, sp, dp))"
    "11 < length text - 2"
proof -
  let ?body = "sa @ [0x20] @ da @ [0x20] @ decimal (unat sp) @ [0x20] @ decimal (unat dp)"
  have tx: "text = (proxy_tcp @ [v, 0x20]) @ ?body @ [0x0D, 0x0A]"
    by (simp add: text_def protocol_proxy_text_def)
  have p: "length proxy_tcp = 9" "0x0D \<notin> set proxy_tcp"
    by (simp_all add: proxy_tcp_def)
  have dec: "length (decimal (unat (q :: u16))) \<le> 5" for q
    using length_decimal [of "unat q" 5] unat_bounds(2) [of q] by simp
  show len: "length text \<le> 116"
    using t dec [of sp] dec [of dp] p by (simp add: tx)
  define b where "b = ?body"
  define pre where "pre = proxy_tcp @ [v, 0x20]"
  have tx': "text = pre @ b @ [0x0D, 0x0A]" and pre: "length pre = 11"
    using p by (simp_all add: tx b_def pre_def)
  have "b \<noteq> []" by (simp add: b_def)
  then show "11 < length text - 2" using pre by (simp add: tx')
  show "protocol_proxy_fields (take (length text - 2 - 11) (drop 11 text)) = Some (Some (in_array sa, in_array da, sp, dp))"
    using protocol_proxy_fields_text [of sa da sp dp, folded b_def] t pre by (simp add: tx')
  have "0x0D \<notin> set (pre @ b)"
    using p v t address_text_chars(4) decimal_chars by (auto simp: pre_def b_def)
  then have m: "memchr 0x0D text = Some (length (pre @ b))"
    using memchr_append_fresh [of "0x0D" "pre @ b" "[0x0D, 0x0A]"] by (simp add: tx')
  have h: "buf_read 0 9 text = Some proxy_tcp" "buf_at 10 text = Some 0x20" "buf_at 9 text = Some v"
    using p by (simp_all add: tx' pre_def buf_read_def buf_at_def nth_append)
  have r: "buf_read (length pre + length b) 2 text = Some [0x0D, 0x0A]"
    by (simp add: tx' buf_read_def)
  have "\<not> length text < 11" "\<not> length text > PROTOPROXY_PACKETMAXLEN" "length text = length (pre @ b) + 2"
    using len pre by (simp_all add: tx' PROTOPROXY_PACKETMAXLEN_def)
  then show "protocol_proxy_getfamily text = Some (if v = 0x34 then AF_INET else AF_INET6)"
    using v unfolding protocol_proxy_getfamily_def Let_def
    by (auto simp: m h r)
qed


section \<open>Properties\<close>

text \<open>
  C32: header lines survive a round trip. For every record of accepted endpoints, the printed line is at most
  116 bytes long, so it is never truncated by the 128-byte bound, and parsing it gives the record back:
  family, both addresses and both ports.
\<close>

theorem protocol_proxy_roundtrip:
  assumes i: "inet_contract i" and p: "proxy_record p" and d: "PROTOPROXY_PACKETMAXLEN < length d"
  shows "\<exists>d' n. protocol_proxy_write i d p = Some (d', n) \<and> 0 < n \<and> n \<le> 116
    \<and> protocol_proxy_read i (Some (take n d')) = Some p"
proof -
  let ?f = "proxy_family p" and ?v = "if proxy_family p = AF_INET then 0x34 else 0x36 :: u8"
  have f: "?f \<in> {AF_INET, AF_INET6}"
    using p by (simp add: proxy_record_def)
  obtain sb where s: "net_ntop i ?f (Some (addr_bytes (srcaddr p))) False = Some sb" "address_text (cstr sb)"
      "length (cstr sb) \<le> 45" "net_addr_parse i (Some (cstr sb @ [0])) = Some (srcaddr p)"
    using net_ntop_text [OF i f, of "srcaddr p"] p by (auto simp: proxy_record_def)
  obtain db where t: "net_ntop i ?f (Some (addr_bytes (dstaddr p))) False = Some db" "address_text (cstr db)"
      "length (cstr db) \<le> 45" "net_addr_parse i (Some (cstr db @ [0])) = Some (dstaddr p)"
    using net_ntop_text [OF i f, of "dstaddr p"] p by (auto simp: proxy_record_def)
  define tx where "tx = protocol_proxy_text ?v (cstr sb) (cstr db) (srcport p) (dstport p)"
  note r = proxy_text_read [OF s(2) t(2) s(3) t(3), of ?v "srcport p" "dstport p", folded tx_def]
  have n: "length tx \<le> 116" "0 < length tx"
    using r(1) by (simp_all add: tx_def protocol_proxy_text_def)
  then have "snprintf d 129 tx = Some (tx @ 0 # drop (Suc (length tx)) d)"
    using d by (simp add: snprintf_def buf_write_def PROTOPROXY_PACKETMAXLEN_def)
  then have w: "protocol_proxy_write i d p = Some (tx @ 0 # drop (Suc (length tx)) d, length tx)"
    using s t f by (auto simp: protocol_proxy_write_def PROTOPROXY_PACKETMAXLEN_def tx_def [symmetric])
  have a: "addr_err (srcaddr p) = NET_OK" "addr_err (dstaddr p) = NET_OK" "addr_family (srcaddr p) = ?f"
      "addr_family (dstaddr p) = ?f"
    using p by (simp_all add: proxy_record_def proxy_address_def)
  have "protocol_proxy_read i (Some tx) = Some p"
    using r(2,3,4) s t f a in_array_parse(1) [of "cstr sb" i] in_array_parse(1) [of "cstr db" i] address_text_chars(3)
    by (cases p) (auto simp: protocol_proxy_read_def buf_read_within)
  with w n show ?thesis by simp
qed

definition sample_proxy :: p_proxy where
  "sample_proxy =
     \<lparr>proxy_family = AF_INET,
      srcaddr = net_addr_zero\<lparr>addr_family := AF_INET, addr_bytes := [192, 0, 2, 1] @ replicate 12 0\<rparr>,
      dstaddr = net_addr_zero\<lparr>addr_family := AF_INET, addr_bytes := [192, 0, 2, 2] @ replicate 12 0\<rparr>,
      srcport = 50000, dstport = 25565\<rparr>"

theorem protocol_proxy_roundtrip_witness:
  "\<exists>d' n. protocol_proxy_write letter_inet (replicate 129 0) sample_proxy = Some (d', n) \<and> 0 < n \<and> n \<le> 116
    \<and> protocol_proxy_read letter_inet (Some (take n d')) = Some sample_proxy"
  by (rule protocol_proxy_roundtrip [OF letter_inet_contract])
    (simp_all add: proxy_record_def proxy_address_def sample_proxy_def net_addr_zero_def PROTOPROXY_PACKETMAXLEN_def)


end
