(* ===== verification/Timeutil.thy ===== *)
theory Timeutil
  imports Prelude
begin

text \<open>
  Time arithmetic (\<open>src/timeutil.c\<close>): validity, comparison and the overflow-checked additions on
  \<open>struct timespec\<close>. Fields are integers in the range of \<open>time_t\<close> and \<open>long\<close> (64 bits).
\<close>

record timespec =
  tv_sec :: int
  tv_nsec :: int

text \<open>The range of the two fields, and the conversion of a \<open>uintmax_t\<close> to \<open>time_t\<close>.\<close>

definition timespec_range :: "timespec \<Rightarrow> bool" where
  "timespec_range t \<longleftrightarrow>
     - (2 ^ 63) \<le> tv_sec t \<and> tv_sec t < 2 ^ 63 \<and> - (2 ^ 63) \<le> tv_nsec t \<and> tv_nsec t < 2 ^ 63"

definition to_time_t :: "nat \<Rightarrow> int" where
  "to_time_t u = (if u < 2 ^ 63 then int u else int u - 2 ^ 64)"

definition of_time_t :: "int \<Rightarrow> nat" where
  "of_time_t t = (if 0 \<le> t then nat t else nat (t + 2 ^ 64))"

definition timeutil_valid :: "timespec option \<Rightarrow> bool" where
  "timeutil_valid v = (case v of None \<Rightarrow> False | Some t \<Rightarrow> tv_sec t \<ge> 0 \<and> tv_nsec t \<ge> 0 \<and> tv_nsec t < 1000000000)"

definition timeutil_compare :: "timespec \<Rightarrow> timespec \<Rightarrow> int" where
  "timeutil_compare l r =
     (if tv_sec l \<noteq> tv_sec r then (if tv_sec l < tv_sec r then -1 else 1)
      else if tv_nsec l \<noteq> tv_nsec r then (if tv_nsec l < tv_nsec r then -1 else 1)
      else 0)"

definition timeutil_add_milliseconds :: "timespec option \<Rightarrow> nat \<Rightarrow> timespec option" where
  "timeutil_add_milliseconds source milliseconds =
     (if \<not> timeutil_valid source then None
      else
        (let s = the source;
             added_seconds = milliseconds div 1000;
             added_nanoseconds = milliseconds mod 1000 * 1000000 + of_time_t (tv_nsec s);
             added_seconds = added_seconds + added_nanoseconds div 1000000000;
             added_nanoseconds = added_nanoseconds mod 1000000000 in
         if of_time_t (tv_sec s) > UINT64_MAX - added_seconds then None
         else
           (let combined = of_time_t (tv_sec s) + added_seconds; converted = to_time_t combined in
            if converted < 0 \<or> of_time_t converted \<noteq> combined then None
            else Some \<lparr>tv_sec = converted, tv_nsec = int added_nanoseconds\<rparr>)))"

definition timeutil_add_seconds :: "timespec option \<Rightarrow> nat \<Rightarrow> timespec option" where
  "timeutil_add_seconds source seconds =
     (if \<not> timeutil_valid source \<or> of_time_t (tv_sec (the source)) > UINT64_MAX - seconds then None
      else
        (let s = the source; combined = of_time_t (tv_sec s) + seconds; converted = to_time_t combined in
         if converted < 0 \<or> of_time_t converted \<noteq> combined then None
         else Some \<lparr>tv_sec = converted, tv_nsec = tv_nsec s\<rparr>))"

section \<open>Time as nanoseconds\<close>

definition nanoseconds :: "timespec \<Rightarrow> int" where
  "nanoseconds t = tv_sec t * 1000000000 + tv_nsec t"

lemma timeutil_compare_nanoseconds:
  assumes "timeutil_valid (Some a)" "timeutil_valid (Some b)"
  shows "timeutil_compare a b = sgn (nanoseconds a - nanoseconds b)"
  using assms by (auto simp: timeutil_valid_def timeutil_compare_def nanoseconds_def sgn_if)

lemma time_t_roundtrip: "c \<le> UINT64_MAX \<Longrightarrow> (\<not> (to_time_t c < 0 \<or> of_time_t (to_time_t c) \<noteq> c)) = (c < 2 ^ 63)"
  by (auto simp: to_time_t_def of_time_t_def)

lemma timeutil_add_seconds_exact:
  assumes "timespec_range s" "timeutil_valid (Some s)" "n \<le> UINT64_MAX"
  shows "timeutil_add_seconds (Some s) n =
    (if tv_sec s + int n < 2 ^ 63 then Some \<lparr>tv_sec = tv_sec s + int n, tv_nsec = tv_nsec s\<rparr> else None)"
proof -
  have s: "of_time_t (tv_sec s) = nat (tv_sec s)" "0 \<le> tv_sec s" "nat (tv_sec s) < 2 ^ 63"
    using assms by (auto simp: of_time_t_def timeutil_valid_def timespec_range_def)
  show ?thesis
  proof (cases "nat (tv_sec s) + n \<le> UINT64_MAX")
    case True
    then show ?thesis
      using time_t_roundtrip [OF True] s assms
      by (auto simp: timeutil_add_seconds_def Let_def to_time_t_def)
  next
    case False
    then show ?thesis
      using s assms by (auto simp: timeutil_add_seconds_def)
  qed
qed

lemma timeutil_add_milliseconds_exact:
  assumes "timespec_range s" "timeutil_valid (Some s)" "n \<le> UINT64_MAX"
  shows "case timeutil_add_milliseconds (Some s) n of
      Some r \<Rightarrow> timeutil_valid (Some r) \<and> timespec_range r \<and> nanoseconds r = nanoseconds s + int n * 1000000
    | None \<Rightarrow> nanoseconds s + int n * 1000000 \<ge> 2 ^ 63 * 1000000000"
proof -
  define ns where "ns = n mod 1000 * 1000000 + nat (tv_nsec s)"
  define k where "k = n div 1000 + ns div 1000000000"
  have s: "of_time_t (tv_sec s) = nat (tv_sec s)" "of_time_t (tv_nsec s) = nat (tv_nsec s)" "0 \<le> tv_sec s"
      "nat (tv_sec s) < 2 ^ 63" "0 \<le> tv_nsec s" "tv_nsec s < 1000000000"
    using assms by (auto simp: of_time_t_def timeutil_valid_def timespec_range_def)
  have t: "nanoseconds s + int n * 1000000 = (tv_sec s + int k) * 1000000000 + int (ns mod 1000000000)"
  proof -
    have "int n = int (n div 1000) * 1000 + int (n mod 1000)"
      by (simp add: zdiv_int zmod_int)
    moreover have "int ns = int (ns div 1000000000) * 1000000000 + int (ns mod 1000000000)"
      by (simp add: zdiv_int zmod_int)
    moreover have "int ns = int (n mod 1000) * 1000000 + tv_nsec s"
      using s(5) by (simp add: ns_def)
    ultimately show ?thesis by (simp add: nanoseconds_def k_def algebra_simps)
  qed
  have "ns < 2000000000"
  proof -
    have "n mod 1000 \<le> 999" by (simp add: less_Suc_eq_le [symmetric])
    then show ?thesis using s(5,6) by (simp add: ns_def)
  qed
  then have k: "k \<le> UINT64_MAX"
    using div_le_mono [OF assms(3), of 1000] by (simp add: k_def)
  have r: "timeutil_add_milliseconds (Some s) n =
    (if nat (tv_sec s) + k < 2 ^ 63 then Some \<lparr>tv_sec = tv_sec s + int k, tv_nsec = int (ns mod 1000000000)\<rparr> else None)"
  proof (cases "nat (tv_sec s) + k \<le> UINT64_MAX")
    case True
    then show ?thesis
      using time_t_roundtrip [OF True] s assms
      by (auto simp: timeutil_add_milliseconds_def Let_def to_time_t_def ns_def [symmetric] k_def [symmetric])
  next
    case False
    then show ?thesis
      using s k assms by (auto simp: timeutil_add_milliseconds_def Let_def ns_def [symmetric] k_def [symmetric])
  qed
  show ?thesis
    using t s by (auto simp: r timeutil_valid_def timespec_range_def nanoseconds_def)
qed

section \<open>Properties\<close>

text \<open>
  C34: time arithmetic is exact or refused. On valid times \<open>timeutil_compare\<close> is the sign of the difference,
  and adding milliseconds either yields a valid time exactly that much later or fails, which happens only
  when the sum does not fit \<open>time_t\<close>: no intermediate value wraps.
\<close>

theorem timeutil_arithmetic:
  assumes "timespec_range s" "timeutil_valid (Some s)" "timeutil_valid (Some t)" "n \<le> UINT64_MAX"
  shows "timeutil_compare s t = sgn (nanoseconds s - nanoseconds t)
    \<and> (case timeutil_add_milliseconds (Some s) n of
         Some r \<Rightarrow> timeutil_valid (Some r) \<and> timespec_range r \<and> nanoseconds r = nanoseconds s + int n * 1000000
       | None \<Rightarrow> nanoseconds s + int n * 1000000 \<ge> 2 ^ 63 * 1000000000)"
  using timeutil_compare_nanoseconds [OF assms(2,3)] timeutil_add_milliseconds_exact [OF assms(1,2,4)] by blast

theorem timeutil_arithmetic_witness:
  "timeutil_compare \<lparr>tv_sec = 5, tv_nsec = 999000000\<rparr> \<lparr>tv_sec = 6, tv_nsec = 0\<rparr>
      = sgn (nanoseconds \<lparr>tv_sec = 5, tv_nsec = 999000000\<rparr> - nanoseconds \<lparr>tv_sec = 6, tv_nsec = 0\<rparr>)
    \<and> (case timeutil_add_milliseconds (Some \<lparr>tv_sec = 5, tv_nsec = 999000000\<rparr>) 1500 of
         Some r \<Rightarrow> timeutil_valid (Some r) \<and> timespec_range r
           \<and> nanoseconds r = nanoseconds \<lparr>tv_sec = 5, tv_nsec = 999000000\<rparr> + int 1500 * 1000000
       | None \<Rightarrow> nanoseconds \<lparr>tv_sec = 5, tv_nsec = 999000000\<rparr> + int 1500 * 1000000 \<ge> 2 ^ 63 * 1000000000)"
  by (rule timeutil_arithmetic) (simp_all add: timespec_range_def timeutil_valid_def)

end
