(* ===== verification/Metrics.thy ===== *)
theory Metrics
  imports Timeutil
begin

text \<open>
  Counters and histograms (\<open>src/metrics.c\<close>). Counters are natural numbers that never exceed \<open>UINT64_MAX\<close>:
  every addition saturates there, and saturations are themselves counted.
\<close>

section \<open>Types\<close>

abbreviation METRICS_DURATION_BUCKET_COUNT :: nat where "METRICS_DURATION_BUCKET_COUNT \<equiv> 14"
abbreviation METRICS_SIZE_BUCKET_COUNT :: nat where "METRICS_SIZE_BUCKET_COUNT \<equiv> 10"
abbreviation METRICS_TTL_BUCKET_COUNT :: nat where "METRICS_TTL_BUCKET_COUNT \<equiv> 13"

record metrics_histogram =
  hist_buckets :: "nat list"
  hist_count :: nat
  hist_sample_errors :: nat
  hist_sum :: nat

record metrics_histogram_snapshot =
  snap_cumulative :: "nat list"
  snap_count :: nat
  snap_sample_errors :: nat
  snap_sum :: nat

definition metrics_histogram_zero :: metrics_histogram where
  "metrics_histogram_zero =
     \<lparr>hist_buckets = replicate METRICS_DURATION_BUCKET_COUNT 0, hist_count = 0, hist_sample_errors = 0, hist_sum = 0\<rparr>"

datatype metrics_payload_kind = METRICS_PAYLOAD_KIND_POSITIVE | METRICS_PAYLOAD_KIND_NXDOMAIN | METRICS_PAYLOAD_KIND_NODATA

datatype metrics_query_type =
    METRICS_QUERY_TYPE_A
  | METRICS_QUERY_TYPE_AAAA
  | METRICS_QUERY_TYPE_SRV
  | METRICS_QUERY_TYPE_OTHER

definition metrics_duration_bounds :: "nat list" where
  "metrics_duration_bounds =
     map (\<lambda>ms. ms * 1000000) [1, 5, 10, 25, 50, 100, 250, 500, 1000, 2000, 5000, 10000, 30000]"

definition metrics_size_bounds :: "nat list" where
  "metrics_size_bounds = [0, 64, 256, 1024, 4096, 16384, 65536, 262144, 1048576]"

definition metrics_ttl_bounds :: "nat list" where
  "metrics_ttl_bounds = [0, 1, 5, 30, 60, 300, 1800, 3600, 21600, 86400, 604800, 2592000]"

section \<open>Counters\<close>

definition metrics_saturation_record :: "nat \<Rightarrow> nat" where
  "metrics_saturation_record saturation_total =
     (if saturation_total < UINT64_MAX then saturation_total + 1 else saturation_total)"

definition metrics_value_add :: "nat \<Rightarrow> nat \<Rightarrow> nat \<times> bool" where
  "metrics_value_add value amount =
     (if UINT64_MAX - value < amount then (UINT64_MAX, False) else (value + amount, True))"

text \<open>The new counter, the new saturation total, and whether the addition was exact.\<close>

definition metrics_counter_add :: "nat \<Rightarrow> nat \<Rightarrow> nat \<Rightarrow> nat \<times> nat \<times> bool" where
  "metrics_counter_add counter amount saturation_total =
     (case metrics_value_add counter amount of
        (c, True) \<Rightarrow> (c, saturation_total, True)
      | (c, False) \<Rightarrow> (c, metrics_saturation_record saturation_total, False))"

definition metrics_high_water_update :: "nat \<Rightarrow> nat \<Rightarrow> nat" where
  "metrics_high_water_update high_water current = (if current > high_water then current else high_water)"

section \<open>Histograms\<close>

fun metrics_cumulate :: "nat \<Rightarrow> nat list \<Rightarrow> nat list" where
  "metrics_cumulate cumulative [] = []"
| "metrics_cumulate cumulative (b # bs) =
     (let cumulative' = (if UINT64_MAX - cumulative < b then UINT64_MAX else cumulative + b)
      in cumulative' # metrics_cumulate cumulative' bs)"

definition metrics_histogram_get :: "metrics_histogram \<Rightarrow> nat \<Rightarrow> metrics_histogram_snapshot option" where
  "metrics_histogram_get histogram bucket_count =
     (if bucket_count = 0 \<or> bucket_count > length (hist_buckets histogram) then None
      else Some
        \<lparr>snap_cumulative = metrics_cumulate 0 (take (bucket_count - 1) (hist_buckets histogram)) @ [hist_count histogram]
           @ replicate (METRICS_DURATION_BUCKET_COUNT - bucket_count) 0,
         snap_count = hist_count histogram, snap_sample_errors = hist_sample_errors histogram,
         snap_sum = hist_sum histogram\<rparr>)"

fun metrics_bucket :: "nat list \<Rightarrow> nat \<Rightarrow> nat" where
  "metrics_bucket [] sample = 0"
| "metrics_bucket (b # bounds) sample = (if sample > b then Suc (metrics_bucket bounds sample) else 0)"

definition metrics_histogram_observe ::
  "metrics_histogram \<Rightarrow> nat list \<Rightarrow> nat \<Rightarrow> nat \<Rightarrow> nat \<Rightarrow> (metrics_histogram \<times> nat) option" where
  "metrics_histogram_observe histogram bounds bucket_sample sum_sample saturation_total =
     (let bucket = metrics_bucket bounds bucket_sample in
      if bucket \<ge> length (hist_buckets histogram) then None
      else
        (let (b, exact1) = metrics_value_add (hist_buckets histogram ! bucket) 1;
             (c, exact2) = metrics_value_add (hist_count histogram) 1;
             (s, exact3) = metrics_value_add (hist_sum histogram) sum_sample
         in Some (histogram\<lparr>hist_buckets := (hist_buckets histogram)[bucket := b], hist_count := c, hist_sum := s\<rparr>,
                  if exact1 \<and> exact2 \<and> exact3 then saturation_total else metrics_saturation_record saturation_total)))"

definition metrics_timespec_subtract :: "timespec option \<Rightarrow> timespec option \<Rightarrow> nat option" where
  "metrics_timespec_subtract start end_time =
     (if \<not> timeutil_valid start \<or> \<not> timeutil_valid end_time \<or> timeutil_compare (the end_time) (the start) < 0 then None
      else
        (let s = the start; e = the end_time;
             seconds = nat (tv_sec e) - nat (tv_sec s);
             (seconds, remainder) =
               (if tv_nsec e < tv_nsec s then (seconds - 1, 1000000000 + nat (tv_nsec e) - nat (tv_nsec s))
                else (seconds, nat (tv_nsec e) - nat (tv_nsec s)))
         in if seconds > (UINT64_MAX - remainder) div 1000000000 then None
            else Some (seconds * 1000000000 + remainder)))"

definition metrics_duration_histogram_get :: "metrics_histogram \<Rightarrow> metrics_histogram_snapshot option" where
  "metrics_duration_histogram_get histogram = metrics_histogram_get histogram METRICS_DURATION_BUCKET_COUNT"

definition metrics_duration_histogram_observe ::
  "metrics_histogram \<Rightarrow> timespec option \<Rightarrow> timespec option \<Rightarrow> nat \<Rightarrow> (metrics_histogram \<times> nat \<times> bool) option" where
  "metrics_duration_histogram_observe histogram start end_time saturation_total =
     (case metrics_timespec_subtract start end_time of
        None \<Rightarrow>
          (let (n, exact) = metrics_value_add (hist_sample_errors histogram) 1 in
           Some (histogram\<lparr>hist_sample_errors := n\<rparr>,
             if exact then saturation_total else metrics_saturation_record saturation_total, False))
      | Some ns \<Rightarrow>
          map_option (\<lambda>(h, t). (h, t, True))
            (metrics_histogram_observe histogram metrics_duration_bounds ns (ns div 1000) saturation_total))"

definition metrics_size_histogram_get :: "metrics_histogram \<Rightarrow> metrics_histogram_snapshot option" where
  "metrics_size_histogram_get histogram = metrics_histogram_get histogram METRICS_SIZE_BUCKET_COUNT"

definition metrics_size_histogram_observe :: "metrics_histogram \<Rightarrow> nat \<Rightarrow> nat \<Rightarrow> (metrics_histogram \<times> nat) option" where
  "metrics_size_histogram_observe histogram sample saturation_total =
     metrics_histogram_observe histogram metrics_size_bounds sample sample saturation_total"

definition metrics_ttl_histogram_get :: "metrics_histogram \<Rightarrow> metrics_histogram_snapshot option" where
  "metrics_ttl_histogram_get histogram = metrics_histogram_get histogram METRICS_TTL_BUCKET_COUNT"

definition metrics_ttl_histogram_observe :: "metrics_histogram \<Rightarrow> nat \<Rightarrow> nat \<Rightarrow> (metrics_histogram \<times> nat) option" where
  "metrics_ttl_histogram_observe histogram sample saturation_total =
     metrics_histogram_observe histogram metrics_ttl_bounds sample sample saturation_total"

section \<open>Histograms count samples\<close>

text \<open>
  A histogram that has recorded a list of samples without saturation: every bucket counts the samples
  between its two bounds.
\<close>

definition histogram_records :: "nat list \<Rightarrow> nat list \<Rightarrow> metrics_histogram \<Rightarrow> bool" where
  "histogram_records bounds samples h \<longleftrightarrow>
     length (hist_buckets h) = METRICS_DURATION_BUCKET_COUNT \<and> hist_count h = length samples \<and>
     (\<forall>i < METRICS_DURATION_BUCKET_COUNT. hist_buckets h ! i = length (filter (\<lambda>s. metrics_bucket bounds s = i) samples))"

lemma metrics_bucket_le: "metrics_bucket bounds s \<le> length bounds"
  by (induction bounds) auto

lemma metrics_bucket_bound:
  "sorted bounds \<Longrightarrow> i < length bounds \<Longrightarrow> metrics_bucket bounds s \<le> i \<longleftrightarrow> s \<le> bounds ! i"
proof (induction bounds arbitrary: i)
  case (Cons b bounds)
  show ?case
  proof (cases i)
    case 0
    then show ?thesis by auto
  next
    case (Suc j)
    then have "b \<le> bounds ! j"
      using Cons.prems by simp
    moreover have "(metrics_bucket bounds s \<le> j) = (s \<le> bounds ! j)"
      using Suc Cons by simp
    ultimately show ?thesis using Suc by auto
  qed
qed simp

lemma histogram_records_observe:
  assumes r: "histogram_records bounds samples h" and n: "length samples < UINT64_MAX"
    and b: "length bounds < METRICS_DURATION_BUCKET_COUNT"
  shows "\<exists>h' t'. metrics_histogram_observe h bounds x y t = Some (h', t') \<and> histogram_records bounds (x # samples) h'"
proof -
  let ?k = "metrics_bucket bounds x"
  have k: "?k < METRICS_DURATION_BUCKET_COUNT"
    using metrics_bucket_le [of bounds x] b by simp
  have "hist_buckets h ! ?k = length (filter (\<lambda>s. metrics_bucket bounds s = ?k) samples)"
    using r k by (simp add: histogram_records_def)
  then have "hist_buckets h ! ?k \<le> length samples"
    by simp
  then have "metrics_value_add (hist_buckets h ! ?k) 1 = (hist_buckets h ! ?k + 1, True)"
    "metrics_value_add (hist_count h) 1 = (length samples + 1, True)"
    using r n by (simp_all add: metrics_value_add_def histogram_records_def)
  then show ?thesis
    using r k
    by (auto simp: metrics_histogram_observe_def histogram_records_def Let_def nth_list_update split: prod.splits)
qed

lemma metrics_cumulate_nth:
  assumes "c + sum_list bs \<le> UINT64_MAX" "i < length bs"
  shows "metrics_cumulate c bs ! i = c + sum_list (take (Suc i) bs)"
  using assms
proof (induction bs arbitrary: c i)
  case (Cons b bs)
  moreover from this have "\<not> UINT64_MAX - c < b" by simp
  ultimately show ?case by (cases i) (simp_all add: Let_def)
qed simp

lemma length_metrics_cumulate [simp]: "length (metrics_cumulate c bs) = length bs"
  by (induction bs arbitrary: c) (simp_all add: Let_def)

text \<open>The counts of the first buckets add up to the number of samples that fall into one of them.\<close>

lemma sum_counts: "(\<Sum>i\<leftarrow>[0..<n]. length (filter (\<lambda>s. f s = i) xs)) = length (filter (\<lambda>s. f s < n) xs)"
proof (induction n)
  case (Suc n)
  have "length (filter (\<lambda>s. f s < Suc n) xs) = length (filter (\<lambda>s. f s < n) xs) + length (filter (\<lambda>s. f s = n) xs)"
    by (induction xs) (auto simp: less_Suc_eq)
  with Suc show ?case by simp
qed simp

lemma histogram_take:
  assumes "histogram_records bounds samples h" "n \<le> METRICS_DURATION_BUCKET_COUNT"
  shows "sum_list (take n (hist_buckets h)) = length (filter (\<lambda>s. metrics_bucket bounds s < n) samples)"
proof -
  have "take n (hist_buckets h) = map (\<lambda>i. length (filter (\<lambda>s. metrics_bucket bounds s = i) samples)) [0..<n]"
    using assms by (intro nth_equalityI) (auto simp: histogram_records_def)
  then show ?thesis
    by (simp only: sum_counts)
qed

text \<open>Recording a list of samples one after the other, as the callers do.\<close>

fun observe_all :: "nat list \<Rightarrow> nat list \<Rightarrow> metrics_histogram \<times> nat \<Rightarrow> (metrics_histogram \<times> nat) option" where
  "observe_all bounds [] ht = Some ht"
| "observe_all bounds (s # ss) ht =
     do { ht' \<leftarrow> metrics_histogram_observe (fst ht) bounds s s (snd ht); observe_all bounds ss ht' }"

lemma observe_all_records:
  assumes "histogram_records bounds old h" "length old + length ss \<le> UINT64_MAX"
    "length bounds < METRICS_DURATION_BUCKET_COUNT"
  shows "\<exists>h' t'. observe_all bounds ss (h, t) = Some (h', t') \<and> histogram_records bounds (rev ss @ old) h'"
  using assms
proof (induction ss arbitrary: old h t)
  case (Cons s ss)
  then obtain h1 t1 where "metrics_histogram_observe h bounds s s t = Some (h1, t1)"
      "histogram_records bounds (s # old) h1"
    using histogram_records_observe [of bounds old h s s t] by auto
  with Cons.IH [of "s # old" h1 t1] Cons.prems show ?case by simp
qed simp

lemma histogram_zero_records: "histogram_records bounds [] metrics_histogram_zero"
  by (simp add: histogram_records_def metrics_histogram_zero_def)

section \<open>Properties\<close>

text \<open>
  C35: what a histogram exports is right. After recording any list of samples into a cleared histogram, the
  exported cumulative value of every bound is the number of samples not above that bound, and the
  exported count is the number of samples, as long as there are at most \<open>UINT64_MAX\<close> of them. This holds for
  every sorted list of fewer than 14 bounds, so for all three kinds of histogram.
\<close>

theorem metrics_histogram_exports:
  assumes "sorted bounds" "length bounds < METRICS_DURATION_BUCKET_COUNT" "length ss \<le> UINT64_MAX"
  shows "\<exists>h t' snap. observe_all bounds ss (metrics_histogram_zero, t) = Some (h, t')
    \<and> metrics_histogram_get h (length bounds + 1) = Some snap \<and> snap_count snap = length ss
    \<and> (\<forall>i < length bounds. snap_cumulative snap ! i = length (filter (\<lambda>s. s \<le> bounds ! i) ss))"
proof -
  obtain h t' where h: "observe_all bounds ss (metrics_histogram_zero, t) = Some (h, t')"
      "histogram_records bounds (rev ss) h"
    using observe_all_records [OF histogram_zero_records, of ss bounds t] assms by auto
  have len: "length (hist_buckets h) = METRICS_DURATION_BUCKET_COUNT" "hist_count h = length ss"
    using h(2) by (simp_all add: histogram_records_def)
  obtain snap where snap: "metrics_histogram_get h (length bounds + 1) = Some snap" "snap_count snap = length ss"
    and c: "snap_cumulative snap = metrics_cumulate 0 (take (length bounds) (hist_buckets h)) @ [length ss]
      @ replicate (METRICS_DURATION_BUCKET_COUNT - (length bounds + 1)) 0"
    using len assms(2) by (simp add: metrics_histogram_get_def)
  have "snap_cumulative snap ! i = length (filter (\<lambda>s. s \<le> bounds ! i) ss)" if i: "i < length bounds" for i
  proof -
    have total: "sum_list (take (length bounds) (hist_buckets h)) \<le> UINT64_MAX"
      using histogram_take [OF h(2), of "length bounds"] assms(2,3)
        length_filter_le [of "\<lambda>s. metrics_bucket bounds s < length bounds" "rev ss"] by simp
    have "snap_cumulative snap ! i = sum_list (take (Suc i) (hist_buckets h))"
      using i len assms(2) total metrics_cumulate_nth [of 0 "take (length bounds) (hist_buckets h)" i]
      by (simp add: c nth_append min_def)
    also have "\<dots> = length (filter (\<lambda>s. metrics_bucket bounds s < Suc i) (rev ss))"
      using i assms(2) by (intro histogram_take [OF h(2)]) simp
    also have "\<dots> = length (filter (\<lambda>s. s \<le> bounds ! i) ss)"
      using metrics_bucket_bound [OF assms(1) i] by (simp add: less_Suc_eq_le rev_filter [symmetric])
    finally show ?thesis .
  qed
  with h snap show ?thesis by blast
qed

theorem metrics_histogram_exports_witness:
  "\<exists>h t' snap. observe_all metrics_ttl_bounds [0, 7, 3600, 5] (metrics_histogram_zero, 0) = Some (h, t')
    \<and> metrics_histogram_get h (length metrics_ttl_bounds + 1) = Some snap \<and> snap_count snap = length [0, 7, 3600, 5 :: nat]
    \<and> (\<forall>i < length metrics_ttl_bounds.
         snap_cumulative snap ! i = length (filter (\<lambda>s. s \<le> metrics_ttl_bounds ! i) [0, 7, 3600, 5]))"
  by (rule metrics_histogram_exports) (simp_all add: metrics_ttl_bounds_def)

end
