(* ===== verification/Resolver_Util.thy ===== *)
theory Resolver_Util
  imports Prelude
begin

text \<open>
  Names and sizes shared by the resolver (\<open>src/resolver/util.c\<close>). A source name is a C string object; a
  normalized name is its text, without the terminator.
\<close>

abbreviation NS_MAXDNAME :: nat where "NS_MAXDNAME \<equiv> 1025"

definition resolver_size_add :: "nat \<Rightarrow> nat \<Rightarrow> nat option" where
  "resolver_size_add target value = (if target > SIZE_MAX - value then None else Some (target + value))"

definition resolver_size_multiply :: "nat \<Rightarrow> nat \<Rightarrow> nat option" where
  "resolver_size_multiply left right = (if left \<noteq> 0 \<and> right > SIZE_MAX div left then None else Some (left * right))"

text \<open>The bounded length scan of \<open>resolver_name_normalize\<close>.\<close>

fun name_scan :: "bytes \<Rightarrow> nat \<Rightarrow> nat option" where
  "name_scan source 0 = Some 0"
| "name_scan [] (Suc limit) = None"
| "name_scan (c # source) (Suc limit) = (if c = 0 then Some 0 else map_option Suc (name_scan source limit))"

definition lower_char :: "u8 \<Rightarrow> u8" where
  "lower_char c = (if 0x41 \<le> c \<and> c \<le> 0x5A then c - 0x41 + 0x61 else c)"

definition resolver_name_normalize :: "bytes option \<Rightarrow> bytes option option" where
  "resolver_name_normalize source =
     (case source of
        None \<Rightarrow> Some None
      | Some s \<Rightarrow> do {
          n \<leftarrow> name_scan s NS_MAXDNAME;
          if n = 0 \<or> n = NS_MAXDNAME then Some None
          else
            (let removed = (n > 1 \<and> s ! (n - 1) = 0x2E); m = (if removed then n - 1 else n) in
             if removed \<and> s ! (m - 1) = 0x2E then Some None
             else Some (Some (map lower_char (take m s))))
        })"

text \<open>The same on the text of a name: the terminated array it is stored in.\<close>

definition name_normalize :: "bytes \<Rightarrow> bytes option" where
  "name_normalize t = Option.bind (resolver_name_normalize (Some (t @ [0]))) id"

text \<open>On the texts of its two arguments.\<close>

definition resolver_name_encloses :: "bytes option \<Rightarrow> bytes option \<Rightarrow> bool" where
  "resolver_name_encloses zone name =
     (case (zone, name) of
        (Some z, Some n) \<Rightarrow>
          z = [0x2E] \<or> (length n = length z \<and> n = z)
          \<or> (length n > length z \<and> n ! (length n - length z - 1) = 0x2E \<and> drop (length n - length z) n = z)
      | _ \<Rightarrow> False)"

section \<open>Normalized names\<close>

lemma name_scan_text:
  "0 \<notin> set t \<Longrightarrow> name_scan (t @ 0 # r) limit = Some (min (length t) limit)"
proof (induction t arbitrary: limit)
  case Nil
  then show ?case by (cases limit) simp_all
next
  case (Cons c t)
  then show ?case by (cases limit) simp_all
qed

lemma lower_char_idem: "lower_char (lower_char c) = lower_char c"
proof -
  have "\<not> (0x41 \<le> c - 0x41 + 0x61 \<and> c - 0x41 + 0x61 \<le> 0x5A)" if "0x41 \<le> c" "c \<le> 0x5A" for c :: u8
  proof -
    have "unat (c - 0x41 + 0x61) = unat c + 32"
      using that by (simp add: word_le_nat_alt unat_word_ariths unat_sub)
    with that show ?thesis by (simp add: word_le_nat_alt)
  qed
  then show ?thesis by (auto simp: lower_char_def)
qed

lemma lower_char_eq_dot: "lower_char c = 0x2E \<longleftrightarrow> c = 0x2E"
proof -
  have "c - 0x41 + 0x61 \<noteq> 0x2E" if "0x41 \<le> c" "c \<le> 0x5A" for c :: u8
  proof -
    have "unat (c - 0x41 + 0x61) = unat c + 32"
      using that by (simp add: word_le_nat_alt unat_word_ariths unat_sub)
    with that show ?thesis by (auto simp: word_le_nat_alt)
  qed
  then show ?thesis by (auto simp: lower_char_def)
qed

lemma lower_char_eq_0: "lower_char c = 0 \<longleftrightarrow> c = 0"
proof -
  have "c - 0x41 + 0x61 \<noteq> 0" if "0x41 \<le> c" "c \<le> 0x5A" for c :: u8
  proof -
    have "unat (c - 0x41 + 0x61) = unat c + 32"
      using that by (simp add: word_le_nat_alt unat_word_ariths unat_sub)
    with that show ?thesis by (metis add_is_0 unat_0 zero_neq_numeral)
  qed
  then show ?thesis by (auto simp: lower_char_def)
qed

text \<open>Normalized names: non-empty texts that fit their array, lower case, without a trailing root dot.\<close>

definition normalized :: "bytes \<Rightarrow> bool" where
  "normalized m \<longleftrightarrow>
     m \<noteq> [] \<and> length m < NS_MAXDNAME \<and> 0 \<notin> set m \<and> map lower_char m = m \<and> (m = [0x2E] \<or> last m \<noteq> 0x2E)"

text \<open>What \<open>resolver_name_normalize\<close> computes from the text of its source.\<close>

definition normalize_text :: "bytes \<Rightarrow> bytes option" where
  "normalize_text t =
     (if t = [] \<or> length t \<ge> NS_MAXDNAME then None
      else if length t > 1 \<and> last t = 0x2E
      then (if last (butlast t) = 0x2E then None else Some (map lower_char (butlast t)))
      else Some (map lower_char t))"

lemma resolver_name_normalize_text:
  assumes "0 \<notin> set t"
  shows "resolver_name_normalize (Some (t @ 0 # r)) = Some (normalize_text t)"
proof (cases "t = [] \<or> length t \<ge> NS_MAXDNAME")
  case True
  then show ?thesis
    using assms by (auto simp: resolver_name_normalize_def name_scan_text normalize_text_def min_def)
next
  case False
  define n where "n = length t"
  have n: "name_scan (t @ 0 # r) NS_MAXDNAME = Some n" "n \<noteq> 0" "n \<noteq> NS_MAXDNAME"
    using False assms by (simp_all add: n_def name_scan_text min_def)
  have l: "(t @ 0 # r) ! (n - 1) = last t"
    using False by (simp add: n_def nth_append last_conv_nth)
  show ?thesis
  proof (cases "n > 1 \<and> last t = 0x2E")
    case True
    then have "(t @ 0 # r) ! (n - 1 - 1) = t ! (n - 1 - 1)"
      using n(2) by (simp add: n_def nth_append)
    also have "\<dots> = last (butlast t)"
      using True nth_butlast [of "n - 1 - 1" t] last_conv_nth [of "butlast t"] by (cases t) (auto simp: n_def)
    finally have "(t @ 0 # r) ! (n - 1 - 1) = last (butlast t)" .
    with True n l show ?thesis
      using False by (simp add: resolver_name_normalize_def normalize_text_def Let_def butlast_conv_take flip: n_def)
  next
    case False
    with n l \<open>\<not> (t = [] \<or> length t \<ge> NS_MAXDNAME)\<close> show ?thesis
      by (auto simp: resolver_name_normalize_def normalize_text_def Let_def n_def)
  qed
qed

lemma map_lower_idem: "map lower_char (map lower_char t) = map lower_char t"
  by (simp add: lower_char_idem)

lemma normalize_text_normalized:
  assumes "normalize_text t = Some m" "0 \<notin> set t"
  shows "normalized m"
proof -
  have keep: "normalized (map lower_char u)"
    if "u \<noteq> []" "length u < NS_MAXDNAME" "0 \<notin> set u" "u = [0x2E] \<or> last u \<noteq> 0x2E" for u
  proof -
    have "lower_char 0x2E = 0x2E" by (simp add: lower_char_eq_dot)
    moreover have "0 \<notin> set (map lower_char u)"
      using that(3) by (auto simp: lower_char_eq_0 dest!: sym [of 0])
    ultimately show ?thesis
      using that by (auto simp: normalized_def lower_char_idem last_map lower_char_eq_dot)
  qed
  have "butlast t \<noteq> []" "0 \<notin> set (butlast t)" if "length t > 1"
    using that assms(2) by (cases t; auto dest: in_set_butlastD)+
  then show ?thesis
    using assms keep [of t] keep [of "butlast t"]
    by (cases t) (auto simp: normalize_text_def split: if_splits)
qed

lemma name_normalize_text: "0 \<notin> set t \<Longrightarrow> name_normalize t = normalize_text t"
  using resolver_name_normalize_text [of t "[]"] by (simp add: name_normalize_def)

lemma normalize_text_idem: "normalized m \<Longrightarrow> normalize_text m = Some m"
  by (auto simp: normalized_def normalize_text_def)

text \<open>Enclosure is equality or a suffix at a label boundary.\<close>

lemma resolver_name_encloses_iff:
  "resolver_name_encloses (Some z) (Some n) \<longleftrightarrow> z = [0x2E] \<or> n = z \<or> (\<exists>p. n = p @ [0x2E] @ z)"
proof -
  have "(length n > length z \<and> n ! (length n - length z - 1) = 0x2E \<and> drop (length n - length z) n = z)
    \<longleftrightarrow> (\<exists>p. n = p @ [0x2E] @ z)" (is "?l \<longleftrightarrow> ?r")
  proof
    assume l: ?l
    define k where "k = length n - length z - 1"
    have k: "k < length n" "length n - length z = Suc k"
      using l unfolding k_def by linarith+
    have "n = take k n @ n ! k # drop (Suc k) n"
      using k(1) by (rule id_take_nth_drop)
    moreover have "n ! k = 0x2E" "drop (Suc k) n = z"
      using l unfolding k(2) by simp_all
    ultimately show ?r by (metis append_Cons append_Nil)
  qed (auto simp: nth_append)
  then show ?thesis by (auto simp: resolver_name_encloses_def)
qed

section \<open>Properties\<close>

text \<open>
  C36: name normalization is memory safe on every terminated name and yields exactly its canonical form. It refuses the empty
  name, a name too long for the array and one that ends in two dots; otherwise the result is the name in lower case without one
  trailing dot, the root itself apart. The result, if there is one, is a non-empty lower-case text that fits the 1025-byte array with its terminator, has
  no trailing root dot (unless it is the root itself), and normalizing it again changes nothing.
\<close>

theorem resolver_name_normalize_canonical:
  assumes "0 \<notin> set t"
  shows "\<exists>res. resolver_name_normalize (Some (t @ 0 # r)) = Some res \<and> res = normalize_text t
    \<and> (\<forall>m. res = Some m \<longrightarrow> normalized m \<and> resolver_name_normalize (Some (m @ 0 # r')) = Some (Some m))"
proof -
  have "normalized m \<and> resolver_name_normalize (Some (m @ 0 # r')) = Some (Some m)" if "normalize_text t = Some m" for m
    using normalize_text_normalized [OF that assms] resolver_name_normalize_text [of m r'] normalize_text_idem [of m]
    by (simp add: normalized_def)
  then show ?thesis
    using resolver_name_normalize_text [OF assms] by blast
qed

theorem resolver_name_normalize_canonical_witness:
  "\<exists>res. resolver_name_normalize (Some ([0x4D, 0x43, 0x2E] @ 0 # [])) = Some res
    \<and> res = normalize_text [0x4D, 0x43, 0x2E]
    \<and> (\<forall>m. res = Some m \<longrightarrow> normalized m \<and> resolver_name_normalize (Some (m @ 0 # [])) = Some (Some m))"
  by (rule resolver_name_normalize_canonical) simp

end
