(* ===== verification/Dns_Types.thy ===== *)
theory Dns_Types
  imports Network Resolver_Util
begin

text \<open>
  The results of DNS lookups (\<open>src/resolver/dns.h\<close>) as the cache, the IPC layer and the routes exchange them.
  A name is its text. An array pointer with its element count is an optional list: \<open>None\<close> is NULL, and the
  count is the length. Times to live are natural numbers below 2^32; no addition on them can wrap.
\<close>

abbreviation DNS_ADDRESS_RECORD_LIMIT :: nat where "DNS_ADDRESS_RECORD_LIMIT \<equiv> 128"
abbreviation DNS_CNAME_DEPTH_LIMIT :: nat where "DNS_CNAME_DEPTH_LIMIT \<equiv> 16"
abbreviation DNS_SRV_RECORD_LIMIT :: nat where "DNS_SRV_RECORD_LIMIT \<equiv> 128"

text \<open>Record types and response codes of \<open>arpa/nameser.h\<close>.\<close>

abbreviation (input) ns_t_a :: u16 where "ns_t_a \<equiv> 1"
abbreviation (input) ns_t_aaaa :: u16 where "ns_t_aaaa \<equiv> 28"
abbreviation (input) ns_t_srv :: u16 where "ns_t_srv \<equiv> 33"
abbreviation (input) ns_r_noerror :: u8 where "ns_r_noerror \<equiv> 0"
abbreviation (input) ns_r_nxdomain :: u8 where "ns_r_nxdomain \<equiv> 3"

datatype dns_address_lookup_status =
    DNS_ADDRESS_LOOKUP_OK
  | DNS_ADDRESS_LOOKUP_BAD_ARGUMENT
  | DNS_ADDRESS_LOOKUP_LIMIT
  | DNS_ADDRESS_LOOKUP_MALFORMED
  | DNS_ADDRESS_LOOKUP_MEMORY
  | DNS_ADDRESS_LOOKUP_NODATA
  | DNS_ADDRESS_LOOKUP_NOT_FOUND
  | DNS_ADDRESS_LOOKUP_PERMANENT_ERROR
  | DNS_ADDRESS_LOOKUP_TEMPORARY_ERROR
  | DNS_ADDRESS_LOOKUP_TRUNCATED

datatype dns_srv_lookup_status =
    DNS_SRV_LOOKUP_OK
  | DNS_SRV_LOOKUP_BAD_ARGUMENT
  | DNS_SRV_LOOKUP_LIMIT
  | DNS_SRV_LOOKUP_MALFORMED
  | DNS_SRV_LOOKUP_MEMORY
  | DNS_SRV_LOOKUP_NODATA
  | DNS_SRV_LOOKUP_NOT_FOUND
  | DNS_SRV_LOOKUP_PERMANENT_ERROR
  | DNS_SRV_LOOKUP_TEMPORARY_ERROR
  | DNS_SRV_LOOKUP_TRUNCATED

record dns_address_record =
  ar_address :: net_addr
  ar_effective_ttl :: nat
  ar_record_ttl :: nat

record dns_cname_record =
  cn_owner :: bytes
  cn_target :: bytes
  cn_ttl :: nat

record dns_negative_record =
  neg_effective_ttl :: nat
  neg_minimum :: nat
  neg_owner :: bytes
  neg_record_ttl :: nat
  neg_valid :: bool

record dns_address_result =
  ad_addresses :: "dns_address_record list option"
  ad_canonical_name :: bytes
  ad_cnames :: "dns_cname_record list option"
  ad_negative :: dns_negative_record
  ad_question_name :: bytes
  ad_rcode :: u8

record dns_srv_record =
  srv_priority :: u16
  srv_weight :: u16
  srv_port :: u16
  srv_target :: bytes
  srv_record_ttl :: nat
  srv_effective_ttl :: nat

record dns_srv_result =
  sr_canonical_name :: bytes
  sr_cnames :: "dns_cname_record list option"
  sr_negative :: dns_negative_record
  sr_question_name :: bytes
  sr_rcode :: u8
  sr_records :: "dns_srv_record list option"

definition array_count :: "'a list option \<Rightarrow> nat" where
  "array_count xs = (case xs of None \<Rightarrow> 0 | Some l \<Rightarrow> length l)"

definition dns_negative_zero :: dns_negative_record where
  "dns_negative_zero = \<lparr>neg_effective_ttl = 0, neg_minimum = 0, neg_owner = [], neg_record_ttl = 0, neg_valid = False\<rparr>"

definition dns_address_result_zero :: dns_address_result where
  "dns_address_result_zero =
     \<lparr>ad_addresses = None, ad_canonical_name = [], ad_cnames = None, ad_negative = dns_negative_zero,
      ad_question_name = [], ad_rcode = 0\<rparr>"

definition dns_srv_result_zero :: dns_srv_result where
  "dns_srv_result_zero =
     \<lparr>sr_canonical_name = [], sr_cnames = None, sr_negative = dns_negative_zero, sr_question_name = [],
      sr_rcode = 0, sr_records = None\<rparr>"

end
