(* ===== verification/Cache.thy ===== *)
theory Cache
  imports Dns_Types Metrics
begin

text \<open>
  The resolver cache (\<open>src/resolver/cache.c\<close>): a hash table of reference-counted entries, one per name and
  query type, each holding at most one payload with an expiry time, under limits on the number of entries
  and on the memory they own.

  A pointer to an entry is the identifier of the entry, which the code never reuses; the heap maps the
  identifiers of live entries to their contents, and the chain of a bucket is the list of the
  identifiers linked from it. Operations on an entry that is not alive are undefined behaviour (\<open>None\<close>).
  The compile-time limits and the sizes of the structures are the parameter \<open>cfg\<close>; sizes and counters are
  natural numbers, with the wrap-around of \<open>size_t\<close> written out where the code subtracts unchecked.
\<close>

section \<open>Types\<close>

record cache_config =
  RESOLVER_CACHE_ENTRY_LIMIT :: nat
  RESOLVER_CACHE_OWNED_BYTE_LIMIT :: nat
  RESOLVER_CACHE_RESULT_BYTE_LIMIT :: nat
  sizeof_cache :: nat
  sizeof_pointer :: nat
  sizeof_entry :: nat
  sizeof_payload :: nat
  sizeof_address_record :: nat
  sizeof_cname_record :: nat
  sizeof_srv_record :: nat

datatype resolver_cache_acquire_status =
    RESOLVER_CACHE_ACQUIRE_OK
  | RESOLVER_CACHE_ACQUIRE_BAD_ARGUMENT
  | RESOLVER_CACHE_ACQUIRE_LIMIT
  | RESOLVER_CACHE_ACQUIRE_MEMORY

datatype resolver_cache_publish_status =
    RESOLVER_CACHE_PUBLISH_STORED
  | RESOLVER_CACHE_PUBLISH_TRANSIENT
  | RESOLVER_CACHE_PUBLISH_BAD_ARGUMENT
  | RESOLVER_CACHE_PUBLISH_INVALID
  | RESOLVER_CACHE_PUBLISH_LIMIT
  | RESOLVER_CACHE_PUBLISH_MEMORY
  | RESOLVER_CACHE_PUBLISH_TIME

datatype resolver_cache_result_fit =
    RESOLVER_CACHE_RESULT_FIT_OK
  | RESOLVER_CACHE_RESULT_FIT_SHAPE
  | RESOLVER_CACHE_RESULT_FIT_BYTES

datatype resolver_cache_view_status =
    RESOLVER_CACHE_VIEW_EMPTY
  | RESOLVER_CACHE_VIEW_FRESH_POSITIVE
  | RESOLVER_CACHE_VIEW_FRESH_NXDOMAIN
  | RESOLVER_CACHE_VIEW_FRESH_NODATA

text \<open>The counters kept for every query type; a set of them is a function on their names.\<close>

datatype resolver_cache_counter =
    acquire_created
  | acquire_reused
  | acquire_bad_argument
  | acquire_reference_limit
  | acquire_entry_limit
  | acquire_id_limit
  | acquire_owned_byte_limit
  | acquire_memory
  | publish_stored
  | publish_transient
  | publish_bad_argument
  | publish_invalid
  | publish_limit
  | publish_memory
  | publish_time
  | publish_limit_result_bytes
  | publish_limit_owned_bytes
  | value_positive
  | value_nxdomain
  | value_nodata
  | expiry_positive
  | expiry_nxdomain
  | expiry_nodata
  | resident_positive
  | resident_nxdomain
  | resident_nodata

record resolver_cache_metrics_state =
  entries_high_water :: nat
  owned_bytes_high_water :: nat
  metrics_query :: "metrics_query_type \<Rightarrow> resolver_cache_counter \<Rightarrow> nat"
  saturation_total :: nat
  metrics_ttl :: "metrics_query_type \<Rightarrow> metrics_payload_kind \<Rightarrow> metrics_histogram"

datatype resolver_cache_result = Payload_address dns_address_result | Payload_srv dns_srv_result

record resolver_cache_payload =
  pl_completed_at :: timespec
  pl_expires_at :: timespec
  pl_owned_bytes :: nat
  pl_result :: resolver_cache_result
  pl_status :: resolver_cache_view_status

record resolver_cache_entry =
  ce_hash :: u64
  ce_id :: nat
  ce_name :: bytes
  ce_payload :: "resolver_cache_payload option"
  ce_query_type :: u16
  ce_reference_count :: nat

record resolver_cache =
  buckets :: "nat \<Rightarrow> nat list"
  bucket_count :: nat
  entries :: "nat \<rightharpoonup> resolver_cache_entry"
  entry_count :: nat
  cache_metrics :: resolver_cache_metrics_state
  next_entry_id :: nat
  owned_bytes :: nat

record resolver_cache_view =
  view_addresses :: "dns_address_record list option"
  view_completed_at :: timespec
  view_expires_at :: timespec
  view_srv_records :: "dns_srv_record list option"
  view_status :: resolver_cache_view_status

definition resolver_cache_view_zero :: resolver_cache_view where
  "resolver_cache_view_zero =
     \<lparr>view_addresses = None, view_completed_at = \<lparr>tv_sec = 0, tv_nsec = 0\<rparr>,
      view_expires_at = \<lparr>tv_sec = 0, tv_nsec = 0\<rparr>, view_srv_records = None, view_status = RESOLVER_CACHE_VIEW_EMPTY\<rparr>"

section \<open>Hashing and metrics\<close>

definition RESOLVER_CACHE_HASH_OFFSET :: u64 where "RESOLVER_CACHE_HASH_OFFSET = 14695981039346656037"
definition RESOLVER_CACHE_HASH_PRIME :: u64 where "RESOLVER_CACHE_HASH_PRIME = 1099511628211"

definition hash_byte :: "u64 \<Rightarrow> u8 \<Rightarrow> u64" where
  "hash_byte result b = (result XOR ucast b) * RESOLVER_CACHE_HASH_PRIME"

definition resolver_cache_hash :: "bytes \<Rightarrow> u16 \<Rightarrow> u64" where
  "resolver_cache_hash name query_type =
     hash_byte (hash_byte (foldl hash_byte RESOLVER_CACHE_HASH_OFFSET name) (ucast (drop_bit 8 query_type)))
       (ucast query_type)"

definition resolver_cache_metrics_query_type :: "u16 \<Rightarrow> metrics_query_type" where
  "resolver_cache_metrics_query_type query_type =
     (if query_type = ns_t_a then METRICS_QUERY_TYPE_A
      else if query_type = ns_t_aaaa then METRICS_QUERY_TYPE_AAAA
      else if query_type = ns_t_srv then METRICS_QUERY_TYPE_SRV
      else METRICS_QUERY_TYPE_OTHER)"

definition resolver_cache_metrics_payload_kind :: "resolver_cache_view_status \<Rightarrow> metrics_payload_kind" where
  "resolver_cache_metrics_payload_kind st =
     (case st of
        RESOLVER_CACHE_VIEW_FRESH_POSITIVE \<Rightarrow> METRICS_PAYLOAD_KIND_POSITIVE
      | RESOLVER_CACHE_VIEW_FRESH_NXDOMAIN \<Rightarrow> METRICS_PAYLOAD_KIND_NXDOMAIN
      | _ \<Rightarrow> METRICS_PAYLOAD_KIND_NODATA)"

definition resolver_cache_metrics_increment ::
  "resolver_cache \<Rightarrow> metrics_query_type \<Rightarrow> resolver_cache_counter \<Rightarrow> resolver_cache" where
  "resolver_cache_metrics_increment c q k =
     (let m = cache_metrics c;
          (v, sat, _) = metrics_counter_add (metrics_query m q k) 1 (saturation_total m)
      in c\<lparr>cache_metrics := m\<lparr>metrics_query := (metrics_query m)(q := (metrics_query m q)(k := v)), saturation_total := sat\<rparr>\<rparr>)"

definition publication_counter :: "resolver_cache_publish_status \<Rightarrow> resolver_cache_counter" where
  "publication_counter st =
     (case st of
        RESOLVER_CACHE_PUBLISH_STORED \<Rightarrow> publish_stored
      | RESOLVER_CACHE_PUBLISH_TRANSIENT \<Rightarrow> publish_transient
      | RESOLVER_CACHE_PUBLISH_BAD_ARGUMENT \<Rightarrow> publish_bad_argument
      | RESOLVER_CACHE_PUBLISH_INVALID \<Rightarrow> publish_invalid
      | RESOLVER_CACHE_PUBLISH_LIMIT \<Rightarrow> publish_limit
      | RESOLVER_CACHE_PUBLISH_MEMORY \<Rightarrow> publish_memory
      | RESOLVER_CACHE_PUBLISH_TIME \<Rightarrow> publish_time)"

definition resolver_cache_metrics_publication_record ::
  "resolver_cache \<Rightarrow> metrics_query_type \<Rightarrow> resolver_cache_publish_status \<Rightarrow> resolver_cache" where
  "resolver_cache_metrics_publication_record c q st = resolver_cache_metrics_increment c q (publication_counter st)"

definition resolver_cache_metrics_value_record ::
  "resolver_cache \<Rightarrow> metrics_query_type \<Rightarrow> resolver_cache_view_status \<Rightarrow> nat \<Rightarrow> resolver_cache option" where
  "resolver_cache_metrics_value_record c q st ttl =
     (let kind = resolver_cache_metrics_payload_kind st;
          counter = (case kind of
              METRICS_PAYLOAD_KIND_POSITIVE \<Rightarrow> value_positive
            | METRICS_PAYLOAD_KIND_NXDOMAIN \<Rightarrow> value_nxdomain
            | METRICS_PAYLOAD_KIND_NODATA \<Rightarrow> value_nodata);
          c = resolver_cache_metrics_increment c q counter;
          m = cache_metrics c in
      do {
        (h, sat) \<leftarrow> metrics_ttl_histogram_observe (metrics_ttl m q kind) ttl (saturation_total m);
        Some (c\<lparr>cache_metrics := m\<lparr>metrics_ttl := (metrics_ttl m)(q := (metrics_ttl m q)(kind := h)), saturation_total := sat\<rparr>\<rparr>)
      })"

section \<open>Validation of results\<close>

definition resolver_cache_name_valid :: "bytes \<Rightarrow> bool" where
  "resolver_cache_name_valid source \<longleftrightarrow> name_normalize source \<noteq> None"

definition resolver_cache_cnames_valid :: "dns_cname_record list option \<Rightarrow> bool" where
  "resolver_cache_cnames_valid cnames \<longleftrightarrow>
     \<not> (array_count cnames > DNS_CNAME_DEPTH_LIMIT \<or> (array_count cnames = 0) \<noteq> (cnames = None))
     \<and> (case cnames of None \<Rightarrow> True
        | Some cs \<Rightarrow> list_all (\<lambda>c. resolver_cache_name_valid (cn_owner c) \<and> resolver_cache_name_valid (cn_target c)) cs)"

definition resolver_cache_negative_valid :: "dns_negative_record \<Rightarrow> bool" where
  "resolver_cache_negative_valid n \<longleftrightarrow>
     (if \<not> neg_valid n
      then neg_effective_ttl n = 0 \<and> neg_minimum n = 0 \<and> neg_owner n = [] \<and> neg_record_ttl n = 0
      else resolver_cache_name_valid (neg_owner n) \<and> neg_effective_ttl n \<le> neg_minimum n
        \<and> neg_effective_ttl n \<le> neg_record_ttl n)"

definition resolver_cache_query_type_valid :: "u16 \<Rightarrow> bool" where
  "resolver_cache_query_type_valid query_type \<longleftrightarrow>
     query_type = ns_t_a \<or> query_type = ns_t_aaaa \<or> query_type = ns_t_srv"

definition resolver_cache_question_matches :: "resolver_cache_entry \<Rightarrow> bytes \<Rightarrow> bool" where
  "resolver_cache_question_matches e question_name \<longleftrightarrow> name_normalize question_name = Some (ce_name e)"

definition resolver_cache_array_size :: "cache_config \<Rightarrow> nat \<Rightarrow> nat \<Rightarrow> bool \<Rightarrow> nat option" where
  "resolver_cache_array_size cfg count element_size has_cnames =
     do {
       array_size \<leftarrow> resolver_size_multiply count element_size;
       size1 \<leftarrow> resolver_size_add (sizeof_payload cfg) array_size;
       if has_cnames then do {
         array_size \<leftarrow> resolver_size_multiply DNS_CNAME_DEPTH_LIMIT (sizeof_cname_record cfg);
         resolver_size_add size1 array_size
       }
       else Some size1
     }"

definition resolver_cache_address_result_size :: "cache_config \<Rightarrow> dns_address_result \<Rightarrow> nat option" where
  "resolver_cache_address_result_size cfg r =
     resolver_cache_array_size cfg (array_count (ad_addresses r)) (sizeof_address_record cfg) (ad_cnames r \<noteq> None)"

definition resolver_cache_srv_result_size :: "cache_config \<Rightarrow> dns_srv_result \<Rightarrow> nat option" where
  "resolver_cache_srv_result_size cfg r =
     resolver_cache_array_size cfg (array_count (sr_records r)) (sizeof_srv_record cfg) (sr_cnames r \<noteq> None)"

text \<open>The loop over the records: the smallest time to live, starting from \<open>UINT32_MAX\<close>, or a refusal.\<close>

fun minimum_ttl :: "('a \<Rightarrow> bool) \<Rightarrow> ('a \<Rightarrow> nat) \<Rightarrow> nat \<Rightarrow> 'a list \<Rightarrow> nat option" where
  "minimum_ttl ok ttl_of ttl [] = Some ttl"
| "minimum_ttl ok ttl_of ttl (r # rs) =
     (if \<not> ok r then None else minimum_ttl ok ttl_of (if ttl_of r < ttl then ttl_of r else ttl) rs)"

definition resolver_cache_address_result_validate ::
  "resolver_cache_entry \<Rightarrow> dns_address_lookup_status \<Rightarrow> dns_address_result \<Rightarrow> (nat \<times> resolver_cache_view_status) option" where
  "resolver_cache_address_result_validate e lookup_status r =
     (if (ce_query_type e \<noteq> ns_t_a \<and> ce_query_type e \<noteq> ns_t_aaaa)
         \<or> \<not> resolver_cache_question_matches e (ad_question_name r) \<or> \<not> resolver_cache_name_valid (ad_canonical_name r)
         \<or> \<not> resolver_cache_cnames_valid (ad_cnames r) \<or> \<not> resolver_cache_negative_valid (ad_negative r)
      then None
      else if lookup_status = DNS_ADDRESS_LOOKUP_OK then
        (if ad_rcode r \<noteq> ns_r_noerror \<or> ad_addresses r = None \<or> array_count (ad_addresses r) = 0
            \<or> array_count (ad_addresses r) > DNS_ADDRESS_RECORD_LIMIT \<or> neg_valid (ad_negative r)
         then None
         else
           (let expected_family = (if ce_query_type e = ns_t_a then AF_INET else AF_INET6) in
            map_option (\<lambda>ttl. (ttl, RESOLVER_CACHE_VIEW_FRESH_POSITIVE))
              (minimum_ttl (\<lambda>a. addr_family (ar_address a) = expected_family \<and> ar_effective_ttl a \<le> ar_record_ttl a)
                ar_effective_ttl UINT32_MAX (the (ad_addresses r)))))
      else if ad_addresses r \<noteq> None \<or> array_count (ad_addresses r) \<noteq> 0
              \<or> (lookup_status \<noteq> DNS_ADDRESS_LOOKUP_NODATA \<and> lookup_status \<noteq> DNS_ADDRESS_LOOKUP_NOT_FOUND)
      then None
      else if (lookup_status = DNS_ADDRESS_LOOKUP_NODATA \<and> ad_rcode r \<noteq> ns_r_noerror)
              \<or> (lookup_status = DNS_ADDRESS_LOOKUP_NOT_FOUND \<and> ad_rcode r \<noteq> ns_r_nxdomain)
      then None
      else Some (if neg_valid (ad_negative r) then neg_effective_ttl (ad_negative r) else 0,
                 if lookup_status = DNS_ADDRESS_LOOKUP_NODATA then RESOLVER_CACHE_VIEW_FRESH_NODATA
                 else RESOLVER_CACHE_VIEW_FRESH_NXDOMAIN))"

definition resolver_cache_srv_result_validate ::
  "resolver_cache_entry \<Rightarrow> dns_srv_lookup_status \<Rightarrow> dns_srv_result \<Rightarrow> (nat \<times> resolver_cache_view_status) option" where
  "resolver_cache_srv_result_validate e lookup_status r =
     (if ce_query_type e \<noteq> ns_t_srv
         \<or> \<not> resolver_cache_question_matches e (sr_question_name r) \<or> \<not> resolver_cache_name_valid (sr_canonical_name r)
         \<or> \<not> resolver_cache_cnames_valid (sr_cnames r) \<or> \<not> resolver_cache_negative_valid (sr_negative r)
      then None
      else if lookup_status = DNS_SRV_LOOKUP_OK then
        (if sr_rcode r \<noteq> ns_r_noerror \<or> sr_records r = None \<or> array_count (sr_records r) = 0
            \<or> array_count (sr_records r) > DNS_SRV_RECORD_LIMIT \<or> neg_valid (sr_negative r)
         then None
         else
           map_option (\<lambda>ttl. (ttl, RESOLVER_CACHE_VIEW_FRESH_POSITIVE))
             (minimum_ttl (\<lambda>s. resolver_cache_name_valid (srv_target s) \<and> srv_effective_ttl s \<le> srv_record_ttl s)
               srv_effective_ttl UINT32_MAX (the (sr_records r))))
      else if sr_records r \<noteq> None \<or> array_count (sr_records r) \<noteq> 0
              \<or> (lookup_status \<noteq> DNS_SRV_LOOKUP_NODATA \<and> lookup_status \<noteq> DNS_SRV_LOOKUP_NOT_FOUND)
      then None
      else if (lookup_status = DNS_SRV_LOOKUP_NODATA \<and> sr_rcode r \<noteq> ns_r_noerror)
              \<or> (lookup_status = DNS_SRV_LOOKUP_NOT_FOUND \<and> sr_rcode r \<noteq> ns_r_nxdomain)
      then None
      else Some (if neg_valid (sr_negative r) then neg_effective_ttl (sr_negative r) else 0,
                 if lookup_status = DNS_SRV_LOOKUP_NODATA then RESOLVER_CACHE_VIEW_FRESH_NODATA
                 else RESOLVER_CACHE_VIEW_FRESH_NXDOMAIN))"

definition resolver_cache_expiry_calculate :: "timespec \<Rightarrow> nat \<Rightarrow> timespec option" where
  "resolver_cache_expiry_calculate completed_at ttl =
     (if \<not> timeutil_valid (Some completed_at) then None
      else
        (let completed_seconds = of_time_t (tv_sec completed_at) in
         if completed_seconds > UINT64_MAX - ttl then None
         else
           (let expiry_seconds = completed_seconds + ttl; converted_seconds = to_time_t expiry_seconds in
            if converted_seconds < 0 \<or> of_time_t converted_seconds \<noteq> expiry_seconds then None
            else Some (completed_at\<lparr>tv_sec := converted_seconds\<rparr>))))"

definition resolver_cache_result_classify :: "cache_config \<Rightarrow> u16 \<Rightarrow> nat \<Rightarrow> nat \<Rightarrow> resolver_cache_result_fit" where
  "resolver_cache_result_classify cfg query_type cname_count record_count =
     (if cname_count > DNS_CNAME_DEPTH_LIMIT
         \<or> (query_type \<noteq> ns_t_a \<and> query_type \<noteq> ns_t_aaaa \<and> query_type \<noteq> ns_t_srv)
         \<or> ((query_type = ns_t_a \<or> query_type = ns_t_aaaa) \<and> record_count > DNS_ADDRESS_RECORD_LIMIT)
         \<or> (query_type = ns_t_srv \<and> record_count > DNS_SRV_RECORD_LIMIT)
      then RESOLVER_CACHE_RESULT_FIT_SHAPE
      else
        (let with_cnames =
               (if cname_count > 0
                then Option.bind (resolver_size_multiply DNS_CNAME_DEPTH_LIMIT (sizeof_cname_record cfg))
                       (resolver_size_add (sizeof_payload cfg))
                else Some (sizeof_payload cfg));
             record_size = (if query_type = ns_t_srv then sizeof_srv_record cfg else sizeof_address_record cfg) in
         case with_cnames of
           None \<Rightarrow> RESOLVER_CACHE_RESULT_FIT_BYTES
         | Some size1 \<Rightarrow>
             (case Option.bind (resolver_size_multiply record_count record_size) (resolver_size_add size1) of
                None \<Rightarrow> RESOLVER_CACHE_RESULT_FIT_BYTES
              | Some size2 \<Rightarrow>
                  if size2 \<le> RESOLVER_CACHE_RESULT_BYTE_LIMIT cfg then RESOLVER_CACHE_RESULT_FIT_OK
                  else RESOLVER_CACHE_RESULT_FIT_BYTES)))"

section \<open>Operations\<close>

definition bucket_index :: "resolver_cache \<Rightarrow> u64 \<Rightarrow> nat" where
  "bucket_index c hash = unat hash mod bucket_count c"

text \<open>The walk along a chain.\<close>

fun chain_find :: "(nat \<rightharpoonup> resolver_cache_entry) \<Rightarrow> bytes \<Rightarrow> u16 \<Rightarrow> u64 \<Rightarrow> nat list \<Rightarrow> nat option option" where
  "chain_find heap name query_type hash [] = Some None"
| "chain_find heap name query_type hash (i # chain) =
     (case heap i of
        None \<Rightarrow> None
      | Some e \<Rightarrow>
          if ce_hash e = hash \<and> ce_query_type e = query_type \<and> ce_name e = name then Some (Some i)
          else chain_find heap name query_type hash chain)"

definition resolver_cache_entry_find :: "resolver_cache \<Rightarrow> bytes \<Rightarrow> u16 \<Rightarrow> u64 \<Rightarrow> nat option option" where
  "resolver_cache_entry_find c name query_type hash =
     (if bucket_count c = 0 then None
      else chain_find (entries c) name query_type hash (buckets c (bucket_index c hash)))"

definition resolver_cache_entry_payload_clear :: "resolver_cache \<Rightarrow> nat \<Rightarrow> resolver_cache option" where
  "resolver_cache_entry_payload_clear c i =
     do {
       e \<leftarrow> entries c i;
       Some (case ce_payload e of
               None \<Rightarrow> c
             | Some p \<Rightarrow>
                 c\<lparr>entries := (entries c)(i \<mapsto> e\<lparr>ce_payload := None\<rparr>),
                   owned_bytes := (if owned_bytes c \<ge> pl_owned_bytes p then owned_bytes c - pl_owned_bytes p else 0)\<rparr>)
     }"

definition resolver_cache_create :: "cache_config \<Rightarrow> (nat \<Rightarrow> bool) \<Rightarrow> resolver_cache option" where
  "resolver_cache_create cfg alloc =
     (if RESOLVER_CACHE_ENTRY_LIMIT cfg = 0 \<or> RESOLVER_CACHE_OWNED_BYTE_LIMIT cfg = 0
         \<or> RESOLVER_CACHE_RESULT_BYTE_LIMIT cfg = 0
      then None
      else
        (case resolver_size_multiply (RESOLVER_CACHE_ENTRY_LIMIT cfg) (sizeof_pointer cfg) of
           None \<Rightarrow> None
         | Some bucket_bytes \<Rightarrow>
             if sizeof_cache cfg > RESOLVER_CACHE_OWNED_BYTE_LIMIT cfg
                \<or> bucket_bytes > RESOLVER_CACHE_OWNED_BYTE_LIMIT cfg - sizeof_cache cfg
             then None
             else if \<not> alloc 0 \<or> \<not> alloc 1 then None
             else Some
               \<lparr>buckets = (\<lambda>_. []), bucket_count = RESOLVER_CACHE_ENTRY_LIMIT cfg, entries = Map.empty, entry_count = 0,
                cache_metrics =
                  \<lparr>entries_high_water = 0, owned_bytes_high_water = sizeof_cache cfg + bucket_bytes,
                   metrics_query = (\<lambda>_ _. 0), saturation_total = 0, metrics_ttl = (\<lambda>_ _. metrics_histogram_zero)\<rparr>,
                next_entry_id = 1, owned_bytes = sizeof_cache cfg + bucket_bytes\<rparr>))"

text \<open>\<open>resolver_cache_entry_retain\<close>: the cache afterwards and whether a reference was added.\<close>

definition resolver_cache_entry_retain :: "resolver_cache \<Rightarrow> nat \<Rightarrow> (resolver_cache \<times> bool) option" where
  "resolver_cache_entry_retain c i =
     do {
       e \<leftarrow> entries c i;
       Some (if ce_reference_count e = SIZE_MAX then (c, False)
             else (c\<lparr>entries := (entries c)(i \<mapsto> e\<lparr>ce_reference_count := ce_reference_count e + 1\<rparr>)\<rparr>, True))
     }"

text \<open>The tail of \<open>resolver_cache_entry_acquire\<close>: linking a fresh entry.\<close>

definition resolver_cache_entry_create :: "cache_config \<Rightarrow> resolver_cache \<Rightarrow> bytes \<Rightarrow> u16 \<Rightarrow> u64 \<Rightarrow> resolver_cache" where
  "resolver_cache_entry_create cfg c name query_type hash =
     (let i = next_entry_id c; b = bucket_index c hash;
          e = \<lparr>ce_hash = hash, ce_id = i, ce_name = name, ce_payload = None, ce_query_type = query_type,
               ce_reference_count = 1\<rparr>;
          m = cache_metrics c in
      c\<lparr>buckets := (buckets c)(b := i # buckets c b), entries := (entries c)(i \<mapsto> e), entry_count := entry_count c + 1,
        owned_bytes := owned_bytes c + sizeof_entry cfg,
        cache_metrics := m\<lparr>entries_high_water := metrics_high_water_update (entries_high_water m) (entry_count c + 1),
          owned_bytes_high_water := metrics_high_water_update (owned_bytes_high_water m) (owned_bytes c + sizeof_entry cfg)\<rparr>,
        next_entry_id := (if i = UINT64_MAX then 0 else i + 1)\<rparr>)"

definition resolver_cache_entry_acquire ::
  "cache_config \<Rightarrow> bool \<Rightarrow> resolver_cache \<Rightarrow> bytes option \<Rightarrow> u16 \<Rightarrow>
     (resolver_cache \<times> resolver_cache_acquire_status \<times> nat option) option" where
  "resolver_cache_entry_acquire cfg alloc_ok c query_name query_type =
     (let q = resolver_cache_metrics_query_type query_type in
      do {
        name \<leftarrow> (if resolver_cache_query_type_valid query_type then resolver_name_normalize query_name else Some None);
        (case name of
           None \<Rightarrow> Some (resolver_cache_metrics_increment c q acquire_bad_argument, RESOLVER_CACHE_ACQUIRE_BAD_ARGUMENT, None)
         | Some normalized_name \<Rightarrow> do {
             let hash = resolver_cache_hash normalized_name query_type;
             found \<leftarrow> resolver_cache_entry_find c normalized_name query_type hash;
             (case found of
                Some i \<Rightarrow> do {
                  (c', retained) \<leftarrow> resolver_cache_entry_retain c i;
                  Some (if \<not> retained
                        then (resolver_cache_metrics_increment c' q acquire_reference_limit, RESOLVER_CACHE_ACQUIRE_LIMIT, None)
                        else (resolver_cache_metrics_increment c' q acquire_reused, RESOLVER_CACHE_ACQUIRE_OK, Some i))
                }
              | None \<Rightarrow>
                  if entry_count c = RESOLVER_CACHE_ENTRY_LIMIT cfg
                  then Some (resolver_cache_metrics_increment c q acquire_entry_limit, RESOLVER_CACHE_ACQUIRE_LIMIT, None)
                  else if next_entry_id c = 0
                  then Some (resolver_cache_metrics_increment c q acquire_id_limit, RESOLVER_CACHE_ACQUIRE_LIMIT, None)
                  else if sizeof_entry cfg > RESOLVER_CACHE_OWNED_BYTE_LIMIT cfg
                          \<or> owned_bytes c > RESOLVER_CACHE_OWNED_BYTE_LIMIT cfg - sizeof_entry cfg
                  then Some (resolver_cache_metrics_increment c q acquire_owned_byte_limit, RESOLVER_CACHE_ACQUIRE_LIMIT, None)
                  else if \<not> alloc_ok
                  then Some (resolver_cache_metrics_increment c q acquire_memory, RESOLVER_CACHE_ACQUIRE_MEMORY, None)
                  else Some (resolver_cache_metrics_increment
                               (resolver_cache_entry_create cfg c normalized_name query_type hash) q acquire_created,
                             RESOLVER_CACHE_ACQUIRE_OK, Some (next_entry_id c)))
           })
      })"

definition resolver_cache_entry_release :: "cache_config \<Rightarrow> resolver_cache \<Rightarrow> nat \<Rightarrow> resolver_cache option" where
  "resolver_cache_entry_release cfg c i =
     do {
       e \<leftarrow> entries c i;
       if ce_reference_count e = 0 then Some c
       else if ce_reference_count e - 1 \<noteq> 0
       then Some (c\<lparr>entries := (entries c)(i \<mapsto> e\<lparr>ce_reference_count := ce_reference_count e - 1\<rparr>)\<rparr>)
       else if bucket_count c = 0 then None
       else do {
         let b = bucket_index c (ce_hash e);
         c \<leftarrow> resolver_cache_entry_payload_clear (c\<lparr>buckets := (buckets c)(b := remove1 i (buckets c b))\<rparr>) i;
         Some (c\<lparr>owned_bytes := (if owned_bytes c \<ge> sizeof_entry cfg then owned_bytes c - sizeof_entry cfg else 0),
                 entry_count := (if entry_count c > 0 then entry_count c - 1 else entry_count c),
                 entries := (entries c)(i := None)\<rparr>)
       }
     }"

text \<open>
  \<open>resolver_cache_entry_payload_publish\<close>: the status and the cache afterwards. The result is moved into the
  payload exactly when the status is \<open>STORED\<close>. The subtraction of the old payload wraps like \<open>size_t\<close>.
\<close>

definition size_minus :: "nat \<Rightarrow> nat \<Rightarrow> nat" where
  "size_minus a b = (if b \<le> a then a - b else a + (SIZE_MAX + 1) - b)"

definition resolver_cache_entry_payload_publish ::
  "cache_config \<Rightarrow> bool \<Rightarrow> resolver_cache \<Rightarrow> nat \<Rightarrow> resolver_cache_view_status \<Rightarrow> timespec \<Rightarrow> nat \<Rightarrow> nat \<Rightarrow>
     resolver_cache_result \<Rightarrow> (resolver_cache \<times> resolver_cache_publish_status) option" where
  "resolver_cache_entry_payload_publish cfg alloc_ok c i st completed_at ttl result_size res =
     do {
       e \<leftarrow> entries c i;
       let q = resolver_cache_metrics_query_type (ce_query_type e);
       if \<not> timeutil_valid (Some completed_at) then Some (c, RESOLVER_CACHE_PUBLISH_TIME)
       else if result_size > RESOLVER_CACHE_RESULT_BYTE_LIMIT cfg
       then Some (resolver_cache_metrics_increment c q publish_limit_result_bytes, RESOLVER_CACHE_PUBLISH_LIMIT)
       else if ttl = 0 then do {
         c \<leftarrow> resolver_cache_entry_payload_clear c i;
         Some (c, RESOLVER_CACHE_PUBLISH_TRANSIENT)
       }
       else
         (case resolver_cache_expiry_calculate completed_at ttl of
            None \<Rightarrow> Some (c, RESOLVER_CACHE_PUBLISH_TIME)
          | Some expires_at \<Rightarrow>
              (let old_payload_size = (case ce_payload e of None \<Rightarrow> 0 | Some p \<Rightarrow> pl_owned_bytes p);
                   retained_size = size_minus (owned_bytes c) old_payload_size in
               if result_size > RESOLVER_CACHE_OWNED_BYTE_LIMIT cfg
                  \<or> retained_size > RESOLVER_CACHE_OWNED_BYTE_LIMIT cfg - result_size
               then Some (resolver_cache_metrics_increment c q publish_limit_owned_bytes, RESOLVER_CACHE_PUBLISH_LIMIT)
               else if \<not> alloc_ok then Some (c, RESOLVER_CACHE_PUBLISH_MEMORY)
               else do {
                 let p = \<lparr>pl_completed_at = completed_at, pl_expires_at = expires_at, pl_owned_bytes = result_size,
                          pl_result = res, pl_status = st\<rparr>;
                 c \<leftarrow> resolver_cache_entry_payload_clear c i;
                 e \<leftarrow> entries c i;
                 let m = cache_metrics c;
                 Some (c\<lparr>entries := (entries c)(i \<mapsto> e\<lparr>ce_payload := Some p\<rparr>),
                         owned_bytes := owned_bytes c + result_size,
                         cache_metrics := m\<lparr>owned_bytes_high_water :=
                           metrics_high_water_update (owned_bytes_high_water m) (owned_bytes c + result_size)\<rparr>\<rparr>,
                       RESOLVER_CACHE_PUBLISH_STORED)
               }))
     }"

text \<open>
  The two exported publications share everything but validation and size: \<open>validated\<close> is the outcome of the
  first, \<open>sized\<close> of the second, \<open>args\<close> whether completion time and result were given.
\<close>

definition resolver_cache_entry_publish ::
  "cache_config \<Rightarrow> bool \<Rightarrow> resolver_cache \<Rightarrow> nat \<Rightarrow> timespec option \<Rightarrow> bool \<Rightarrow>
     (resolver_cache_entry \<Rightarrow> (nat \<times> resolver_cache_view_status) option) \<Rightarrow> nat option \<Rightarrow> resolver_cache_result \<Rightarrow>
     (resolver_cache \<times> resolver_cache_publish_status) option" where
  "resolver_cache_entry_publish cfg alloc_ok c i completed_at args validated sized res =
     do {
       e \<leftarrow> entries c i;
       let q = resolver_cache_metrics_query_type (ce_query_type e);
       if \<not> args \<or> completed_at = None
       then Some (resolver_cache_metrics_publication_record c q RESOLVER_CACHE_PUBLISH_BAD_ARGUMENT,
                  RESOLVER_CACHE_PUBLISH_BAD_ARGUMENT)
       else
         (case validated e of
            None \<Rightarrow> Some (resolver_cache_metrics_publication_record c q RESOLVER_CACHE_PUBLISH_INVALID,
                         RESOLVER_CACHE_PUBLISH_INVALID)
          | Some (ttl, st) \<Rightarrow> do {
              c \<leftarrow> resolver_cache_metrics_value_record c q st ttl;
              (case sized of
                 None \<Rightarrow> Some (resolver_cache_metrics_publication_record
                                (resolver_cache_metrics_increment c q publish_limit_result_bytes) q RESOLVER_CACHE_PUBLISH_LIMIT,
                              RESOLVER_CACHE_PUBLISH_LIMIT)
               | Some result_size \<Rightarrow> do {
                   (c, status) \<leftarrow> resolver_cache_entry_payload_publish cfg alloc_ok c i st (the completed_at) ttl result_size res;
                   Some (resolver_cache_metrics_publication_record c q status, status)
                 })
            })
     }"

definition resolver_cache_entry_publish_address ::
  "cache_config \<Rightarrow> bool \<Rightarrow> resolver_cache \<Rightarrow> nat \<Rightarrow> dns_address_lookup_status \<Rightarrow> timespec option \<Rightarrow> dns_address_result option \<Rightarrow>
     (resolver_cache \<times> resolver_cache_publish_status \<times> dns_address_result option) option" where
  "resolver_cache_entry_publish_address cfg alloc_ok c i lookup_status completed_at res =
     (let r = (case res of Some r \<Rightarrow> r | None \<Rightarrow> dns_address_result_zero) in
      do {
        (c, status) \<leftarrow> resolver_cache_entry_publish cfg alloc_ok c i completed_at (res \<noteq> None)
          (\<lambda>e. resolver_cache_address_result_validate e lookup_status r)
          (resolver_cache_address_result_size cfg r) (Payload_address r);
        Some (c, status, if status = RESOLVER_CACHE_PUBLISH_STORED then Some dns_address_result_zero else res)
      })"

definition resolver_cache_entry_publish_srv ::
  "cache_config \<Rightarrow> bool \<Rightarrow> resolver_cache \<Rightarrow> nat \<Rightarrow> dns_srv_lookup_status \<Rightarrow> timespec option \<Rightarrow> dns_srv_result option \<Rightarrow>
     (resolver_cache \<times> resolver_cache_publish_status \<times> dns_srv_result option) option" where
  "resolver_cache_entry_publish_srv cfg alloc_ok c i lookup_status completed_at res =
     (let r = (case res of Some r \<Rightarrow> r | None \<Rightarrow> dns_srv_result_zero) in
      do {
        (c, status) \<leftarrow> resolver_cache_entry_publish cfg alloc_ok c i completed_at (res \<noteq> None)
          (\<lambda>e. resolver_cache_srv_result_validate e lookup_status r)
          (resolver_cache_srv_result_size cfg r) (Payload_srv r);
        Some (c, status, if status = RESOLVER_CACHE_PUBLISH_STORED then Some dns_srv_result_zero else res)
      })"

definition expiry_counter :: "metrics_payload_kind \<Rightarrow> resolver_cache_counter" where
  "expiry_counter k =
     (case k of
        METRICS_PAYLOAD_KIND_POSITIVE \<Rightarrow> expiry_positive
      | METRICS_PAYLOAD_KIND_NXDOMAIN \<Rightarrow> expiry_nxdomain
      | METRICS_PAYLOAD_KIND_NODATA \<Rightarrow> expiry_nodata)"

definition payload_view :: "resolver_cache_payload \<Rightarrow> resolver_cache_view" where
  "payload_view p =
     \<lparr>view_addresses = (case pl_result p of Payload_address r \<Rightarrow> ad_addresses r | _ \<Rightarrow> None),
      view_completed_at = pl_completed_at p, view_expires_at = pl_expires_at p,
      view_srv_records = (case pl_result p of Payload_srv r \<Rightarrow> sr_records r | _ \<Rightarrow> None), view_status = pl_status p\<rparr>"

text \<open>The cache afterwards, whether the view is valid, and the view.\<close>

definition resolver_cache_entry_view ::
  "resolver_cache \<Rightarrow> nat \<Rightarrow> timespec option \<Rightarrow> (resolver_cache \<times> bool \<times> resolver_cache_view) option" where
  "resolver_cache_entry_view c i now =
     do {
       e \<leftarrow> entries c i;
       if \<not> timeutil_valid now then Some (c, False, resolver_cache_view_zero)
       else do {
         c \<leftarrow> (case ce_payload e of
                Some p \<Rightarrow>
                  if timeutil_compare (the now) (pl_expires_at p) \<ge> 0
                  then resolver_cache_entry_payload_clear
                         (resolver_cache_metrics_increment c (resolver_cache_metrics_query_type (ce_query_type e))
                           (expiry_counter (resolver_cache_metrics_payload_kind (pl_status p)))) i
                  else Some c
              | None \<Rightarrow> Some c);
         e \<leftarrow> entries c i;
         Some (c, True, case ce_payload e of None \<Rightarrow> resolver_cache_view_zero | Some p \<Rightarrow> payload_view p)
       }
     }"

definition resolver_cache_entry_id :: "resolver_cache \<Rightarrow> nat option \<Rightarrow> nat option" where
  "resolver_cache_entry_id c entry = (case entry of None \<Rightarrow> Some 0 | Some i \<Rightarrow> map_option ce_id (entries c i))"

definition resolver_cache_entry_name :: "resolver_cache \<Rightarrow> nat option \<Rightarrow> bytes option option" where
  "resolver_cache_entry_name c entry = (case entry of None \<Rightarrow> Some None | Some i \<Rightarrow> map_option (\<lambda>e. Some (ce_name e)) (entries c i))"

definition resolver_cache_entry_query_type :: "resolver_cache \<Rightarrow> nat option \<Rightarrow> u16 option" where
  "resolver_cache_entry_query_type c entry = (case entry of None \<Rightarrow> Some 0 | Some i \<Rightarrow> map_option ce_query_type (entries c i))"

text \<open>\<open>resolver_cache_destroy\<close> walks every chain; the entries it frees, in order.\<close>

definition resolver_cache_destroy :: "resolver_cache option \<Rightarrow> nat list" where
  "resolver_cache_destroy cache =
     (case cache of None \<Rightarrow> [] | Some c \<Rightarrow> concat (map (buckets c) [0..<bucket_count c]))"

section \<open>Exported metrics\<close>

record resolver_cache_metrics_snapshot =
  snap_entries_current :: nat
  snap_entries_high_water :: nat
  snap_owned_bytes_current :: nat
  snap_owned_bytes_high_water :: nat
  snap_query :: "metrics_query_type \<Rightarrow> resolver_cache_counter \<Rightarrow> nat"
  snap_saturation_total :: nat
  snap_ttl :: "metrics_query_type \<Rightarrow> metrics_payload_kind \<Rightarrow> metrics_histogram_snapshot option"

definition resident_counter :: "metrics_payload_kind \<Rightarrow> resolver_cache_counter" where
  "resident_counter k =
     (case k of
        METRICS_PAYLOAD_KIND_POSITIVE \<Rightarrow> resident_positive
      | METRICS_PAYLOAD_KIND_NXDOMAIN \<Rightarrow> resident_nxdomain
      | METRICS_PAYLOAD_KIND_NODATA \<Rightarrow> resident_nodata)"

fun count_resident ::
  "(nat \<rightharpoonup> resolver_cache_entry) \<Rightarrow> nat list \<Rightarrow> (metrics_query_type \<Rightarrow> resolver_cache_counter \<Rightarrow> nat) \<Rightarrow>
     (metrics_query_type \<Rightarrow> resolver_cache_counter \<Rightarrow> nat) option" where
  "count_resident heap [] m = Some m"
| "count_resident heap (i # is) m =
     do {
       e \<leftarrow> heap i;
       count_resident heap is
         (case ce_payload e of
            None \<Rightarrow> m
          | Some p \<Rightarrow>
              (let q = resolver_cache_metrics_query_type (ce_query_type e);
                   k = resident_counter (resolver_cache_metrics_payload_kind (pl_status p))
               in m(q := (m q)(k := m q k + 1))))
     }"

definition resolver_cache_metrics_get :: "resolver_cache option \<Rightarrow> resolver_cache_metrics_snapshot option option" where
  "resolver_cache_metrics_get cache =
     (case cache of
        None \<Rightarrow> Some None
      | Some c \<Rightarrow> do {
          query \<leftarrow> count_resident (entries c) (concat (map (buckets c) [0..<bucket_count c])) (metrics_query (cache_metrics c));
          Some (Some
            \<lparr>snap_entries_current = entry_count c, snap_entries_high_water = entries_high_water (cache_metrics c),
             snap_owned_bytes_current = owned_bytes c, snap_owned_bytes_high_water = owned_bytes_high_water (cache_metrics c),
             snap_query = query, snap_saturation_total = saturation_total (cache_metrics c),
             snap_ttl = (\<lambda>q k. if q = METRICS_QUERY_TYPE_OTHER then None
               else metrics_ttl_histogram_get (metrics_ttl (cache_metrics c) q k))\<rparr>)
        })"

end
