(* ===== verification/Cache_Correct.thy ===== *)
theory Cache_Correct
  imports Cache
begin

text \<open>
  Correctness of the resolver cache: the invariant of its hash table and of its memory accounting, its
  preservation by every operation, and what callers observe.
\<close>

section \<open>Sums over a heap\<close>

definition heap_sum :: "('v \<Rightarrow> nat) \<Rightarrow> ('k \<rightharpoonup> 'v) \<Rightarrow> nat" where
  "heap_sum f m = (\<Sum>k\<in>dom m. f (the (m k)))"

lemma heap_sum_new:
  assumes "finite (dom m)" "m k = None"
  shows "heap_sum f (m(k \<mapsto> v)) = heap_sum f m + f v"
proof -
  have "(\<Sum>j\<in>dom m. f (the ((m(k \<mapsto> v)) j))) = (\<Sum>j\<in>dom m. f (the (m j)))"
    using assms by (intro sum.cong) auto
  then show ?thesis
    using assms by (simp add: heap_sum_def domIff)
qed

lemma heap_sum_del:
  assumes "finite (dom m)" "m k = Some v"
  shows "heap_sum f (m(k := None)) + f v = heap_sum f m"
proof -
  have "heap_sum f ((m(k := None))(k \<mapsto> v)) = heap_sum f (m(k := None)) + f v"
    using assms by (intro heap_sum_new) simp_all
  moreover have "(m(k := None))(k \<mapsto> v) = m"
    using assms by (simp add: fun_upd_idem_iff)
  ultimately show ?thesis by simp
qed

lemma heap_sum_upd:
  assumes "finite (dom m)" "m k = Some v"
  shows "heap_sum f (m(k \<mapsto> v')) + f v = heap_sum f m + f v'"
proof -
  have "heap_sum f ((m(k := None))(k \<mapsto> v')) = heap_sum f (m(k := None)) + f v'"
    using assms by (intro heap_sum_new) simp_all
  then show ?thesis
    using heap_sum_del [OF assms, of f] by simp
qed

lemma heap_sum_ge: "finite (dom m) \<Longrightarrow> m k = Some v \<Longrightarrow> f v \<le> heap_sum f m"
  using heap_sum_del [of m k v f] by simp

section \<open>The invariant\<close>

definition payload_bytes :: "resolver_cache_entry \<Rightarrow> nat" where
  "payload_bytes e = (case ce_payload e of None \<Rightarrow> 0 | Some p \<Rightarrow> pl_owned_bytes p)"

definition entry_bytes :: "cache_config \<Rightarrow> resolver_cache_entry \<Rightarrow> nat" where
  "entry_bytes cfg e = sizeof_entry cfg + payload_bytes e"

definition payload_ok :: "cache_config \<Rightarrow> u16 \<Rightarrow> resolver_cache_payload \<Rightarrow> bool" where
  "payload_ok cfg query_type p \<longleftrightarrow>
     timeutil_valid (Some (pl_completed_at p)) \<and> timeutil_valid (Some (pl_expires_at p))
     \<and> timeutil_compare (pl_completed_at p) (pl_expires_at p) < 0
     \<and> pl_owned_bytes p \<le> RESOLVER_CACHE_RESULT_BYTE_LIMIT cfg \<and> pl_status p \<noteq> RESOLVER_CACHE_VIEW_EMPTY
     \<and> (case pl_result p of Payload_address _ \<Rightarrow> query_type \<noteq> ns_t_srv | Payload_srv _ \<Rightarrow> query_type = ns_t_srv)"

definition entry_ok :: "cache_config \<Rightarrow> nat \<Rightarrow> nat \<Rightarrow> resolver_cache_entry \<Rightarrow> bool" where
  "entry_ok cfg next_id i e \<longleftrightarrow>
     ce_id e = i \<and> 0 < i \<and> (next_id = 0 \<or> i < next_id)
     \<and> ce_hash e = resolver_cache_hash (ce_name e) (ce_query_type e) \<and> normalized (ce_name e)
     \<and> resolver_cache_query_type_valid (ce_query_type e)
     \<and> 0 < ce_reference_count e \<and> ce_reference_count e \<le> SIZE_MAX
     \<and> (case ce_payload e of None \<Rightarrow> True | Some p \<Rightarrow> payload_ok cfg (ce_query_type e) p)"

text \<open>The chains contain exactly the live entries, each in the bucket of its hash; keys are unique.\<close>

definition table_inv :: "cache_config \<Rightarrow> resolver_cache \<Rightarrow> bool" where
  "table_inv cfg c \<longleftrightarrow>
     bucket_count c = RESOLVER_CACHE_ENTRY_LIMIT cfg \<and> 0 < bucket_count c
     \<and> (\<forall>b. distinct (buckets c b))
     \<and> (\<forall>b i. i \<in> set (buckets c b) \<longleftrightarrow> (\<exists>e. entries c i = Some e \<and> bucket_index c (ce_hash e) = b))
     \<and> (\<forall>i e. entries c i = Some e \<longrightarrow> entry_ok cfg (next_entry_id c) i e)
     \<and> (\<forall>i j e f. entries c i = Some e \<longrightarrow> entries c j = Some f \<longrightarrow> ce_name e = ce_name f \<longrightarrow>
          ce_query_type e = ce_query_type f \<longrightarrow> i = j)"

text \<open>The counters agree with the heap and respect the limits.\<close>

definition account_inv :: "cache_config \<Rightarrow> resolver_cache \<Rightarrow> bool" where
  "account_inv cfg c \<longleftrightarrow>
     finite (dom (entries c)) \<and> card (dom (entries c)) = entry_count c
     \<and> entry_count c \<le> RESOLVER_CACHE_ENTRY_LIMIT cfg
     \<and> owned_bytes c = sizeof_cache cfg + RESOLVER_CACHE_ENTRY_LIMIT cfg * sizeof_pointer cfg
         + heap_sum (entry_bytes cfg) (entries c)
     \<and> owned_bytes c \<le> RESOLVER_CACHE_OWNED_BYTE_LIMIT cfg"

definition histograms_inv :: "resolver_cache \<Rightarrow> bool" where
  "histograms_inv c \<longleftrightarrow>
     (\<forall>q k. length (hist_buckets (metrics_ttl (cache_metrics c) q k)) = METRICS_DURATION_BUCKET_COUNT)"

definition cache_inv :: "cache_config \<Rightarrow> resolver_cache \<Rightarrow> bool" where
  "cache_inv cfg c \<longleftrightarrow> table_inv cfg c \<and> account_inv cfg c \<and> histograms_inv c"

lemma table_inv_metrics [simp]: "table_inv cfg (c\<lparr>cache_metrics := m\<rparr>) = table_inv cfg c"
  by (simp add: table_inv_def bucket_index_def)

lemma account_inv_metrics [simp]: "account_inv cfg (c\<lparr>cache_metrics := m\<rparr>) = account_inv cfg c"
  by (simp add: account_inv_def)

lemma cache_inv_increment [simp]: "cache_inv cfg (resolver_cache_metrics_increment c q k) = cache_inv cfg c"
  by (simp add: cache_inv_def resolver_cache_metrics_increment_def Let_def case_prod_beta histograms_inv_def)

lemma increment_fields [simp]:
  "entries (resolver_cache_metrics_increment c q k) = entries c"
  "buckets (resolver_cache_metrics_increment c q k) = buckets c"
  "bucket_count (resolver_cache_metrics_increment c q k) = bucket_count c"
  "entry_count (resolver_cache_metrics_increment c q k) = entry_count c"
  "owned_bytes (resolver_cache_metrics_increment c q k) = owned_bytes c"
  "next_entry_id (resolver_cache_metrics_increment c q k) = next_entry_id c"
  by (simp_all add: resolver_cache_metrics_increment_def Let_def case_prod_beta)

lemma cache_inv_publication [simp]: "cache_inv cfg (resolver_cache_metrics_publication_record c q st) = cache_inv cfg c"
  by (simp add: resolver_cache_metrics_publication_record_def)

lemma publication_fields [simp]:
  "entries (resolver_cache_metrics_publication_record c q st) = entries c"
  "owned_bytes (resolver_cache_metrics_publication_record c q st) = owned_bytes c"
  by (simp_all add: resolver_cache_metrics_publication_record_def)

lemma value_record_inv:
  assumes "cache_inv cfg c"
  shows "\<exists>c'. resolver_cache_metrics_value_record c q st ttl = Some c' \<and> cache_inv cfg c'
    \<and> entries c' = entries c \<and> owned_bytes c' = owned_bytes c \<and> buckets c' = buckets c \<and> bucket_count c' = bucket_count c
    \<and> next_entry_id c' = next_entry_id c"
proof -
  let ?k = "resolver_cache_metrics_payload_kind st"
  let ?counter = "case ?k of METRICS_PAYLOAD_KIND_POSITIVE \<Rightarrow> value_positive | METRICS_PAYLOAD_KIND_NXDOMAIN \<Rightarrow> value_nxdomain
    | METRICS_PAYLOAD_KIND_NODATA \<Rightarrow> value_nodata"
  define d where "d = resolver_cache_metrics_increment c q ?counter"
  have d: "cache_inv cfg d" "entries d = entries c" "owned_bytes d = owned_bytes c" "buckets d = buckets c"
      "bucket_count d = bucket_count c" "next_entry_id d = next_entry_id c"
    using assms by (simp_all add: d_def)
  then have len: "length (hist_buckets (metrics_ttl (cache_metrics d) q k)) = METRICS_DURATION_BUCKET_COUNT" for q k
    by (simp add: cache_inv_def histograms_inv_def)
  have "metrics_bucket metrics_ttl_bounds ttl \<le> 12"
    using metrics_bucket_le [of metrics_ttl_bounds ttl] by (simp add: metrics_ttl_bounds_def)
  then obtain h s where h: "metrics_ttl_histogram_observe (metrics_ttl (cache_metrics d) q ?k) ttl (saturation_total (cache_metrics d)) = Some (h, s)"
      "length (hist_buckets h) = METRICS_DURATION_BUCKET_COUNT"
    using len [of q ?k] by (simp add: metrics_ttl_histogram_observe_def metrics_histogram_observe_def Let_def case_prod_beta)
  let ?c = "d\<lparr>cache_metrics := (cache_metrics d)\<lparr>metrics_ttl := (metrics_ttl (cache_metrics d))(q := (metrics_ttl (cache_metrics d) q)(?k := h)),
      saturation_total := s\<rparr>\<rparr>"
  have "resolver_cache_metrics_value_record c q st ttl = Some ?c"
    using h(1) by (simp add: resolver_cache_metrics_value_record_def Let_def flip: d_def)
  moreover have "cache_inv cfg ?c"
    using d(1) h(2) len by (simp add: cache_inv_def histograms_inv_def)
  ultimately show ?thesis
    using d by (intro exI [of _ ?c]) simp
qed

section \<open>Lookup\<close>

lemma live_entry:
  assumes "table_inv cfg c" "entries c i = Some e"
  shows "ce_id e = i" "0 < i" "next_entry_id c = 0 \<or> i < next_entry_id c"
    "ce_hash e = resolver_cache_hash (ce_name e) (ce_query_type e)" "normalized (ce_name e)"
    "resolver_cache_query_type_valid (ce_query_type e)" "0 < ce_reference_count e" "ce_reference_count e \<le> SIZE_MAX"
    "i \<in> set (buckets c (bucket_index c (ce_hash e)))" "entry_ok cfg (next_entry_id c) i e"
  using assms by (auto simp: table_inv_def entry_ok_def)

lemma unique_key:
  assumes "table_inv cfg c" "entries c i = Some e" "entries c j = Some f" "ce_name e = ce_name f" "ce_query_type e = ce_query_type f"
  shows "i = j"
  using assms unfolding table_inv_def by blast

lemma chain_find_spec:
  assumes "\<forall>i\<in>set chain. heap i \<noteq> None"
  shows "case chain_find heap name query_type hash chain of
      None \<Rightarrow> False
    | Some None \<Rightarrow> \<forall>i\<in>set chain. \<forall>e. heap i = Some e \<longrightarrow> \<not> (ce_hash e = hash \<and> ce_query_type e = query_type \<and> ce_name e = name)
    | Some (Some i) \<Rightarrow> i \<in> set chain \<and> (\<exists>e. heap i = Some e \<and> ce_hash e = hash \<and> ce_query_type e = query_type \<and> ce_name e = name)"
  using assms by (induction chain) (auto split: option.splits)

text \<open>The abstract view of the table: the entry for a name and a query type.\<close>

definition cache_lookup :: "resolver_cache \<Rightarrow> bytes \<Rightarrow> u16 \<Rightarrow> nat option" where
  "cache_lookup c name query_type =
     (if \<exists>i e. entries c i = Some e \<and> ce_name e = name \<and> ce_query_type e = query_type
      then Some (THE i. \<exists>e. entries c i = Some e \<and> ce_name e = name \<and> ce_query_type e = query_type) else None)"

lemma cache_lookup_Some:
  assumes "table_inv cfg c"
  shows "cache_lookup c name query_type = Some i \<longleftrightarrow> (\<exists>e. entries c i = Some e \<and> ce_name e = name \<and> ce_query_type e = query_type)"
proof -
  let ?P = "\<lambda>i. \<exists>e. entries c i = Some e \<and> ce_name e = name \<and> ce_query_type e = query_type"
  have "(THE i. ?P i) = j" if "?P j" for j
    using that by (rule the_equality) (use that unique_key [OF assms] in metis)
  then show ?thesis
    by (auto simp: cache_lookup_def)
qed

lemma cache_lookup_None:
  "cache_lookup c name query_type = None \<longleftrightarrow> (\<nexists>i e. entries c i = Some e \<and> ce_name e = name \<and> ce_query_type e = query_type)"
  by (auto simp: cache_lookup_def)

lemma entry_find_lookup:
  assumes inv: "table_inv cfg c"
  shows "resolver_cache_entry_find c name query_type (resolver_cache_hash name query_type) = Some (cache_lookup c name query_type)"
proof -
  define hash where "hash = resolver_cache_hash name query_type"
  define chain where "chain = buckets c (bucket_index c hash)"
  have nz: "bucket_count c \<noteq> 0" and mem: "i \<in> set chain \<longleftrightarrow> (\<exists>e. entries c i = Some e \<and> bucket_index c (ce_hash e) = bucket_index c hash)" for i
    using inv by (auto simp: table_inv_def chain_def)
  have "\<forall>i\<in>set chain. entries c i \<noteq> None"
    using mem by auto
  note spec = chain_find_spec [OF this, where name = name and query_type = query_type and hash = hash]
  show ?thesis
  proof (cases "chain_find (entries c) name query_type hash chain")
    case None
    then show ?thesis using spec by simp
  next
    case (Some r)
    have "cache_lookup c name query_type = r"
    proof (cases r)
      case None
      have "\<not> (entries c i = Some e \<and> ce_name e = name \<and> ce_query_type e = query_type)" for i e
        using spec Some None mem [of i] live_entry(4) [OF inv, of i e] by (auto simp: hash_def)
      then show ?thesis
        using None by (simp add: cache_lookup_None)
    next
      case (Some i)
      then show ?thesis
        using spec \<open>chain_find _ _ _ _ _ = Some r\<close> by (auto simp: cache_lookup_Some [OF inv])
    qed
    then show ?thesis
      using Some nz by (simp add: resolver_cache_entry_find_def chain_def hash_def)
  qed
qed

section \<open>Preservation\<close>

lemma table_invI:
  assumes "bucket_count c = RESOLVER_CACHE_ENTRY_LIMIT cfg" "0 < bucket_count c" "\<And>b. distinct (buckets c b)"
    and "\<And>b i. i \<in> set (buckets c b) \<longleftrightarrow> (\<exists>e. entries c i = Some e \<and> bucket_index c (ce_hash e) = b)"
    and "\<And>i e. entries c i = Some e \<Longrightarrow> entry_ok cfg (next_entry_id c) i e"
    and "\<And>i j e f. entries c i = Some e \<Longrightarrow> entries c j = Some f \<Longrightarrow> ce_name e = ce_name f \<Longrightarrow>
          ce_query_type e = ce_query_type f \<Longrightarrow> i = j"
  shows "table_inv cfg c"
  unfolding table_inv_def by (intro conjI allI impI) (fact assms)+

lemma table_inv_parts:
  assumes "table_inv cfg c"
  shows "bucket_count c = RESOLVER_CACHE_ENTRY_LIMIT cfg" "0 < RESOLVER_CACHE_ENTRY_LIMIT cfg" "distinct (buckets c b)"
    "i \<in> set (buckets c b) \<longleftrightarrow> (\<exists>e. entries c i = Some e \<and> bucket_index c (ce_hash e) = b)"
  using assms by (auto simp: table_inv_def)

text \<open>Replacing the contents of a live entry keeps the table.\<close>

lemma table_inv_upd:
  assumes inv: "table_inv cfg c" and e: "entries c i = Some e"
    and e': "ce_hash e' = ce_hash e" "ce_name e' = ce_name e" "ce_query_type e' = ce_query_type e" "entry_ok cfg (next_entry_id c) i e'"
  shows "table_inv cfg (c\<lparr>entries := (entries c)(i \<mapsto> e'), owned_bytes := n\<rparr>)"
proof -
  let ?c = "c\<lparr>entries := (entries c)(i \<mapsto> e'), owned_bytes := n\<rparr>"
  have [simp]: "bucket_index ?c = bucket_index c"
    by (simp add: bucket_index_def fun_eq_iff)
  have chains: "j \<in> set (buckets c b) \<longleftrightarrow> (\<exists>f. entries ?c j = Some f \<and> bucket_index c (ce_hash f) = b)" for b j
    using inv e e'(1) unfolding table_inv_def by (cases "j = i") auto
  have keys: "j = k" if "entries ?c j = Some f" "entries ?c k = Some g" "ce_name f = ce_name g" "ce_query_type f = ce_query_type g" for j k f g
  proof -
    have "\<exists>f'. entries c j = Some f' \<and> ce_name f' = ce_name f \<and> ce_query_type f' = ce_query_type f"
      "\<exists>g'. entries c k = Some g' \<and> ce_name g' = ce_name g \<and> ce_query_type g' = ce_query_type g"
      using that(1,2) e e' by (cases "j = i"; cases "k = i"; auto)+
    then show ?thesis
      using unique_key [OF inv] that(3,4) by metis
  qed
  have ok: "entry_ok cfg (next_entry_id c) j f" if "entries ?c j = Some f" for j f
    using that inv e'(4) by (cases "j = i") (auto simp: table_inv_def)
  show ?thesis
  proof (rule table_invI)
    show "j \<in> set (buckets ?c b) \<longleftrightarrow> (\<exists>f. entries ?c j = Some f \<and> bucket_index ?c (ce_hash f) = b)" for b j
      using chains [of j b] by simp
    show "entry_ok cfg (next_entry_id ?c) j f" if "entries ?c j = Some f" for j f
      using ok [OF that] by simp
    show "j = k" if "entries ?c j = Some f" "entries ?c k = Some g" "ce_name f = ce_name g" "ce_query_type f = ce_query_type g" for j k f g
      using that by (rule keys)
  qed (use inv in \<open>simp_all add: table_inv_parts\<close>)
qed

lemma account_inv_upd:
  assumes "account_inv cfg c" "entries c i = Some e"
    and "n + entry_bytes cfg e = owned_bytes c + entry_bytes cfg e'" "n \<le> RESOLVER_CACHE_OWNED_BYTE_LIMIT cfg"
  shows "account_inv cfg (c\<lparr>entries := (entries c)(i \<mapsto> e'), owned_bytes := n\<rparr>)"
  using assms heap_sum_upd [of "entries c" i e "entry_bytes cfg" e'] by (simp add: account_inv_def insert_absorb domI)

lemma cache_inv_upd:
  assumes "cache_inv cfg c" "entries c i = Some e"
    and "ce_hash e' = ce_hash e" "ce_name e' = ce_name e" "ce_query_type e' = ce_query_type e" "entry_ok cfg (next_entry_id c) i e'"
    and "n + entry_bytes cfg e = owned_bytes c + entry_bytes cfg e'" "n \<le> RESOLVER_CACHE_OWNED_BYTE_LIMIT cfg"
  shows "cache_inv cfg (c\<lparr>entries := (entries c)(i \<mapsto> e'), owned_bytes := n\<rparr>)"
  using assms table_inv_upd [of cfg c i e e' n] account_inv_upd [of cfg c i e n e'] by (simp add: cache_inv_def histograms_inv_def)

lemma owned_bytes_ge:
  assumes "account_inv cfg c" "entries c i = Some e"
  shows "entry_bytes cfg e \<le> owned_bytes c"
  using assms heap_sum_ge [of "entries c" i e "entry_bytes cfg"] by (simp add: account_inv_def)

lemma payload_clear_exact:
  assumes e: "entries c i = Some e" and le: "payload_bytes e \<le> owned_bytes c"
  shows "resolver_cache_entry_payload_clear c i =
     Some (c\<lparr>entries := (entries c)(i \<mapsto> e\<lparr>ce_payload := None\<rparr>), owned_bytes := owned_bytes c - payload_bytes e\<rparr>)"
proof -
  have "(entries c)(i \<mapsto> e\<lparr>ce_payload := None\<rparr>) = entries c" if "ce_payload e = None"
    using e that by (cases e) (simp add: fun_upd_idem_iff)
  then show ?thesis
    using assms by (auto simp: resolver_cache_entry_payload_clear_def payload_bytes_def split: option.splits)
qed

lemma payload_bytes_le:
  assumes "cache_inv cfg c" "entries c i = Some e"
  shows "payload_bytes e \<le> owned_bytes c"
  using assms owned_bytes_ge [of cfg c i e] by (simp add: cache_inv_def entry_bytes_def)

lemmas payload_clear_eq = payload_clear_exact [OF _ payload_bytes_le]

lemma payload_clear_inv:
  assumes "cache_inv cfg c" "entries c i = Some e"
  shows "cache_inv cfg (c\<lparr>entries := (entries c)(i \<mapsto> e\<lparr>ce_payload := None\<rparr>), owned_bytes := owned_bytes c - payload_bytes e\<rparr>)"
proof (rule cache_inv_upd [OF assms])
  show "entry_ok cfg (next_entry_id c) i (e\<lparr>ce_payload := None\<rparr>)"
    using assms live_entry(10) [of cfg c i e] by (simp add: cache_inv_def entry_ok_def)
  have "entry_bytes cfg e \<le> owned_bytes c" "owned_bytes c \<le> RESOLVER_CACHE_OWNED_BYTE_LIMIT cfg"
    using assms owned_bytes_ge [of cfg c i e] by (simp_all add: cache_inv_def account_inv_def)
  then show "owned_bytes c - payload_bytes e + entry_bytes cfg e = owned_bytes c + entry_bytes cfg (e\<lparr>ce_payload := None\<rparr>)"
    "owned_bytes c - payload_bytes e \<le> RESOLVER_CACHE_OWNED_BYTE_LIMIT cfg"
    by (simp_all add: entry_bytes_def payload_bytes_def)
qed simp_all

lemma create_inv:
  assumes "resolver_cache_create cfg alloc = Some c"
  shows "cache_inv cfg c"
  using assms
  by (auto simp: resolver_cache_create_def resolver_size_multiply_def cache_inv_def table_inv_def account_inv_def histograms_inv_def
      heap_sum_def metrics_histogram_zero_def bucket_index_def split: if_splits option.splits)

lemma entry_create_inv:
  assumes inv: "cache_inv cfg c" and key: "normalized name" "resolver_cache_query_type_valid query_type"
    and new: "cache_lookup c name query_type = None"
    and room: "entry_count c < RESOLVER_CACHE_ENTRY_LIMIT cfg" "next_entry_id c \<noteq> 0"
      "owned_bytes c + sizeof_entry cfg \<le> RESOLVER_CACHE_OWNED_BYTE_LIMIT cfg"
  shows "cache_inv cfg (resolver_cache_entry_create cfg c name query_type (resolver_cache_hash name query_type))"
proof -
  define hash i where "hash = resolver_cache_hash name query_type" and "i = next_entry_id c"
  define e where "e = \<lparr>ce_hash = hash, ce_id = i, ce_name = name, ce_payload = None, ce_query_type = query_type, ce_reference_count = 1\<rparr>"
  define c' where "c' = resolver_cache_entry_create cfg c name query_type hash"
  have table: "table_inv cfg c" and account: "account_inv cfg c"
    using inv by (simp_all add: cache_inv_def)
  have fresh: "entries c i = None"
    using live_entry(3) [OF table, of i] room(2) by (cases "entries c i") (auto simp: i_def)
  have c': "entries c' = (entries c)(i \<mapsto> e)" "bucket_index c' = bucket_index c" "bucket_count c' = bucket_count c"
      "buckets c' = (buckets c)(bucket_index c hash := i # buckets c (bucket_index c hash))"
      "next_entry_id c' = (if i = UINT64_MAX then 0 else i + 1)" "entry_count c' = entry_count c + 1"
      "owned_bytes c' = owned_bytes c + sizeof_entry cfg" "metrics_ttl (cache_metrics c') = metrics_ttl (cache_metrics c)"
    by (simp_all add: c'_def e_def i_def resolver_cache_entry_create_def Let_def bucket_index_def fun_eq_iff)
  have "table_inv cfg c'"
  proof (rule table_invI)
    show "distinct (buckets c' b)" for b
      using fresh by (simp add: c' table_inv_parts(3,4) [OF table])
    show "j \<in> set (buckets c' b) \<longleftrightarrow> (\<exists>f. entries c' j = Some f \<and> bucket_index c' (ce_hash f) = b)" for b j
      using fresh by (auto simp: c' table_inv_parts(4) [OF table] e_def)
    show "entry_ok cfg (next_entry_id c') j f" if "entries c' j = Some f" for j f
    proof (cases "j = i")
      case True
      then show ?thesis
        using that key room(2) by (auto simp: c' e_def entry_ok_def hash_def i_def)
    next
      case False
      then show ?thesis
        using that live_entry(10) [OF table, of j f] room(2) by (auto simp: c' entry_ok_def i_def split: option.splits)
    qed
    show "j = k" if "entries c' j = Some f" "entries c' k = Some g" "ce_name f = ce_name g" "ce_query_type f = ce_query_type g" for j k f g
    proof -
      have "\<not> (ce_name h = name \<and> ce_query_type h = query_type)" if "entries c l = Some h" for l h
        using new that by (auto simp: cache_lookup_None)
      moreover have "ce_name e = name" "ce_query_type e = query_type"
        by (simp_all add: e_def)
      ultimately show ?thesis
        using that unique_key [OF table, of j f k g] by (auto simp: c' split: if_splits)
    qed
  qed (use table in \<open>simp_all add: c' table_inv_parts\<close>)
  moreover have "account_inv cfg c'"
    using account room(1,3) fresh heap_sum_new [of "entries c" i "entry_bytes cfg" e]
    by (simp add: account_inv_def c' domIff) (simp add: e_def entry_bytes_def payload_bytes_def)
  moreover have "histograms_inv c'"
    using inv by (simp add: cache_inv_def histograms_inv_def c')
  ultimately show ?thesis
    by (simp add: cache_inv_def c'_def hash_def)
qed

lemma retain_inv:
  assumes "cache_inv cfg c" "entries c i = Some e"
  shows "\<exists>c' r. resolver_cache_entry_retain c i = Some (c', r) \<and> cache_inv cfg c'"
proof -
  have ok: "entry_ok cfg (next_entry_id c) i e" "owned_bytes c \<le> RESOLVER_CACHE_OWNED_BYTE_LIMIT cfg"
    using assms live_entry(10) [of cfg c i e] by (auto simp: cache_inv_def account_inv_def)
  let ?e = "e\<lparr>ce_reference_count := ce_reference_count e + 1\<rparr>"
  have "cache_inv cfg (c\<lparr>entries := (entries c)(i \<mapsto> ?e), owned_bytes := owned_bytes c\<rparr>)" if "ce_reference_count e \<noteq> SIZE_MAX"
    using ok that by (intro cache_inv_upd [OF assms]) (simp_all add: entry_ok_def entry_bytes_def payload_bytes_def cong: option.case_cong)
  then show ?thesis
    using assms by (auto simp: resolver_cache_entry_retain_def)
qed

definition terminated :: "bytes option \<Rightarrow> bool" where
  "terminated name \<longleftrightarrow> (case name of None \<Rightarrow> True | Some s \<Rightarrow> 0 \<in> set s)"

lemma name_normalize_terminated:
  assumes "terminated name"
  shows "\<exists>res. resolver_name_normalize name = Some res \<and> (\<forall>m. res = Some m \<longrightarrow> normalized m)"
proof (cases name)
  case None
  then show ?thesis by (simp add: resolver_name_normalize_def)
next
  case (Some s)
  then obtain t r where "s = t @ 0 # r" "0 \<notin> set t"
    using assms by (auto simp: terminated_def dest: split_list_first)
  then show ?thesis
    using Some resolver_name_normalize_text [of t r] normalize_text_normalized [of t] by auto
qed

lemma acquire_inv:
  assumes inv: "cache_inv cfg c" and name: "terminated query_name"
  shows "\<exists>c' st r. resolver_cache_entry_acquire cfg alloc_ok c query_name query_type = Some (c', st, r) \<and> cache_inv cfg c'"
proof -
  have table: "table_inv cfg c" and count: "entry_count c \<le> RESOLVER_CACHE_ENTRY_LIMIT cfg"
    using inv by (simp_all add: cache_inv_def account_inv_def)
  obtain res where res: "resolver_name_normalize query_name = Some res" "\<And>m. res = Some m \<Longrightarrow> normalized m"
    using name_normalize_terminated [OF name] by blast
  show ?thesis
  proof (cases "resolver_cache_query_type_valid query_type \<and> res \<noteq> None")
    case False
    then show ?thesis
      using res(1) inv by (auto simp: resolver_cache_entry_acquire_def Let_def)
  next
    case True
    then obtain m where m: "res = Some m" "normalized m" and valid: "resolver_cache_query_type_valid query_type"
      using res(2) by auto
    show ?thesis
    proof (cases "cache_lookup c m query_type")
      case None
      then show ?thesis
        using entry_create_inv [OF inv m(2) valid None] inv count res(1) m(1) valid
        by (auto simp: resolver_cache_entry_acquire_def Let_def entry_find_lookup [OF table])
    next
      case (Some i)
      then obtain e c' r where "resolver_cache_entry_retain c i = Some (c', r)" "cache_inv cfg c'"
        using retain_inv [OF inv, of i] by (auto simp: cache_lookup_Some [OF table])
      then show ?thesis
        using res(1) m(1) valid Some by (auto simp: resolver_cache_entry_acquire_def Let_def entry_find_lookup [OF table])
    qed
  qed
qed

text \<open>Unlinking an entry.\<close>

lemma remove_inv:
  assumes inv: "cache_inv cfg c" and e: "entries c i = Some e"
  shows "cache_inv cfg (c\<lparr>buckets := (buckets c)(bucket_index c (ce_hash e) := remove1 i (buckets c (bucket_index c (ce_hash e)))),
     owned_bytes := owned_bytes c - entry_bytes cfg e, entry_count := entry_count c - 1, entries := (entries c)(i := None)\<rparr>)"
    (is "cache_inv cfg ?c")
proof -
  define c' where "c' = ?c"
  have table: "table_inv cfg c" and account: "account_inv cfg c"
    using inv by (simp_all add: cache_inv_def)
  have c': "bucket_index c' = bucket_index c" "bucket_count c' = bucket_count c" "next_entry_id c' = next_entry_id c"
      "buckets c' = (buckets c)(bucket_index c (ce_hash e) := remove1 i (buckets c (bucket_index c (ce_hash e))))"
      "entries c' = (entries c)(i := None)" "owned_bytes c' = owned_bytes c - entry_bytes cfg e" "entry_count c' = entry_count c - 1"
      "cache_metrics c' = cache_metrics c"
    by (simp_all add: c'_def bucket_index_def fun_eq_iff)
  have "table_inv cfg c'"
  proof (rule table_invI)
    show "distinct (buckets c' b)" for b
      using table_inv_parts(3) [OF table] by (simp add: c')
    show "j \<in> set (buckets c' b) \<longleftrightarrow> (\<exists>f. entries c' j = Some f \<and> bucket_index c' (ce_hash f) = b)" for b j
      using e by (auto simp: table_inv_parts(3,4) [OF table] c')
    show "entry_ok cfg (next_entry_id c') j f" if "entries c' j = Some f" for j f
      using that live_entry(10) [OF table, of j f] by (simp add: c' split: if_splits)
    show "j = k" if "entries c' j = Some f" "entries c' k = Some g" "ce_name f = ce_name g" "ce_query_type f = ce_query_type g" for j k f g
      using that unique_key [OF table, of j f k g] by (simp add: c' split: if_splits)
  qed (use table in \<open>simp_all add: table_inv_parts c'\<close>)
  moreover have "account_inv cfg c'"
    using account e heap_sum_del [of "entries c" i e "entry_bytes cfg"]
    by (simp add: account_inv_def c' domI) linarith
  ultimately show ?thesis
    using inv c'(8) unfolding c'_def [symmetric] by (simp add: cache_inv_def histograms_inv_def)
qed

lemma release_inv:
  assumes inv: "cache_inv cfg c" and e: "entries c i = Some e"
  shows "\<exists>c'. resolver_cache_entry_release cfg c i = Some c' \<and> cache_inv cfg c'"
proof (cases "ce_reference_count e = 1")
  case False
  have ok: "entry_ok cfg (next_entry_id c) i e" "owned_bytes c \<le> RESOLVER_CACHE_OWNED_BYTE_LIMIT cfg"
    using assms live_entry(10) [of cfg c i e] by (auto simp: cache_inv_def account_inv_def)
  let ?e = "e\<lparr>ce_reference_count := ce_reference_count e - 1\<rparr>"
  have "cache_inv cfg (c\<lparr>entries := (entries c)(i \<mapsto> ?e), owned_bytes := owned_bytes c\<rparr>)"
    using ok False by (intro cache_inv_upd [OF assms]) (auto simp: entry_ok_def entry_bytes_def payload_bytes_def cong: option.case_cong)
  then show ?thesis
    using assms False by (auto simp: resolver_cache_entry_release_def)
next
  case True
  have "bucket_count c \<noteq> 0" "entry_bytes cfg e \<le> owned_bytes c"
    using inv owned_bytes_ge [OF _ e, of cfg] by (auto simp: cache_inv_def table_inv_def)
  moreover have "finite (dom (entries c))" "card (dom (entries c)) = entry_count c"
    using inv by (simp_all add: cache_inv_def account_inv_def)
  then have "0 < entry_count c"
    using domI [of "entries c" i e] e card_gt_0_iff by (metis empty_iff)
  moreover have "resolver_cache_entry_payload_clear (c\<lparr>buckets := bs\<rparr>) i =
      Some (c\<lparr>buckets := bs, entries := (entries c)(i \<mapsto> e\<lparr>ce_payload := None\<rparr>), owned_bytes := owned_bytes c - payload_bytes e\<rparr>)" for bs
    using payload_clear_exact [of "c\<lparr>buckets := bs\<rparr>" i e] payload_bytes_le [OF inv e] e by simp
  moreover have "owned_bytes c - (payload_bytes e + sizeof_entry cfg) = owned_bytes c - entry_bytes cfg e"
      "sizeof_entry cfg \<le> owned_bytes c - payload_bytes e"
    using \<open>entry_bytes cfg e \<le> owned_bytes c\<close> by (simp_all add: entry_bytes_def add.commute)
  ultimately show ?thesis
    using remove_inv [OF inv e] e True by (simp add: resolver_cache_entry_release_def Let_def)
qed

section \<open>Publication and views\<close>

lemma expiry_calculate_later:
  assumes "resolver_cache_expiry_calculate t ttl = Some x" "0 < ttl"
  shows "timeutil_valid (Some t)" "timeutil_valid (Some x)" "timeutil_compare t x < 0"
    "nanoseconds x = nanoseconds t + int ttl * 1000000000"
proof -
  have t: "timeutil_valid (Some t)" and x: "x = t\<lparr>tv_sec := to_time_t (of_time_t (tv_sec t) + ttl)\<rparr>"
      "0 \<le> to_time_t (of_time_t (tv_sec t) + ttl)" "of_time_t (to_time_t (of_time_t (tv_sec t) + ttl)) = of_time_t (tv_sec t) + ttl"
    using assms(1) by (auto simp: resolver_cache_expiry_calculate_def Let_def split: if_splits)
  then have s: "0 \<le> tv_sec t" "of_time_t (tv_sec t) = nat (tv_sec t)"
    by (auto simp: timeutil_valid_def of_time_t_def)
  then have "tv_sec x = tv_sec t + int ttl"
    using x by (auto simp: to_time_t_def of_time_t_def split: if_splits)
  then show "timeutil_valid (Some t)" "timeutil_valid (Some x)" "timeutil_compare t x < 0"
      "nanoseconds x = nanoseconds t + int ttl * 1000000000"
    using t x(1) assms(2) by (auto simp: timeutil_valid_def timeutil_compare_def nanoseconds_def)
qed

definition result_kind :: "u16 \<Rightarrow> resolver_cache_result \<Rightarrow> bool" where
  "result_kind query_type res \<longleftrightarrow>
     (case res of Payload_address _ \<Rightarrow> query_type \<noteq> ns_t_srv | Payload_srv _ \<Rightarrow> query_type = ns_t_srv)"

text \<open>What a publication with the given outcome does to the entries: only the entry itself may change.\<close>

definition published ::
  "resolver_cache \<Rightarrow> resolver_cache \<Rightarrow> nat \<Rightarrow> resolver_cache_publish_status \<Rightarrow> resolver_cache_entry \<Rightarrow> timespec \<Rightarrow> nat \<Rightarrow>
     resolver_cache_view_status \<Rightarrow> resolver_cache_result \<Rightarrow> bool" where
  "published c c' i status e completed_at ttl st res \<longleftrightarrow>
     (case status of
        RESOLVER_CACHE_PUBLISH_STORED \<Rightarrow>
          (\<exists>p. entries c' = (entries c)(i \<mapsto> e\<lparr>ce_payload := Some p\<rparr>) \<and> pl_completed_at p = completed_at \<and> pl_result p = res
             \<and> pl_status p = st \<and> nanoseconds (pl_expires_at p) = nanoseconds completed_at + int ttl * 1000000000 \<and> 0 < ttl)
      | RESOLVER_CACHE_PUBLISH_TRANSIENT \<Rightarrow> entries c' = (entries c)(i \<mapsto> e\<lparr>ce_payload := None\<rparr>) \<and> ttl = 0
      | _ \<Rightarrow> entries c' = entries c)"

lemma store_inv:
  assumes inv: "cache_inv cfg c" and e: "entries c i = Some e" and p: "payload_ok cfg (ce_query_type e) p"
    and room: "owned_bytes c - payload_bytes e + pl_owned_bytes p \<le> RESOLVER_CACHE_OWNED_BYTE_LIMIT cfg"
  shows "cache_inv cfg (c\<lparr>entries := (entries c)(i \<mapsto> e\<lparr>ce_payload := Some p\<rparr>),
           owned_bytes := owned_bytes c - payload_bytes e + pl_owned_bytes p\<rparr>)"
proof (rule cache_inv_upd [OF inv e])
  show "entry_ok cfg (next_entry_id c) i (e\<lparr>ce_payload := Some p\<rparr>)"
    using live_entry(10) [OF _ e, of cfg] inv p by (simp add: cache_inv_def entry_ok_def)
  show "owned_bytes c - payload_bytes e + pl_owned_bytes p + entry_bytes cfg e = owned_bytes c + entry_bytes cfg (e\<lparr>ce_payload := Some p\<rparr>)"
    using payload_bytes_le [OF inv e] by (simp add: entry_bytes_def payload_bytes_def)
qed (use room in simp_all)

lemma cache_inv_high_water [simp]:
  "cache_inv cfg (c\<lparr>cache_metrics := (cache_metrics d)\<lparr>owned_bytes_high_water := n\<rparr>\<rparr>) = cache_inv cfg (c\<lparr>cache_metrics := cache_metrics d\<rparr>)"
  by (simp add: cache_inv_def histograms_inv_def)

lemma payload_publish_stored:
  assumes inv: "cache_inv cfg c" and e: "entries c i = Some e" and kind: "result_kind (ce_query_type e) res" "st \<noteq> RESOLVER_CACHE_VIEW_EMPTY"
    and expiry: "resolver_cache_expiry_calculate completed_at ttl = Some x" "0 < ttl"
    and size: "result_size \<le> RESOLVER_CACHE_RESULT_BYTE_LIMIT cfg" "result_size \<le> RESOLVER_CACHE_OWNED_BYTE_LIMIT cfg"
      "owned_bytes c - payload_bytes e \<le> RESOLVER_CACHE_OWNED_BYTE_LIMIT cfg - result_size"
  shows "\<exists>c'. resolver_cache_entry_payload_publish cfg True c i st completed_at ttl result_size res = Some (c', RESOLVER_CACHE_PUBLISH_STORED)
    \<and> cache_inv cfg c' \<and> published c c' i RESOLVER_CACHE_PUBLISH_STORED e completed_at ttl st res"
proof -
  define p where "p = \<lparr>pl_completed_at = completed_at, pl_expires_at = x, pl_owned_bytes = result_size, pl_result = res, pl_status = st\<rparr>"
  note x = expiry_calculate_later [OF expiry]
  have p: "payload_ok cfg (ce_query_type e) p"
    using x kind size by (simp add: payload_ok_def p_def result_kind_def)
  define c1 where "c1 = c\<lparr>entries := (entries c)(i \<mapsto> e\<lparr>ce_payload := Some p\<rparr>),
      owned_bytes := owned_bytes c - payload_bytes e + pl_owned_bytes p\<rparr>"
  have c1: "cache_inv cfg c1"
    unfolding c1_def using size by (intro store_inv [OF inv e p]) (simp add: p_def)
  define c2 where "c2 = c1\<lparr>cache_metrics := (cache_metrics c1)\<lparr>owned_bytes_high_water :=
      metrics_high_water_update (owned_bytes_high_water (cache_metrics c)) (owned_bytes c - payload_bytes e + result_size)\<rparr>\<rparr>"
  have "size_minus (owned_bytes c) (payload_bytes e) = owned_bytes c - payload_bytes e"
    using payload_bytes_le [OF inv e] by (simp add: size_minus_def)
  then have "resolver_cache_entry_payload_publish cfg True c i st completed_at ttl result_size res = Some (c2, RESOLVER_CACHE_PUBLISH_STORED)"
    using e x size expiry payload_clear_eq [OF e inv e]
    by (simp add: resolver_cache_entry_payload_publish_def Let_def c2_def c1_def p_def flip: payload_bytes_def)
  moreover have "cache_inv cfg c2"
    using c1 by (simp add: c2_def)
  moreover have "published c c2 i RESOLVER_CACHE_PUBLISH_STORED e completed_at ttl st res"
    using x expiry by (auto simp: published_def c2_def c1_def p_def)
  ultimately show ?thesis by blast
qed

lemma payload_publish_inv:
  assumes inv: "cache_inv cfg c" and e: "entries c i = Some e" and kind: "result_kind (ce_query_type e) res" "st \<noteq> RESOLVER_CACHE_VIEW_EMPTY"
  shows "\<exists>c' status. resolver_cache_entry_payload_publish cfg alloc_ok c i st completed_at ttl result_size res = Some (c', status)
    \<and> cache_inv cfg c' \<and> published c c' i status e completed_at ttl st res"
proof -
  let ?pub = "resolver_cache_entry_payload_publish cfg alloc_ok c i st completed_at ttl result_size res"
  consider (early) "\<not> timeutil_valid (Some completed_at) \<or> result_size > RESOLVER_CACHE_RESULT_BYTE_LIMIT cfg"
    | (transient) "timeutil_valid (Some completed_at)" "result_size \<le> RESOLVER_CACHE_RESULT_BYTE_LIMIT cfg" "ttl = 0"
    | (late) "timeutil_valid (Some completed_at)" "result_size \<le> RESOLVER_CACHE_RESULT_BYTE_LIMIT cfg" "0 < ttl"
        "resolver_cache_expiry_calculate completed_at ttl = None \<or> result_size > RESOLVER_CACHE_OWNED_BYTE_LIMIT cfg
          \<or> size_minus (owned_bytes c) (payload_bytes e) > RESOLVER_CACHE_OWNED_BYTE_LIMIT cfg - result_size \<or> \<not> alloc_ok"
    | (stored) x where "resolver_cache_expiry_calculate completed_at ttl = Some x" "0 < ttl" "result_size \<le> RESOLVER_CACHE_RESULT_BYTE_LIMIT cfg"
        "result_size \<le> RESOLVER_CACHE_OWNED_BYTE_LIMIT cfg"
        "size_minus (owned_bytes c) (payload_bytes e) \<le> RESOLVER_CACHE_OWNED_BYTE_LIMIT cfg - result_size" "alloc_ok"
    by force
  then show ?thesis
  proof cases
    case early
    then show ?thesis
      using e inv by (auto simp: resolver_cache_entry_payload_publish_def Let_def published_def)
  next
    case transient
    then show ?thesis
      using e payload_clear_eq [OF e inv e] payload_clear_inv [OF inv e]
      by (simp add: resolver_cache_entry_payload_publish_def Let_def published_def)
  next
    case late
    then show ?thesis
      using e inv by (cases "resolver_cache_expiry_calculate completed_at ttl")
        (auto simp: resolver_cache_entry_payload_publish_def Let_def published_def simp flip: payload_bytes_def)
  next
    case stored
    then show ?thesis
      using payload_publish_stored [OF inv e kind stored(1,2,3,4)] payload_bytes_le [OF inv e] by (auto simp: size_minus_def)
  qed
qed

lemma validated_status:
  "resolver_cache_address_result_validate e ls r = Some (ttl, st) \<Longrightarrow> st \<noteq> RESOLVER_CACHE_VIEW_EMPTY \<and> ce_query_type e \<noteq> ns_t_srv"
  "resolver_cache_srv_result_validate e ls' r' = Some (ttl, st) \<Longrightarrow> st \<noteq> RESOLVER_CACHE_VIEW_EMPTY \<and> ce_query_type e = ns_t_srv"
  by (auto simp: resolver_cache_address_result_validate_def resolver_cache_srv_result_validate_def Let_def
      split: if_splits)

text \<open>The outcome of a publication: either the result was refused, or it was published.\<close>

definition publication ::
  "resolver_cache \<Rightarrow> resolver_cache \<Rightarrow> nat \<Rightarrow> resolver_cache_publish_status \<Rightarrow> resolver_cache_entry \<Rightarrow> timespec option \<Rightarrow>
     (nat \<times> resolver_cache_view_status) option \<Rightarrow> resolver_cache_result \<Rightarrow> bool" where
  "publication c c' i status e completed_at validated res \<longleftrightarrow>
     (if status = RESOLVER_CACHE_PUBLISH_STORED \<or> status = RESOLVER_CACHE_PUBLISH_TRANSIENT
      then (\<exists>t ttl st. completed_at = Some t \<and> validated = Some (ttl, st) \<and> published c c' i status e t ttl st res)
      else entries c' = entries c)"

lemma publish_inv:
  assumes inv: "cache_inv cfg c" and e: "entries c i = Some e"
    and kind: "\<And>ttl st. validated e = Some (ttl, st) \<Longrightarrow> result_kind (ce_query_type e) res \<and> st \<noteq> RESOLVER_CACHE_VIEW_EMPTY"
  shows "\<exists>c' status. resolver_cache_entry_publish cfg alloc_ok c i completed_at args validated sized res = Some (c', status)
    \<and> cache_inv cfg c' \<and> publication c c' i status e completed_at (validated e) res"
proof (cases "\<not> args \<or> completed_at = None \<or> validated e = None")
  case True
  then show ?thesis
    using e inv by (cases "args \<and> completed_at \<noteq> None") (simp_all add: resolver_cache_entry_publish_def Let_def publication_def)
next
  case False
  then obtain t ttl st where t: "args" "completed_at = Some t" and v: "validated e = Some (ttl, st)"
    by auto
  obtain d where d: "resolver_cache_metrics_value_record c (resolver_cache_metrics_query_type (ce_query_type e)) st ttl = Some d"
      "cache_inv cfg d" "entries d = entries c"
    using value_record_inv [OF inv] by metis
  show ?thesis
  proof (cases sized)
    case None
    then show ?thesis
      using e d t v by (simp add: resolver_cache_entry_publish_def Let_def publication_def)
  next
    case (Some n)
    obtain c' status where "resolver_cache_entry_payload_publish cfg alloc_ok d i st t ttl n res = Some (c', status)"
        "cache_inv cfg c'" "published d c' i status e t ttl st res"
      using payload_publish_inv [OF d(2), of i e res st] kind [OF v] e d(3) by metis
    then show ?thesis
      using e d t v Some
      by (cases status) (simp_all add: resolver_cache_entry_publish_def Let_def publication_def published_def)
  qed
qed

lemma publish_address_inv:
  assumes inv: "cache_inv cfg c" and e: "entries c i = Some e"
  shows "\<exists>c' status res'. resolver_cache_entry_publish_address cfg alloc_ok c i lookup_status completed_at (Some r) = Some (c', status, res')
    \<and> cache_inv cfg c' \<and> publication c c' i status e completed_at (resolver_cache_address_result_validate e lookup_status r) (Payload_address r)"
  using publish_inv [OF inv e, of "\<lambda>e. resolver_cache_address_result_validate e lookup_status r" "Payload_address r"
      alloc_ok completed_at True "resolver_cache_address_result_size cfg r"] validated_status(1) [of e lookup_status r]
  by (auto simp: resolver_cache_entry_publish_address_def result_kind_def)

lemma publish_srv_inv:
  assumes inv: "cache_inv cfg c" and e: "entries c i = Some e"
  shows "\<exists>c' status res'. resolver_cache_entry_publish_srv cfg alloc_ok c i lookup_status completed_at (Some r) = Some (c', status, res')
    \<and> cache_inv cfg c' \<and> publication c c' i status e completed_at (resolver_cache_srv_result_validate e lookup_status r) (Payload_srv r)"
  using publish_inv [OF inv e, of "\<lambda>e. resolver_cache_srv_result_validate e lookup_status r" "Payload_srv r"
      alloc_ok completed_at True "resolver_cache_srv_result_size cfg r"] validated_status(2) [of e lookup_status r]
  by (auto simp: resolver_cache_entry_publish_srv_def result_kind_def)

text \<open>A result that is missing is refused.\<close>

lemma publish_none_inv:
  assumes "cache_inv cfg c" "entries c i = Some e"
  shows "\<exists>c'. resolver_cache_entry_publish_address cfg alloc_ok c i ls completed_at None = Some (c', RESOLVER_CACHE_PUBLISH_BAD_ARGUMENT, None)
      \<and> cache_inv cfg c' \<and> entries c' = entries c"
    "\<exists>c'. resolver_cache_entry_publish_srv cfg alloc_ok c i ls' completed_at None = Some (c', RESOLVER_CACHE_PUBLISH_BAD_ARGUMENT, None)
      \<and> cache_inv cfg c' \<and> entries c' = entries c"
  using assms by (auto simp: resolver_cache_entry_publish_address_def resolver_cache_entry_publish_srv_def
      resolver_cache_entry_publish_def Let_def)

text \<open>What a payload shows at a given time.\<close>

definition view_at :: "resolver_cache_payload option \<Rightarrow> timespec \<Rightarrow> resolver_cache_view" where
  "view_at payload now =
     (case payload of
        Some p \<Rightarrow> if nanoseconds now < nanoseconds (pl_expires_at p) then payload_view p else resolver_cache_view_zero
      | None \<Rightarrow> resolver_cache_view_zero)"

definition expired :: "resolver_cache_entry \<Rightarrow> timespec \<Rightarrow> bool" where
  "expired e now \<longleftrightarrow> (case ce_payload e of Some p \<Rightarrow> nanoseconds (pl_expires_at p) \<le> nanoseconds now | None \<Rightarrow> False)"

lemma view_spec:
  assumes inv: "cache_inv cfg c" and e: "entries c i = Some e" and now: "timeutil_valid (Some now)"
  shows "\<exists>c'. resolver_cache_entry_view c i (Some now) = Some (c', True, view_at (ce_payload e) now) \<and> cache_inv cfg c'
    \<and> entries c' = (if expired e now then (entries c)(i \<mapsto> e\<lparr>ce_payload := None\<rparr>) else entries c)"
proof (cases "ce_payload e")
  case None
  then show ?thesis
    using inv e now by (simp add: resolver_cache_entry_view_def view_at_def expired_def)
next
  case (Some p)
  have "timeutil_valid (Some (pl_expires_at p))"
    using inv e Some live_entry(10) [of cfg c i e] by (simp add: cache_inv_def entry_ok_def payload_ok_def)
  then have cmp: "timeutil_compare now (pl_expires_at p) \<ge> 0 \<longleftrightarrow> nanoseconds (pl_expires_at p) \<le> nanoseconds now"
    using now by (simp add: timeutil_compare_nanoseconds sgn_if)
  show ?thesis
  proof (cases "nanoseconds (pl_expires_at p) \<le> nanoseconds now")
    case False
    then show ?thesis
      using inv e now Some cmp by (simp add: resolver_cache_entry_view_def view_at_def expired_def)
  next
    case True
    define d where "d = resolver_cache_metrics_increment c (resolver_cache_metrics_query_type (ce_query_type e))
      (expiry_counter (resolver_cache_metrics_payload_kind (pl_status p)))"
    have d: "cache_inv cfg d" "entries d i = Some e" "entries d = entries c"
      using inv e by (simp_all add: d_def)
    then show ?thesis
      using True e now Some cmp payload_clear_eq [OF d(2,1,2)] payload_clear_inv [OF d(1,2)]
      by (simp add: resolver_cache_entry_view_def view_at_def expired_def flip: d_def)
  qed
qed

lemma view_bad_time: "\<not> timeutil_valid now \<Longrightarrow> entries c i = Some e \<Longrightarrow> resolver_cache_entry_view c i now = Some (c, False, resolver_cache_view_zero)"
  by (simp add: resolver_cache_entry_view_def)

section \<open>The cache as a state machine\<close>

text \<open>The operations, on live entries and terminated names, with any outcome of the allocations.\<close>

inductive cache_step :: "cache_config \<Rightarrow> resolver_cache \<Rightarrow> resolver_cache \<Rightarrow> bool" for cfg where
  step_acquire: "terminated query_name \<Longrightarrow> resolver_cache_entry_acquire cfg alloc_ok c query_name query_type = Some (c', st, r) \<Longrightarrow> cache_step cfg c c'"
| step_retain: "resolver_cache_entry_retain c i = Some (c', ok) \<Longrightarrow> cache_step cfg c c'"
| step_release: "resolver_cache_entry_release cfg c i = Some c' \<Longrightarrow> cache_step cfg c c'"
| step_publish_address: "resolver_cache_entry_publish_address cfg alloc_ok c i ls completed_at res = Some (c', status, res') \<Longrightarrow> cache_step cfg c c'"
| step_publish_srv: "resolver_cache_entry_publish_srv cfg alloc_ok c i ls' completed_at res2 = Some (c', status, res2') \<Longrightarrow> cache_step cfg c c'"
| step_view: "resolver_cache_entry_view c i now = Some (c', ok, v) \<Longrightarrow> cache_step cfg c c'"

lemma live_required:
  "resolver_cache_entry_retain c i = Some y1 \<Longrightarrow> \<exists>e. entries c i = Some e"
  "resolver_cache_entry_release cfg c i = Some y2 \<Longrightarrow> \<exists>e. entries c i = Some e"
  "resolver_cache_entry_publish_address cfg a c i ls t res = Some y3 \<Longrightarrow> \<exists>e. entries c i = Some e"
  "resolver_cache_entry_publish_srv cfg a c i ls' t res' = Some y4 \<Longrightarrow> \<exists>e. entries c i = Some e"
  "resolver_cache_entry_view c i now = Some y5 \<Longrightarrow> \<exists>e. entries c i = Some e"
  by (auto simp: resolver_cache_entry_retain_def resolver_cache_entry_release_def resolver_cache_entry_publish_address_def
      resolver_cache_entry_publish_srv_def resolver_cache_entry_publish_def resolver_cache_entry_view_def bind_eq_Some_conv Let_def)

lemma cache_step_inv:
  assumes "cache_step cfg c c'" "cache_inv cfg c"
  shows "cache_inv cfg c'"
  using assms
proof cases
  case (step_acquire query_name alloc_ok query_type st r)
  then show ?thesis using acquire_inv [OF assms(2) step_acquire(1), of alloc_ok query_type] by auto
next
  case (step_retain i ok)
  then show ?thesis using retain_inv [OF assms(2), of i] live_required(1) by fastforce
next
  case (step_release i)
  then show ?thesis using release_inv [OF assms(2), of i] live_required(2) by fastforce
next
  case (step_publish_address alloc_ok i ls completed_at res status res')
  obtain e where "entries c i = Some e" using step_publish_address live_required(3) by blast
  then show ?thesis
    using step_publish_address publish_address_inv [OF assms(2), of i e alloc_ok ls completed_at "the res"] publish_none_inv(1) [OF assms(2), of i e alloc_ok ls completed_at]
    by (cases res) auto
next
  case (step_publish_srv alloc_ok i ls' completed_at res2 status res2')
  obtain e where "entries c i = Some e" using step_publish_srv live_required(4) by blast
  then show ?thesis
    using step_publish_srv publish_srv_inv [OF assms(2), of i e alloc_ok ls' completed_at "the res2"] publish_none_inv(2) [OF assms(2), of i e alloc_ok ls' completed_at]
    by (cases res2) auto
next
  case (step_view i now ok v)
  obtain e where "entries c i = Some e" using step_view live_required(5) by blast
  then show ?thesis
    using step_view assms(2) view_spec [OF assms(2), of i e "the now"] view_bad_time [of now c i e]
    by (cases "timeutil_valid now"; cases now) (auto simp: timeutil_valid_def)
qed

interpretation cache_machine: invariant_system "\<lambda>c. \<exists>alloc. resolver_cache_create cfg alloc = Some c" "cache_step cfg" "cache_inv cfg" for cfg
  by unfold_locales (auto intro: create_inv cache_step_inv)

section \<open>The cache as a map\<close>

definition cache_map :: "resolver_cache \<Rightarrow> bytes \<times> u16 \<rightharpoonup> nat" where
  "cache_map c = (\<lambda>(name, query_type). cache_lookup c name query_type)"

lemma cache_map_Some:
  assumes "table_inv cfg c"
  shows "cache_map c k = Some i \<longleftrightarrow> (\<exists>e. entries c i = Some e \<and> (ce_name e, ce_query_type e) = k)"
  by (cases k) (simp add: cache_map_def cache_lookup_Some [OF assms])

lemma cache_map_upd:
  assumes inv: "table_inv cfg c" "table_inv cfg c'" and c': "entries c' = (entries c)(i \<mapsto> e)"
    and key: "k = (ce_name e, ce_query_type e)" "\<And>e0. entries c i = Some e0 \<Longrightarrow> (ce_name e0, ce_query_type e0) = k"
  shows "cache_map c' = (cache_map c)(k \<mapsto> i)"
proof
  fix x
  have "cache_map c' x = Some j \<longleftrightarrow> ((cache_map c)(k \<mapsto> i)) x = Some j" for j
  proof (cases "x = k")
    case True
    have "cache_map c' k = Some i"
      using key(1) by (auto simp: cache_map_Some [OF inv(2)] c')
    then show ?thesis using True by simp
  next
    case False
    then show ?thesis
      using key by (auto simp: cache_map_Some [OF inv(1)] cache_map_Some [OF inv(2)] c')
  qed
  then show "cache_map c' x = ((cache_map c)(k \<mapsto> i)) x"
    by (metis not_Some_eq)
qed

text \<open>The outcome of an acquisition, by what the lookup finds.\<close>

lemma acquire_found:
  assumes inv: "cache_inv cfg c" and name: "resolver_name_normalize query_name = Some (Some name)" "resolver_cache_query_type_valid query_type"
    and found: "cache_lookup c name query_type = Some i" "entries c i = Some e"
  shows "resolver_cache_entry_acquire cfg alloc_ok c query_name query_type =
    (let q = resolver_cache_metrics_query_type query_type in
     Some (if ce_reference_count e = SIZE_MAX
       then (resolver_cache_metrics_increment c q acquire_reference_limit, RESOLVER_CACHE_ACQUIRE_LIMIT, None)
       else (resolver_cache_metrics_increment (c\<lparr>entries := (entries c)(i \<mapsto> e\<lparr>ce_reference_count := ce_reference_count e + 1\<rparr>)\<rparr>) q acquire_reused,
         RESOLVER_CACHE_ACQUIRE_OK, Some i)))"
  using assms entry_find_lookup [of cfg c name query_type]
  by (simp add: resolver_cache_entry_acquire_def resolver_cache_entry_retain_def Let_def cache_inv_def)

lemma acquire_new:
  assumes inv: "cache_inv cfg c" and name: "resolver_name_normalize query_name = Some (Some name)" "resolver_cache_query_type_valid query_type"
    and new: "cache_lookup c name query_type = None"
    and res: "resolver_cache_entry_acquire cfg alloc_ok c query_name query_type = Some (c', st, r)"
  shows "if st = RESOLVER_CACHE_ACQUIRE_OK
    then r = Some (next_entry_id c) \<and> next_entry_id c \<noteq> 0
      \<and> c' = resolver_cache_metrics_increment (resolver_cache_entry_create cfg c name query_type (resolver_cache_hash name query_type))
               (resolver_cache_metrics_query_type query_type) acquire_created
    else r = None \<and> entries c' = entries c"
  using assms entry_find_lookup [of cfg c name query_type]
  by (auto simp: resolver_cache_entry_acquire_def Let_def cache_inv_def split: if_splits)

lemma acquire_refused:
  assumes "\<not> resolver_cache_query_type_valid query_type \<or> resolver_name_normalize query_name = Some None"
  shows "resolver_cache_entry_acquire cfg alloc_ok c query_name query_type =
    Some (resolver_cache_metrics_increment c (resolver_cache_metrics_query_type query_type) acquire_bad_argument,
      RESOLVER_CACHE_ACQUIRE_BAD_ARGUMENT, None)"
  using assms by (auto simp: resolver_cache_entry_acquire_def Let_def)

lemma next_id_free: "table_inv cfg c \<Longrightarrow> next_entry_id c \<noteq> 0 \<Longrightarrow> entries c (next_entry_id c) = None"
  using live_entry(3) [of cfg c "next_entry_id c"] by (cases "entries c (next_entry_id c)") auto

section \<open>Destruction\<close>

lemma bucket_index_less: "table_inv cfg c \<Longrightarrow> bucket_index c h < bucket_count c"
  by (simp add: table_inv_def bucket_index_def)

lemma chains_disjoint: "table_inv cfg c \<Longrightarrow> i \<in> set (buckets c a) \<Longrightarrow> i \<in> set (buckets c b) \<Longrightarrow> a = b"
  by (auto simp: table_inv_parts)

lemma chains_distinct: "table_inv cfg c \<Longrightarrow> distinct (concat (map (buckets c) [0..<n]))"
  by (induction n) (fastforce simp: table_inv_parts(3) dest: chains_disjoint [of cfg c])+

lemma chains_live: "table_inv cfg c \<Longrightarrow> set (concat (map (buckets c) [0..<bucket_count c])) = dom (entries c)"
  by (auto simp: table_inv_parts(4) bucket_index_less)

section \<open>Properties\<close>

text \<open>The sizes used by the examples.\<close>

definition sample_config :: cache_config where
  "sample_config =
     \<lparr>RESOLVER_CACHE_ENTRY_LIMIT = 8, RESOLVER_CACHE_OWNED_BYTE_LIMIT = 65536, RESOLVER_CACHE_RESULT_BYTE_LIMIT = 16384,
      sizeof_cache = 4096, sizeof_pointer = 8, sizeof_entry = 1096, sizeof_payload = 2200, sizeof_address_record = 32,
      sizeof_cname_record = 2056, sizeof_srv_record = 1040\<rparr>"

text \<open>A cache with one entry, of the given query type.\<close>

definition sample_cache_for :: "u16 \<Rightarrow> resolver_cache" where
  "sample_cache_for query_type =
     resolver_cache_entry_create sample_config (the (resolver_cache_create sample_config (\<lambda>_. True)))
       [0x6D, 0x63] query_type (resolver_cache_hash [0x6D, 0x63] query_type)"

abbreviation sample_cache :: resolver_cache where
  "sample_cache \<equiv> sample_cache_for ns_t_a"

lemma sample_create: "\<exists>c. resolver_cache_create sample_config (\<lambda>_. True) = Some c \<and> entry_count c = 0 \<and> entries c = Map.empty
    \<and> next_entry_id c = 1 \<and> owned_bytes c = 4160 \<and> cache_lookup c n t = None"
  by (simp add: resolver_cache_create_def sample_config_def resolver_size_multiply_def cache_lookup_def)

lemma sample_cache_for_inv: "resolver_cache_query_type_valid query_type \<Longrightarrow> cache_inv sample_config (sample_cache_for query_type)"
proof -
  assume q: "resolver_cache_query_type_valid query_type"
  obtain c where c: "resolver_cache_create sample_config (\<lambda>_. True) = Some c" "entry_count c = 0"
    "next_entry_id c = 1" "owned_bytes c = 4160" "cache_lookup c [0x6D, 0x63] query_type = None"
    using sample_create by blast
  have "normalized [0x6D, 0x63]"
    by (simp add: normalized_def lower_char_def)
  then show ?thesis
    unfolding sample_cache_for_def c(1) option.sel using create_inv [OF c(1)] c(2-) q
    by (intro entry_create_inv) (simp_all add: sample_config_def)
qed

lemma sample_cache_inv: "cache_inv sample_config sample_cache"
  by (rule sample_cache_for_inv) (simp add: resolver_cache_query_type_valid_def)

lemma sample_cache_entry:
  "entries (sample_cache_for query_type) 1 = Some \<lparr>ce_hash = resolver_cache_hash [0x6D, 0x63] query_type, ce_id = 1, ce_name = [0x6D, 0x63], ce_payload = None,
     ce_query_type = query_type, ce_reference_count = 1\<rparr>"
  using sample_create [of "[]" 0] by (auto simp: sample_cache_for_def resolver_cache_entry_create_def Let_def)

text \<open>
  C2: the cache keeps its invariant. Whatever sequence of acquisitions, retentions, releases, publications and views
  follows the creation, with any outcome of the allocations: every chain holds exactly the live entries of its
  bucket, no two entries have the same name and type, every live entry has a positive reference count,
  a canonical name and a payload that expires after it was completed; the entry count is the number of live
  entries, the owned bytes are the sum of what is allocated, and both stay within their limits.
\<close>

theorem cache_invariant:
  assumes "resolver_cache_create cfg alloc = Some c0" "(cache_step cfg)\<^sup>*\<^sup>* c0 c"
  shows "cache_inv cfg c"
  using cache_machine.inv_reachable assms by blast

theorem cache_invariant_witness: "\<exists>c0 c. resolver_cache_create sample_config (\<lambda>_. True) = Some c0 \<and> cache_step sample_config c0 c \<and> cache_inv sample_config c"
proof -
  obtain c0 where c0: "resolver_cache_create sample_config (\<lambda>_. True) = Some c0"
    using sample_create by blast
  have t: "terminated (Some [0x6D, 0x63, 0])"
    by (simp add: terminated_def)
  then obtain c st r where "resolver_cache_entry_acquire sample_config True c0 (Some [0x6D, 0x63, 0]) ns_t_a = Some (c, st, r)"
    using acquire_inv [OF create_inv [OF c0], of "Some [0x6D, 0x63, 0]" True ns_t_a] by blast
  then have "cache_step sample_config c0 c"
    by (rule step_acquire [OF t])
  then show ?thesis
    using cache_invariant [OF c0, of c] c0 by blast
qed

text \<open>
  C7: acquisition implements a finite map from names and query types to entries. It is defined on every
  terminated name. When it succeeds, the map afterwards is the map before with the key bound to the returned
  entry; a key that was bound keeps its entry, with one more reference. When it fails, no entry changes and none
  is returned.
\<close>

theorem cache_acquire_map:
  assumes "cache_inv cfg c" "terminated query_name"
  shows "\<exists>c' st r. resolver_cache_entry_acquire cfg alloc_ok c query_name query_type = Some (c', st, r)
    \<and> (if st = RESOLVER_CACHE_ACQUIRE_OK
       then \<exists>name i e. resolver_name_normalize query_name = Some (Some name) \<and> r = Some i
         \<and> cache_map c' = (cache_map c)((name, query_type) \<mapsto> i)
         \<and> entries c' = (entries c)(i \<mapsto> e)
         \<and> (case cache_map c (name, query_type) of
              Some j \<Rightarrow> i = j \<and> (\<exists>e0. entries c j = Some e0 \<and> e = e0\<lparr>ce_reference_count := ce_reference_count e0 + 1\<rparr>)
            | None \<Rightarrow> entries c i = None \<and> ce_reference_count e = 1 \<and> ce_payload e = None)
       else r = None \<and> entries c' = entries c)"
proof -
  obtain c' st r where res: "resolver_cache_entry_acquire cfg alloc_ok c query_name query_type = Some (c', st, r)"
      and inv': "cache_inv cfg c'"
    using acquire_inv [OF assms] by blast
  have table: "table_inv cfg c" "table_inv cfg c'"
    using assms(1) inv' by (simp_all add: cache_inv_def)
  show ?thesis
  proof (cases "resolver_cache_query_type_valid query_type \<and> resolver_name_normalize query_name \<noteq> Some None")
    case False
    then show ?thesis
      using acquire_refused [of query_type query_name cfg alloc_ok c] by auto
  next
    case True
    then obtain name where name: "resolver_name_normalize query_name = Some (Some name)" "resolver_cache_query_type_valid query_type"
      using name_normalize_terminated [OF assms(2)] by auto
    show ?thesis
    proof (cases "cache_lookup c name query_type")
      case None
      note new = acquire_new [OF assms(1) name None res]
      show ?thesis
      proof (cases "st = RESOLVER_CACHE_ACQUIRE_OK")
        case True
        define e where "e = \<lparr>ce_hash = resolver_cache_hash name query_type, ce_id = next_entry_id c, ce_name = name, ce_payload = None,
          ce_query_type = query_type, ce_reference_count = 1\<rparr>"
        have c': "entries c' = (entries c)(next_entry_id c \<mapsto> e)" "r = Some (next_entry_id c)" "entries c (next_entry_id c) = None"
          using new True next_id_free [OF table(1)] by (simp_all add: resolver_cache_entry_create_def Let_def e_def)
        moreover have "cache_map c' = (cache_map c)((name, query_type) \<mapsto> next_entry_id c)"
          using c' by (intro cache_map_upd [OF table c'(1)]) (simp_all add: e_def)
        moreover have "cache_map c (name, query_type) = None" "ce_reference_count e = 1" "ce_payload e = None"
          using None by (simp_all add: cache_map_def e_def)
        ultimately show ?thesis
          using res True name(1) by simp blast
      next
        case False
        then show ?thesis using new res by simp
      qed
    next
      case (Some i)
      then obtain e where e: "entries c i = Some e" "ce_name e = name" "ce_query_type e = query_type"
        by (auto simp: cache_lookup_Some [OF table(1)])
      have "cache_map c' = (cache_map c)((name, query_type) \<mapsto> i)" if "entries c' = (entries c)(i \<mapsto> e\<lparr>ce_reference_count := n\<rparr>)" for n
        using e by (intro cache_map_upd [OF table that]) simp_all
      then show ?thesis
        using acquire_found [OF assms(1) name Some e(1), of alloc_ok] res name e Some
        by (cases "ce_reference_count e = SIZE_MAX") (auto simp: Let_def cache_map_def)
    qed
  qed
qed

theorem cache_acquire_map_witness:
  "\<exists>c' st r. resolver_cache_entry_acquire sample_config True sample_cache (Some [0x6D, 0x63, 0]) ns_t_a = Some (c', st, r)
    \<and> (if st = RESOLVER_CACHE_ACQUIRE_OK
       then \<exists>name i e. resolver_name_normalize (Some [0x6D, 0x63, 0]) = Some (Some name) \<and> r = Some i
         \<and> cache_map c' = (cache_map sample_cache)((name, ns_t_a) \<mapsto> i)
         \<and> entries c' = (entries sample_cache)(i \<mapsto> e)
         \<and> (case cache_map sample_cache (name, ns_t_a) of
              Some j \<Rightarrow> i = j \<and> (\<exists>e0. entries sample_cache j = Some e0 \<and> e = e0\<lparr>ce_reference_count := ce_reference_count e0 + 1\<rparr>)
            | None \<Rightarrow> entries sample_cache i = None \<and> ce_reference_count e = 1 \<and> ce_payload e = None)
       else r = None \<and> entries c' = entries sample_cache)"
  by (rule cache_acquire_map [OF sample_cache_inv]) (simp add: terminated_def)

text \<open>
  C18: acquiring a new entry and releasing it again restores the table, the entries and both counters of the cache.
\<close>

theorem cache_acquire_release:
  assumes "cache_inv cfg c" "terminated query_name" "resolver_name_normalize query_name = Some (Some name)"
    and "cache_map c (name, query_type) = None"
    and "resolver_cache_entry_acquire cfg alloc_ok c query_name query_type = Some (c1, RESOLVER_CACHE_ACQUIRE_OK, Some i)"
  shows "\<exists>c2. resolver_cache_entry_release cfg c1 i = Some c2 \<and> entries c2 = entries c \<and> buckets c2 = buckets c
    \<and> entry_count c2 = entry_count c \<and> owned_bytes c2 = owned_bytes c"
proof -
  have valid: "resolver_cache_query_type_valid query_type"
    using assms(5) acquire_refused [of query_type query_name cfg alloc_ok c] by (cases "resolver_cache_query_type_valid query_type") auto
  define d where "d = resolver_cache_entry_create cfg c name query_type (resolver_cache_hash name query_type)"
  have c1: "i = next_entry_id c" "next_entry_id c \<noteq> 0" "c1 = resolver_cache_metrics_increment d (resolver_cache_metrics_query_type query_type) acquire_created"
    using acquire_new [OF assms(1,3) valid _ assms(5)] assms(4) by (simp_all add: cache_map_def d_def)
  have free: "entries c i = None" and "bucket_count c \<noteq> 0"
    using next_id_free [of cfg c] c1(1,2) assms(1) by (simp_all add: cache_inv_def table_inv_def)
  define hash where "hash = resolver_cache_hash name query_type"
  define e where "e = \<lparr>ce_hash = hash, ce_id = i, ce_name = name, ce_payload = None, ce_query_type = query_type, ce_reference_count = 1\<rparr>"
  have f: "entries c1 = (entries c)(i \<mapsto> e)" "buckets c1 = (buckets c)(bucket_index c1 hash := i # buckets c (bucket_index c1 hash))"
      "entry_count c1 = entry_count c + 1" "owned_bytes c1 = owned_bytes c + sizeof_entry cfg" "bucket_count c1 = bucket_count c"
    by (simp_all add: c1 d_def resolver_cache_entry_create_def Let_def bucket_index_def hash_def e_def)
  have "(entries c)(i := None) = entries c" "ce_payload e = None" "ce_hash e = hash" "ce_reference_count e = 1"
    using free by (simp_all add: fun_upd_idem_iff e_def)
  then show ?thesis
    using \<open>bucket_count c \<noteq> 0\<close> f
    by (simp add: resolver_cache_entry_release_def resolver_cache_entry_payload_clear_def Let_def)
qed

theorem cache_acquire_release_witness:
  "\<exists>c1 i c2. resolver_cache_entry_acquire sample_config True sample_cache (Some [0x6D, 0x63, 0]) ns_t_srv = Some (c1, RESOLVER_CACHE_ACQUIRE_OK, Some i)
    \<and> resolver_cache_entry_release sample_config c1 i = Some c2 \<and> entries c2 = entries sample_cache \<and> buckets c2 = buckets sample_cache
    \<and> entry_count c2 = entry_count sample_cache \<and> owned_bytes c2 = owned_bytes sample_cache"
proof -
  have new: "cache_map sample_cache ([0x6D, 0x63], ns_t_srv) = None"
    using sample_create [of "[]" 0]
    by (auto simp: cache_map_def cache_lookup_None sample_cache_for_def resolver_cache_entry_create_def Let_def)
  have name: "resolver_name_normalize (Some [0x6D, 0x63, 0]) = Some (Some [0x6D, 0x63])" by code_simp
  obtain c1 i where acq: "resolver_cache_entry_acquire sample_config True sample_cache (Some [0x6D, 0x63, 0]) ns_t_srv = Some (c1, RESOLVER_CACHE_ACQUIRE_OK, Some i)"
    using name new entry_find_lookup [of sample_config sample_cache "[0x6D, 0x63]" ns_t_srv] sample_cache_inv sample_create [of "[]" 0]
    by (auto simp: resolver_cache_entry_acquire_def Let_def cache_inv_def cache_map_def resolver_cache_query_type_valid_def
        sample_cache_for_def resolver_cache_entry_create_def sample_config_def)
  show ?thesis
    using cache_acquire_release [OF sample_cache_inv _ name new acq] acq by (auto simp: terminated_def)
qed

text \<open>
  C17: a view shows what was published for exactly its time to live. After a successful publication of an address or a service
  result completed at time \<open>t\<close>, validated with minimum time to live \<open>ttl\<close>, a view at any valid time before \<open>t + ttl\<close> returns the status and exactly the
  addresses or service records that were published, and a view at or after that time is empty.
\<close>

theorem cache_publish_view:
  assumes "cache_inv cfg c" "entries c i = Some e" "timeutil_valid (Some now)"
    and "resolver_cache_entry_publish_address cfg alloc_ok c i la (Some t) (Some ra) = Some (c1, RESOLVER_CACHE_PUBLISH_STORED, resa)
           \<and> validated = resolver_cache_address_result_validate e la ra \<and> addresses = ad_addresses ra \<and> records = None
       \<or> resolver_cache_entry_publish_srv cfg alloc_ok c i ls (Some t) (Some rs) = Some (c1, RESOLVER_CACHE_PUBLISH_STORED, ress)
           \<and> validated = resolver_cache_srv_result_validate e ls rs \<and> addresses = None \<and> records = sr_records rs"
  shows "\<exists>c2 v ttl st. resolver_cache_entry_view c1 i (Some now) = Some (c2, True, v) \<and> validated = Some (ttl, st)
    \<and> (if nanoseconds now < nanoseconds t + int ttl * 1000000000
       then view_status v = st \<and> view_addresses v = addresses \<and> view_srv_records v = records \<and> view_completed_at v = t
       else v = resolver_cache_view_zero)"
proof -
  obtain payload where pub: "cache_inv cfg c1" "publication c c1 i RESOLVER_CACHE_PUBLISH_STORED e (Some t) validated payload"
      and shown: "addresses = (case payload of Payload_address r \<Rightarrow> ad_addresses r | _ \<Rightarrow> None)" "records = (case payload of Payload_srv r \<Rightarrow> sr_records r | _ \<Rightarrow> None)"
    using assms(4) publish_address_inv [OF assms(1,2), of alloc_ok la "Some t" ra] publish_srv_inv [OF assms(1,2), of alloc_ok ls "Some t" rs]
    by (elim disjE) fastforce+
  then obtain ttl st p where v: "validated = Some (ttl, st)"
      and p: "entries c1 = (entries c)(i \<mapsto> e\<lparr>ce_payload := Some p\<rparr>)" "pl_result p = payload" "pl_status p = st" "pl_completed_at p = t"
        "nanoseconds (pl_expires_at p) = nanoseconds t + int ttl * 1000000000"
    by (auto simp: publication_def published_def)
  have "entries c1 i = Some (e\<lparr>ce_payload := Some p\<rparr>)"
    using p(1) by simp
  from view_spec [OF pub(1) this assms(3)] obtain c2 where
    "resolver_cache_entry_view c1 i (Some now) = Some (c2, True, view_at (Some p) now)"
    by auto
  then show ?thesis
    using v p shown by (simp add: view_at_def payload_view_def)
qed

text \<open>An address result and a service result for the entries of the example.\<close>

definition sample_result :: dns_address_result where
  "sample_result = dns_address_result_zero
     \<lparr>ad_question_name := [0x4D, 0x63], ad_canonical_name := [0x6D, 0x63], ad_rcode := ns_r_noerror,
      ad_addresses := Some [\<lparr>ar_address = net_addr_zero\<lparr>addr_family := AF_INET\<rparr>, ar_effective_ttl = 30, ar_record_ttl = 60\<rparr>]\<rparr>"

definition sample_srv_result :: dns_srv_result where
  "sample_srv_result = dns_srv_result_zero
     \<lparr>sr_question_name := [0x4D, 0x63], sr_canonical_name := [0x6D, 0x63], sr_rcode := ns_r_noerror,
      sr_records := Some [\<lparr>srv_priority = 1, srv_weight = 2, srv_port = 25565, srv_target = [0x6D, 0x63], srv_record_ttl = 60, srv_effective_ttl = 30\<rparr>]\<rparr>"

lemma sample_results_valid:
  "ce_query_type e = ns_t_a \<Longrightarrow> ce_name e = [0x6D, 0x63] \<Longrightarrow>
     resolver_cache_address_result_validate e DNS_ADDRESS_LOOKUP_OK sample_result = Some (30, RESOLVER_CACHE_VIEW_FRESH_POSITIVE)"
  "ce_query_type e = ns_t_srv \<Longrightarrow> ce_name e = [0x6D, 0x63] \<Longrightarrow>
     resolver_cache_srv_result_validate e DNS_SRV_LOOKUP_OK sample_srv_result = Some (30, RESOLVER_CACHE_VIEW_FRESH_POSITIVE)"
proof -
  have "name_normalize [0x4D, 0x63] = Some [0x6D, 0x63]" "name_normalize [0x6D, 0x63] = Some [0x6D, 0x63]"
    by (simp_all add: name_normalize_text normalize_text_def lower_char_def)
  then show "ce_query_type e = ns_t_a \<Longrightarrow> ce_name e = [0x6D, 0x63] \<Longrightarrow>
     resolver_cache_address_result_validate e DNS_ADDRESS_LOOKUP_OK sample_result = Some (30, RESOLVER_CACHE_VIEW_FRESH_POSITIVE)"
    "ce_query_type e = ns_t_srv \<Longrightarrow> ce_name e = [0x6D, 0x63] \<Longrightarrow>
     resolver_cache_srv_result_validate e DNS_SRV_LOOKUP_OK sample_srv_result = Some (30, RESOLVER_CACHE_VIEW_FRESH_POSITIVE)"
    by (simp_all add: resolver_cache_address_result_validate_def sample_result_def dns_address_result_zero_def resolver_cache_question_matches_def
        resolver_cache_name_valid_def resolver_cache_cnames_valid_def resolver_cache_negative_valid_def dns_negative_zero_def array_count_def
        resolver_cache_srv_result_validate_def sample_srv_result_def dns_srv_result_zero_def)
qed

lemma sample_sizes:
  "resolver_cache_address_result_size sample_config sample_result = Some 2232" "resolver_cache_srv_result_size sample_config sample_srv_result = Some 3240"
  by (simp_all add: resolver_cache_address_result_size_def resolver_cache_srv_result_size_def resolver_cache_array_size_def resolver_size_multiply_def
      resolver_size_add_def sample_result_def dns_address_result_zero_def sample_srv_result_def dns_srv_result_zero_def sample_config_def array_count_def)

lemma sample_stored:
  assumes "resolver_cache_query_type_valid query_type" "result_kind query_type res" "bytes_owned \<le> 16384"
  obtains d c1 where "resolver_cache_metrics_value_record (sample_cache_for query_type) (resolver_cache_metrics_query_type query_type)
      RESOLVER_CACHE_VIEW_FRESH_POSITIVE 30 = Some d" "entries d = entries (sample_cache_for query_type)"
    "resolver_cache_entry_payload_publish sample_config True d 1 RESOLVER_CACHE_VIEW_FRESH_POSITIVE \<lparr>tv_sec = 100, tv_nsec = 5\<rparr> 30 bytes_owned res
      = Some (c1, RESOLVER_CACHE_PUBLISH_STORED)"
proof -
  let ?e = "\<lparr>ce_hash = resolver_cache_hash [0x6D, 0x63] query_type, ce_id = 1, ce_name = [0x6D, 0x63], ce_payload = None,
     ce_query_type = query_type, ce_reference_count = 1\<rparr>"
  obtain d where d: "resolver_cache_metrics_value_record (sample_cache_for query_type) (resolver_cache_metrics_query_type query_type) RESOLVER_CACHE_VIEW_FRESH_POSITIVE 30 = Some d"
      "cache_inv sample_config d" "entries d = entries (sample_cache_for query_type)" "owned_bytes d = owned_bytes (sample_cache_for query_type)"
    using value_record_inv [OF sample_cache_for_inv [OF assms(1)]] by metis
  have "owned_bytes (sample_cache_for query_type) = 5256"
    using sample_create [of "[]" 0] by (auto simp: sample_cache_for_def resolver_cache_entry_create_def Let_def) (simp add: sample_config_def)
  moreover have "5256 \<le> 65536 - bytes_owned" using assms(3) by simp
  ultimately obtain c1 where "resolver_cache_entry_payload_publish sample_config True d 1 RESOLVER_CACHE_VIEW_FRESH_POSITIVE \<lparr>tv_sec = 100, tv_nsec = 5\<rparr>
      30 bytes_owned res = Some (c1, RESOLVER_CACHE_PUBLISH_STORED)"
    using payload_publish_stored [OF d(2), of 1 ?e res RESOLVER_CACHE_VIEW_FRESH_POSITIVE
        "\<lparr>tv_sec = 100, tv_nsec = 5\<rparr>" 30 "\<lparr>tv_sec = 130, tv_nsec = 5\<rparr>" bytes_owned] d(3,4) sample_cache_entry assms(2,3)
    by (auto simp: payload_bytes_def sample_config_def resolver_cache_expiry_calculate_def timeutil_valid_def of_time_t_def to_time_t_def)
  with d show thesis using that by blast
qed

lemma sample_publish:
  "\<exists>c1. resolver_cache_entry_publish_address sample_config True sample_cache 1 DNS_ADDRESS_LOOKUP_OK (Some \<lparr>tv_sec = 100, tv_nsec = 5\<rparr>)
     (Some sample_result) = Some (c1, RESOLVER_CACHE_PUBLISH_STORED, Some dns_address_result_zero)"
  "\<exists>c1. resolver_cache_entry_publish_srv sample_config True (sample_cache_for ns_t_srv) 1 DNS_SRV_LOOKUP_OK (Some \<lparr>tv_sec = 100, tv_nsec = 5\<rparr>)
     (Some sample_srv_result) = Some (c1, RESOLVER_CACHE_PUBLISH_STORED, Some dns_srv_result_zero)"
proof -
  have v: "resolver_cache_query_type_valid ns_t_a" "resolver_cache_query_type_valid ns_t_srv" by (simp_all add: resolver_cache_query_type_valid_def)
  have k: "result_kind ns_t_a (Payload_address sample_result)" "result_kind ns_t_srv (Payload_srv sample_srv_result)" by (simp_all add: result_kind_def)
  show "\<exists>c1. resolver_cache_entry_publish_address sample_config True sample_cache 1 DNS_ADDRESS_LOOKUP_OK (Some \<lparr>tv_sec = 100, tv_nsec = 5\<rparr>)
     (Some sample_result) = Some (c1, RESOLVER_CACHE_PUBLISH_STORED, Some dns_address_result_zero)"
    by (rule sample_stored [OF v(1) k(1), of 2232])
      (simp_all add: sample_results_valid sample_sizes sample_cache_entry [simplified] resolver_cache_entry_publish_address_def resolver_cache_entry_publish_def)
  show "\<exists>c1. resolver_cache_entry_publish_srv sample_config True (sample_cache_for ns_t_srv) 1 DNS_SRV_LOOKUP_OK (Some \<lparr>tv_sec = 100, tv_nsec = 5\<rparr>)
     (Some sample_srv_result) = Some (c1, RESOLVER_CACHE_PUBLISH_STORED, Some dns_srv_result_zero)"
    by (rule sample_stored [OF v(2) k(2), of 3240])
      (simp_all add: sample_results_valid sample_sizes sample_cache_entry [simplified] resolver_cache_entry_publish_srv_def resolver_cache_entry_publish_def)
qed

theorem cache_publish_view_witness:
  "\<exists>c1 c2 c1' c2' v v'. resolver_cache_entry_publish_address sample_config True sample_cache 1 DNS_ADDRESS_LOOKUP_OK (Some \<lparr>tv_sec = 100, tv_nsec = 5\<rparr>)
        (Some sample_result) = Some (c1, RESOLVER_CACHE_PUBLISH_STORED, Some dns_address_result_zero)
    \<and> resolver_cache_entry_view c1 1 (Some \<lparr>tv_sec = 130, tv_nsec = 4\<rparr>) = Some (c2, True, v) \<and> view_addresses v = ad_addresses sample_result
    \<and> resolver_cache_entry_publish_srv sample_config True (sample_cache_for ns_t_srv) 1 DNS_SRV_LOOKUP_OK (Some \<lparr>tv_sec = 100, tv_nsec = 5\<rparr>)
        (Some sample_srv_result) = Some (c1', RESOLVER_CACHE_PUBLISH_STORED, Some dns_srv_result_zero)
    \<and> resolver_cache_entry_view c1' 1 (Some \<lparr>tv_sec = 130, tv_nsec = 4\<rparr>) = Some (c2', True, v') \<and> view_srv_records v' = sr_records sample_srv_result"
proof -
  have now: "timeutil_valid (Some \<lparr>tv_sec = 130, tv_nsec = 4\<rparr>)"
    by (simp add: timeutil_valid_def)
  have before: "nanoseconds \<lparr>tv_sec = 130, tv_nsec = 4\<rparr> < nanoseconds \<lparr>tv_sec = 100, tv_nsec = 5\<rparr> + int 30 * 1000000000"
    by (simp add: nanoseconds_def)
  obtain c1 where c1: "resolver_cache_entry_publish_address sample_config True sample_cache 1 DNS_ADDRESS_LOOKUP_OK (Some \<lparr>tv_sec = 100, tv_nsec = 5\<rparr>)
      (Some sample_result) = Some (c1, RESOLVER_CACHE_PUBLISH_STORED, Some dns_address_result_zero)"
    using sample_publish(1) by blast
  obtain c1' where c1': "resolver_cache_entry_publish_srv sample_config True (sample_cache_for ns_t_srv) 1 DNS_SRV_LOOKUP_OK (Some \<lparr>tv_sec = 100, tv_nsec = 5\<rparr>)
      (Some sample_srv_result) = Some (c1', RESOLVER_CACHE_PUBLISH_STORED, Some dns_srv_result_zero)"
    using sample_publish(2) by blast
  have "cache_inv sample_config (sample_cache_for ns_t_srv)" by (rule sample_cache_for_inv) (simp add: resolver_cache_query_type_valid_def)
  note srv = this
  have "\<exists>c2 v ttl st. resolver_cache_entry_view c1 1 (Some \<lparr>tv_sec = 130, tv_nsec = 4\<rparr>) = Some (c2, True, v) \<and> Some (30, RESOLVER_CACHE_VIEW_FRESH_POSITIVE) = Some (ttl, st)
      \<and> (if nanoseconds \<lparr>tv_sec = 130, tv_nsec = 4\<rparr> < nanoseconds \<lparr>tv_sec = 100, tv_nsec = 5\<rparr> + int ttl * 1000000000
         then view_status v = st \<and> view_addresses v = ad_addresses sample_result \<and> view_srv_records v = None \<and> view_completed_at v = \<lparr>tv_sec = 100, tv_nsec = 5\<rparr>
         else v = resolver_cache_view_zero)"
    by (rule cache_publish_view [OF sample_cache_inv sample_cache_entry now, where alloc_ok = True and la = DNS_ADDRESS_LOOKUP_OK and ra = sample_result and resa = "Some dns_address_result_zero"]) (use c1 in \<open>simp add: sample_results_valid\<close>)
  then obtain c2 v where "resolver_cache_entry_view c1 1 (Some \<lparr>tv_sec = 130, tv_nsec = 4\<rparr>) = Some (c2, True, v)" "view_addresses v = ad_addresses sample_result"
    using before by auto
  moreover have "\<exists>c2 v ttl st. resolver_cache_entry_view c1' 1 (Some \<lparr>tv_sec = 130, tv_nsec = 4\<rparr>) = Some (c2, True, v) \<and> Some (30, RESOLVER_CACHE_VIEW_FRESH_POSITIVE) = Some (ttl, st)
      \<and> (if nanoseconds \<lparr>tv_sec = 130, tv_nsec = 4\<rparr> < nanoseconds \<lparr>tv_sec = 100, tv_nsec = 5\<rparr> + int ttl * 1000000000
         then view_status v = st \<and> view_addresses v = None \<and> view_srv_records v = sr_records sample_srv_result \<and> view_completed_at v = \<lparr>tv_sec = 100, tv_nsec = 5\<rparr>
         else v = resolver_cache_view_zero)"
    by (rule cache_publish_view [OF srv sample_cache_entry now, where alloc_ok = True and ls = DNS_SRV_LOOKUP_OK and rs = sample_srv_result and ress = "Some dns_srv_result_zero"]) (use c1' in \<open>simp add: sample_results_valid\<close>)
  then obtain c2' v' where "resolver_cache_entry_view c1' 1 (Some \<lparr>tv_sec = 130, tv_nsec = 4\<rparr>) = Some (c2', True, v')" "view_srv_records v' = sr_records sample_srv_result"
    using before by auto
  ultimately show ?thesis using c1 c1' by blast
qed

text \<open>
  C19: destroying the cache frees every live entry exactly once.
\<close>

theorem cache_destroy_complete:
  assumes "cache_inv cfg c"
  shows "distinct (resolver_cache_destroy (Some c)) \<and> set (resolver_cache_destroy (Some c)) = dom (entries c)"
  using assms chains_distinct [of cfg c] chains_live [of cfg c] by (simp add: resolver_cache_destroy_def cache_inv_def)

theorem cache_destroy_complete_witness:
  "1 \<in> dom (entries sample_cache) \<and> distinct (resolver_cache_destroy (Some sample_cache))
    \<and> set (resolver_cache_destroy (Some sample_cache)) = dom (entries sample_cache)"
  using cache_destroy_complete [OF sample_cache_inv] sample_cache_entry by blast

end
