(* ===== verification/Relay.thy ===== *)
theory Relay
  imports Network Timeutil "HOL-Library.Sublist"
begin

text \<open>
  The byte relay between two sockets (\<open>net_relay\<close> of \<open>src/network.c\<close>): two bounded queues, one per direction,
  filled and drained as \<open>poll\<close> reports readiness, with half-close propagation and an idle timeout.

  The operating system is a script of replies to the system calls, consumed one by one, and the calls
  with an effect on a socket are recorded in a trace. A call whose reply is not in the script (or is not one the
  call can return) blocks: the functions then return the state reached so far with outcome \<open>Blocked\<close>, so that
  statements about the trace cover relays in progress too. An access outside the queue's array is \<open>None\<close>.
  A \<open>Shutdown\<close> event records the call, also when it fails because the peer is already gone.
\<close>

section \<open>The operating system\<close>

record revents =
  POLLIN :: bool
  POLLRDHUP :: bool
  POLLOUT :: bool
  POLLHUP :: bool
  POLLERR :: bool
  POLLNVAL :: bool

datatype os_reply =
    Rep_fail errno
  | Rep_ok
  | Rep_count nat
  | Rep_data bytes
  | Rep_time timespec
  | Rep_poll revents revents

datatype relay_event = Sent int bytes | Received int bytes | Eof int | Shutdown int | Closed int

record relay_os =
  replies :: "os_reply list"
  trace :: "relay_event list"
  os_errno :: errno

datatype 'a sys = Sys_ret 'a | Sys_err | Sys_none

definition reply_next :: "relay_os \<Rightarrow> relay_os" where
  "reply_next os = os\<lparr>replies := tl (replies os)\<rparr>"

definition record_event :: "relay_event \<Rightarrow> relay_os \<Rightarrow> relay_os" where
  "record_event ev os = os\<lparr>trace := trace os @ [ev]\<rparr>"

definition sys_failed :: "errno \<Rightarrow> relay_os \<Rightarrow> 'a sys \<times> relay_os" where
  "sys_failed e os = (Sys_err, (reply_next os)\<lparr>os_errno := e\<rparr>)"

definition sys_clock_gettime :: "relay_os \<Rightarrow> timespec sys \<times> relay_os" where
  "sys_clock_gettime os =
     (case replies os of
        Rep_time t # _ \<Rightarrow> if timeutil_valid (Some t) then (Sys_ret t, reply_next os) else (Sys_none, os)
      | Rep_fail e # _ \<Rightarrow> sys_failed e os
      | _ \<Rightarrow> (Sys_none, os))"

text \<open>\<open>send\<close> takes at most what it is given; \<open>recv\<close> yields at most what was asked for, nothing at end of file.\<close>

definition sys_send :: "int \<Rightarrow> bytes \<Rightarrow> relay_os \<Rightarrow> nat sys \<times> relay_os" where
  "sys_send fd buf os =
     (case replies os of
        Rep_count n # _ \<Rightarrow>
          if n \<le> length buf then (Sys_ret n, record_event (Sent fd (take n buf)) (reply_next os)) else (Sys_none, os)
      | Rep_fail e # _ \<Rightarrow> sys_failed e os
      | _ \<Rightarrow> (Sys_none, os))"

definition sys_recv :: "int \<Rightarrow> nat \<Rightarrow> relay_os \<Rightarrow> bytes sys \<times> relay_os" where
  "sys_recv fd n os =
     (case replies os of
        Rep_data d # _ \<Rightarrow>
          if length d \<le> n
          then (Sys_ret d, record_event (if d = [] then Eof fd else Received fd d) (reply_next os)) else (Sys_none, os)
      | Rep_fail e # _ \<Rightarrow> sys_failed e os
      | _ \<Rightarrow> (Sys_none, os))"

definition sys_shutdown :: "int \<Rightarrow> relay_os \<Rightarrow> unit sys \<times> relay_os" where
  "sys_shutdown fd os =
     (case replies os of
        Rep_ok # _ \<Rightarrow> (Sys_ret (), record_event (Shutdown fd) (reply_next os))
      | Rep_fail e # _ \<Rightarrow> sys_failed e (record_event (Shutdown fd) os)
      | _ \<Rightarrow> (Sys_none, os))"

definition sys_fcntl :: "relay_os \<Rightarrow> unit sys \<times> relay_os" where
  "sys_fcntl os =
     (case replies os of
        Rep_ok # _ \<Rightarrow> (Sys_ret (), reply_next os)
      | Rep_fail e # _ \<Rightarrow> sys_failed e os
      | _ \<Rightarrow> (Sys_none, os))"

text \<open>
  \<open>poll\<close> on two descriptors, each given by what is awaited (reading, writing); a descriptor for which nothing is
  awaited is ignored. \<open>Rep_ok\<close> is the expiry of the timeout, and a report names at least one descriptor.
\<close>

definition revents_any :: "revents \<Rightarrow> bool" where
  "revents_any r \<longleftrightarrow> POLLIN r \<or> POLLRDHUP r \<or> POLLOUT r \<or> POLLHUP r \<or> POLLERR r \<or> POLLNVAL r"

definition revents_possible :: "bool \<Rightarrow> bool \<Rightarrow> revents \<Rightarrow> bool" where
  "revents_possible want_read want_write r \<longleftrightarrow>
     (want_read \<or> want_write \<or> \<not> revents_any r) \<and> (POLLIN r \<or> POLLRDHUP r \<longrightarrow> want_read) \<and> (POLLOUT r \<longrightarrow> want_write)"

definition sys_poll :: "bool \<times> bool \<Rightarrow> bool \<times> bool \<Rightarrow> relay_os \<Rightarrow> (revents \<times> revents) option sys \<times> relay_os" where
  "sys_poll want_in want_out os =
     (case replies os of
        Rep_ok # _ \<Rightarrow> (Sys_ret None, reply_next os)
      | Rep_poll r_in r_out # _ \<Rightarrow>
          if revents_possible (fst want_in) (snd want_in) r_in \<and> revents_possible (fst want_out) (snd want_out) r_out
             \<and> (revents_any r_in \<or> revents_any r_out)
          then (Sys_ret (Some (r_in, r_out)), reply_next os) else (Sys_none, os)
      | Rep_fail e # _ \<Rightarrow> sys_failed e os
      | _ \<Rightarrow> (Sys_none, os))"

text \<open>The result of \<open>close\<close> is ignored, but it may set \<open>errno\<close>.\<close>

definition sys_close :: "int \<Rightarrow> relay_os \<Rightarrow> relay_os" where
  "sys_close fd os =
     record_event (Closed fd)
       (case replies os of Rep_fail e # _ \<Rightarrow> (reply_next os)\<lparr>os_errno := e\<rparr> | _ \<Rightarrow> reply_next os)"

section \<open>Queues\<close>

record relay_config =
  NET_RELAY_BUFFER_BYTES :: nat
  NET_RELAY_IDLE_TIMEOUT_SEC :: int

definition relay_config_ok :: "relay_config \<Rightarrow> bool" where
  "relay_config_ok cfg \<longleftrightarrow>
     1 \<le> NET_RELAY_BUFFER_BYTES cfg \<and> 1 \<le> NET_RELAY_IDLE_TIMEOUT_SEC cfg \<and> NET_RELAY_IDLE_TIMEOUT_SEC cfg \<le> 2147483647"

datatype net_relay_status = NET_RELAY_CLOSED | NET_RELAY_ERROR | NET_RELAY_IDLE

record net_relay_queue =
  q_offset :: nat
  q_length :: nat
  q_peer_eof :: bool
  q_shutdown_sent :: bool
  q_data :: bytes

definition net_relay_queue_zero :: "relay_config \<Rightarrow> net_relay_queue" where
  "net_relay_queue_zero cfg =
     \<lparr>q_offset = 0, q_length = 0, q_peer_eof = False, q_shutdown_sent = False, q_data = replicate (NET_RELAY_BUFFER_BYTES cfg) 0\<rparr>"

definition net_relay_finished :: "net_relay_queue \<Rightarrow> net_relay_queue \<Rightarrow> bool" where
  "net_relay_finished queue_c2o queue_o2c \<longleftrightarrow>
     q_peer_eof queue_c2o \<and> q_peer_eof queue_o2c \<and> q_offset queue_c2o = q_length queue_c2o
     \<and> q_offset queue_o2c = q_length queue_o2c \<and> q_shutdown_sent queue_c2o \<and> q_shutdown_sent queue_o2c"

definition net_relay_idle_remaining_ms :: "relay_config \<Rightarrow> timespec \<Rightarrow> timespec \<Rightarrow> int" where
  "net_relay_idle_remaining_ms cfg last_activity now =
     (let (elapsed_seconds, elapsed_nanoseconds) =
            (if tv_nsec now < tv_nsec last_activity
             then (tv_sec now - tv_sec last_activity - 1, tv_nsec now + 1000000000 - tv_nsec last_activity)
             else (tv_sec now - tv_sec last_activity, tv_nsec now - tv_nsec last_activity)) in
      if elapsed_seconds < 0 then 0
      else if elapsed_seconds > NET_RELAY_IDLE_TIMEOUT_SEC cfg
              \<or> (elapsed_seconds = NET_RELAY_IDLE_TIMEOUT_SEC cfg \<and> elapsed_nanoseconds > 0)
      then 0
      else
        (let remaining_seconds = NET_RELAY_IDLE_TIMEOUT_SEC cfg - elapsed_seconds;
             (remaining_seconds, remaining_nanoseconds) =
               (if elapsed_nanoseconds > 0 then (remaining_seconds - 1, 1000000000 - elapsed_nanoseconds)
                else (remaining_seconds, 0)) in
         if remaining_seconds > 2147483647 div 1000 then 2147483647
         else
           (let remaining_milliseconds = remaining_seconds * 1000 + (remaining_nanoseconds + 999999) div 1000000 in
            if remaining_milliseconds > 2147483647 then 2147483647 else remaining_milliseconds)))"

definition net_relay_queue_compact :: "net_relay_queue \<Rightarrow> net_relay_queue option" where
  "net_relay_queue_compact queue =
     (if q_offset queue = 0 then Some queue
      else if q_offset queue = q_length queue then Some (queue\<lparr>q_offset := 0, q_length := 0\<rparr>)
      else if q_length queue < q_offset queue then None
      else do {
        rest \<leftarrow> buf_read (q_offset queue) (q_length queue - q_offset queue) (q_data queue);
        data \<leftarrow> buf_write 0 rest (q_data queue);
        Some (queue\<lparr>q_data := data, q_length := q_length queue - q_offset queue, q_offset := 0\<rparr>)
      })"

datatype outcome = Done bool | Blocked

definition net_relay_mark_activity :: "timespec \<Rightarrow> relay_os \<Rightarrow> outcome \<times> timespec \<times> relay_os" where
  "net_relay_mark_activity last_activity os =
     (case sys_clock_gettime os of
        (Sys_ret t, os) \<Rightarrow> (Done True, t, os)
      | (Sys_err, os) \<Rightarrow> (Done False, last_activity, os)
      | (Sys_none, os) \<Rightarrow> (Blocked, last_activity, os))"

lemma sys_consume:
  "sys_send fd buf os = (r, os') \<Longrightarrow> r \<noteq> Sys_none \<Longrightarrow> length (replies os') < length (replies os)"
  "sys_recv fd n os = (r2, os') \<Longrightarrow> r2 \<noteq> Sys_none \<Longrightarrow> length (replies os') < length (replies os)"
  "sys_clock_gettime os = (r3, os') \<Longrightarrow> r3 \<noteq> Sys_none \<Longrightarrow> length (replies os') < length (replies os)"
  "sys_poll a b os = (r4, os') \<Longrightarrow> r4 \<noteq> Sys_none \<Longrightarrow> length (replies os') < length (replies os)"
  by (auto simp: sys_send_def sys_recv_def sys_clock_gettime_def sys_poll_def sys_failed_def reply_next_def record_event_def
      split: list.splits os_reply.splits if_splits)

lemmas send_consume = sys_consume(1) [OF sym, of "Sys_ret n" for n, simplified] sys_consume(1) [OF sym, of "Sys_err", simplified]
lemmas recv_consume = sys_consume(2) [OF sym, of "Sys_ret n" for n, simplified] sys_consume(2) [OF sym, of "Sys_err", simplified]

lemma mark_activity_consume:
  "net_relay_mark_activity la os = (Done b, la', os') \<Longrightarrow> length (replies os') < length (replies os)"
  using sys_consume(3) [of os] by (auto simp: net_relay_mark_activity_def split: prod.splits sys.splits)

function net_relay_queue_drain ::
  "net_relay_queue \<Rightarrow> int \<Rightarrow> timespec \<Rightarrow> relay_os \<Rightarrow> (outcome \<times> net_relay_queue \<times> timespec \<times> relay_os) option" where
  "net_relay_queue_drain queue fd last_activity os =
     (if q_offset queue < q_length queue then do {
        buf \<leftarrow> buf_read (q_offset queue) (q_length queue - q_offset queue) (q_data queue);
        (case sys_send fd buf os of
           (Sys_none, os') \<Rightarrow> Some (Blocked, queue, last_activity, os')
         | (Sys_ret sent, os') \<Rightarrow>
             if sent > 0 then
               (let queue' = queue\<lparr>q_offset := q_offset queue + sent\<rparr> in
                case net_relay_mark_activity last_activity os' of
                  (Done True, last_activity', os'') \<Rightarrow> net_relay_queue_drain queue' fd last_activity' os''
                | (out, last_activity', os'') \<Rightarrow> Some (out, queue', last_activity', os''))
             else Some (Done False, queue, last_activity, os')
         | (Sys_err, os') \<Rightarrow>
             if os_errno os' = EINTR then net_relay_queue_drain queue fd last_activity os'
             else if os_errno os' = EAGAIN
             then map_option (\<lambda>q. (Done True, q, last_activity, os')) (net_relay_queue_compact queue)
             else Some (Done False, queue, last_activity, os'))
      }
      else map_option (\<lambda>q. (Done True, q, last_activity, os)) (net_relay_queue_compact queue))"
  by pat_completeness auto

termination
  by (relation "measure (\<lambda>(queue, fd, la, os). length (replies os))")
    (auto dest!: send_consume mark_activity_consume [OF sym] intro: less_trans)

text \<open>The loop of \<open>net_relay_queue_fill\<close>, after the queue has been compacted.\<close>

function net_relay_queue_receive ::
  "relay_config \<Rightarrow> net_relay_queue \<Rightarrow> int \<Rightarrow> timespec \<Rightarrow> relay_os \<Rightarrow> (outcome \<times> net_relay_queue \<times> timespec \<times> relay_os) option" where
  "net_relay_queue_receive cfg queue fd last_activity os =
     (if \<not> q_peer_eof queue \<and> q_length queue < NET_RELAY_BUFFER_BYTES cfg then
        (case sys_recv fd (NET_RELAY_BUFFER_BYTES cfg - q_length queue) os of
           (Sys_none, os') \<Rightarrow> Some (Blocked, queue, last_activity, os')
         | (Sys_ret received, os') \<Rightarrow> do {
             data \<leftarrow> buf_write (q_length queue) received (q_data queue);
             if length received > 0 then
               (let queue' = queue\<lparr>q_data := data, q_length := q_length queue + length received\<rparr> in
                case net_relay_mark_activity last_activity os' of
                  (Done True, last_activity', os'') \<Rightarrow> net_relay_queue_receive cfg queue' fd last_activity' os''
                | (out, last_activity', os'') \<Rightarrow> Some (out, queue', last_activity', os''))
             else Some (Done True, queue\<lparr>q_peer_eof := True\<rparr>, last_activity, os')
           }
         | (Sys_err, os') \<Rightarrow>
             if os_errno os' = EINTR \<or> os_errno os' = EAGAIN then Some (Done True, queue, last_activity, os')
             else Some (Done False, queue, last_activity, os'))
      else Some (Done True, queue, last_activity, os))"
  by pat_completeness auto

termination
  by (relation "measure (\<lambda>(cfg, queue, fd, la, os). length (replies os))")
    (auto dest!: recv_consume mark_activity_consume [OF sym] intro: less_trans)

declare net_relay_queue_drain.simps [simp del] net_relay_queue_receive.simps [simp del]

definition net_relay_queue_fill ::
  "relay_config \<Rightarrow> net_relay_queue \<Rightarrow> int \<Rightarrow> timespec \<Rightarrow> relay_os \<Rightarrow> (outcome \<times> net_relay_queue \<times> timespec \<times> relay_os) option" where
  "net_relay_queue_fill cfg queue fd last_activity os =
     do {
       queue \<leftarrow> net_relay_queue_compact queue;
       net_relay_queue_receive cfg queue fd last_activity os
     }"

definition net_relay_shutdown_propagate :: "net_relay_queue \<Rightarrow> int \<Rightarrow> relay_os \<Rightarrow> outcome \<times> net_relay_queue \<times> relay_os" where
  "net_relay_shutdown_propagate queue fd os =
     (if \<not> q_peer_eof queue \<or> q_offset queue < q_length queue \<or> q_shutdown_sent queue then (Done True, queue, os)
      else
        (case sys_shutdown fd os of
           (Sys_none, os') \<Rightarrow> (Blocked, queue, os')
         | (Sys_err, os') \<Rightarrow>
             if os_errno os' = ECONNRESET \<or> os_errno os' = ENOTCONN \<or> os_errno os' = EPIPE
             then (Done True, queue\<lparr>q_shutdown_sent := True\<rparr>, os')
             else (Done False, queue, os')
         | (Sys_ret _, os') \<Rightarrow> (Done True, queue\<lparr>q_shutdown_sent := True\<rparr>, os')))"

section \<open>The relay\<close>

record relay_state =
  queue_c2o :: net_relay_queue
  queue_o2c :: net_relay_queue
  last_activity :: timespec

text \<open>What one report of \<open>poll\<close> triggers on its socket, by the code's conditions.\<close>

definition net_relay_event ::
  "relay_config \<Rightarrow> int \<Rightarrow> revents \<Rightarrow> net_relay_queue \<Rightarrow> net_relay_queue \<Rightarrow> timespec \<Rightarrow> relay_os \<Rightarrow>
     (outcome \<times> net_relay_queue \<times> net_relay_queue \<times> timespec \<times> relay_os) option" where
  "net_relay_event cfg fd r read_queue write_queue la os =
     do {
       let queued_before = q_length read_queue - q_offset read_queue;
       (out, read_queue, la, os) \<leftarrow>
         (if queued_before < NET_RELAY_BUFFER_BYTES cfg \<and> (POLLIN r \<or> POLLRDHUP r \<or> POLLHUP r \<or> POLLERR r)
          then net_relay_queue_fill cfg read_queue fd la os else Some (Done True, read_queue, la, os));
       if out \<noteq> Done True then Some (out, read_queue, write_queue, la, os)
       else do {
         (out, write_queue, la, os) \<leftarrow>
           (if q_offset write_queue < q_length write_queue \<and> (POLLOUT r \<or> POLLHUP r \<or> POLLERR r)
            then net_relay_queue_drain write_queue fd la os else Some (Done True, write_queue, la, os));
         if out \<noteq> Done True then Some (out, read_queue, write_queue, la, os)
         else if (POLLHUP r \<or> POLLERR r) \<and> \<not> q_peer_eof read_queue
                 \<and> queued_before = q_length read_queue - q_offset read_queue \<and> queued_before < NET_RELAY_BUFFER_BYTES cfg
         then Some (Done False, read_queue, write_queue, la, os\<lparr>os_errno := EIO\<rparr>)
         else if (POLLHUP r \<or> POLLERR r) \<and> q_offset write_queue < q_length write_queue
         then Some (Done False, read_queue, write_queue, la, os\<lparr>os_errno := EPIPE\<rparr>)
         else Some (Done True, read_queue, write_queue, la, os)
       }
     }"

text \<open>Both reports, then the propagation of half-closes.\<close>

definition net_relay_dispatch ::
  "relay_config \<Rightarrow> int \<Rightarrow> int \<Rightarrow> revents \<Rightarrow> revents \<Rightarrow> relay_state \<Rightarrow> relay_os \<Rightarrow> (outcome \<times> relay_state \<times> relay_os) option" where
  "net_relay_dispatch cfg socket_in socket_out r_in r_out s os =
     do {
       (out, c2o, o2c, la, os) \<leftarrow> net_relay_event cfg socket_in r_in (queue_c2o s) (queue_o2c s) (last_activity s) os;
       if out \<noteq> Done True then Some (out, \<lparr>queue_c2o = c2o, queue_o2c = o2c, last_activity = la\<rparr>, os)
       else do {
         (out, o2c, c2o, la, os) \<leftarrow> net_relay_event cfg socket_out r_out o2c c2o la os;
         if out \<noteq> Done True then Some (out, \<lparr>queue_c2o = c2o, queue_o2c = o2c, last_activity = la\<rparr>, os)
         else
           (let (out, c2o, os) = net_relay_shutdown_propagate c2o socket_out os in
            if out \<noteq> Done True then Some (out, \<lparr>queue_c2o = c2o, queue_o2c = o2c, last_activity = la\<rparr>, os)
            else
              (let (out, o2c, os) = net_relay_shutdown_propagate o2c socket_in os in
               Some (out, \<lparr>queue_c2o = c2o, queue_o2c = o2c, last_activity = la\<rparr>, os)))
       }
     }"

text \<open>What is awaited on a socket: reading into its queue and writing from the other.\<close>

definition net_relay_want :: "relay_config \<Rightarrow> net_relay_queue \<Rightarrow> net_relay_queue \<Rightarrow> bool \<times> bool" where
  "net_relay_want cfg read_queue write_queue =
     (\<not> q_peer_eof read_queue \<and> q_length read_queue - q_offset read_queue < NET_RELAY_BUFFER_BYTES cfg,
      \<not> q_shutdown_sent write_queue \<and> q_offset write_queue < q_length write_queue)"

text \<open>
  One turn of the main loop: it goes on, ends with a status, or blocks.
\<close>

datatype turn = Turn_continue | Turn_end net_relay_status | Turn_blocked

definition net_relay_turn ::
  "relay_config \<Rightarrow> int \<Rightarrow> int \<Rightarrow> relay_state \<Rightarrow> relay_os \<Rightarrow> (turn \<times> relay_state \<times> relay_os) option" where
  "net_relay_turn cfg socket_in socket_out s os =
     (let c2o = queue_c2o s; o2c = queue_o2c s; want_in = net_relay_want cfg c2o o2c; want_out = net_relay_want cfg o2c c2o in
      if net_relay_finished c2o o2c then Some (Turn_end NET_RELAY_CLOSED, s, os)
      else
        (case sys_clock_gettime os of
           (Sys_none, os) \<Rightarrow> Some (Turn_blocked, s, os)
         | (Sys_err, os) \<Rightarrow> Some (Turn_end NET_RELAY_ERROR, s, os)
         | (Sys_ret now, os) \<Rightarrow>
             if net_relay_idle_remaining_ms cfg (last_activity s) now = 0 then Some (Turn_end NET_RELAY_IDLE, s, os)
             else
               (case sys_poll want_in want_out os of
                  (Sys_none, os) \<Rightarrow> Some (Turn_blocked, s, os)
                | (Sys_ret None, os) \<Rightarrow> Some (Turn_end NET_RELAY_IDLE, s, os)
                | (Sys_err, os) \<Rightarrow> Some (if os_errno os = EINTR then Turn_continue else Turn_end NET_RELAY_ERROR, s, os)
                | (Sys_ret (Some (r_in, r_out)), os) \<Rightarrow>
                    if POLLNVAL r_in \<or> POLLNVAL r_out then Some (Turn_end NET_RELAY_ERROR, s, os\<lparr>os_errno := EIO\<rparr>)
                    else
                      map_option (\<lambda>(out, s, os).
                          (case out of Done True \<Rightarrow> Turn_continue | Done False \<Rightarrow> Turn_end NET_RELAY_ERROR | Blocked \<Rightarrow> Turn_blocked, s, os))
                        (net_relay_dispatch cfg socket_in socket_out r_in r_out s os))))"

section \<open>What the queue operations do\<close>

text \<open>The bytes that a trace sends to and receives from a descriptor.\<close>

definition sent_on :: "int \<Rightarrow> relay_event list \<Rightarrow> bytes" where
  "sent_on fd tr = concat (map (\<lambda>ev. case ev of Sent f d \<Rightarrow> if f = fd then d else [] | _ \<Rightarrow> []) tr)"

definition received_on :: "int \<Rightarrow> relay_event list \<Rightarrow> bytes" where
  "received_on fd tr = concat (map (\<lambda>ev. case ev of Received f d \<Rightarrow> if f = fd then d else [] | _ \<Rightarrow> []) tr)"

lemma sent_on_simps [simp]:
  "sent_on fd [] = []" "sent_on fd (tr @ tr') = sent_on fd tr @ sent_on fd tr'"
  "sent_on fd [Sent f d] = (if f = fd then d else [])" "sent_on fd [Received f d] = []" "sent_on fd [Eof f] = []"
  "sent_on fd [Shutdown f] = []" "sent_on fd [Closed f] = []"
  by (simp_all add: sent_on_def)

lemma received_on_simps [simp]:
  "received_on fd [] = []" "received_on fd (tr @ tr') = received_on fd tr @ received_on fd tr'"
  "received_on fd [Received f d] = (if f = fd then d else [])" "received_on fd [Sent f d] = []" "received_on fd [Eof f] = []"
  "received_on fd [Shutdown f] = []" "received_on fd [Closed f] = []"
  by (simp_all add: received_on_def)

definition queue_ok :: "relay_config \<Rightarrow> net_relay_queue \<Rightarrow> bool" where
  "queue_ok cfg q \<longleftrightarrow> length (q_data q) = NET_RELAY_BUFFER_BYTES cfg \<and> q_offset q \<le> q_length q \<and> q_length q \<le> NET_RELAY_BUFFER_BYTES cfg"

definition queued :: "net_relay_queue \<Rightarrow> bytes" where
  "queued q = take (q_length q - q_offset q) (drop (q_offset q) (q_data q))"

text \<open>The system after some calls: \<open>evs\<close> were recorded, replies were only consumed.\<close>

definition advance :: "relay_event set \<Rightarrow> relay_os \<Rightarrow> relay_event list \<Rightarrow> relay_os \<Rightarrow> bool" where
  "advance E os evs os' \<longleftrightarrow> trace os' = trace os @ evs \<and> set evs \<subseteq> E \<and> length (replies os') \<le> length (replies os)"

lemma advance_refl: "advance E os [] os"
  by (simp add: advance_def)

lemma advance_trans: "advance E os evs os1 \<Longrightarrow> advance E os1 evs' os2 \<Longrightarrow> advance E os (evs @ evs') os2"
  by (auto simp: advance_def)

lemma advance_mono: "advance E os evs os' \<Longrightarrow> E \<subseteq> F \<Longrightarrow> advance F os evs os'"
  by (auto simp: advance_def)

lemma sys_send_spec:
  assumes "sys_send fd buf os = (r, os')"
  shows "case r of
      Sys_ret n \<Rightarrow> n \<le> length buf \<and> advance (range (Sent fd)) os [Sent fd (take n buf)] os'
    | _ \<Rightarrow> advance (range (Sent fd)) os [] os'"
  using assms by (auto simp: sys_send_def sys_failed_def reply_next_def record_event_def advance_def
      split: list.splits os_reply.splits if_splits)

lemma sys_recv_spec:
  assumes "sys_recv fd n os = (r, os')"
  shows "case r of
      Sys_ret d \<Rightarrow> length d \<le> n \<and> advance (insert (Eof fd) (range (Received fd))) os [if d = [] then Eof fd else Received fd d] os'
    | _ \<Rightarrow> advance (insert (Eof fd) (range (Received fd))) os [] os'"
  using assms by (auto simp: sys_recv_def sys_failed_def reply_next_def record_event_def advance_def
      split: list.splits os_reply.splits if_splits)

lemma sys_clock_spec:
  assumes "sys_clock_gettime os = (r, os')"
  shows "advance E os [] os'" "r = Sys_ret t \<Longrightarrow> timeutil_valid (Some t)"
  using assms by (auto simp: sys_clock_gettime_def sys_failed_def reply_next_def advance_def split: list.splits os_reply.splits if_splits)

lemma mark_activity_spec:
  assumes "net_relay_mark_activity la os = (out, la', os')" "timeutil_valid (Some la)"
  shows "advance E os [] os'" "timeutil_valid (Some la')"
proof -
  obtain r os1 where c: "sys_clock_gettime os = (r, os1)" by (cases "sys_clock_gettime os")
  then show "advance E os [] os'" "timeutil_valid (Some la')"
    using sys_clock_spec [OF c] assms by (auto simp: net_relay_mark_activity_def split: sys.splits)
qed

lemma compact_spec:
  assumes "queue_ok cfg q"
  shows "\<exists>q'. net_relay_queue_compact q = Some q' \<and> queue_ok cfg q' \<and> queued q' = queued q \<and> q_offset q' = 0
    \<and> q_length q' = length (queued q) \<and> q_peer_eof q' = q_peer_eof q \<and> q_shutdown_sent q' = q_shutdown_sent q"
  using assms by (auto simp: net_relay_queue_compact_def queue_ok_def queued_def buf_read_def buf_write_def)

text \<open>Draining sends a prefix of the queue, in order.\<close>

definition drained :: "relay_config \<Rightarrow> int \<Rightarrow> net_relay_queue \<Rightarrow> relay_os \<Rightarrow> (outcome \<times> net_relay_queue \<times> timespec \<times> relay_os) option \<Rightarrow> bool" where
  "drained cfg fd q os res \<longleftrightarrow>
     (\<exists>out q' la' os' evs. res = Some (out, q', la', os') \<and> queue_ok cfg q' \<and> advance (range (Sent fd)) os evs os'
        \<and> sent_on fd evs @ queued q' = queued q \<and> q_peer_eof q' = q_peer_eof q \<and> q_shutdown_sent q' = q_shutdown_sent q
        \<and> timeutil_valid (Some la'))"

lemma drained_step:
  assumes "drained cfg fd q1 os1 res" "advance (range (Sent fd)) os evs os1" "sent_on fd evs @ queued q1 = queued q"
    "q_peer_eof q1 = q_peer_eof q" "q_shutdown_sent q1 = q_shutdown_sent q"
  shows "drained cfg fd q os res"
  using assms unfolding drained_def by (fastforce dest: advance_trans)

lemma drained_compact:
  assumes "queue_ok cfg q" "advance (range (Sent fd)) os [] os'" "timeutil_valid (Some la)"
  shows "drained cfg fd q os (map_option (\<lambda>q. (Done True, q, la, os')) (net_relay_queue_compact q))"
  using assms compact_spec [OF assms(1)] by (fastforce simp: drained_def)

lemma drained_return:
  assumes "queue_ok cfg q" "advance (range (Sent fd)) os [] os'" "timeutil_valid (Some la)"
  shows "drained cfg fd q os (Some (out, q, la, os'))"
  using assms by (fastforce simp: drained_def)

lemma queued_send:
  assumes "queue_ok cfg q" "n \<le> q_length q - q_offset q"
  shows "queue_ok cfg (q\<lparr>q_offset := q_offset q + n\<rparr>)" "take n (queued q) @ queued (q\<lparr>q_offset := q_offset q + n\<rparr>) = queued q"
    "buf_read (q_offset q) (q_length q - q_offset q) (q_data q) = Some (queued q)" "length (queued q) = q_length q - q_offset q"
proof -
  show "take n (queued q) @ queued (q\<lparr>q_offset := q_offset q + n\<rparr>) = queued q"
    using assms append_take_drop_id [of n "queued q"] by (simp add: queued_def drop_take add.commute)
qed (use assms in \<open>auto simp: queue_ok_def buf_read_def queued_def\<close>)

lemma drain_spec:
  assumes "queue_ok cfg q" "timeutil_valid (Some la)"
  shows "drained cfg fd q os (net_relay_queue_drain q fd la os)"
  using assms
proof (induction q fd la os rule: net_relay_queue_drain.induct)
  case (1 q fd la os)
  show ?case
  proof (cases "q_offset q < q_length q")
    case False
    then show ?thesis
      using drained_compact [OF "1.prems"(1) advance_refl "1.prems"(2)] by (simp add: net_relay_queue_drain.simps [of q])
  next
    case True
    note buf = queued_send(3) [OF "1.prems"(1) le0]
    obtain r os1 where s: "sys_send fd (queued q) os = (r, os1)" by (cases "sys_send fd (queued q) os")
    note eq = net_relay_queue_drain.simps [of q fd la os] True buf s
    note spec = sys_send_spec [OF s]
    show ?thesis
    proof (cases r)
      case Sys_none
      then show ?thesis using spec "1.prems" by (simp add: eq drained_return)
    next
      case Sys_err
      then show ?thesis
        using spec "1.prems" "1.IH"(2) [OF True buf s [symmetric] Sys_err]
        by (auto simp: eq drained_return drained_compact intro: drained_step)
    next
      case (Sys_ret n)
      define q1 where "q1 = q\<lparr>q_offset := q_offset q + n\<rparr>"
      have n: "n \<le> q_length q - q_offset q" and adv: "advance (range (Sent fd)) os [Sent fd (take n (queued q))] os1"
        using spec Sys_ret queued_send(4) [OF "1.prems"(1) le0] by simp_all
      have q1: "queue_ok cfg q1" "take n (queued q) @ queued q1 = queued q"
        using queued_send(1,2) [OF "1.prems"(1) n] by (simp_all add: q1_def)
      obtain out la1 os2 where m: "net_relay_mark_activity la os1 = (out, la1, os2)"
        by (cases "net_relay_mark_activity la os1")
      have act: "advance (range (Sent fd)) os1 [] os2" "timeutil_valid (Some la1)"
        using mark_activity_spec [OF m "1.prems"(2)] by blast+
      have step: "drained cfg fd q os res" if "drained cfg fd q1 os2 res" for res
        using drained_step [OF that, of os "[Sent fd (take n (queued q))]" q] advance_trans [OF adv act(1)] q1 by (simp add: q1_def)
      show ?thesis
      proof (cases "n = 0")
        case True
        then have "drained cfg fd q os (Some (Done False, q, la, os1))"
          using drained_step [OF drained_return [OF "1.prems"(1) advance_refl "1.prems"(2)] adv] by simp
        then show ?thesis using True Sys_ret by (simp add: eq)
      next
        case False
        have "drained cfg fd q1 os2 (if out = Done True then net_relay_queue_drain q1 fd la1 os2 else Some (out, q1, la1, os2))"
          using "1.IH"(1) [OF \<open>q_offset q < q_length q\<close> buf s [symmetric] Sys_ret _ q1_def m [symmetric] _ refl] q1(1) act(2) False
          by (auto simp: drained_return advance_refl)
        from step [OF this] show ?thesis
          using False Sys_ret m by (auto simp: eq Let_def q1_def split: outcome.splits bool.splits)
      qed
    qed
  qed
qed

text \<open>Filling appends what is received, in order, until end of file.\<close>

abbreviation receipts :: "int \<Rightarrow> relay_event set" where
  "receipts fd \<equiv> insert (Eof fd) (range (Received fd))"

definition filled :: "relay_config \<Rightarrow> int \<Rightarrow> net_relay_queue \<Rightarrow> relay_os \<Rightarrow> (outcome \<times> net_relay_queue \<times> timespec \<times> relay_os) option \<Rightarrow> bool" where
  "filled cfg fd q os res \<longleftrightarrow>
     (\<exists>out q' la' os' evs. res = Some (out, q', la', os') \<and> queue_ok cfg q' \<and> advance (receipts fd) os evs os'
        \<and> queued q' = queued q @ received_on fd evs \<and> (q_peer_eof q' \<longleftrightarrow> q_peer_eof q \<or> Eof fd \<in> set evs)
        \<and> (q_peer_eof q \<longrightarrow> evs = []) \<and> q_shutdown_sent q' = q_shutdown_sent q \<and> timeutil_valid (Some la'))"

lemma filled_step:
  assumes "filled cfg fd q1 os1 res" "advance (receipts fd) os evs os1" "queued q1 = queued q @ received_on fd evs"
    "\<not> q_peer_eof q" "q_peer_eof q1 \<longleftrightarrow> Eof fd \<in> set evs" "q_shutdown_sent q1 = q_shutdown_sent q"
  shows "filled cfg fd q os res"
proof -
  obtain out q' la' os' evs' where r: "res = Some (out, q', la', os')" "queue_ok cfg q'" "advance (receipts fd) os1 evs' os'"
      "queued q' = queued q1 @ received_on fd evs'" "q_peer_eof q' \<longleftrightarrow> q_peer_eof q1 \<or> Eof fd \<in> set evs'"
      "q_shutdown_sent q' = q_shutdown_sent q1" "timeutil_valid (Some la')"
    using assms(1) unfolding filled_def by blast
  then show ?thesis
    unfolding filled_def using assms(2-) advance_trans [OF assms(2) r(3)]
    by (intro exI [of _ out] exI [of _ q'] exI [of _ la'] exI [of _ os'] exI [of _ "evs @ evs'"]) simp
qed

lemma filled_return:
  assumes "queue_ok cfg q" "advance (receipts fd) os [] os'" "timeutil_valid (Some la)"
  shows "filled cfg fd q os (Some (out, q, la, os'))"
  using assms unfolding filled_def by fastforce

lemma queued_receive:
  assumes "queue_ok cfg q" "length d \<le> NET_RELAY_BUFFER_BYTES cfg - q_length q"
  shows "\<exists>data. buf_write (q_length q) d (q_data q) = Some data \<and> queue_ok cfg (q\<lparr>q_data := data, q_length := q_length q + length d\<rparr>)
    \<and> queued (q\<lparr>q_data := data, q_length := q_length q + length d\<rparr>) = queued q @ d"
  using assms by (auto simp: queue_ok_def buf_write_def queued_def drop_take)

lemma receive_spec:
  assumes "queue_ok cfg q" "timeutil_valid (Some la)"
  shows "filled cfg fd q os (net_relay_queue_receive cfg q fd la os)"
  using assms
proof (induction cfg q fd la os rule: net_relay_queue_receive.induct)
  case (1 cfg q fd la os)
  show ?case
  proof (cases "\<not> q_peer_eof q \<and> q_length q < NET_RELAY_BUFFER_BYTES cfg")
    case False
    then show ?thesis
      using filled_return [OF "1.prems"(1) advance_refl "1.prems"(2)] by (auto simp: net_relay_queue_receive.simps [of cfg q])
  next
    case True
    obtain r os1 where s: "sys_recv fd (NET_RELAY_BUFFER_BYTES cfg - q_length q) os = (r, os1)"
      by (cases "sys_recv fd (NET_RELAY_BUFFER_BYTES cfg - q_length q) os")
    note eq = net_relay_queue_receive.simps [of cfg q fd la os] True s
    note spec = sys_recv_spec [OF s]
    show ?thesis
    proof (cases r)
      case (Sys_ret d)
      obtain data where data: "buf_write (q_length q) d (q_data q) = Some data"
          "queue_ok cfg (q\<lparr>q_data := data, q_length := q_length q + length d\<rparr>)"
          "queued (q\<lparr>q_data := data, q_length := q_length q + length d\<rparr>) = queued q @ d"
        using queued_receive [OF "1.prems"(1), of d] spec Sys_ret by auto
      define q1 where "q1 = q\<lparr>q_data := data, q_length := q_length q + length d\<rparr>"
      have adv: "advance (receipts fd) os [if d = [] then Eof fd else Received fd d] os1"
        using spec Sys_ret by simp
      obtain out la1 os2 where m: "net_relay_mark_activity la os1 = (out, la1, os2)"
        by (cases "net_relay_mark_activity la os1")
      have act: "advance (receipts fd) os1 [] os2" "timeutil_valid (Some la1)"
        using mark_activity_spec [OF m "1.prems"(2)] by blast+
      show ?thesis
      proof (cases "d = []")
        case True
        have "queue_ok cfg (q\<lparr>q_peer_eof := True\<rparr>)" "queued (q\<lparr>q_peer_eof := True\<rparr>) = queued q"
          using "1.prems" by (simp_all add: queue_ok_def queued_def)
        then have "filled cfg fd q os (Some (Done True, q\<lparr>q_peer_eof := True\<rparr>, la, os1))"
          using filled_step [OF filled_return [OF _ advance_refl "1.prems"(2)] adv, of cfg "q\<lparr>q_peer_eof := True\<rparr>" q "Done True"] True
            \<open>\<not> q_peer_eof q \<and> _\<close> by simp
        then show ?thesis
          using Sys_ret True data(1) by (simp add: eq)
      next
        case False
        have "filled cfg fd q1 os2 (if out = Done True then net_relay_queue_receive cfg q1 fd la1 os2 else Some (out, q1, la1, os2))"
          using "1.IH" [OF True s [symmetric] Sys_ret data(1) _ q1_def m [symmetric] _ refl] data(2) act(2) False
          by (auto simp: filled_return advance_refl q1_def)
        from filled_step [OF this advance_trans [OF adv act(1)], of q]
        have "filled cfg fd q os (if out = Done True then net_relay_queue_receive cfg q1 fd la1 os2 else Some (out, q1, la1, os2))"
          using False data(3) True by (simp add: q1_def)
        then show ?thesis
          using False Sys_ret m data(1) by (auto simp: eq Let_def q1_def split: outcome.splits bool.splits)
      qed
    qed (use spec "1.prems" in \<open>auto simp: eq filled_return\<close>)
  qed
qed

lemma fill_spec:
  assumes "queue_ok cfg q" "timeutil_valid (Some la)"
  shows "filled cfg fd q os (net_relay_queue_fill cfg q fd la os)"
proof -
  obtain q1 where q1: "net_relay_queue_compact q = Some q1" "queue_ok cfg q1" "queued q1 = queued q"
      "q_peer_eof q1 = q_peer_eof q" "q_shutdown_sent q1 = q_shutdown_sent q"
    using compact_spec [OF assms(1)] by blast
  then show ?thesis
    using receive_spec [OF q1(2) assms(2), of fd os] by (simp add: net_relay_queue_fill_def filled_def)
qed

section \<open>The two directions\<close>

text \<open>
  A direction of the relay from descriptor \<open>a\<close> to \<open>b\<close>: what was sent, followed by what is queued, is what was
  pending, followed by what was received; and the half-close was passed on only after everything was sent.
\<close>

definition half_close_ok :: "bytes \<Rightarrow> int \<Rightarrow> int \<Rightarrow> relay_event list \<Rightarrow> bool" where
  "half_close_ok pre a b tr \<longleftrightarrow>
     (\<forall>i<length tr. tr ! i = Shutdown b \<longrightarrow> Eof a \<in> set (take i tr) \<and> sent_on b (take i tr) = pre @ received_on a (take i tr))"

definition direction :: "relay_config \<Rightarrow> bytes \<Rightarrow> int \<Rightarrow> int \<Rightarrow> net_relay_queue \<Rightarrow> relay_event list \<Rightarrow> bool" where
  "direction cfg pre a b q tr \<longleftrightarrow>
     queue_ok cfg q \<and> sent_on b tr @ queued q = pre @ received_on a tr \<and> (q_peer_eof q \<longleftrightarrow> Eof a \<in> set tr)
     \<and> (q_shutdown_sent q \<longrightarrow> q_peer_eof q \<and> queued q = [] \<and> Shutdown b \<in> set tr) \<and> half_close_ok pre a b tr"

definition concerns :: "int \<Rightarrow> int \<Rightarrow> relay_event set" where
  "concerns a b = receipts a \<union> range (Sent b) \<union> {Shutdown b}"

lemma half_close_snoc:
  "half_close_ok pre a b (tr @ [ev]) \<longleftrightarrow>
     half_close_ok pre a b tr \<and> (ev = Shutdown b \<longrightarrow> Eof a \<in> set tr \<and> sent_on b tr = pre @ received_on a tr)"
  by (auto simp: half_close_ok_def All_less_Suc nth_append)

lemma half_close_append: "Shutdown b \<notin> set evs \<Longrightarrow> half_close_ok pre a b (tr @ evs) \<longleftrightarrow> half_close_ok pre a b tr"
  by (induction evs rule: rev_induct) (auto simp: half_close_snoc simp flip: append_assoc)

lemma unconcerned:
  assumes "set evs \<inter> concerns a b = {}"
  shows "sent_on b evs = []" "received_on a evs = []" "Eof a \<notin> set evs" "Shutdown b \<notin> set evs"
  using assms by (auto simp: sent_on_def received_on_def concerns_def split: relay_event.splits)

lemma direction_frame:
  assumes "direction cfg pre a b q tr" "set evs \<inter> concerns a b = {}"
  shows "direction cfg pre a b q (tr @ evs)"
  using assms(1) unconcerned [OF assms(2)] by (auto simp: direction_def half_close_append)

lemma direction_drained:
  assumes "direction cfg pre a b q (trace os)" "drained cfg b q os (Some (out, q', la', os'))" "a \<noteq> b"
  shows "direction cfg pre a b q' (trace os') \<and> (\<exists>evs. advance (range (Sent b)) os evs os')"
proof -
  obtain evs where e: "queue_ok cfg q'" "advance (range (Sent b)) os evs os'" "sent_on b evs @ queued q' = queued q"
      "q_peer_eof q' = q_peer_eof q" "q_shutdown_sent q' = q_shutdown_sent q"
    using assms(2) by (auto simp: drained_def)
  moreover have "received_on a evs = []" "Eof a \<notin> set evs" "Shutdown b \<notin> set evs"
    using e(2) by (auto simp: advance_def received_on_def split: relay_event.splits)
  moreover have "trace os' = trace os @ evs"
    using e(2) by (simp add: advance_def)
  ultimately show ?thesis
    using assms(1) by (auto simp: direction_def half_close_append)
qed

lemma direction_filled:
  assumes "direction cfg pre a b q (trace os)" "filled cfg a q os (Some (out, q', la', os'))"
  shows "direction cfg pre a b q' (trace os') \<and> (\<exists>evs. advance (receipts a) os evs os')"
proof -
  obtain evs where e: "queue_ok cfg q'" "advance (receipts a) os evs os'" "queued q' = queued q @ received_on a evs"
      "q_peer_eof q' \<longleftrightarrow> q_peer_eof q \<or> Eof a \<in> set evs" "q_peer_eof q \<longrightarrow> evs = []" "q_shutdown_sent q' = q_shutdown_sent q"
    using assms(2) by (auto simp: filled_def)
  moreover have "sent_on b evs = []" "Shutdown b \<notin> set evs"
    using e(2) by (auto simp: advance_def sent_on_def split: relay_event.splits)
  moreover have "trace os' = trace os @ evs"
    using e(2) by (simp add: advance_def)
  ultimately show ?thesis
    using assms(1) by (auto simp: direction_def half_close_append)
qed

lemma direction_shutdown:
  assumes "direction cfg pre a b q (trace os)" "net_relay_shutdown_propagate q b os = (out, q', os')"
  shows "direction cfg pre a b q' (trace os') \<and> (\<exists>evs. advance {Shutdown b} os evs os')"
proof (cases "\<not> q_peer_eof q \<or> q_offset q < q_length q \<or> q_shutdown_sent q")
  case True
  then show ?thesis
    using assms by (auto simp: net_relay_shutdown_propagate_def advance_def)
next
  case False
  then have q: "queued q = []" "q_peer_eof q"
    by (simp_all add: queued_def)
  obtain r os1 where s: "sys_shutdown b os = (r, os1)" by (cases "sys_shutdown b os")
  have "trace os1 = (if r = Sys_none then trace os else trace os @ [Shutdown b])" "length (replies os1) \<le> length (replies os)"
    using s by (auto simp: sys_shutdown_def sys_failed_def reply_next_def record_event_def split: list.splits os_reply.splits)
  moreover have "direction cfg pre a b (q\<lparr>q_shutdown_sent := True\<rparr>) (trace os @ [Shutdown b])" "direction cfg pre a b q (trace os @ [Shutdown b])"
    using assms(1) q by (auto simp: direction_def half_close_snoc queue_ok_def queued_def)
  ultimately show ?thesis
    using assms s False by (auto simp: net_relay_shutdown_propagate_def advance_def split: sys.splits if_splits)
qed

text \<open>Both directions of a relay between two sockets.\<close>

definition relay_inv :: "relay_config \<Rightarrow> bytes \<Rightarrow> int \<Rightarrow> int \<Rightarrow> relay_state \<Rightarrow> relay_os \<Rightarrow> bool" where
  "relay_inv cfg pre socket_in socket_out s os \<longleftrightarrow>
     direction cfg pre socket_in socket_out (queue_c2o s) (trace os) \<and> direction cfg [] socket_out socket_in (queue_o2c s) (trace os)
     \<and> timeutil_valid (Some (last_activity s)) \<and> (\<forall>fd. Closed fd \<notin> set (trace os))"

definition pair_inv :: "relay_config \<Rightarrow> bytes \<Rightarrow> bytes \<Rightarrow> int \<Rightarrow> int \<Rightarrow> net_relay_queue \<Rightarrow> net_relay_queue \<Rightarrow> timespec \<Rightarrow> relay_os \<Rightarrow> bool" where
  "pair_inv cfg pre pre' a b q q' la os \<longleftrightarrow>
     direction cfg pre a b q (trace os) \<and> direction cfg pre' b a q' (trace os) \<and> timeutil_valid (Some la) \<and> (\<forall>fd. Closed fd \<notin> set (trace os))"

lemma relay_inv_pair:
  "relay_inv cfg pre a b s os \<longleftrightarrow> pair_inv cfg pre [] a b (queue_c2o s) (queue_o2c s) (last_activity s) os"
  by (simp add: relay_inv_def pair_inv_def)

lemma pair_inv_swap: "pair_inv cfg pre pre' a b q q' la os \<longleftrightarrow> pair_inv cfg pre' pre b a q' q la os"
  by (auto simp: pair_inv_def)

lemma pair_inv_errno [simp]: "pair_inv cfg pre pre' a b q q' la (os\<lparr>os_errno := e\<rparr>) = pair_inv cfg pre pre' a b q q' la os"
  by (simp add: pair_inv_def)

lemma pair_fill:
  assumes "pair_inv cfg pre pre' a b q q' la os" "a \<noteq> b"
  shows "\<exists>out q1 la1 os1. net_relay_queue_fill cfg q a la os = Some (out, q1, la1, os1) \<and> pair_inv cfg pre pre' a b q1 q' la1 os1
    \<and> length (replies os1) \<le> length (replies os)"
proof -
  have d: "direction cfg pre a b q (trace os)" "direction cfg pre' b a q' (trace os)" "timeutil_valid (Some la)"
    using assms(1) by (simp_all add: pair_inv_def)
  then have "queue_ok cfg q" by (simp add: direction_def)
  note f = fill_spec [OF this d(3), of a os]
  then obtain out q1 la1 os1 where r: "net_relay_queue_fill cfg q a la os = Some (out, q1, la1, os1)" "timeutil_valid (Some la1)"
    by (auto simp: filled_def)
  note f = f [unfolded r(1)]
  obtain evs where evs: "direction cfg pre a b q1 (trace os1)" "advance (receipts a) os evs os1"
    using direction_filled [OF d(1) f] by blast
  have "direction cfg pre' b a q' (trace os @ evs)"
    using evs(2) assms(2) by (intro direction_frame [OF d(2)]) (auto simp: advance_def concerns_def)
  then show ?thesis
    using r evs assms(1) by (auto simp: pair_inv_def advance_def)
qed

lemma pair_drain:
  assumes "pair_inv cfg pre pre' a b q q' la os" "a \<noteq> b"
  shows "\<exists>out q1 la1 os1. net_relay_queue_drain q' a la os = Some (out, q1, la1, os1) \<and> pair_inv cfg pre pre' a b q q1 la1 os1
    \<and> length (replies os1) \<le> length (replies os)"
proof -
  have d: "direction cfg pre a b q (trace os)" "direction cfg pre' b a q' (trace os)" "timeutil_valid (Some la)"
    using assms(1) by (simp_all add: pair_inv_def)
  then have "queue_ok cfg q'" by (simp add: direction_def)
  note f = drain_spec [OF this d(3), of a os]
  then obtain out q1 la1 os1 where r: "net_relay_queue_drain q' a la os = Some (out, q1, la1, os1)" "timeutil_valid (Some la1)"
    by (auto simp: drained_def)
  note f = f [unfolded r(1)]
  obtain evs where evs: "direction cfg pre' b a q1 (trace os1)" "advance (range (Sent a)) os evs os1"
    using direction_drained [OF d(2) f] assms(2) by blast
  have "direction cfg pre a b q (trace os @ evs)"
    using evs(2) assms(2) by (intro direction_frame [OF d(1)]) (auto simp: advance_def concerns_def)
  then show ?thesis
    using r evs assms(1) by (auto simp: pair_inv_def advance_def)
qed

lemma pair_shutdown:
  assumes "pair_inv cfg pre pre' a b q q' la os" "a \<noteq> b" "net_relay_shutdown_propagate q b os = (out, q1, os1)"
  shows "pair_inv cfg pre pre' a b q1 q' la os1 \<and> length (replies os1) \<le> length (replies os)"
proof -
  have d: "direction cfg pre a b q (trace os)" "direction cfg pre' b a q' (trace os)"
    using assms(1) by (simp_all add: pair_inv_def)
  obtain evs where evs: "direction cfg pre a b q1 (trace os1)" "advance {Shutdown b} os evs os1"
    using direction_shutdown [OF d(1) assms(3)] by blast
  have "direction cfg pre' b a q' (trace os @ evs)"
    using evs(2) assms(2) by (intro direction_frame [OF d(2)]) (auto simp: advance_def concerns_def)
  then show ?thesis
    using evs assms(1) by (auto simp: pair_inv_def advance_def)
qed

lemma pair_event:
  assumes "pair_inv cfg pre pre' a b q q' la os" "a \<noteq> b"
  shows "\<exists>out q1 q2 la1 os1. net_relay_event cfg a r q q' la os = Some (out, q1, q2, la1, os1) \<and> pair_inv cfg pre pre' a b q1 q2 la1 os1
    \<and> length (replies os1) \<le> length (replies os)"
proof -
  let ?n = "q_length q - q_offset q"
  obtain out q1 la1 os1 where f: "(if ?n < NET_RELAY_BUFFER_BYTES cfg \<and> (POLLIN r \<or> POLLRDHUP r \<or> POLLHUP r \<or> POLLERR r)
      then net_relay_queue_fill cfg q a la os else Some (Done True, q, la, os)) = Some (out, q1, la1, os1)"
      "pair_inv cfg pre pre' a b q1 q' la1 os1" "length (replies os1) \<le> length (replies os)"
    using pair_fill [OF assms] assms(1) by (cases "?n < NET_RELAY_BUFFER_BYTES cfg \<and> (POLLIN r \<or> POLLRDHUP r \<or> POLLHUP r \<or> POLLERR r)") auto
  obtain out2 q2 la2 os2 where d: "(if q_offset q' < q_length q' \<and> (POLLOUT r \<or> POLLHUP r \<or> POLLERR r)
      then net_relay_queue_drain q' a la1 os1 else Some (Done True, q', la1, os1)) = Some (out2, q2, la2, os2)"
      "pair_inv cfg pre pre' a b q1 q2 la2 os2" "length (replies os2) \<le> length (replies os1)"
    using pair_drain [OF f(2) assms(2)] f(2) by (cases "q_offset q' < q_length q' \<and> (POLLOUT r \<or> POLLHUP r \<or> POLLERR r)") auto
  show ?thesis
    unfolding net_relay_event_def Let_def f(1) using f(2,3) d by simp
qed

lemma relay_dispatch:
  assumes "relay_inv cfg pre a b s os" "a \<noteq> b"
  shows "\<exists>out s1 os1. net_relay_dispatch cfg a b r_in r_out s os = Some (out, s1, os1) \<and> relay_inv cfg pre a b s1 os1
    \<and> length (replies os1) \<le> length (replies os)"
proof -
  obtain out q1 q2 la1 os1 where e: "net_relay_event cfg a r_in (queue_c2o s) (queue_o2c s) (last_activity s) os = Some (out, q1, q2, la1, os1)"
      "pair_inv cfg pre [] a b q1 q2 la1 os1" "length (replies os1) \<le> length (replies os)"
    using pair_event [OF _ assms(2)] assms(1) unfolding relay_inv_pair by blast
  obtain out' q2' q1' la2 os2 where e': "net_relay_event cfg b r_out q2 q1 la1 os1 = Some (out', q2', q1', la2, os2)"
      "pair_inv cfg [] pre b a q2' q1' la2 os2" "length (replies os2) \<le> length (replies os1)"
    using pair_event [of cfg "[]" pre b a q2 q1 la1 os1 r_out] e(2) assms(2) pair_inv_swap by blast
  obtain o3 q3 os3 where s3: "net_relay_shutdown_propagate q1' b os2 = (o3, q3, os3)"
    by (cases "net_relay_shutdown_propagate q1' b os2")
  have p3: "pair_inv cfg pre [] a b q3 q2' la2 os3" "length (replies os3) \<le> length (replies os2)"
    using pair_shutdown [OF _ assms(2) s3] e'(2) pair_inv_swap by blast+
  obtain o4 q4 os4 where s4: "net_relay_shutdown_propagate q2' a os3 = (o4, q4, os4)"
    by (cases "net_relay_shutdown_propagate q2' a os3")
  have p4: "pair_inv cfg [] pre b a q4 q3 la2 os4" "length (replies os4) \<le> length (replies os3)"
    using pair_shutdown [OF _ _ s4] p3(1) pair_inv_swap assms(2) by blast+
  show ?thesis
    unfolding net_relay_dispatch_def Let_def e(1) relay_inv_pair using e(2,3) e' s3 s4 p3 p4 pair_inv_swap [of cfg "[]" pre b a]
    by simp
qed

lemma sys_poll_spec: "sys_poll w w' os = (r, os') \<Longrightarrow> trace os' = trace os \<and> length (replies os') \<le> length (replies os)"
  by (auto simp: sys_poll_def sys_failed_def reply_next_def split: list.splits os_reply.splits if_splits)

lemma relay_inv_trace: "relay_inv cfg pre a b s os \<Longrightarrow> trace os' = trace os \<Longrightarrow> relay_inv cfg pre a b s os'"
  by (simp add: relay_inv_def)

text \<open>A turn keeps the invariant, and a turn after which the loop goes on has consumed a reply.\<close>

lemma relay_turn:
  assumes inv: "relay_inv cfg pre a b s os" and "a \<noteq> b"
  shows "\<exists>t s1 os1. net_relay_turn cfg a b s os = Some (t, s1, os1) \<and> relay_inv cfg pre a b s1 os1
    \<and> (t = Turn_continue \<longrightarrow> length (replies os1) < length (replies os))
    \<and> (t = Turn_end NET_RELAY_CLOSED \<longrightarrow> net_relay_finished (queue_c2o s1) (queue_o2c s1))"
proof (cases "net_relay_finished (queue_c2o s) (queue_o2c s)")
  case True
  then show ?thesis
    using inv by (simp add: net_relay_turn_def Let_def)
next
  case False
  obtain r1 os1 where c: "sys_clock_gettime os = (r1, os1)" by (cases "sys_clock_gettime os")
  have tr1: "trace os1 = trace os" "length (replies os1) \<le> length (replies os)" and less: "r1 \<noteq> Sys_none \<Longrightarrow> length (replies os1) < length (replies os)"
    using sys_clock_spec(1) [OF c] sys_consume(3) [OF c] by (simp_all add: advance_def)
  let ?w = "net_relay_want cfg (queue_c2o s) (queue_o2c s)" and ?w' = "net_relay_want cfg (queue_o2c s) (queue_c2o s)"
  obtain r2 os2 where p: "sys_poll ?w ?w' os1 = (r2, os2)" by (cases "sys_poll ?w ?w' os1")
  have tr2: "trace os2 = trace os" "length (replies os2) \<le> length (replies os1)"
    using sys_poll_spec [OF p] tr1 by simp_all
  note inv1 = relay_inv_trace [OF inv tr1(1)] and inv2 = relay_inv_trace [OF inv tr2(1)]
  have inv3: "relay_inv cfg pre a b s (os2\<lparr>os_errno := EIO\<rparr>)"
    using tr2(1) by (intro relay_inv_trace [OF inv]) simp
  show ?thesis
  proof (cases "\<exists>now r_in r_out. r1 = Sys_ret now \<and> r2 = Sys_ret (Some (r_in, r_out)) \<and> \<not> POLLNVAL r_in \<and> \<not> POLLNVAL r_out
      \<and> net_relay_idle_remaining_ms cfg (last_activity s) now \<noteq> 0")
    case True
    then obtain now r_in r_out where r: "r1 = Sys_ret now" "r2 = Sys_ret (Some (r_in, r_out))" "\<not> POLLNVAL r_in" "\<not> POLLNVAL r_out"
        "net_relay_idle_remaining_ms cfg (last_activity s) now \<noteq> 0" by blast
    obtain out s3 os3 where d: "net_relay_dispatch cfg a b r_in r_out s os2 = Some (out, s3, os3)" "relay_inv cfg pre a b s3 os3"
        "length (replies os3) \<le> length (replies os2)"
      using relay_dispatch [OF inv2 assms(2)] by blast
    have "net_relay_turn cfg a b s os = Some (case out of Done True \<Rightarrow> Turn_continue | Done False \<Rightarrow> Turn_end NET_RELAY_ERROR | Blocked \<Rightarrow> Turn_blocked, s3, os3)"
      using False c p r d(1) by (simp add: net_relay_turn_def Let_def)
    then show ?thesis
      using d tr1 tr2 less r(1) by (auto split: outcome.splits bool.splits)
  next
    case other: False
    then show ?thesis
      using False c p inv1 inv2 inv3 tr2 less
      by (auto simp: net_relay_turn_def Let_def split: sys.splits option.splits)
  qed
qed

section \<open>Replies are only consumed\<close>

lemma drain_consumes:
  "net_relay_queue_drain q fd la os = Some (out, q', la', os') \<Longrightarrow> length (replies os') \<le> length (replies os)"
proof (induction q fd la os arbitrary: out q' la' os' rule: net_relay_queue_drain.induct)
  case (1 q fd la os)
  show ?case
  proof (cases "q_offset q < q_length q")
    case False
    then show ?thesis using "1.prems" by (auto simp: net_relay_queue_drain.simps [of q])
  next
    case True
    then obtain buf where buf: "buf_read (q_offset q) (q_length q - q_offset q) (q_data q) = Some buf"
      using "1.prems" by (auto simp: net_relay_queue_drain.simps [of q] bind_eq_Some_conv)
    obtain r os1 where s: "sys_send fd buf os = (r, os1)" by (cases "sys_send fd buf os")
    obtain o2 la2 os2 where m: "net_relay_mark_activity la os1 = (o2, la2, os2)" by (cases "net_relay_mark_activity la os1")
    have le: "length (replies os1) \<le> length (replies os)" "length (replies os2) \<le> length (replies os1)"
      using sys_send_spec [OF s] sys_clock_spec(1) m
      by (auto simp: advance_def net_relay_mark_activity_def split: sys.splits prod.splits)
    then show ?thesis
      using "1.prems" True buf s m "1.IH"
      by (fastforce simp: net_relay_queue_drain.simps [of q] Let_def split: sys.splits outcome.splits bool.splits if_splits)
  qed
qed

lemma receive_consumes:
  "net_relay_queue_receive cfg q fd la os = Some (out, q', la', os') \<Longrightarrow> length (replies os') \<le> length (replies os)"
proof (induction cfg q fd la os arbitrary: out q' la' os' rule: net_relay_queue_receive.induct)
  case (1 cfg q fd la os)
  obtain r os1 where s: "sys_recv fd (NET_RELAY_BUFFER_BYTES cfg - q_length q) os = (r, os1)"
    by (cases "sys_recv fd (NET_RELAY_BUFFER_BYTES cfg - q_length q) os")
  obtain o2 la2 os2 where m: "net_relay_mark_activity la os1 = (o2, la2, os2)" by (cases "net_relay_mark_activity la os1")
  have le: "length (replies os1) \<le> length (replies os)" "length (replies os2) \<le> length (replies os1)"
    using sys_recv_spec [OF s] sys_clock_spec(1) m
    by (auto simp: advance_def net_relay_mark_activity_def split: sys.splits prod.splits)
  show ?case
  proof (cases "\<not> q_peer_eof q \<and> q_length q < NET_RELAY_BUFFER_BYTES cfg")
    case False
    then show ?thesis using "1.prems" by (auto simp: net_relay_queue_receive.simps [of cfg q])
  next
    case True
    show ?thesis
    proof (cases r)
      case (Sys_ret d)
      then obtain data where data: "buf_write (q_length q) d (q_data q) = Some data"
        using "1.prems" True s by (auto simp: net_relay_queue_receive.simps [of cfg q] bind_eq_Some_conv)
      show ?thesis
        using "1.prems" True s m le Sys_ret data "1.IH" [OF True s [symmetric] Sys_ret data _ refl m [symmetric] _ refl]
        by (fastforce simp: net_relay_queue_receive.simps [of cfg q] Let_def split: outcome.splits bool.splits if_splits)
    qed (use "1.prems" True s le in \<open>auto simp: net_relay_queue_receive.simps [of cfg q] split: if_splits\<close>)
  qed
qed

lemma fill_consumes:
  "net_relay_queue_fill cfg q fd la os = Some (out, q', la', os') \<Longrightarrow> length (replies os') \<le> length (replies os)"
  using receive_consumes by (fastforce simp: net_relay_queue_fill_def bind_eq_Some_conv)

lemma shutdown_consumes:
  "net_relay_shutdown_propagate q fd os = (out, q', os') \<Longrightarrow> length (replies os') \<le> length (replies os)"
  by (auto simp: net_relay_shutdown_propagate_def sys_shutdown_def sys_failed_def reply_next_def record_event_def
      split: if_splits list.splits os_reply.splits)

lemma event_consumes:
  assumes "net_relay_event cfg fd r q q' la os = Some (out, q1, q2, la1, os1)"
  shows "length (replies os1) \<le> length (replies os)"
proof -
  define f where "f = (if q_length q - q_offset q < NET_RELAY_BUFFER_BYTES cfg \<and> (POLLIN r \<or> POLLRDHUP r \<or> POLLHUP r \<or> POLLERR r)
    then net_relay_queue_fill cfg q fd la os else Some (Done True, q, la, os))"
  obtain o' q'' la' os' where f: "f = Some (o', q'', la', os')"
    using assms by (cases f) (auto simp: net_relay_event_def simp flip: f_def)
  define d where "d = (if q_offset q' < q_length q' \<and> (POLLOUT r \<or> POLLHUP r \<or> POLLERR r)
    then net_relay_queue_drain q' fd la' os' else Some (Done True, q', la', os'))"
  have le: "length (replies os') \<le> length (replies os)"
    using f fill_consumes [of cfg q fd la os] by (auto simp: f_def split: if_splits)
  show ?thesis
  proof (cases "o' = Done True")
    case False
    then show ?thesis using assms le by (auto simp: net_relay_event_def f simp flip: f_def)
  next
    case True
    then obtain o2 q3 la2 os2 where d: "d = Some (o2, q3, la2, os2)"
      using assms by (cases d) (auto simp: net_relay_event_def f simp flip: f_def d_def)
    have "length (replies os2) \<le> length (replies os')"
      using d drain_consumes [of q' fd la' os'] by (auto simp: d_def split: if_splits)
    then show ?thesis
      using assms le True by (auto simp: net_relay_event_def f d Let_def simp flip: f_def d_def split: if_splits)
  qed
qed

lemma dispatch_consumes:
  assumes "net_relay_dispatch cfg a b r r' s os = Some (out, s1, os1)"
  shows "length (replies os1) \<le> length (replies os)"
proof -
  obtain o1 c2o o2c la' os' where e: "net_relay_event cfg a r (queue_c2o s) (queue_o2c s) (last_activity s) os = Some (o1, c2o, o2c, la', os')"
    using assms by (auto simp: net_relay_dispatch_def bind_eq_Some_conv)
  show ?thesis
  proof (cases "o1 = Done True")
    case False
    then show ?thesis using assms e event_consumes [OF e] by (auto simp: net_relay_dispatch_def)
  next
    case True
    obtain o2 o2c' c2o' la2 os2 where e2: "net_relay_event cfg b r' o2c c2o la' os' = Some (o2, o2c', c2o', la2, os2)"
      using assms e True by (auto simp: net_relay_dispatch_def bind_eq_Some_conv)
    obtain o3 q3 os3 where s3: "net_relay_shutdown_propagate c2o' b os2 = (o3, q3, os3)"
      by (cases "net_relay_shutdown_propagate c2o' b os2")
    obtain o4 q4 os4 where s4: "net_relay_shutdown_propagate o2c' a os3 = (o4, q4, os4)"
      by (cases "net_relay_shutdown_propagate o2c' a os3")
    show ?thesis
      using assms e e2 True s3 s4 event_consumes [OF e] event_consumes [OF e2] shutdown_consumes [OF s3] shutdown_consumes [OF s4]
      by (auto simp: net_relay_dispatch_def Let_def split: if_splits)
  qed
qed

lemma turn_consumes:
  assumes "net_relay_turn cfg a b s os = Some (Turn_continue, s1, os1)"
  shows "length (replies os1) < length (replies os)"
proof -
  obtain r1 os' where c: "sys_clock_gettime os = (r1, os')" by (cases "sys_clock_gettime os")
  obtain r2 os'' where p: "sys_poll (net_relay_want cfg (queue_c2o s) (queue_o2c s)) (net_relay_want cfg (queue_o2c s) (queue_c2o s)) os' = (r2, os'')"
    by fastforce
  note turn = net_relay_turn_def [of cfg a b s os] Let_def c p
  obtain now where r1: "r1 = Sys_ret now"
    using assms by (cases r1) (simp_all add: turn split: if_splits)
  have "length (replies os1) \<le> length (replies os'')"
  proof (cases r2)
    case (Sys_ret x)
    then obtain r_in r_out where "x = Some (r_in, r_out)"
      using assms r1 by (cases x) (auto simp: turn split: if_splits)
    then show ?thesis
      using assms r1 Sys_ret dispatch_consumes [of cfg a b r_in r_out s os''] by (auto simp: turn split: if_splits)
  qed (use assms r1 in \<open>auto simp: turn split: if_splits\<close>)
  then show ?thesis
    using sys_poll_spec [OF p] sys_consume(3) [OF c] r1 by simp
qed

section \<open>The whole relay\<close>

function net_relay_loop ::
  "relay_config \<Rightarrow> int \<Rightarrow> int \<Rightarrow> relay_state \<Rightarrow> relay_os \<Rightarrow> (net_relay_status option \<times> relay_os) option" where
  "net_relay_loop cfg socket_in socket_out s os =
     (case net_relay_turn cfg socket_in socket_out s os of
        None \<Rightarrow> None
      | Some (Turn_continue, s', os') \<Rightarrow> net_relay_loop cfg socket_in socket_out s' os'
      | Some (Turn_end status, s', os') \<Rightarrow> Some (Some status, os')
      | Some (Turn_blocked, s', os') \<Rightarrow> Some (None, os'))"
  by pat_completeness auto

termination
  by (relation "measure (\<lambda>(cfg, a, b, s, os). length (replies os))") (auto dest: turn_consumes)

declare net_relay_loop.simps [simp del]

text \<open>
  The calls before the loop: both flags are read before either result is looked at.
\<close>

definition net_relay_nonblocking :: "relay_os \<Rightarrow> outcome \<times> relay_os" where
  "net_relay_nonblocking os =
     (case sys_fcntl os of (Sys_none, os) \<Rightarrow> (Blocked, os) | (flags_in, os) \<Rightarrow>
     (case sys_fcntl os of (Sys_none, os) \<Rightarrow> (Blocked, os) | (flags_out, os) \<Rightarrow>
      if flags_in = Sys_err \<or> flags_out = Sys_err then (Done False, os)
      else
        (case sys_fcntl os of
           (Sys_none, os) \<Rightarrow> (Blocked, os)
         | (Sys_err, os) \<Rightarrow> (Done False, os)
         | (Sys_ret _, os) \<Rightarrow>
             (case sys_fcntl os of
                (Sys_none, os) \<Rightarrow> (Blocked, os)
              | (Sys_err, os) \<Rightarrow> (Done False, os)
              | (Sys_ret _, os) \<Rightarrow> (Done True, os)))))"

definition net_relay_cleanup :: "int \<Rightarrow> int \<Rightarrow> net_relay_status \<Rightarrow> relay_os \<Rightarrow> relay_os" where
  "net_relay_cleanup socket_in socket_out result os =
     (let cleanup_errno = os_errno os;
          os = (if socket_in \<ge> 0 then sys_close socket_in os else os);
          os = (if socket_out \<ge> 0 \<and> socket_out \<noteq> socket_in then sys_close socket_out os else os) in
      if result = NET_RELAY_ERROR then os\<lparr>os_errno := cleanup_errno\<rparr> else os)"

text \<open>The first queue starts with the bytes that the caller has already read.\<close>

definition net_relay_pending :: "relay_config \<Rightarrow> bytes option \<Rightarrow> nat \<Rightarrow> net_relay_queue option" where
  "net_relay_pending cfg pending_out pending_size =
     (let zero = net_relay_queue_zero cfg in
      if pending_size > 0 then do {
        src \<leftarrow> buf_read 0 pending_size (the pending_out);
        data \<leftarrow> buf_write 0 src (q_data zero);
        Some (zero\<lparr>q_data := data, q_length := pending_size\<rparr>)
      }
      else Some zero)"

text \<open>The body of \<open>net_relay\<close> before its cleanup: the status, or \<open>None\<close> while it waits.\<close>

definition net_relay_body ::
  "relay_config \<Rightarrow> int \<Rightarrow> int \<Rightarrow> bytes option \<Rightarrow> nat \<Rightarrow> relay_os \<Rightarrow> (net_relay_status option \<times> relay_os) option" where
  "net_relay_body cfg socket_in socket_out pending_out pending_size os =
     (if socket_in < 0 \<or> socket_out < 0 \<or> socket_in = socket_out \<or> (pending_out = None \<and> pending_size > 0)
         \<or> pending_size > NET_RELAY_BUFFER_BYTES cfg
      then Some (Some NET_RELAY_ERROR, os\<lparr>os_errno := EINVAL\<rparr>)
      else
        (case sys_clock_gettime os of
           (Sys_none, os) \<Rightarrow> Some (None, os)
         | (Sys_err, os) \<Rightarrow> Some (Some NET_RELAY_ERROR, os)
         | (Sys_ret now, os) \<Rightarrow>
             (case net_relay_nonblocking os of
                (Blocked, os) \<Rightarrow> Some (None, os)
              | (Done False, os) \<Rightarrow> Some (Some NET_RELAY_ERROR, os)
              | (Done True, os) \<Rightarrow> do {
                  c2o \<leftarrow> net_relay_pending cfg pending_out pending_size;
                  net_relay_loop cfg socket_in socket_out \<lparr>queue_c2o = c2o, queue_o2c = net_relay_queue_zero cfg, last_activity = now\<rparr> os
                })))"

definition net_relay ::
  "relay_config \<Rightarrow> int \<Rightarrow> int \<Rightarrow> bytes option \<Rightarrow> nat \<Rightarrow> relay_os \<Rightarrow> (net_relay_status option \<times> relay_os) option" where
  "net_relay cfg socket_in socket_out pending_out pending_size os =
     do {
       (result, os) \<leftarrow> net_relay_body cfg socket_in socket_out pending_out pending_size os;
       Some (case result of
               None \<Rightarrow> (None, os)
             | Some status \<Rightarrow> (Some status, net_relay_cleanup socket_in socket_out status os))
     }"

lemma loop_spec:
  assumes "relay_inv cfg pre a b s os" "a \<noteq> b"
  shows "\<exists>res s' os'. net_relay_loop cfg a b s os = Some (res, os') \<and> relay_inv cfg pre a b s' os'
    \<and> (res = Some NET_RELAY_CLOSED \<longrightarrow> net_relay_finished (queue_c2o s') (queue_o2c s'))"
  using assms
proof (induction cfg a b s os rule: net_relay_loop.induct)
  case (1 cfg a b s os)
  obtain t s1 os1 where t: "net_relay_turn cfg a b s os = Some (t, s1, os1)" "relay_inv cfg pre a b s1 os1"
      "t = Turn_end NET_RELAY_CLOSED \<longrightarrow> net_relay_finished (queue_c2o s1) (queue_o2c s1)"
    using relay_turn [OF "1.prems"] by blast
  show ?case
  proof (cases t)
    case Turn_continue
    then show ?thesis
      using t "1.IH" [of "(t, s1, os1)" t "(s1, os1)" s1 os1] "1.prems"(2) by (simp add: net_relay_loop.simps [of cfg a b s os])
  qed (use t in \<open>auto simp: net_relay_loop.simps [of cfg a b s os]\<close>)
qed

text \<open>What a direction guarantees at every moment, and when the relay has closed.\<close>

definition forwarded :: "bytes \<Rightarrow> int \<Rightarrow> int \<Rightarrow> relay_event list \<Rightarrow> bool" where
  "forwarded pre a b tr \<longleftrightarrow> prefix (sent_on b tr) (pre @ received_on a tr) \<and> half_close_ok pre a b tr"

definition completed :: "bytes \<Rightarrow> int \<Rightarrow> int \<Rightarrow> relay_event list \<Rightarrow> bool" where
  "completed pre a b tr \<longleftrightarrow> sent_on b tr = pre @ received_on a tr \<and> Eof a \<in> set tr \<and> Shutdown b \<in> set tr"

lemma direction_forwarded: "direction cfg pre a b q tr \<Longrightarrow> forwarded pre a b tr"
  by (auto simp: direction_def forwarded_def prefix_def intro: exI [of _ "queued q"] sym)

lemma direction_completed:
  "direction cfg pre a b q tr \<Longrightarrow> q_offset q = q_length q \<Longrightarrow> q_shutdown_sent q \<Longrightarrow> completed pre a b tr"
  by (auto simp: direction_def completed_def queued_def)

lemma forwarded_empty: "forwarded pre a b []"
  by (simp add: forwarded_def half_close_ok_def)

definition pending_bytes :: "bytes option \<Rightarrow> nat \<Rightarrow> bytes" where
  "pending_bytes pending_out pending_size = (case pending_out of None \<Rightarrow> [] | Some p \<Rightarrow> take pending_size p)"

definition pending_valid :: "bytes option \<Rightarrow> nat \<Rightarrow> bool" where
  "pending_valid pending_out pending_size \<longleftrightarrow> (case pending_out of None \<Rightarrow> True | Some p \<Rightarrow> pending_size \<le> length p)"

lemma queue_zero_direction: "direction cfg [] a b (net_relay_queue_zero cfg) []"
  by (simp add: direction_def net_relay_queue_zero_def queue_ok_def queued_def half_close_ok_def)

lemma queue_pending:
  assumes "pending_valid p n" "n \<le> NET_RELAY_BUFFER_BYTES cfg" "p = None \<longrightarrow> n = 0"
  shows "\<exists>q. net_relay_pending cfg p n = Some q \<and> direction cfg (pending_bytes p n) a b q []"
  using assms queue_zero_direction [of cfg a b]
  by (cases p) (auto simp: Let_def net_relay_pending_def pending_bytes_def pending_valid_def direction_def net_relay_queue_zero_def
      queue_ok_def queued_def half_close_ok_def buf_write_def buf_read_def)

lemma nonblocking_trace: "net_relay_nonblocking os = (out, os') \<Longrightarrow> trace os' = trace os"
proof -
  have f: "sys_fcntl os = (r, os') \<Longrightarrow> trace os' = trace os" for os r os'
    by (auto simp: sys_fcntl_def sys_failed_def reply_next_def split: list.splits os_reply.splits)
  show "net_relay_nonblocking os = (out, os') \<Longrightarrow> trace os' = trace os"
    by (auto simp: net_relay_nonblocking_def split: prod.splits sys.splits if_splits dest!: f)
qed

lemma body_spec:
  assumes tr: "trace os = []" and pending: "pending_valid pending_out n"
  shows "\<exists>res os'. net_relay_body cfg a b pending_out n os = Some (res, os') \<and> (\<forall>fd. Closed fd \<notin> set (trace os'))
    \<and> forwarded (pending_bytes pending_out n) a b (trace os') \<and> forwarded [] b a (trace os')
    \<and> (res = Some NET_RELAY_CLOSED \<longrightarrow> completed (pending_bytes pending_out n) a b (trace os') \<and> completed [] b a (trace os'))"
proof (cases "a < 0 \<or> b < 0 \<or> a = b \<or> (pending_out = None \<and> n > 0) \<or> n > NET_RELAY_BUFFER_BYTES cfg")
  case True
  then show ?thesis
    using tr by (auto simp: net_relay_body_def forwarded_empty)
next
  case False
  let ?pre = "pending_bytes pending_out n"
  obtain r os1 where c: "sys_clock_gettime os = (r, os1)" by (cases "sys_clock_gettime os")
  obtain out os2 where f: "net_relay_nonblocking os1 = (out, os2)" by (cases "net_relay_nonblocking os1")
  have tr': "trace os1 = []" "trace os2 = []"
    using sys_clock_spec(1) [OF c] nonblocking_trace [OF f] tr by (simp_all add: advance_def)
  obtain c2o where c2o: "net_relay_pending cfg pending_out n = Some c2o" "direction cfg ?pre a b c2o []"
    using queue_pending [OF pending, of cfg a b] False by auto
  show ?thesis
  proof (cases "\<exists>now. r = Sys_ret now \<and> out = Done True")
    case True
    then obtain now where now: "r = Sys_ret now" "out = Done True" by blast
    have "relay_inv cfg ?pre a b \<lparr>queue_c2o = c2o, queue_o2c = net_relay_queue_zero cfg, last_activity = now\<rparr> os2"
      using c2o(2) queue_zero_direction sys_clock_spec(2) [OF c now(1)] tr' by (simp add: relay_inv_def)
    from loop_spec [OF this] False obtain res s' os' where l:
      "net_relay_loop cfg a b \<lparr>queue_c2o = c2o, queue_o2c = net_relay_queue_zero cfg, last_activity = now\<rparr> os2 = Some (res, os')"
      "relay_inv cfg ?pre a b s' os'" "res = Some NET_RELAY_CLOSED \<longrightarrow> net_relay_finished (queue_c2o s') (queue_o2c s')" by blast
    then have "net_relay_body cfg a b pending_out n os = Some (res, os')"
      using False c f now c2o(1) by (auto simp: net_relay_body_def)
    then show ?thesis
      using l(2,3) by (auto simp: relay_inv_def net_relay_finished_def intro: direction_forwarded direction_completed)
  next
    case other: False
    then show ?thesis
      using False c f tr' by (auto simp: net_relay_body_def forwarded_empty split: sys.splits outcome.splits bool.splits)
  qed
qed

lemma cleanup_trace:
  "trace (net_relay_cleanup a b st os) =
     trace os @ (if a \<ge> 0 then [Closed a] else []) @ (if b \<ge> 0 \<and> b \<noteq> a then [Closed b] else [])"
  by (auto simp: net_relay_cleanup_def sys_close_def record_event_def reply_next_def Let_def split: list.splits os_reply.splits)

lemma cleanup_forwarded:
  "forwarded pre a b (trace (net_relay_cleanup c d st os)) = forwarded pre a b (trace os)"
  "completed pre a b (trace (net_relay_cleanup c d st os)) = completed pre a b (trace os)"
  by (auto simp: cleanup_trace forwarded_def completed_def half_close_append simp flip: append_assoc)

text \<open>A short conversation: pending and received bytes are forwarded, then both sides close.\<close>

definition sample_relay_config :: relay_config where
  "sample_relay_config = \<lparr>NET_RELAY_BUFFER_BYTES = 4, NET_RELAY_IDLE_TIMEOUT_SEC = 300\<rparr>"

definition sample_revents :: "bool \<Rightarrow> bool \<Rightarrow> revents" where
  "sample_revents r w = \<lparr>POLLIN = r, POLLRDHUP = False, POLLOUT = w, POLLHUP = False, POLLERR = False, POLLNVAL = False\<rparr>"

definition sample_relay_os :: relay_os where
  "sample_relay_os =
     (let clock = Rep_time \<lparr>tv_sec = 10, tv_nsec = 0\<rparr> in
      \<lparr>replies =
         [clock, Rep_ok, Rep_ok, Rep_ok, Rep_ok,
          clock, Rep_poll (sample_revents True False) (sample_revents False True), Rep_data [2, 3], clock, Rep_fail EAGAIN, Rep_count 3, clock,
          clock, Rep_poll (sample_revents True False) (sample_revents True False), Rep_data [], Rep_data [], Rep_ok, Rep_ok, Rep_ok, Rep_ok],
       trace = [], os_errno = EOTHER\<rparr>)"

section \<open>Properties\<close>

text \<open>
  C1: the relay forwards faithfully. For every behaviour of the operating system and at every moment, the bytes sent to a
  socket are a prefix, in order, of the bytes that were pending for it followed by those received from the other socket;
  a half-close is passed on only after the other side has closed and everything it sent has been delivered;
  no access leaves the queues. When the relay reports that it closed, both directions were delivered
  completely and both half-closes were passed on.
\<close>

theorem relay_forwards:
  assumes "trace os = []" "pending_valid pending_out pending_size"
  shows "\<exists>res os'. net_relay cfg socket_in socket_out pending_out pending_size os = Some (res, os')
    \<and> forwarded (pending_bytes pending_out pending_size) socket_in socket_out (trace os') \<and> forwarded [] socket_out socket_in (trace os')
    \<and> (res = Some NET_RELAY_CLOSED \<longrightarrow>
         completed (pending_bytes pending_out pending_size) socket_in socket_out (trace os') \<and> completed [] socket_out socket_in (trace os'))"
  using body_spec [OF assms, of cfg socket_in socket_out]
  by (auto simp: net_relay_def cleanup_forwarded split: option.splits)

theorem relay_forwards_witness:
  "map_option (\<lambda>(res, os'). (res, sent_on 4 (trace os'), received_on 3 (trace os'))) (net_relay sample_relay_config 3 4 (Some [1, 9]) 1 sample_relay_os)
      = Some (Some NET_RELAY_CLOSED, [1, 2, 3], [2, 3])
    \<and> (\<exists>res os'. net_relay sample_relay_config 3 4 (Some [1, 9]) 1 sample_relay_os = Some (res, os')
      \<and> forwarded (pending_bytes (Some [1, 9]) 1) 3 4 (trace os') \<and> forwarded [] 4 3 (trace os')
      \<and> (res = Some NET_RELAY_CLOSED \<longrightarrow> completed (pending_bytes (Some [1, 9]) 1) 3 4 (trace os') \<and> completed [] 4 3 (trace os')))"
proof
  show "map_option (\<lambda>(res, os'). (res, sent_on 4 (trace os'), received_on 3 (trace os'))) (net_relay sample_relay_config 3 4 (Some [1, 9]) 1 sample_relay_os)
      = Some (Some NET_RELAY_CLOSED, [1, 2, 3], [2, 3])"
    by code_simp
qed (rule relay_forwards; simp add: sample_relay_os_def Let_def pending_valid_def)

text \<open>
  C16: the relay owns its sockets. It closes both descriptors exactly once, as its last actions, on every return
  path, and none of them before.
\<close>

theorem relay_closes:
  assumes "trace os = []" "pending_valid pending_out pending_size"
  shows "\<exists>res os' tr. net_relay cfg socket_in socket_out pending_out pending_size os = Some (res, os') \<and> (\<forall>fd. Closed fd \<notin> set tr)
    \<and> trace os' = tr @ (if res = None then []
        else (if socket_in \<ge> 0 then [Closed socket_in] else []) @ (if socket_out \<ge> 0 \<and> socket_out \<noteq> socket_in then [Closed socket_out] else []))"
  using body_spec [OF assms, of cfg socket_in socket_out]
  by (auto simp: net_relay_def cleanup_trace split: option.splits)


theorem relay_closes_witness:
  "\<exists>res os' tr. net_relay sample_relay_config 3 4 (Some [1, 9]) 1 sample_relay_os = Some (res, os') \<and> (\<forall>fd. Closed fd \<notin> set tr)
    \<and> trace os' = tr @ (if res = None then []
        else (if (3::int) \<ge> 0 then [Closed 3] else []) @ (if (4::int) \<ge> 0 \<and> (4::int) \<noteq> 3 then [Closed 4] else []))"
  by (rule relay_closes; simp add: sample_relay_os_def Let_def pending_valid_def)

lemma ceiling_ms:
  fixes rn :: int
  defines "d \<equiv> (rn + 999999) div 1000000"
  shows "rn \<le> d * 1000000" "d * 1000000 < rn + 1000000"
proof -
  have "rn + 999999 = d * 1000000 + (rn + 999999) mod 1000000"
    by (simp add: d_def)
  moreover have "0 \<le> (rn + 999999) mod 1000000" "(rn + 999999) mod 1000000 < 1000000"
    by simp_all
  ultimately show "rn \<le> d * 1000000" "d * 1000000 < rn + 1000000"
    by linarith+
qed

text \<open>The last part of the computation, from the seconds and nanoseconds that remain.\<close>

lemma remaining_ms:
  fixes rs rn :: int
  assumes "0 \<le> rs" "0 \<le> rn" "rn < 1000000000" "0 < rs * 1000000000 + rn"
  defines "ms \<equiv> (if rs > 2147483647 div 1000 then 2147483647
    else (let m = rs * 1000 + (rn + 999999) div 1000000 in if m > 2147483647 then 2147483647 else m))"
  shows "0 < ms" "ms \<le> 2147483647" "ms = 2147483647 \<or> rs * 1000000000 + rn \<le> ms * 1000000" "(ms - 1) * 1000000 < rs * 1000000000 + rn"
proof -
  note c = ceiling_ms [of rn]
  show "0 < ms" "ms \<le> 2147483647" "ms = 2147483647 \<or> rs * 1000000000 + rn \<le> ms * 1000000" "(ms - 1) * 1000000 < rs * 1000000000 + rn"
    using assms(1-4) c unfolding ms_def Let_def by (simp_all split: if_splits; linarith)+
qed

text \<open>
  C37: the idle deadline is exact to the millisecond. With valid clock readings that do not go backwards, the relay
  stops waiting exactly when no byte has moved for the configured time, and otherwise it asks \<open>poll\<close> to wait at least
  as long as remains, less than a millisecond longer, unless \<open>int\<close> is too small for that; the result is an \<open>int\<close> in all cases.
\<close>

theorem idle_remaining_exact:
  assumes "relay_config_ok cfg" "timeutil_valid (Some t)" "timeutil_valid (Some now)" "nanoseconds t \<le> nanoseconds now"
  defines "remaining \<equiv> nanoseconds t + NET_RELAY_IDLE_TIMEOUT_SEC cfg * 1000000000 - nanoseconds now"
  shows "let ms = net_relay_idle_remaining_ms cfg t now in
    0 \<le> ms \<and> ms \<le> 2147483647 \<and> (ms = 0 \<longleftrightarrow> remaining \<le> 0)
    \<and> (0 < remaining \<longrightarrow> (ms = 2147483647 \<or> remaining \<le> ms * 1000000) \<and> (ms - 1) * 1000000 < remaining)"
proof -
  define borrow where "borrow = (tv_nsec now < tv_nsec t)"
  define es where "es = (if borrow then tv_sec now - tv_sec t - 1 else tv_sec now - tv_sec t)"
  define en where "en = (if borrow then tv_nsec now + 1000000000 - tv_nsec t else tv_nsec now - tv_nsec t)"
  define T where "T = NET_RELAY_IDLE_TIMEOUT_SEC cfg"
  define rs rn where "rs = (if en > 0 then T - es - 1 else T - es)" and "rn = (if en > 0 then 1000000000 - en else 0)"
  have e: "nanoseconds now - nanoseconds t = es * 1000000000 + en" "0 \<le> en" "en < 1000000000"
    using assms(2,3) by (auto simp: nanoseconds_def es_def en_def borrow_def timeutil_valid_def)
  then have "0 \<le> es" using assms(4) by linarith
  have rem: "remaining = T * 1000000000 - (es * 1000000000 + en)"
    using e(1) by (simp add: remaining_def T_def)
  have split: "(if tv_nsec now < tv_nsec t then (tv_sec now - tv_sec t - 1, tv_nsec now + 1000000000 - tv_nsec t)
      else (tv_sec now - tv_sec t, tv_nsec now - tv_nsec t)) = (es, en)"
    by (simp add: es_def en_def borrow_def)
  show ?thesis
  proof (cases "es > T \<or> es = T \<and> en > 0")
    case True
    then have "remaining \<le> 0" using rem e(2) by auto
    then show ?thesis
      using True \<open>0 \<le> es\<close> by (simp add: net_relay_idle_remaining_ms_def split flip: T_def)
  next
    case False
    have "net_relay_idle_remaining_ms cfg t now = (if rs > 2147483647 div 1000 then 2147483647
        else (let m = rs * 1000 + (rn + 999999) div 1000000 in if m > 2147483647 then 2147483647 else m))"
      using False \<open>0 \<le> es\<close> by (auto simp: net_relay_idle_remaining_ms_def split rs_def rn_def Let_def simp flip: T_def)
    moreover have "0 \<le> rs" "0 \<le> rn" "rn < 1000000000" "remaining = rs * 1000000000 + rn"
      using False e(2,3) rem by (auto simp: rs_def rn_def)
    ultimately show ?thesis
      using remaining_ms [of rs rn] False by (cases "0 < remaining") (auto simp: Let_def)
  qed
qed

theorem idle_remaining_exact_witness:
  "net_relay_idle_remaining_ms sample_relay_config \<lparr>tv_sec = 10, tv_nsec = 999999999\<rparr> \<lparr>tv_sec = 11, tv_nsec = 500\<rparr> = 300000
    \<and> (let ms = net_relay_idle_remaining_ms sample_relay_config \<lparr>tv_sec = 10, tv_nsec = 999999999\<rparr> \<lparr>tv_sec = 11, tv_nsec = 500\<rparr>;
          remaining = nanoseconds \<lparr>tv_sec = 10, tv_nsec = 999999999\<rparr> + NET_RELAY_IDLE_TIMEOUT_SEC sample_relay_config * 1000000000
            - nanoseconds \<lparr>tv_sec = 11, tv_nsec = 500\<rparr> in
      0 \<le> ms \<and> ms \<le> 2147483647 \<and> (ms = 0 \<longleftrightarrow> remaining \<le> 0)
      \<and> (0 < remaining \<longrightarrow> (ms = 2147483647 \<or> remaining \<le> ms * 1000000) \<and> (ms - 1) * 1000000 < remaining))"
  using idle_remaining_exact [of sample_relay_config "\<lparr>tv_sec = 10, tv_nsec = 999999999\<rparr>" "\<lparr>tv_sec = 11, tv_nsec = 500\<rparr>"]
  by (simp add: Let_def relay_config_ok_def sample_relay_config_def timeutil_valid_def nanoseconds_def) (simp add: net_relay_idle_remaining_ms_def)

end
