(* ===== verification/Hosts.thy ===== *)
theory Hosts
  imports Network Resolver_Util
begin

text \<open>
  The static host table (\<open>src/resolver/hosts.c\<close>): parsing of a hosts file into records, the guaranteed
  localhost records, and lookup.

  C strings are their contents up to the terminator. A file is its remaining bytes and whether reading
  past them fails instead of reporting the end of file. The outcomes of the growing \<open>realloc\<close> calls are a
  parameter indexed by the number of elements asked for, since no size is asked for twice.
\<close>

section \<open>Types\<close>

definition HOSTS_LINE_SIZE :: nat where "HOSTS_LINE_SIZE = 8192"
definition HOSTS_NAME_SIZE :: nat where "HOSTS_NAME_SIZE = 256"
definition HOSTS_RECORD_LIMIT :: nat where "HOSTS_RECORD_LIMIT = 16384"

record hosts_record =
  hr_address :: net_addr
  hr_name :: bytes

datatype hosts_record_add_status = HOSTS_RECORD_ADD_OK | HOSTS_RECORD_ADD_LIMIT | HOSTS_RECORD_ADD_MEMORY

datatype hosts_load_status =
    HOSTS_LOAD_OK
  | HOSTS_LOAD_FILE_ERROR
  | HOSTS_LOAD_LIMIT
  | HOSTS_LOAD_MEMORY
  | HOSTS_LOAD_BAD_ARGUMENT

datatype hosts_lookup_status =
    HOSTS_LOOKUP_OK
  | HOSTS_LOOKUP_NOT_FOUND
  | HOSTS_LOOKUP_MEMORY
  | HOSTS_LOOKUP_BAD_ARGUMENT

text \<open>The array of records is the list of those in use; \<open>ht_allocated\<close> tells whether its pointer is set.\<close>

record hosts_table =
  ht_capacity :: nat
  ht_records :: "hosts_record list"
  ht_allocated :: bool

definition hosts_table_zero :: hosts_table where
  "hosts_table_zero = \<lparr>ht_capacity = 0, ht_records = [], ht_allocated = False\<rparr>"

section \<open>Addresses and names\<close>

definition hosts_address_equal :: "net_addr \<Rightarrow> net_addr \<Rightarrow> bool" where
  "hosts_address_equal l r \<longleftrightarrow>
     (if addr_family l \<noteq> addr_family r then False
      else if addr_family l = AF_INET then take 4 (addr_bytes l) = take 4 (addr_bytes r)
      else addr_family l = AF_INET6 \<and> take 16 (addr_bytes l) = take 16 (addr_bytes r))"

definition loopback6 :: bytes where
  "loopback6 = replicate 15 0 @ [1]"

definition hosts_address_is_loopback :: "net_addr \<Rightarrow> bool" where
  "hosts_address_is_loopback a \<longleftrightarrow>
     (if addr_family a = AF_INET then addr_bytes a ! 0 = 127
      else if addr_family a = AF_INET6 then take 16 (addr_bytes a) = loopback6
      else False)"

definition isspace :: "u8 \<Rightarrow> bool" where
  "isspace c \<longleftrightarrow> c = 0x20 \<or> (0x09 \<le> c \<and> c \<le> 0x0D)"

definition hosts_name_normalize :: "bytes option \<Rightarrow> nat \<Rightarrow> bytes option" where
  "hosts_name_normalize source capacity =
     (case source of
        None \<Rightarrow> None
      | Some s \<Rightarrow>
          if capacity = 0 then None
          else
            (let source_size = length s;
                 source_size = (if source_size > 0 \<and> s ! (source_size - 1) = 0x2E then source_size - 1 else source_size) in
             if source_size = 0 \<or> source_size \<ge> capacity \<or> (source_size > 0 \<and> s ! (source_size - 1) = 0x2E) then None
             else if list_ex (\<lambda>c. isspace c \<or> c = 0x23) (take source_size s) then None
             else Some (map lower_char (take source_size s))))"

section \<open>Records\<close>

definition hosts_record_add ::
  "(nat \<Rightarrow> bool) \<Rightarrow> hosts_table \<Rightarrow> bytes \<Rightarrow> net_addr \<Rightarrow> hosts_table \<times> hosts_record_add_status" where
  "hosts_record_add alloc t name a =
     (if list_ex (\<lambda>r. hr_name r = name \<and> hosts_address_equal (hr_address r) a) (ht_records t) then (t, HOSTS_RECORD_ADD_OK)
      else if length (ht_records t) = HOSTS_RECORD_LIMIT then (t, HOSTS_RECORD_ADD_LIMIT)
      else
        (let new_record = \<lparr>hr_address = a, hr_name = take (HOSTS_NAME_SIZE - 1) name\<rparr> in
         if length (ht_records t) = ht_capacity t then
           (let capacity = (if ht_capacity t = 0 then 16 else ht_capacity t * 2);
                capacity = (if capacity > HOSTS_RECORD_LIMIT then HOSTS_RECORD_LIMIT else capacity) in
            if \<not> alloc capacity then (t, HOSTS_RECORD_ADD_MEMORY)
            else (t\<lparr>ht_capacity := capacity, ht_allocated := True, ht_records := ht_records t @ [new_record]\<rparr>, HOSTS_RECORD_ADD_OK))
         else (t\<lparr>ht_records := ht_records t @ [new_record]\<rparr>, HOSTS_RECORD_ADD_OK)))"

definition localhost_name :: bytes where
  "localhost_name = [0x6C, 0x6F, 0x63, 0x61, 0x6C, 0x68, 0x6F, 0x73, 0x74]"

definition localhost_v4_text :: bytes where
  "localhost_v4_text = [0x31, 0x32, 0x37, 0x2E, 0x30, 0x2E, 0x30, 0x2E, 0x31]"

definition localhost_v6_text :: bytes where
  "localhost_v6_text = [0x3A, 0x3A, 0x31]"

definition hosts_have_loopback :: "sa_family \<Rightarrow> hosts_table \<Rightarrow> bool" where
  "hosts_have_loopback family t \<longleftrightarrow>
     list_ex (\<lambda>r. hr_name r = localhost_name \<and> hosts_address_is_loopback (hr_address r) \<and> addr_family (hr_address r) = family)
       (ht_records t)"

definition hosts_table_fallback_add :: "inet \<Rightarrow> (nat \<Rightarrow> bool) \<Rightarrow> hosts_table \<Rightarrow> (hosts_table \<times> hosts_record_add_status) option" where
  "hosts_table_fallback_add i alloc t =
     (let have_ipv4 = hosts_have_loopback AF_INET t; have_ipv6 = hosts_have_loopback AF_INET6 t in
      do {
        (t, status) \<leftarrow>
          (if \<not> have_ipv4 then do {
             a \<leftarrow> net_addr_parse i (Some (localhost_v4_text @ [0]));
             Some (hosts_record_add alloc t localhost_name a)
           }
           else Some (t, HOSTS_RECORD_ADD_OK));
        if status \<noteq> HOSTS_RECORD_ADD_OK then Some (t, status)
        else if \<not> have_ipv6 then do {
          a \<leftarrow> net_addr_parse i (Some (localhost_v6_text @ [0]));
          Some (hosts_record_add alloc t localhost_name a)
        }
        else Some (t, HOSTS_RECORD_ADD_OK)
      })"

section \<open>Parsing\<close>

text \<open>
  A word of the line and the cursor behind it: the word's terminating space has been overwritten and skipped.
\<close>

definition word_at :: "bytes \<Rightarrow> bytes \<times> bytes" where
  "word_at cursor = (takeWhile (\<lambda>c. \<not> isspace c) cursor, drop 1 (dropWhile (\<lambda>c. \<not> isspace c) cursor))"

lemma word_at_shorter:
  assumes "dropWhile isspace cursor = c # rest" "(w, cursor') = word_at (c # rest)"
  shows "length cursor' < length cursor"
proof -
  have "length (c # rest) \<le> length cursor"
    using length_dropWhile_le [of isspace cursor] by (simp add: assms(1))
  moreover have "length (dropWhile (\<lambda>c. \<not> isspace c) (c # rest)) \<le> length (c # rest)"
    by (rule length_dropWhile_le)
  moreover have "length cursor' = length (dropWhile (\<lambda>c. \<not> isspace c) (c # rest)) - 1"
    using assms(2) by (simp add: word_at_def)
  ultimately show ?thesis by simp
qed

function hosts_table_parse_names ::
  "(nat \<Rightarrow> bool) \<Rightarrow> net_addr \<Rightarrow> hosts_table \<Rightarrow> bytes \<Rightarrow> bool \<Rightarrow> bool \<Rightarrow> hosts_table \<times> hosts_record_add_status \<times> bool \<times> bool" where
  "hosts_table_parse_names alloc a t cursor line_malformed name_found =
     (case dropWhile isspace cursor of
        [] \<Rightarrow> (t, HOSTS_RECORD_ADD_OK, line_malformed, name_found)
      | c # rest \<Rightarrow>
          (let (name_text, cursor') = word_at (c # rest) in
           case hosts_name_normalize (Some name_text) HOSTS_NAME_SIZE of
             None \<Rightarrow> hosts_table_parse_names alloc a t cursor' True True
           | Some name \<Rightarrow>
               if name = localhost_name \<and> \<not> hosts_address_is_loopback a
               then hosts_table_parse_names alloc a t cursor' True True
               else
                 (let (t', status) = hosts_record_add alloc t name a in
                  if status \<noteq> HOSTS_RECORD_ADD_OK then (t', status, line_malformed, True)
                  else hosts_table_parse_names alloc a t' cursor' line_malformed True)))"
  by pat_completeness auto

termination
  by (relation "measure (\<lambda>(alloc, a, t, cursor, m, f). length cursor)") (auto intro: word_at_shorter)

definition hosts_table_parse_line ::
  "inet \<Rightarrow> (nat \<Rightarrow> bool) \<Rightarrow> hosts_table \<Rightarrow> bytes \<Rightarrow> nat \<Rightarrow> (hosts_table \<times> hosts_record_add_status \<times> nat) option" where
  "hosts_table_parse_line i alloc t line malformed_line_count =
     (case dropWhile isspace (takeWhile (\<lambda>c. c \<noteq> 0x23) line) of
        [] \<Rightarrow> Some (t, HOSTS_RECORD_ADD_OK, malformed_line_count)
      | c # rest \<Rightarrow> do {
          let (address_text, cursor) = word_at (c # rest);
          a \<leftarrow> net_addr_parse i (Some (address_text @ [0]));
          if addr_family a = AF_UNSPEC then Some (t, HOSTS_RECORD_ADD_OK, malformed_line_count + 1)
          else
            (let (t, status, line_malformed, name_found) = hosts_table_parse_names alloc a t cursor False False in
             if status \<noteq> HOSTS_RECORD_ADD_OK then Some (t, status, malformed_line_count)
             else Some (t, HOSTS_RECORD_ADD_OK, if \<not> name_found \<or> line_malformed then malformed_line_count + 1 else malformed_line_count))
        })"

section \<open>Reading\<close>

record hosts_file =
  hf_contents :: bytes
  hf_error :: bool

text \<open>
  \<open>fgets\<close>: at most \<open>n - 1\<close> bytes, up to and including the first newline. The result is the bytes stored, the rest of the
  file, and whether its end was met; \<open>None\<close> is a null result (nothing left, or a read error).
\<close>

definition fgets :: "nat \<Rightarrow> hosts_file \<Rightarrow> (bytes \<times> hosts_file \<times> bool) option" where
  "fgets n f =
     (let window = take (n - 1) (hf_contents f);
          line = takeWhile (\<lambda>c. c \<noteq> 0x0A) window in
      if length line < length window
      then Some (line @ [0x0A], f\<lparr>hf_contents := drop (length line + 1) (hf_contents f)\<rparr>, False)
      else if length window = n - 1 then Some (line, f\<lparr>hf_contents := drop (length line) (hf_contents f)\<rparr>, False)
      else if hf_error f \<or> line = [] then None
      else Some (line, f\<lparr>hf_contents := []\<rparr>, True))"

text \<open>The rest of an overlong line is skipped; the argument is what follows the first byte read ahead.\<close>

definition skip_line :: "bytes \<Rightarrow> bytes" where
  "skip_line contents = drop 1 (dropWhile (\<lambda>c. c \<noteq> 0x0A) contents)"

lemma fgets_shorter: "fgets n f = Some (line, f', e) \<Longrightarrow> 1 < n \<Longrightarrow> length (hf_contents f') < length (hf_contents f)"
  by (auto simp: fgets_def Let_def split: if_splits)

lemma skip_line_le: "length (skip_line cs) \<le> length cs"
  using length_dropWhile_le [of "\<lambda>c. c \<noteq> 0x0A" cs] by (simp add: skip_line_def)

function hosts_table_read ::
  "inet \<Rightarrow> (nat \<Rightarrow> bool) \<Rightarrow> hosts_file \<Rightarrow> hosts_table \<Rightarrow> nat \<Rightarrow> (hosts_table \<times> hosts_load_status \<times> nat) option" where
  "hosts_table_read i alloc f t malformed_line_count =
     (case fgets HOSTS_LINE_SIZE f of
        None \<Rightarrow> Some (t, if hf_error f then HOSTS_LOAD_FILE_ERROR else HOSTS_LOAD_OK, malformed_line_count)
      | Some (line, f', at_end) \<Rightarrow>
          if 0x0A \<notin> set (cstr line) \<and> \<not> at_end \<and> hf_contents f' \<noteq> []
          then hosts_table_read i alloc (f'\<lparr>hf_contents := skip_line (hf_contents f')\<rparr>) t (malformed_line_count + 1)
          else if 0x0A \<notin> set (cstr line) \<and> \<not> at_end \<and> hf_error f
          then Some (t, HOSTS_LOAD_FILE_ERROR, malformed_line_count)
          else
            (case hosts_table_parse_line i alloc t (cstr line) malformed_line_count of
               None \<Rightarrow> None
             | Some (t, status, malformed_line_count) \<Rightarrow>
                 (case status of
                    HOSTS_RECORD_ADD_LIMIT \<Rightarrow> Some (t, HOSTS_LOAD_LIMIT, malformed_line_count)
                  | HOSTS_RECORD_ADD_MEMORY \<Rightarrow> Some (t, HOSTS_LOAD_MEMORY, malformed_line_count)
                  | HOSTS_RECORD_ADD_OK \<Rightarrow> hosts_table_read i alloc f' t malformed_line_count)))"
  by pat_completeness auto

termination
  by (relation "measure (\<lambda>(i, alloc, f, t, m). length (hf_contents f))")
    (auto dest!: fgets_shorter simp: HOSTS_LINE_SIZE_def intro: le_less_trans [OF skip_line_le])

declare hosts_table_parse_names.simps [simp del] hosts_table_read.simps [simp del]

section \<open>Exported operations\<close>

text \<open>
  \<open>hosts_table_load\<close>: the arguments tell whether the file name, the result pointer and the counter are usable, whether the first
  allocation succeeds, the opened file (\<open>None\<close> when \<open>fopen\<close> fails) and whether closing it succeeds. The result is the status, the
  table handed to the caller and the counter (\<open>None\<close>: not written).
\<close>

definition hosts_table_load ::
  "inet \<Rightarrow> (nat \<Rightarrow> bool) \<Rightarrow> bool \<Rightarrow> bool \<Rightarrow> hosts_file option \<Rightarrow> bool \<Rightarrow> (hosts_load_status \<times> hosts_table option \<times> nat option) option" where
  "hosts_table_load i alloc args_ok calloc_ok file close_ok =
     (if \<not> args_ok then Some (HOSTS_LOAD_BAD_ARGUMENT, None, None)
      else if \<not> calloc_ok then Some (HOSTS_LOAD_MEMORY, None, Some 0)
      else do {
        (t, status, malformed_line_count) \<leftarrow>
          (case file of
             None \<Rightarrow> Some (hosts_table_zero, HOSTS_LOAD_FILE_ERROR, 0)
           | Some f \<Rightarrow> do {
               (t, status, n) \<leftarrow> hosts_table_read i alloc f hosts_table_zero 0;
               Some (t, if \<not> close_ok \<and> status = HOSTS_LOAD_OK then HOSTS_LOAD_FILE_ERROR else status, n)
             });
        (if status \<noteq> HOSTS_LOAD_OK \<and> status \<noteq> HOSTS_LOAD_FILE_ERROR then Some (status, None, Some malformed_line_count)
         else do {
           let (t, malformed_line_count) =
             (if status = HOSTS_LOAD_FILE_ERROR then (hosts_table_zero, 0) else (t, malformed_line_count));
           (t, fallback_status) \<leftarrow> hosts_table_fallback_add i alloc t;
           if fallback_status \<noteq> HOSTS_RECORD_ADD_OK
           then Some (if fallback_status = HOSTS_RECORD_ADD_LIMIT then HOSTS_LOAD_LIMIT else HOSTS_LOAD_MEMORY, None, Some malformed_line_count)
           else Some (status, Some t, Some malformed_line_count)
         })
      })"

text \<open>The loop of \<open>hosts_table_lookup\<close>; the addresses found so far are the result array, \<open>None\<close> an allocation failure.\<close>

fun hosts_lookup_loop :: "(nat \<Rightarrow> bool) \<Rightarrow> bytes \<Rightarrow> net_addr list \<Rightarrow> hosts_record list \<Rightarrow> net_addr list option" where
  "hosts_lookup_loop alloc name found [] = Some found"
| "hosts_lookup_loop alloc name found (r # rs) =
     (if hr_name r \<noteq> name then hosts_lookup_loop alloc name found rs
      else if list_ex (\<lambda>a. hosts_address_equal a (hr_address r)) found then hosts_lookup_loop alloc name found rs
      else if \<not> alloc (length found + 1) then None
      else hosts_lookup_loop alloc name (found @ [hr_address r]) rs)"

definition hosts_table_lookup ::
  "(nat \<Rightarrow> bool) \<Rightarrow> hosts_table option \<Rightarrow> bytes option \<Rightarrow> bool \<Rightarrow> hosts_lookup_status \<times> net_addr list" where
  "hosts_table_lookup alloc table hostname result_empty =
     (case table of
        None \<Rightarrow> (HOSTS_LOOKUP_BAD_ARGUMENT, [])
      | Some t \<Rightarrow>
          if hostname = None \<or> \<not> result_empty then (HOSTS_LOOKUP_BAD_ARGUMENT, [])
          else
            (case hosts_name_normalize hostname HOSTS_NAME_SIZE of
               None \<Rightarrow> (HOSTS_LOOKUP_BAD_ARGUMENT, [])
             | Some name \<Rightarrow>
                 (case hosts_lookup_loop alloc name [] (ht_records t) of
                    None \<Rightarrow> (HOSTS_LOOKUP_MEMORY, [])
                  | Some found \<Rightarrow> (if found = [] then HOSTS_LOOKUP_NOT_FOUND else HOSTS_LOOKUP_OK, found))))"

definition hosts_table_clone :: "bool \<Rightarrow> bool \<Rightarrow> hosts_table option \<Rightarrow> bool \<Rightarrow> hosts_table option" where
  "hosts_table_clone calloc_ok malloc_records_ok source result_ok =
     (case source of
        None \<Rightarrow> None
      | Some s \<Rightarrow>
          if \<not> result_ok \<or> length (ht_records s) > ht_capacity s \<or> ht_capacity s > HOSTS_RECORD_LIMIT
             \<or> (\<not> ht_allocated s) \<noteq> (ht_capacity s = 0)
          then None
          else if \<not> calloc_ok then None
          else if length (ht_records s) > 0 then
            (if \<not> malloc_records_ok then None
             else Some \<lparr>ht_capacity = length (ht_records s), ht_records = ht_records s, ht_allocated = True\<rparr>)
          else Some hosts_table_zero)"

section \<open>The table invariant\<close>

lemma lower_char_ge: "0x41 \<le> c \<Longrightarrow> c \<le> 0x5A \<Longrightarrow> unat (lower_char c) = unat c + 32"
  by (simp add: lower_char_def word_le_nat_alt unat_word_ariths unat_sub)

lemma lower_char_space: "isspace (lower_char c) \<longleftrightarrow> isspace c" "lower_char c = 0x23 \<longleftrightarrow> c = 0x23"
proof -
  have "\<not> isspace (lower_char c) \<and> \<not> isspace c \<and> lower_char c \<noteq> 0x23 \<and> c \<noteq> 0x23" if "0x41 \<le> c" "c \<le> 0x5A"
    using lower_char_ge [OF that] that by (auto simp: isspace_def word_le_nat_alt)
  then show "isspace (lower_char c) \<longleftrightarrow> isspace c" "lower_char c = 0x23 \<longleftrightarrow> c = 0x23"
    by (cases "0x41 \<le> c \<and> c \<le> 0x5A"; auto simp: lower_char_def)+
qed

lemma hosts_name_normalize_length: "hosts_name_normalize (Some s) n = Some m \<Longrightarrow> length m < n"
  by (auto simp: hosts_name_normalize_def Let_def split: if_splits)

lemma hosts_name_normalize_idem:
  assumes "hosts_name_normalize (Some s) n = Some m"
  shows "hosts_name_normalize (Some m) n = Some m"
proof -
  define k where "k = (if length s > 0 \<and> s ! (length s - 1) = 0x2E then length s - 1 else length s)"
  define u where "u = take k s"
  have k: "0 < k" "k < n" "k \<le> length s" "s ! (k - 1) \<noteq> 0x2E" "\<not> list_ex (\<lambda>c. isspace c \<or> c = 0x23) u" "m = map lower_char u"
    using assms by (auto simp: hosts_name_normalize_def Let_def k_def u_def split: if_splits)
  then have "u \<noteq> []" "length u = k"
    by (auto simp: u_def)
  then have u: "u \<noteq> []" "length u < n" "last u \<noteq> 0x2E"
    using k by (auto simp: last_conv_nth u_def)
  note u = u k(5,6)
  have "last m \<noteq> 0x2E" "\<not> list_ex (\<lambda>c. isspace c \<or> c = 0x23) m" "map lower_char m = m"
    using u by (simp_all add: last_map lower_char_eq_dot list_ex_iff lower_char_space lower_char_idem)
  then show ?thesis
    using u by (simp add: hosts_name_normalize_def Let_def last_conv_nth)
qed

definition hosts_inv :: "hosts_table \<Rightarrow> bool" where
  "hosts_inv t \<longleftrightarrow>
     length (ht_records t) \<le> ht_capacity t \<and> ht_capacity t \<le> HOSTS_RECORD_LIMIT \<and> (ht_allocated t \<longleftrightarrow> ht_capacity t \<noteq> 0)
     \<and> (\<forall>r\<in>set (ht_records t). addr_family (hr_address r) \<in> {AF_INET, AF_INET6} \<and> length (addr_bytes (hr_address r)) = 16
          \<and> hosts_name_normalize (Some (hr_name r)) HOSTS_NAME_SIZE = Some (hr_name r)
          \<and> (hr_name r = localhost_name \<longrightarrow> hosts_address_is_loopback (hr_address r)))
     \<and> sorted_wrt (\<lambda>r s. \<not> (hr_name r = hr_name s \<and> hosts_address_equal (hr_address r) (hr_address s))) (ht_records t)"

lemma hosts_inv_zero: "hosts_inv hosts_table_zero"
  by (simp add: hosts_inv_def hosts_table_zero_def)

lemma record_add_inv:
  assumes inv: "hosts_inv t" and res: "hosts_record_add alloc t name a = (t', status)"
    and name: "hosts_name_normalize (Some name) HOSTS_NAME_SIZE = Some name"
    and a: "addr_family a \<in> {AF_INET, AF_INET6}" "length (addr_bytes a) = 16" "name = localhost_name \<longrightarrow> hosts_address_is_loopback a"
  shows "hosts_inv t' \<and> (\<exists>rs. ht_records t' = ht_records t @ rs)
    \<and> (status = HOSTS_RECORD_ADD_OK \<longrightarrow> list_ex (\<lambda>r. hr_name r = name \<and> hosts_address_equal (hr_address r) a) (ht_records t'))"
proof -
  have len: "length name < HOSTS_NAME_SIZE"
    using name by (rule hosts_name_normalize_length)
  have eq: "hosts_address_equal a a"
    using a(1) by (auto simp: hosts_address_equal_def)
  show ?thesis
  proof (cases "list_ex (\<lambda>r. hr_name r = name \<and> hosts_address_equal (hr_address r) a) (ht_records t)")
    case True
    then show ?thesis using res inv by (simp add: hosts_record_add_def)
  next
    case False
    have take: "take (HOSTS_NAME_SIZE - 1) name = name"
      using len by simp
    have ok: "sorted_wrt (\<lambda>r s. \<not> (hr_name r = hr_name s \<and> hosts_address_equal (hr_address r) (hr_address s)))
        (ht_records t @ [\<lparr>hr_address = a, hr_name = name\<rparr>])"
      using inv False by (auto simp: hosts_inv_def sorted_wrt_append list_ex_iff)
    show ?thesis
      using res inv False ok a name eq unfolding hosts_record_add_def take
      by (auto simp: hosts_inv_def HOSTS_RECORD_LIMIT_def Let_def split: if_splits)
  qed
qed

text \<open>Parsing keeps the invariant and only appends records.\<close>

definition extends :: "hosts_table \<Rightarrow> hosts_table \<Rightarrow> bool" where
  "extends t t' \<longleftrightarrow> hosts_inv t' \<and> (\<exists>rs. ht_records t' = ht_records t @ rs)"

lemma extends_trans: "extends t t' \<Longrightarrow> extends t' t'' \<Longrightarrow> extends t t''"
  by (auto simp: extends_def)

lemma parse_names_inv:
  assumes "hosts_inv t" "hosts_table_parse_names alloc a t cursor m f = (t', status, m', f')"
    and "addr_family a \<in> {AF_INET, AF_INET6}" "length (addr_bytes a) = 16"
  shows "extends t t'"
  using assms
proof (induction alloc a t cursor m f arbitrary: t' status m' f' rule: hosts_table_parse_names.induct)
  case (1 alloc a t cursor m f)
  note eq = hosts_table_parse_names.simps [of alloc a t cursor m f]
  show ?case
  proof (cases "dropWhile isspace cursor")
    case Nil
    show ?thesis using "1.prems" by (simp add: eq Nil extends_def)
  next
    case (Cons c rest)
    obtain w cursor' where w: "word_at (c # rest) = (w, cursor')" by (cases "word_at (c # rest)")
    show ?thesis
    proof (cases "hosts_name_normalize (Some w) HOSTS_NAME_SIZE")
      case None
      then show ?thesis
        using "1.prems" "1.IH"(1) [OF Cons refl w [symmetric] None] by (simp add: eq Cons w)
    next
      case (Some name)
      show ?thesis
      proof (cases "name = localhost_name \<and> \<not> hosts_address_is_loopback a")
        case True
        then show ?thesis
          using "1.prems" Some "1.IH"(2) [OF Cons refl w [symmetric] Some True] by (simp add: eq Cons w)
      next
        case False
        obtain t1 st where r: "hosts_record_add alloc t name a = (t1, st)" by (cases "hosts_record_add alloc t name a")
        have "extends t t1"
          using record_add_inv [OF "1.prems"(1) r hosts_name_normalize_idem [OF Some] "1.prems"(3,4)] False by (simp add: extends_def)
        then show ?thesis
          using "1.prems" "1.IH"(3) [OF Cons refl w [symmetric] Some False r [symmetric]] r False
          by (auto simp: eq Cons w Some extends_def split: if_splits)
      qed
    qed
  qed
qed

lemma parse_line_inv:
  assumes "hosts_inv t" "inet_contract i"
  shows "\<exists>t' st n'. hosts_table_parse_line i alloc t line n = Some (t', st, n') \<and> extends t t'"
proof (cases "dropWhile isspace (takeWhile (\<lambda>c. c \<noteq> 0x23) line)")
  case Nil
  show ?thesis using assms(1) by (simp add: hosts_table_parse_line_def Nil extends_def)
next
  case (Cons c rest)
  obtain w cursor where w: "word_at (c # rest) = (w, cursor)" by (cases "word_at (c # rest)")
  obtain a where a: "net_addr_parse i (Some (w @ [0])) = Some a" "length (addr_bytes a) = 16" "addr_family a \<in> {AF_INET, AF_INET6, AF_UNSPEC}"
    using net_addr_parse_terminated [OF assms(2)] by blast
  show ?thesis
  proof (cases "addr_family a = AF_UNSPEC")
    case True
    then show ?thesis using assms(1) a(1) by (simp add: hosts_table_parse_line_def Cons w extends_def)
  next
    case False
    obtain t' st m f where p: "hosts_table_parse_names alloc a t cursor False False = (t', st, m, f)"
      by (cases "hosts_table_parse_names alloc a t cursor False False")
    have "extends t t'"
      using parse_names_inv [OF assms(1) p] a False by auto
    then show ?thesis
      using False a(1) p by (simp add: hosts_table_parse_line_def Cons w)
  qed
qed

lemma read_inv:
  assumes "hosts_inv t" "inet_contract i"
  shows "\<exists>t' st n'. hosts_table_read i alloc f t n = Some (t', st, n') \<and> extends t t' \<and> st \<noteq> HOSTS_LOAD_BAD_ARGUMENT"
  using assms
proof (induction i alloc f t n rule: hosts_table_read.induct)
  case (1 i alloc f t n)
  note eq = hosts_table_read.simps [of i alloc f t n]
  show ?case
  proof (cases "fgets HOSTS_LINE_SIZE f")
    case None
    then show ?thesis using "1.prems" by (simp add: eq extends_def)
  next
    case (Some r)
    obtain line f' e where r: "r = (line, f', e)" by (cases r)
    consider (long) "0x0A \<notin> set (cstr line) \<and> \<not> e \<and> hf_contents f' \<noteq> []"
      | (error) "\<not> (0x0A \<notin> set (cstr line) \<and> \<not> e \<and> hf_contents f' \<noteq> [])" "0x0A \<notin> set (cstr line) \<and> \<not> e \<and> hf_error f"
      | (parse) "\<not> (0x0A \<notin> set (cstr line) \<and> \<not> e \<and> hf_contents f' \<noteq> [])" "\<not> (0x0A \<notin> set (cstr line) \<and> \<not> e \<and> hf_error f)"
      by blast
    then show ?thesis
    proof cases
      case long
      then show ?thesis
        using "1.prems" "1.IH"(1) [OF Some r [symmetric] refl long] by (simp add: eq Some r)
    next
      case error
      then show ?thesis using "1.prems" by (auto simp: eq Some r extends_def)
    next
      case parse
      obtain t1 st n1 where p: "hosts_table_parse_line i alloc t (cstr line) n = Some (t1, st, n1)" "extends t t1"
        using parse_line_inv [OF "1.prems"] by blast
      have c: "(if 0x0A \<notin> set (cstr line) \<and> \<not> e \<and> hf_contents f' \<noteq> [] then x
          else if 0x0A \<notin> set (cstr line) \<and> \<not> e \<and> hf_error f then y else z) = z" for x y z :: "(hosts_table \<times> hosts_load_status \<times> nat) option"
        using parse by argo
      show ?thesis
      proof (cases st)
        case HOSTS_RECORD_ADD_OK
        then obtain t' st' n' where "hosts_table_read i alloc f' t1 n1 = Some (t', st', n')" "extends t1 t'" "st' \<noteq> HOSTS_LOAD_BAD_ARGUMENT"
          using "1.IH"(2) [OF Some r [symmetric] refl parse p(1) refl refl HOSTS_RECORD_ADD_OK] "1.prems"(2) p(2) by (auto simp: extends_def)
        then show ?thesis
          using extends_trans [OF p(2)] HOSTS_RECORD_ADD_OK by (simp add: eq Some r c p(1))
      qed (use p in \<open>simp_all add: eq Some r c\<close>)
    qed
  qed
qed

text \<open>The library's conversion of the two loopback texts.\<close>

definition loopback_texts :: "inet \<Rightarrow> bool" where
  "loopback_texts i \<longleftrightarrow>
     pton4 i localhost_v4_text = Some [127, 0, 0, 1] \<and> pton4 i localhost_v6_text = None \<and> pton6 i localhost_v6_text = Some loopback6"

lemma loopback_parse:
  assumes "loopback_texts i"
  shows "net_addr_parse i (Some (localhost_v4_text @ [0])) = Some (net_addr_zero\<lparr>addr_family := AF_INET, addr_bytes := [127, 0, 0, 1] @ replicate 12 0\<rparr>)"
    "net_addr_parse i (Some (localhost_v6_text @ [0])) = Some (net_addr_zero\<lparr>addr_family := AF_INET6, addr_bytes := loopback6\<rparr>)"
proof -
  have "0 \<notin> set localhost_v4_text" "0 \<notin> set localhost_v6_text"
    by (simp_all add: localhost_v4_text_def localhost_v6_text_def)
  then show "net_addr_parse i (Some (localhost_v4_text @ [0])) = Some (net_addr_zero\<lparr>addr_family := AF_INET, addr_bytes := [127, 0, 0, 1] @ replicate 12 0\<rparr>)"
    "net_addr_parse i (Some (localhost_v6_text @ [0])) = Some (net_addr_zero\<lparr>addr_family := AF_INET6, addr_bytes := loopback6\<rparr>)"
    using assms by (simp_all add: net_addr_parse_def loopback_texts_def strlen_cstr cstr_append)
qed

lemma localhost_normal: "hosts_name_normalize (Some localhost_name) HOSTS_NAME_SIZE = Some localhost_name"
  by (simp add: hosts_name_normalize_def localhost_name_def HOSTS_NAME_SIZE_def Let_def isspace_def lower_char_def)

lemma have_loopback_extends: "extends t t' \<Longrightarrow> hosts_have_loopback fam t \<Longrightarrow> hosts_have_loopback fam t'"
  by (auto simp: extends_def hosts_have_loopback_def)

lemma localhost_add:
  assumes "hosts_inv t" "hosts_record_add alloc t localhost_name a = (t', st)" "hosts_address_is_loopback a"
    "addr_family a \<in> {AF_INET, AF_INET6}" "length (addr_bytes a) = 16"
  shows "extends t t'" "st = HOSTS_RECORD_ADD_OK \<Longrightarrow> hosts_have_loopback (addr_family a) t'"
proof -
  note r = record_add_inv [OF assms(1,2) localhost_normal assms(4,5)]
  show "extends t t'"
    using r assms(3) by (simp add: extends_def)
  show "hosts_have_loopback (addr_family a) t'" if ok: "st = HOSTS_RECORD_ADD_OK"
  proof -
    obtain x where x: "x \<in> set (ht_records t')" "hr_name x = localhost_name" "hosts_address_equal (hr_address x) a" "hosts_inv t'"
      using r assms(3) ok by (auto simp: list_ex_iff)
    then have "hosts_address_is_loopback (hr_address x)" "addr_family (hr_address x) = addr_family a"
      by (auto simp: hosts_inv_def hosts_address_equal_def split: if_splits)
    then show ?thesis
      using x by (auto simp: hosts_have_loopback_def list_ex_iff)
  qed
qed

lemma fallback_inv:
  assumes "hosts_inv t" "loopback_texts i"
  shows "\<exists>t' st. hosts_table_fallback_add i alloc t = Some (t', st) \<and> extends t t'
    \<and> (st = HOSTS_RECORD_ADD_OK \<longrightarrow> hosts_have_loopback AF_INET t' \<and> hosts_have_loopback AF_INET6 t')"
proof -
  define a4 where "a4 = net_addr_zero\<lparr>addr_family := AF_INET, addr_bytes := [127, 0, 0, 1] @ replicate 12 0\<rparr>"
  define a6 where "a6 = net_addr_zero\<lparr>addr_family := AF_INET6, addr_bytes := loopback6\<rparr>"
  have l: "hosts_address_is_loopback a4" "addr_family a4 = AF_INET" "length (addr_bytes a4) = 16"
      "hosts_address_is_loopback a6" "addr_family a6 = AF_INET6" "length (addr_bytes a6) = 16"
    by (simp_all add: a4_def a6_def hosts_address_is_loopback_def loopback6_def)
  obtain t1 s1 where t1: "hosts_record_add alloc t localhost_name a4 = (t1, s1)" by fastforce
  define t2 s2 where "t2 = (if hosts_have_loopback AF_INET t then t else t1)" and "s2 = (if hosts_have_loopback AF_INET t then HOSTS_RECORD_ADD_OK else s1)"
  have x2: "extends t t2" "s2 = HOSTS_RECORD_ADD_OK \<Longrightarrow> hosts_have_loopback AF_INET t2"
    using localhost_add [OF assms(1) t1] l assms(1) by (auto simp: t2_def s2_def extends_def)
  obtain t3 s3 where t3: "hosts_record_add alloc t2 localhost_name a6 = (t3, s3)" by fastforce
  have inv2: "hosts_inv t2" using x2(1) by (simp add: extends_def)
  note x3 = localhost_add [OF inv2 t3, unfolded l, simplified, OF l(4)]
  have "hosts_table_fallback_add i alloc t =
      Some (if s2 \<noteq> HOSTS_RECORD_ADD_OK then (t2, s2) else if hosts_have_loopback AF_INET6 t then (t2, HOSTS_RECORD_ADD_OK) else (t3, s3))"
    using t1 t3 by (auto simp: hosts_table_fallback_add_def Let_def loopback_parse [OF assms(2), folded a4_def a6_def] t2_def s2_def)
  then show ?thesis
    using x2 x3 have_loopback_extends [OF x2(1), of AF_INET6] have_loopback_extends [OF x3(1), of AF_INET] extends_trans [OF x2(1) x3(1)] by auto
qed

section \<open>Lookup\<close>

text \<open>The addresses recorded for a name, in order; the records of a table are pairwise different.\<close>

definition hosts_addresses :: "hosts_table \<Rightarrow> bytes \<Rightarrow> net_addr list" where
  "hosts_addresses t name = map hr_address (filter (\<lambda>r. hr_name r = name) (ht_records t))"

lemma lookup_loop_all:
  assumes "sorted_wrt (\<lambda>r s. \<not> (hr_name r = hr_name s \<and> hosts_address_equal (hr_address r) (hr_address s))) (rs0 @ rs)"
    and "found = map hr_address (filter (\<lambda>r. hr_name r = name) rs0)" "\<And>n. alloc n"
  shows "hosts_lookup_loop alloc name found rs = Some (found @ map hr_address (filter (\<lambda>r. hr_name r = name) rs))"
  using assms(1,2)
proof (induction rs arbitrary: rs0 found)
  case (Cons r rs)
  have "\<not> list_ex (\<lambda>a. hosts_address_equal a (hr_address r)) found" if "hr_name r = name"
    using Cons.prems that by (auto simp: list_ex_iff sorted_wrt_append)
  then show ?case
    using Cons.IH [of "rs0 @ [r]" "if hr_name r = name then found @ [hr_address r] else found"] Cons.prems assms(3)
    by (cases "hr_name r = name") simp_all
qed simp

lemma addresses_distinct:
  "sorted_wrt (\<lambda>r s. \<not> (hr_name r = hr_name s \<and> hosts_address_equal (hr_address r) (hr_address s))) rs \<Longrightarrow>
    sorted_wrt (\<lambda>a b. \<not> hosts_address_equal a b) (map hr_address (filter (\<lambda>r. hr_name r = name) rs))"
  by (induction rs) auto

lemma lookup_addresses:
  assumes "hosts_inv t" "hosts_name_normalize (Some s) HOSTS_NAME_SIZE = Some name" "\<And>n. alloc n"
  shows "hosts_table_lookup alloc (Some t) (Some s) True =
    (if hosts_addresses t name = [] then HOSTS_LOOKUP_NOT_FOUND else HOSTS_LOOKUP_OK, hosts_addresses t name)"
  using assms lookup_loop_all [of "[]" "ht_records t" "[]" name alloc]
  by (simp add: hosts_table_lookup_def hosts_inv_def hosts_addresses_def)

lemma load_inv:
  assumes "inet_contract i" "loopback_texts i"
  shows "\<exists>st table n. hosts_table_load i alloc args_ok calloc_ok file close_ok = Some (st, table, n)
    \<and> (case table of
         None \<Rightarrow> st \<noteq> HOSTS_LOAD_OK \<and> st \<noteq> HOSTS_LOAD_FILE_ERROR
       | Some t \<Rightarrow> (st = HOSTS_LOAD_OK \<or> st = HOSTS_LOAD_FILE_ERROR) \<and> hosts_inv t
           \<and> hosts_have_loopback AF_INET t \<and> hosts_have_loopback AF_INET6 t)"
proof (cases "args_ok \<and> calloc_ok")
  case False
  then show ?thesis by (auto simp: hosts_table_load_def)
next
  case True
  have "\<exists>t st n. (case file of
             None \<Rightarrow> Some (hosts_table_zero, HOSTS_LOAD_FILE_ERROR, 0)
           | Some f \<Rightarrow> do {
               (t, status, n) \<leftarrow> hosts_table_read i alloc f hosts_table_zero 0;
               Some (t, if \<not> close_ok \<and> status = HOSTS_LOAD_OK then HOSTS_LOAD_FILE_ERROR else status, n)
             }) = Some (t, st, n) \<and> hosts_inv t \<and> st \<noteq> HOSTS_LOAD_BAD_ARGUMENT"
    using read_inv [OF hosts_inv_zero assms(1), of alloc "the file" 0] hosts_inv_zero by (cases "file") (auto simp: extends_def)
  then obtain t st n where r: "(case file of
             None \<Rightarrow> Some (hosts_table_zero, HOSTS_LOAD_FILE_ERROR, 0)
           | Some f \<Rightarrow> do {
               (t, status, n) \<leftarrow> hosts_table_read i alloc f hosts_table_zero 0;
               Some (t, if \<not> close_ok \<and> status = HOSTS_LOAD_OK then HOSTS_LOAD_FILE_ERROR else status, n)
             }) = Some (t, st, n)" "hosts_inv t" "st \<noteq> HOSTS_LOAD_BAD_ARGUMENT" by blast
  show ?thesis
    using True fallback_inv [OF r(2) assms(2), of alloc] fallback_inv [OF hosts_inv_zero assms(2), of alloc] r(3)
    unfolding hosts_table_load_def r(1)
    by (auto simp: Let_def extends_def)
qed

text \<open>A conversion that satisfies the contract and knows the two loopback texts.\<close>

definition hosts_inet :: inet where
  "hosts_inet = letter_inet
     \<lparr>pton4 := (\<lambda>t. if t = localhost_v4_text then Some [127, 0, 0, 1] else pton4 letter_inet t),
      pton6 := (\<lambda>t. if t = localhost_v6_text then Some loopback6 else pton6 letter_inet t)\<rparr>"

lemma hosts_inet_contract: "inet_contract hosts_inet" "loopback_texts hosts_inet"
proof -
  have n: "letters bs \<noteq> localhost_v4_text" "letters bs \<noteq> localhost_v6_text" for bs
  proof -
    have "length localhost_v4_text = 2 * 4 + 1" "length localhost_v6_text = 2 * 1 + 1"
      by (simp_all add: localhost_v4_text_def localhost_v6_text_def)
    moreover have "2 * length bs \<noteq> 2 * m + 1" for m
      by presburger
    ultimately show "letters bs \<noteq> localhost_v4_text" "letters bs \<noteq> localhost_v6_text"
      using length_letters [of bs] by metis+
  qed
  have "bs \<noteq> []" if "length bs = 4 \<or> length bs = 16" for bs :: bytes
    using that by auto
  then show "inet_contract hosts_inet"
    by (auto simp: inet_contract_def hosts_inet_def letter_inet_def loopback6_def n unletters_letters letters_text length_unletters
        split: if_splits)
  show "loopback_texts hosts_inet"
    by (simp add: loopback_texts_def hosts_inet_def letter_inet_def localhost_v4_text_def localhost_v6_text_def)
qed

section \<open>Properties\<close>

text \<open>
  C14: loading a hosts file is total and yields a table that can be trusted. For every file contents, read errors and
  allocation failures included, loading never leaves its buffers; a table is handed out exactly when the status is \<open>OK\<close> or
  \<open>FILE_ERROR\<close>, and it then holds at most 16384 pairwise different records, whose names are canonical; \<open>localhost\<close> has an IPv4 and an IPv6
  loopback address and no other kind of address, whatever the file says.
\<close>

theorem hosts_load_trusted:
  assumes "inet_contract i" "loopback_texts i"
  shows "\<exists>st table n. hosts_table_load i alloc args_ok calloc_ok file close_ok = Some (st, table, n)
    \<and> (case table of
         None \<Rightarrow> st \<noteq> HOSTS_LOAD_OK \<and> st \<noteq> HOSTS_LOAD_FILE_ERROR
       | Some t \<Rightarrow> (st = HOSTS_LOAD_OK \<or> st = HOSTS_LOAD_FILE_ERROR) \<and> hosts_inv t
           \<and> hosts_have_loopback AF_INET t \<and> hosts_have_loopback AF_INET6 t)"
  by (rule load_inv [OF assms])

theorem hosts_load_trusted_witness:
  "\<exists>st table n. hosts_table_load hosts_inet (\<lambda>_. True) True True (Some \<lparr>hf_contents = [0x61, 0x20, 0x62, 0x0A], hf_error = False\<rparr>) True = Some (st, table, n)
    \<and> (case table of
         None \<Rightarrow> st \<noteq> HOSTS_LOAD_OK \<and> st \<noteq> HOSTS_LOAD_FILE_ERROR
       | Some t \<Rightarrow> (st = HOSTS_LOAD_OK \<or> st = HOSTS_LOAD_FILE_ERROR) \<and> hosts_inv t
           \<and> hosts_have_loopback AF_INET t \<and> hosts_have_loopback AF_INET6 t)"
  by (rule hosts_load_trusted [OF hosts_inet_contract])

text \<open>
  C15: lookup returns exactly what is recorded. In a loaded table, a name finds, in the order of the file and without repetition, the addresses
  recorded for its canonical form; any spelling of \<open>localhost\<close> finds loopback addresses, and only these.
\<close>

theorem hosts_lookup_exact:
  assumes "inet_contract i" "loopback_texts i" "hosts_table_load i alloc True True file close_ok = Some (st, Some t, n)"
    and "hosts_name_normalize (Some s) HOSTS_NAME_SIZE = Some name"
  shows "hosts_table_lookup (\<lambda>_. True) (Some t) (Some s) True =
      (if hosts_addresses t name = [] then HOSTS_LOOKUP_NOT_FOUND else HOSTS_LOOKUP_OK, hosts_addresses t name)
    \<and> sorted_wrt (\<lambda>a b. \<not> hosts_address_equal a b) (hosts_addresses t name)
    \<and> (name = localhost_name \<longrightarrow> hosts_addresses t name \<noteq> [] \<and> list_all hosts_address_is_loopback (hosts_addresses t name))"
proof -
  obtain st' table n' where "hosts_table_load i alloc True True file close_ok = Some (st', table, n')"
      "case table of None \<Rightarrow> True | Some t \<Rightarrow> hosts_inv t \<and> hosts_have_loopback AF_INET t"
    using load_inv [OF assms(1,2)] by (force split: option.splits)
  then have t: "hosts_inv t" "hosts_have_loopback AF_INET t"
    using assms(3) by auto
  have "sorted_wrt (\<lambda>a b. \<not> hosts_address_equal a b) (hosts_addresses t name)"
    using t(1) by (simp add: hosts_addresses_def hosts_inv_def addresses_distinct)
  moreover have "hosts_addresses t localhost_name \<noteq> []" "list_all hosts_address_is_loopback (hosts_addresses t localhost_name)"
    using t by (auto simp: hosts_addresses_def hosts_have_loopback_def list_ex_iff filter_empty_conv hosts_inv_def list_all_iff)
  ultimately show ?thesis
    using lookup_addresses [OF t(1) assms(4)] by auto
qed

text \<open>A file with one record, in the text form of the sample conversion.\<close>

definition sample_hosts_file :: hosts_file where
  "sample_hosts_file = \<lparr>hf_contents = letters [10, 0, 0, 1] @ [0x20, 0x4D, 0x63, 0x0A], hf_error = False\<rparr>"

definition sample_hosts_table :: hosts_table where
  "sample_hosts_table =
     \<lparr>ht_capacity = 16,
      ht_records = [\<lparr>hr_address = net_addr_zero\<lparr>addr_family := AF_INET, addr_bytes := [10, 0, 0, 1] @ replicate 12 0\<rparr>, hr_name = [0x6D, 0x63]\<rparr>],
      ht_allocated = True\<rparr>"

lemma sample_hosts_read: "hosts_table_read hosts_inet (\<lambda>_. True) sample_hosts_file hosts_table_zero 0 = Some (sample_hosts_table, HOSTS_LOAD_OK, 0)"
proof -
  have c: "hf_contents sample_hosts_file = [0x61, 0x6B, 0x61, 0x61, 0x61, 0x61, 0x61, 0x62, 0x20, 0x4D, 0x63, 0x0A]" "\<not> hf_error sample_hosts_file"
    by (simp_all add: sample_hosts_file_def)
  have "fgets HOSTS_LINE_SIZE sample_hosts_file = Some (hf_contents sample_hosts_file, sample_hosts_file\<lparr>hf_contents := []\<rparr>, False)"
    by (simp add: fgets_def c HOSTS_LINE_SIZE_def)
  moreover have "hosts_table_parse_line hosts_inet (\<lambda>_. True) hosts_table_zero (cstr (hf_contents sample_hosts_file)) 0 =
      Some (sample_hosts_table, HOSTS_RECORD_ADD_OK, 0)"
    by (simp add: hosts_table_parse_line_def c cstr_def isspace_def word_at_def net_addr_parse_def strlen_def hosts_inet_def localhost_v4_text_def
        letter_inet_def hosts_table_parse_names.simps hosts_name_normalize_def HOSTS_NAME_SIZE_def lower_char_def localhost_name_def
        hosts_record_add_def hosts_table_zero_def HOSTS_RECORD_LIMIT_def sample_hosts_table_def net_addr_zero_def Let_def)
  ultimately show ?thesis
    by (simp add: hosts_table_read.simps [of _ _ sample_hosts_file] hosts_table_read.simps [of _ _ "sample_hosts_file\<lparr>hf_contents := []\<rparr>"]
       fgets_def c HOSTS_LINE_SIZE_def cstr_def)
qed

theorem hosts_lookup_exact_witness:
  "\<exists>t. hosts_table_load hosts_inet (\<lambda>_. True) True True (Some sample_hosts_file) True = Some (HOSTS_LOAD_OK, Some t, Some 0)
    \<and> hosts_table_lookup (\<lambda>_. True) (Some t) (Some [0x4D, 0x43, 0x2E]) True =
        (if hosts_addresses t [0x6D, 0x63] = [] then HOSTS_LOOKUP_NOT_FOUND else HOSTS_LOOKUP_OK, hosts_addresses t [0x6D, 0x63])
    \<and> sorted_wrt (\<lambda>a b. \<not> hosts_address_equal a b) (hosts_addresses t [0x6D, 0x63])"
proof -
  have inv: "hosts_inv sample_hosts_table"
    using read_inv [OF hosts_inv_zero hosts_inet_contract(1), of "\<lambda>_. True" sample_hosts_file 0] by (simp add: sample_hosts_read extends_def)
  have "\<exists>t. hosts_table_fallback_add hosts_inet (\<lambda>_. True) sample_hosts_table = Some (t, HOSTS_RECORD_ADD_OK)"
    by (simp add: hosts_table_fallback_add_def loopback_parse [OF hosts_inet_contract(2)] sample_hosts_table_def hosts_have_loopback_def
        localhost_name_def hosts_record_add_def HOSTS_RECORD_LIMIT_def Let_def)
  then obtain t where t: "hosts_table_load hosts_inet (\<lambda>_. True) True True (Some sample_hosts_file) True = Some (HOSTS_LOAD_OK, Some t, Some 0)"
    by (auto simp: hosts_table_load_def sample_hosts_read)
  have "hosts_name_normalize (Some [0x4D, 0x43, 0x2E]) HOSTS_NAME_SIZE = Some [0x6D, 0x63]"
    by (simp add: hosts_name_normalize_def HOSTS_NAME_SIZE_def isspace_def lower_char_def)
  from hosts_lookup_exact [OF hosts_inet_contract t this] t show ?thesis
    by blast
qed

text \<open>
  A line that contains a null byte hides its newline from \<open>strchr\<close>, so that it is taken for an overlong one: the next line is skipped
  with it, and both are counted as one malformed line.
\<close>

lemma fgets_line:
  assumes "0x0A \<notin> set p" "length p < n - 1"
  shows "fgets n \<lparr>hf_contents = p @ 0x0A # r, hf_error = e\<rparr> = Some (p @ [0x0A], \<lparr>hf_contents = r, hf_error = e\<rparr>, False)"
proof -
  obtain k where k: "n - 1 = length p + Suc k"
    using assms(2) less_imp_Suc_add by fastforce
  have "takeWhile (\<lambda>c. c \<noteq> 0x0A) (p @ 0x0A # take k r) = p"
    using assms(1) by (induction p) auto
  then show ?thesis
    unfolding fgets_def k by simp
qed

lemma hosts_null_byte_skips_next_line:
  assumes "0x0A \<notin> set a" "0x0A \<notin> set b" "0x0A \<notin> set next" "length a + length b < 8000"
  shows "hosts_table_read i alloc \<lparr>hf_contents = (a @ 0 # b) @ 0x0A # next @ [0x0A], hf_error = False\<rparr> t n = Some (t, HOSTS_LOAD_OK, n + 1)"
proof -
  have "fgets HOSTS_LINE_SIZE \<lparr>hf_contents = (a @ 0 # b) @ 0x0A # next @ [0x0A], hf_error = False\<rparr> =
      Some ((a @ 0 # b) @ [0x0A], \<lparr>hf_contents = next @ [0x0A], hf_error = False\<rparr>, False)"
    using assms by (intro fgets_line) (auto simp: HOSTS_LINE_SIZE_def)
  moreover have "0x0A \<notin> set (cstr ((a @ 0 # b) @ [0x0A]))"
  proof -
    have "set (takeWhile (\<lambda>c. c \<noteq> 0) (a @ 0 # b @ [0x0A])) \<subseteq> set a"
      by (induction a) auto
    then show ?thesis
      using assms(1) by (auto simp: cstr_def)
  qed
  moreover have "skip_line (next @ [0x0A]) = []"
    using assms(3) by (induction "next") (auto simp: skip_line_def)
  ultimately show ?thesis
    by (simp add: hosts_table_read.simps [of i alloc "\<lparr>hf_contents = _ , hf_error = _\<rparr>"] fgets_def HOSTS_LINE_SIZE_def)
qed

end
