(* ===== verification/Route_Table.thy ===== *)
theory Route_Table
  imports Network Resolver_Util
begin

text \<open>
  The route table (\<open>src/route/table.c\<close>): the configured proxies become a list of routes, one per virtual host, and a
  list of destinations without duplicates, found through a hash table while the table is built.

  The configuration is a JSON tree of the cJSON library; its accessors are the parameter \<open>J\<close>. An item that is absent is
  \<open>None\<close>, and the type tests of the library are false on it. C strings are their contents. The outcomes of the allocations
  are a parameter. A walk along the hash chains that would not end, or would leave its array, is \<open>None\<close>.
\<close>

section \<open>Types\<close>

record 'j cjson =
  cJSON_IsArray :: "'j \<Rightarrow> bool"
  cJSON_IsBool :: "'j \<Rightarrow> bool"
  cJSON_IsNumber :: "'j \<Rightarrow> bool"
  cJSON_IsString :: "'j \<Rightarrow> bool"
  cJSON_IsTrue :: "'j \<Rightarrow> bool"
  cJSON_children :: "'j \<Rightarrow> 'j list"
  cJSON_GetObjectItem :: "'j \<Rightarrow> bytes \<Rightarrow> 'j option"
  cJSON_valueint :: "'j \<Rightarrow> int"
  cJSON_valuestring :: "'j \<Rightarrow> bytes"

definition is_item :: "('j \<Rightarrow> bool) \<Rightarrow> 'j option \<Rightarrow> bool" where
  "is_item test item = (case item of None \<Rightarrow> False | Some j \<Rightarrow> test j)"

record route_destination =
  rd_hash_next :: "nat option"
  rd_numeric :: bool
  rd_numeric_address :: net_addr
  rd_port :: u16
  rd_query_name :: "bytes option"
  rd_srv :: bool

record route_entry =
  re_configured_address :: bytes
  re_destination_index :: nat
  re_pheader :: bool
  re_rewrite :: bool
  re_vhost :: bytes

record route_table =
  rt_destinations :: "route_destination list"
  rt_routes :: "route_entry list"

datatype route_table_build_status =
    ROUTE_TABLE_BUILD_OK
  | ROUTE_TABLE_BUILD_BAD_ARGUMENT
  | ROUTE_TABLE_BUILD_INVALID
  | ROUTE_TABLE_BUILD_MEMORY

record table_alloc =
  ta_table :: bool
  ta_destinations :: bool
  ta_buckets :: bool
  ta_routes :: bool
  ta_name :: "nat \<Rightarrow> bool"
  ta_strdup :: "nat \<Rightarrow> bool"

definition address_key :: bytes where "address_key = [0x61, 0x64, 0x64, 0x72, 0x65, 0x73, 0x73]"
definition port_key :: bytes where "port_key = [0x70, 0x6F, 0x72, 0x74]"
definition vhost_key :: bytes where "vhost_key = [0x76, 0x68, 0x6F, 0x73, 0x74]"
definition pheader_key :: bytes where "pheader_key = [0x70, 0x68, 0x65, 0x61, 0x64, 0x65, 0x72]"
definition rewrite_key :: bytes where "rewrite_key = [0x72, 0x65, 0x77, 0x72, 0x69, 0x74, 0x65]"

section \<open>Destinations\<close>

definition ROUTE_TABLE_FNV_OFFSET :: u64 where "ROUTE_TABLE_FNV_OFFSET = 14695981039346656037"
definition ROUTE_TABLE_FNV_PRIME :: u64 where "ROUTE_TABLE_FNV_PRIME = 1099511628211"

definition ROUTE_TABLE_SRV_PREFIX :: bytes where
  "ROUTE_TABLE_SRV_PREFIX =
     [0x5F, 0x6D, 0x69, 0x6E, 0x65, 0x63, 0x72, 0x61, 0x66, 0x74, 0x2E, 0x5F, 0x74, 0x63, 0x70, 0x2E]"

definition route_bool_read :: "'j cjson \<Rightarrow> 'j option \<Rightarrow> bool" where
  "route_bool_read J v =
     (if is_item (cJSON_IsBool J) v then is_item (cJSON_IsTrue J) v
      else is_item (\<lambda>j. cJSON_IsNumber J j \<and> cJSON_valueint J j \<noteq> 0) v)"

definition route_destination_equal :: "route_destination \<Rightarrow> route_destination \<Rightarrow> bool" where
  "route_destination_equal l r \<longleftrightarrow>
     (if rd_numeric l \<noteq> rd_numeric r \<or> rd_port l \<noteq> rd_port r \<or> rd_srv l \<noteq> rd_srv r then False
      else if \<not> rd_numeric l then rd_query_name l = rd_query_name r
      else if addr_family (rd_numeric_address l) \<noteq> addr_family (rd_numeric_address r) then False
      else if addr_family (rd_numeric_address l) = AF_INET
      then take 4 (addr_bytes (rd_numeric_address l)) = take 4 (addr_bytes (rd_numeric_address r))
      else addr_family (rd_numeric_address l) = AF_INET6
        \<and> take 16 (addr_bytes (rd_numeric_address l)) = take 16 (addr_bytes (rd_numeric_address r)))"

definition route_hash_byte :: "u64 \<Rightarrow> u8 \<Rightarrow> u64" where
  "route_hash_byte hash v = (hash XOR ucast v) * ROUTE_TABLE_FNV_PRIME"

definition route_hash_destination :: "route_destination \<Rightarrow> u64" where
  "route_hash_destination d =
     (let hash = ROUTE_TABLE_FNV_OFFSET;
          hash = route_hash_byte hash (if rd_numeric d then 1 else 0);
          hash = route_hash_byte hash (if rd_srv d then 1 else 0);
          hash = route_hash_byte hash (ucast (drop_bit 8 (rd_port d)));
          hash = route_hash_byte hash (ucast (rd_port d)) in
      if \<not> rd_numeric d then foldl route_hash_byte hash (the (rd_query_name d))
      else
        (let v4 = addr_family (rd_numeric_address d) = AF_INET;
             hash = route_hash_byte hash (if v4 then 4 else 6) in
         foldl route_hash_byte hash (take (if v4 then 4 else 16) (addr_bytes (rd_numeric_address d)))))"

text \<open>
  The query name of a destination; for a service name the root (or empty) name leaves the prefix without its last dot.
  The size check cannot fail on a string that is in memory.
\<close>

definition route_name_create :: "bool \<Rightarrow> bytes option \<Rightarrow> bool \<Rightarrow> bytes option" where
  "route_name_create alloc_ok source srv =
     (case source of
        None \<Rightarrow> None
      | Some s \<Rightarrow>
          (let source_size = length s;
               root_name = (source_size = 1 \<and> s ! 0 = 0x2E);
               source_size = (if source_size > 1 \<and> s ! (source_size - 1) = 0x2E \<and> s ! (source_size - 2) \<noteq> 0x2E
                              then source_size - 1 else source_size);
               prefix_size = (if srv then length ROUTE_TABLE_SRV_PREFIX else 0);
               (source_size, prefix_size) =
                 (if srv \<and> (root_name \<or> source_size = 0) then (0, prefix_size - 1) else (source_size, prefix_size)) in
           if source_size > SIZE_MAX - prefix_size - 1 then None
           else if \<not> alloc_ok then None
           else Some (take prefix_size ROUTE_TABLE_SRV_PREFIX @ map lower_char (take source_size s))))"

section \<open>Building the table\<close>

definition route_item_vhosts :: "'j cjson \<Rightarrow> 'j \<Rightarrow> 'j list" where
  "route_item_vhosts J item =
     (case cJSON_GetObjectItem J item vhost_key of None \<Rightarrow> [] | Some v \<Rightarrow> filter (cJSON_IsString J) (cJSON_children J v))"

definition route_item_valid :: "'j cjson \<Rightarrow> 'j \<Rightarrow> bool" where
  "route_item_valid J item \<longleftrightarrow>
     is_item (cJSON_IsString J) (cJSON_GetObjectItem J item address_key)
     \<and> is_item (cJSON_IsArray J) (cJSON_GetObjectItem J item vhost_key)
     \<and> (case cJSON_GetObjectItem J item port_key of
          None \<Rightarrow> True
        | Some p \<Rightarrow> cJSON_IsNumber J p \<and> 0 \<le> cJSON_valueint J p \<and> cJSON_valueint J p \<le> 65535)"

fun route_proxy_count_loop :: "'j cjson \<Rightarrow> 'j list \<Rightarrow> nat \<Rightarrow> nat \<Rightarrow> (nat \<times> nat) option" where
  "route_proxy_count_loop J [] destination_capacity route_count = Some (destination_capacity, route_count)"
| "route_proxy_count_loop J (item # items) destination_capacity route_count =
     (if \<not> route_item_valid J item then None
      else
        (let item_route_count = length (route_item_vhosts J item) in
         if route_count + item_route_count > SIZE_MAX then None
         else if item_route_count > 0 then
           (if destination_capacity = SIZE_MAX then None
            else route_proxy_count_loop J items (destination_capacity + 1) (route_count + item_route_count))
         else route_proxy_count_loop J items destination_capacity (route_count + item_route_count)))"

definition route_proxy_count :: "'j cjson \<Rightarrow> 'j option \<Rightarrow> (nat \<times> nat) option" where
  "route_proxy_count J proxy =
     (if \<not> is_item (cJSON_IsArray J) proxy then None else route_proxy_count_loop J (cJSON_children J (the proxy)) 0 0)"

definition route_destination_zero :: route_destination where
  "route_destination_zero =
     \<lparr>rd_hash_next = None, rd_numeric = False, rd_numeric_address = net_addr_zero, rd_port = 0, rd_query_name = None, rd_srv = False\<rparr>"

text \<open>The candidate of an item (\<open>Some None\<close>: no memory for its name).\<close>

definition route_proxy_destination_prepare :: "'j cjson \<Rightarrow> inet \<Rightarrow> bool \<Rightarrow> 'j \<Rightarrow> route_destination option option" where
  "route_proxy_destination_prepare J i alloc_ok item =
     do {
       address_item \<leftarrow> cJSON_GetObjectItem J item address_key;
       let address = cJSON_valuestring J address_item;
       let d = route_destination_zero;
       d \<leftarrow>
         (case cJSON_GetObjectItem J item port_key of
            None \<Rightarrow> Some (d\<lparr>rd_srv := True\<rparr>)
          | Some port \<Rightarrow> do {
              a \<leftarrow> net_addr_parse i (Some (address @ [0]));
              let numeric = addr_family a \<noteq> AF_UNSPEC;
              Some (d\<lparr>rd_srv := False, rd_port := word_of_int (cJSON_valueint J port), rd_numeric := numeric,
                      rd_numeric_address := (if numeric then a else net_addr_zero)\<rparr>)
            });
       Some (if \<not> rd_numeric d then
               (case route_name_create alloc_ok (Some address) (rd_srv d) of
                  None \<Rightarrow> None
                | Some name \<Rightarrow> Some (d\<lparr>rd_query_name := Some name\<rparr>))
             else Some d)
     }"

text \<open>The walk along a chain, with fuel for as many links as there are destinations.\<close>

fun route_chain_find :: "nat \<Rightarrow> route_destination list \<Rightarrow> route_destination \<Rightarrow> nat option \<Rightarrow> nat option option" where
  "route_chain_find fuel ds candidate None = Some None"
| "route_chain_find 0 ds candidate (Some j) = None"
| "route_chain_find (Suc fuel) ds candidate (Some j) =
     (if \<not> j < length ds then None
      else if route_destination_equal (ds ! j) candidate then Some (Some j)
      else route_chain_find fuel ds candidate (rd_hash_next (ds ! j)))"

text \<open>The destinations and bucket heads afterwards, and the index of the destination.\<close>

definition route_table_destination_add ::
  "route_destination list \<Rightarrow> (nat \<Rightarrow> nat option) \<Rightarrow> nat \<Rightarrow> route_destination \<Rightarrow>
     (route_destination list \<times> (nat \<Rightarrow> nat option) \<times> nat) option" where
  "route_table_destination_add ds buckets bucket_count candidate =
     (if bucket_count = 0 then None
      else
        (let bucket = unat (route_hash_destination candidate) mod bucket_count in
         do {
           found \<leftarrow> route_chain_find (length ds) ds candidate (buckets bucket);
           case found of
             Some j \<Rightarrow> Some (ds, buckets, j)
           | None \<Rightarrow>
               if length ds < bucket_count
               then Some (ds @ [candidate\<lparr>rd_hash_next := buckets bucket\<rparr>], buckets(bucket \<mapsto> length ds), length ds)
               else None
         }))"

text \<open>The routes of an item; \<open>None\<close> when a string cannot be copied.\<close>

definition route_entry_make :: "'j cjson \<Rightarrow> 'j \<Rightarrow> nat \<Rightarrow> 'j \<Rightarrow> route_entry" where
  "route_entry_make J item j vhost =
     \<lparr>re_configured_address = cJSON_valuestring J (the (cJSON_GetObjectItem J item address_key)), re_destination_index = j,
      re_pheader = route_bool_read J (cJSON_GetObjectItem J item pheader_key),
      re_rewrite = route_bool_read J (cJSON_GetObjectItem J item rewrite_key), re_vhost = cJSON_valuestring J vhost\<rparr>"

fun route_entries_add :: "'j cjson \<Rightarrow> (nat \<Rightarrow> bool) \<Rightarrow> 'j \<Rightarrow> nat \<Rightarrow> 'j list \<Rightarrow> route_entry list \<Rightarrow> route_entry list option" where
  "route_entries_add J strdup_ok item j [] routes = Some routes"
| "route_entries_add J strdup_ok item j (vhost # vhosts) routes =
     (if \<not> cJSON_IsString J vhost then route_entries_add J strdup_ok item j vhosts routes
      else if \<not> strdup_ok (length routes) then None
      else route_entries_add J strdup_ok item j vhosts (routes @ [route_entry_make J item j vhost]))"

fun route_table_build_loop ::
  "'j cjson \<Rightarrow> inet \<Rightarrow> table_alloc \<Rightarrow> nat \<Rightarrow> 'j list \<Rightarrow> route_destination list \<Rightarrow> (nat \<Rightarrow> nat option) \<Rightarrow> route_entry list \<Rightarrow> nat \<Rightarrow>
     (route_destination list \<times> route_entry list) option option" where
  "route_table_build_loop J i al bucket_count [] ds buckets routes k = Some (Some (ds, routes))"
| "route_table_build_loop J i al bucket_count (item # items) ds buckets routes k =
     (let vhosts = (case cJSON_GetObjectItem J item vhost_key of None \<Rightarrow> [] | Some v \<Rightarrow> cJSON_children J v) in
      if \<not> list_ex (cJSON_IsString J) vhosts then route_table_build_loop J i al bucket_count items ds buckets routes (k + 1)
      else do {
        prepared \<leftarrow> route_proxy_destination_prepare J i (ta_name al k) item;
        (case prepared of
           None \<Rightarrow> Some None
         | Some candidate \<Rightarrow> do {
             (ds, buckets, j) \<leftarrow> route_table_destination_add ds buckets bucket_count candidate;
             (case route_entries_add J (ta_strdup al) item j vhosts routes of
                None \<Rightarrow> Some None
              | Some routes \<Rightarrow> route_table_build_loop J i al bucket_count items ds buckets routes (k + 1))
           })
      })"

text \<open>
  \<open>route_table_build\<close>; the sizes of the two structures bound the counts before anything is allocated.
\<close>

definition route_table_build ::
  "nat \<Rightarrow> nat \<Rightarrow> 'j cjson \<Rightarrow> inet \<Rightarrow> table_alloc \<Rightarrow> 'j option option \<Rightarrow> bool \<Rightarrow> (route_table_build_status \<times> route_table option) option" where
  "route_table_build sizeof_destination sizeof_entry J i al source result_ok =
     (case source of
        None \<Rightarrow> Some (ROUTE_TABLE_BUILD_BAD_ARGUMENT, None)
      | Some proxy \<Rightarrow>
          if \<not> result_ok then Some (ROUTE_TABLE_BUILD_BAD_ARGUMENT, None)
          else
            (case route_proxy_count J proxy of
               None \<Rightarrow> Some (ROUTE_TABLE_BUILD_INVALID, None)
             | Some (destination_capacity, route_count) \<Rightarrow>
                 if (destination_capacity > 0
                      \<and> (destination_capacity > SIZE_MAX div sizeof_destination \<or> destination_capacity > SIZE_MAX div 8))
                    \<or> (route_count > 0 \<and> route_count > SIZE_MAX div sizeof_entry)
                 then Some (ROUTE_TABLE_BUILD_MEMORY, None)
                 else if \<not> ta_table al \<or> (destination_capacity > 0 \<and> (\<not> ta_destinations al \<or> \<not> ta_buckets al))
                         \<or> (route_count > 0 \<and> \<not> ta_routes al)
                 then Some (ROUTE_TABLE_BUILD_MEMORY, None)
                 else do {
                   built \<leftarrow> route_table_build_loop J i al destination_capacity (cJSON_children J (the proxy)) [] (\<lambda>_. None) [] 0;
                   case built of
                     None \<Rightarrow> Some (ROUTE_TABLE_BUILD_MEMORY, None)
                   | Some (ds, routes) \<Rightarrow>
                       if length routes \<le> route_count
                       then Some (ROUTE_TABLE_BUILD_OK, Some \<lparr>rt_destinations = ds, rt_routes = routes\<rparr>) else None
                 }))"

section \<open>Using the table\<close>

definition route_table_destination_count :: "route_table option \<Rightarrow> nat" where
  "route_table_destination_count table = (case table of None \<Rightarrow> 0 | Some t \<Rightarrow> length (rt_destinations t))"

text \<open>The view of a destination has the destination's fields but the chain link.\<close>

definition route_table_destination_get :: "route_table option \<Rightarrow> nat \<Rightarrow> route_destination option" where
  "route_table_destination_get table j =
     (case table of
        None \<Rightarrow> None
      | Some t \<Rightarrow>
          if j \<ge> length (rt_destinations t) then None else Some ((rt_destinations t ! j)\<lparr>rd_hash_next := None\<rparr>))"

definition route_table_route_get :: "route_table option \<Rightarrow> nat \<Rightarrow> route_entry option" where
  "route_table_route_get table k =
     (case table of None \<Rightarrow> None | Some t \<Rightarrow> if k \<ge> length (rt_routes t) then None else Some (rt_routes t ! k))"

definition route_vhost_matches :: "bytes \<Rightarrow> bytes \<Rightarrow> bool" where
  "route_vhost_matches configured received \<longleftrightarrow>
     (let received_size = (if length received > 0 \<and> received ! (length received - 1) = 0x2E then length received - 1 else length received) in
      length configured = received_size \<and> map lower_char (take received_size configured) = map lower_char (take received_size received))"

fun route_find_loop :: "route_table \<Rightarrow> bytes \<Rightarrow> nat \<Rightarrow> route_entry list \<Rightarrow> route_entry option" where
  "route_find_loop t vhost k [] = None"
| "route_find_loop t vhost k (r # rs) =
     (if route_vhost_matches (re_vhost r) vhost then route_table_route_get (Some t) k else route_find_loop t vhost (k + 1) rs)"

definition route_table_find :: "route_table option \<Rightarrow> bytes option \<Rightarrow> route_entry option" where
  "route_table_find table vhost =
     (case table of None \<Rightarrow> None | Some t \<Rightarrow> (case vhost of None \<Rightarrow> None | Some v \<Rightarrow> route_find_loop t v 0 (rt_routes t)))"

section \<open>Equality and hashing of destinations\<close>

definition destination_ok :: "route_destination \<Rightarrow> bool" where
  "destination_ok d \<longleftrightarrow>
     (if rd_numeric d then addr_family (rd_numeric_address d) = AF_INET \<or> addr_family (rd_numeric_address d) = AF_INET6
      else rd_query_name d \<noteq> None)"

lemma destination_equal_refl: "destination_ok d \<Longrightarrow> route_destination_equal d d"
  by (auto simp: destination_ok_def route_destination_equal_def)

lemma destination_equal_sym: "route_destination_equal d e \<Longrightarrow> route_destination_equal e d"
  by (auto simp: route_destination_equal_def split: if_splits)

lemma destination_equal_trans: "route_destination_equal d e \<Longrightarrow> route_destination_equal e f \<Longrightarrow> route_destination_equal d f"
  by (auto simp: route_destination_equal_def split: if_splits)

lemma destination_equal_next [simp]:
  "route_destination_equal (d\<lparr>rd_hash_next := n\<rparr>) e = route_destination_equal d e"
  "route_destination_equal e (d\<lparr>rd_hash_next := n\<rparr>) = route_destination_equal e d"
  by (simp_all add: route_destination_equal_def)

lemma destination_hash_next [simp]: "route_hash_destination (d\<lparr>rd_hash_next := n\<rparr>) = route_hash_destination d"
  by (simp add: route_hash_destination_def)

lemma destination_equal_hash: "route_destination_equal d e \<Longrightarrow> route_hash_destination d = route_hash_destination e"
  by (auto simp: route_destination_equal_def route_hash_destination_def Let_def split: if_splits)

section \<open>Chains\<close>

fun chain :: "route_destination list \<Rightarrow> nat option \<Rightarrow> nat list \<Rightarrow> bool" where
  "chain ds start [] \<longleftrightarrow> start = None"
| "chain ds start (j # js) \<longleftrightarrow> start = Some j \<and> j < length ds \<and> chain ds (rd_hash_next (ds ! j)) js"

lemma chain_append: "chain ds start js \<Longrightarrow> chain (ds @ [d]) start js"
  by (induction js arbitrary: start) (auto simp: nth_append)

lemma chain_find_list:
  "chain ds start js \<Longrightarrow> length js \<le> fuel \<Longrightarrow>
     route_chain_find fuel ds c start = Some (find (\<lambda>j. route_destination_equal (ds ! j) c) js)"
proof (induction js arbitrary: start fuel)
  case (Cons j js)
  then show ?case by (cases fuel) simp_all
qed simp

definition bucket_of :: "nat \<Rightarrow> route_destination \<Rightarrow> nat" where
  "bucket_of n d = unat (route_hash_destination d) mod n"

definition chains_inv :: "nat \<Rightarrow> route_destination list \<Rightarrow> (nat \<Rightarrow> nat option) \<Rightarrow> bool" where
  "chains_inv n ds buckets \<longleftrightarrow>
     (\<forall>b. \<exists>js. chain ds (buckets b) js \<and> distinct js \<and> set js = {j. j < length ds \<and> bucket_of n (ds ! j) = b})
     \<and> list_all destination_ok ds \<and> sorted_wrt (\<lambda>d e. \<not> route_destination_equal d e) ds"

lemma chains_inv_empty: "chains_inv n [] (\<lambda>_. None)"
  by (auto simp: chains_inv_def intro: exI [of _ "[]"])

lemma indices_snoc:
  "{j. j < length (ds @ [d]) \<and> P ((ds @ [d]) ! j)} = {j. j < length ds \<and> P (ds ! j)} \<union> (if P d then {length ds} else {})"
  by (auto simp: nth_append less_Suc_eq)

lemma destination_add_spec:
  assumes inv: "chains_inv n ds buckets" and c: "destination_ok c" and n: "length ds < n"
  shows "\<exists>ds' buckets' j. route_table_destination_add ds buckets n c = Some (ds', buckets', j) \<and> chains_inv n ds' buckets'
    \<and> (\<exists>es. ds' = ds @ es \<and> length es \<le> 1) \<and> j < length ds' \<and> route_destination_equal (ds' ! j) c"
proof -
  define b where "b = unat (route_hash_destination c) mod n"
  have b: "bucket_of n c = b" by (simp add: b_def bucket_of_def)
  obtain js where js: "chain ds (buckets b) js" "distinct js" "set js = {j. j < length ds \<and> bucket_of n (ds ! j) = b}"
    using inv unfolding chains_inv_def by blast
  have "length js \<le> length ds"
    using js(2,3) distinct_card [of js] card_mono [of "{..<length ds}" "set js"] by auto
  note found = chain_find_list [OF js(1) this, of c]
  show ?thesis
  proof (cases "find (\<lambda>j. route_destination_equal (ds ! j) c) js")
    case (Some j)
    then have "j < length ds" "route_destination_equal (ds ! j) c"
      using js(3) by (auto simp: find_Some_iff)
    moreover have "route_table_destination_add ds buckets n c = Some (ds, buckets, j)"
      using found Some n by (simp add: route_table_destination_add_def flip: b_def)
    ultimately show ?thesis
      using inv by simp
  next
    case None
    define d where "d = c\<lparr>rd_hash_next := buckets b\<rparr>"
    have new: "\<not> route_destination_equal (ds ! j) c" if "j < length ds" for j
    proof
      assume e: "route_destination_equal (ds ! j) c"
      then have "j \<in> set js"
        using js(3) that b destination_equal_hash [OF e] by (simp add: bucket_of_def)
      then show False
        using None e by (simp add: find_None_iff)
    qed
    have "\<exists>ks. chain (ds @ [d]) ((buckets(b \<mapsto> length ds)) b') ks \<and> distinct ks
        \<and> set ks = {j. j < length (ds @ [d]) \<and> bucket_of n ((ds @ [d]) ! j) = b'}" for b'
    proof -
      obtain ks where ks: "chain ds (buckets b') ks" "distinct ks" "set ks = {j. j < length ds \<and> bucket_of n (ds ! j) = b'}"
        using inv unfolding chains_inv_def by blast
      have d: "bucket_of n d = b" "rd_hash_next d = buckets b"
        using b by (simp_all add: d_def bucket_of_def)
      show ?thesis
      proof (cases "b' = b")
        case True
        then show ?thesis
          using js d chain_append [OF js(1), of d] unfolding indices_snoc [of ds d "\<lambda>x. bucket_of n x = b'"] by (intro exI [of _ "length ds # js"]) simp
      next
        case False
        then show ?thesis
          using ks d chain_append [OF ks(1), of d] unfolding indices_snoc [of ds d "\<lambda>x. bucket_of n x = b'"] by (intro exI [of _ ks]) simp
      qed
    qed
    then have "chains_inv n (ds @ [d]) (buckets(b \<mapsto> length ds))"
      using inv c new by (auto simp: chains_inv_def sorted_wrt_append in_set_conv_nth d_def destination_ok_def list_all_iff)
    moreover have "route_destination_equal d c"
      using destination_equal_refl [OF c] by (simp add: d_def)
    moreover have "route_table_destination_add ds buckets n c = Some (ds @ [d], buckets(b \<mapsto> length ds), length ds)"
      using found None n by (simp add: route_table_destination_add_def d_def flip: b_def)
    ultimately show ?thesis by simp
  qed
qed

section \<open>What is built\<close>

text \<open>
  What the configuration asks for, read off the JSON tree: the routes in order as pairs of a proxy and one of its virtual
  hosts; the flags; the name to query, lower-cased and without one trailing dot, below the service prefix when no port is
  given; and the destination of a proxy.
\<close>

definition route_specs :: "'j cjson \<Rightarrow> 'j list \<Rightarrow> ('j \<times> 'j) list" where
  "route_specs J items =
     [(item, vhost). item \<leftarrow> items,
        vhost \<leftarrow> (case cJSON_GetObjectItem J item vhost_key of None \<Rightarrow> [] | Some vhosts \<Rightarrow> cJSON_children J vhosts),
        cJSON_IsString J vhost]"

definition item_address :: "'j cjson \<Rightarrow> 'j \<Rightarrow> bytes" where
  "item_address J item = cJSON_valuestring J (the (cJSON_GetObjectItem J item address_key))"

definition flag_set :: "'j cjson \<Rightarrow> 'j option \<Rightarrow> bool" where
  "flag_set J v \<longleftrightarrow>
     (case v of None \<Rightarrow> False
      | Some j \<Rightarrow> (cJSON_IsBool J j \<and> cJSON_IsTrue J j) \<or> (\<not> cJSON_IsBool J j \<and> cJSON_IsNumber J j \<and> cJSON_valueint J j \<noteq> 0))"

definition undotted :: "bytes \<Rightarrow> bytes" where
  "undotted s = (if length s > 1 \<and> last s = 0x2E \<and> last (butlast s) \<noteq> 0x2E then butlast s else s)"

definition asked_name :: "bytes \<Rightarrow> bool \<Rightarrow> bytes" where
  "asked_name s srv =
     (if \<not> srv then map lower_char (undotted s)
      else if s = [] \<or> s = [0x2E] then map of_char ''_minecraft._tcp''
      else map of_char ''_minecraft._tcp.'' @ map lower_char (undotted s))"

definition asks_for :: "'j cjson \<Rightarrow> inet \<Rightarrow> 'j \<Rightarrow> route_destination \<Rightarrow> bool" where
  "asks_for J i item d \<longleftrightarrow>
     (let s = item_address J item in
      case cJSON_GetObjectItem J item port_key of
        None \<Rightarrow> rd_srv d \<and> \<not> rd_numeric d \<and> rd_port d = 0 \<and> rd_query_name d = Some (asked_name s True)
      | Some port \<Rightarrow>
          \<not> rd_srv d \<and> uint (rd_port d) = cJSON_valueint J port
          \<and> (case (pton4 i (cstr (s @ [0])), pton6 i (cstr (s @ [0]))) of
               (Some a, _) \<Rightarrow>
                 rd_numeric d \<and> addr_family (rd_numeric_address d) = AF_INET \<and> take 4 (addr_bytes (rd_numeric_address d)) = a
             | (None, Some a) \<Rightarrow>
                 rd_numeric d \<and> addr_family (rd_numeric_address d) = AF_INET6 \<and> take 16 (addr_bytes (rd_numeric_address d)) = a
             | (None, None) \<Rightarrow> \<not> rd_numeric d \<and> rd_query_name d = Some (asked_name s False)))"

definition route_implements :: "'j cjson \<Rightarrow> inet \<Rightarrow> route_destination list \<Rightarrow> route_entry \<Rightarrow> 'j \<times> 'j \<Rightarrow> bool" where
  "route_implements J i ds r = (\<lambda>(item, vhost).
     re_vhost r = cJSON_valuestring J vhost \<and> re_configured_address r = item_address J item
     \<and> re_pheader r = flag_set J (cJSON_GetObjectItem J item pheader_key)
     \<and> re_rewrite r = flag_set J (cJSON_GetObjectItem J item rewrite_key)
     \<and> re_destination_index r < length ds \<and> asks_for J i item (ds ! re_destination_index r))"

text \<open>A proxy the table accepts: an address, an array of virtual hosts and, if any, a port of 16 bits.\<close>

definition item_accepted :: "'j cjson \<Rightarrow> 'j \<Rightarrow> bool" where
  "item_accepted J item \<longleftrightarrow>
     (\<exists>a. cJSON_GetObjectItem J item address_key = Some a \<and> cJSON_IsString J a)
     \<and> (\<exists>v. cJSON_GetObjectItem J item vhost_key = Some v \<and> cJSON_IsArray J v)
     \<and> (\<forall>p. cJSON_GetObjectItem J item port_key = Some p \<longrightarrow> cJSON_IsNumber J p \<and> cJSON_valueint J p \<in> {0..65535})"

definition configuration_accepted :: "'j cjson \<Rightarrow> 'j option \<Rightarrow> bool" where
  "configuration_accepted J proxy \<longleftrightarrow>
     (\<exists>p. proxy = Some p \<and> cJSON_IsArray J p \<and> list_all (item_accepted J) (cJSON_children J p)
        \<and> length (route_specs J (cJSON_children J p)) \<le> SIZE_MAX)"

lemma item_valid_iff: "route_item_valid J item \<longleftrightarrow> item_accepted J item"
  by (auto simp: route_item_valid_def item_accepted_def is_item_def split: option.splits)

lemma flag_set_iff: "route_bool_read J v = flag_set J v"
  by (auto simp: route_bool_read_def flag_set_def is_item_def split: option.splits)

lemma name_create_eq:
  assumes "route_name_create ok (Some s) srv = Some n"
  shows "n = asked_name s srv"
proof -
  have p: "map of_char ''_minecraft._tcp.'' = ROUTE_TABLE_SRV_PREFIX" "map of_char ''_minecraft._tcp'' = butlast ROUTE_TABLE_SRV_PREFIX"
    by (simp_all add: ROUTE_TABLE_SRV_PREFIX_def of_char_def)
  have u: "undotted s = take (if length s > 1 \<and> s ! (length s - 1) = 0x2E \<and> s ! (length s - 2) \<noteq> 0x2E then length s - 1 else length s) s"
    if "length s \<noteq> 1"
    using that by (cases "s = []") (auto simp: undotted_def last_conv_nth butlast_conv_take nth_butlast numeral_2_eq_2)
  show ?thesis
  proof (cases "length s = 1")
    case True
    then obtain c where "s = [c]" by (auto simp: length_Suc_conv)
    then show ?thesis
      using assms p by (auto simp: route_name_create_def asked_name_def undotted_def Let_def butlast_conv_take split: if_splits)
  next
    case False
    then show ?thesis
      using assms p u by (cases "s = []") (auto simp: route_name_create_def asked_name_def Let_def butlast_conv_take split: if_splits)
  qed
qed

lemma route_implements_append: "route_implements J i ds r s \<Longrightarrow> route_implements J i (ds @ es) r s"
  by (auto simp: route_implements_def nth_append)

definition address_fits :: "'j cjson \<Rightarrow> 'j \<Rightarrow> bool" where
  "address_fits J item \<longleftrightarrow> length (cJSON_valuestring J (the (cJSON_GetObjectItem J item address_key))) \<le> SIZE_MAX - 17"

lemma name_create_fails: "route_name_create alloc_ok (Some s) srv = None \<Longrightarrow> length s \<le> SIZE_MAX - 17 \<Longrightarrow> \<not> alloc_ok"
  by (auto simp: route_name_create_def Let_def ROUTE_TABLE_SRV_PREFIX_def split: if_splits)

lemma destination_equal_asks: "route_destination_equal d e \<Longrightarrow> asks_for J i item e \<Longrightarrow> asks_for J i item d"
  by (auto simp: route_destination_equal_def asks_for_def Let_def split: option.splits if_splits)

lemma net_addr_parse_exact:
  assumes "inet_contract i"
  shows "\<exists>x. net_addr_parse i (Some (s @ [0])) = Some x
    \<and> (case (pton4 i (cstr (s @ [0])), pton6 i (cstr (s @ [0]))) of
         (Some v, _) \<Rightarrow> addr_family x = AF_INET \<and> take 4 (addr_bytes x) = v
       | (None, Some v) \<Rightarrow> addr_family x = AF_INET6 \<and> take 16 (addr_bytes x) = v
       | (None, None) \<Rightarrow> addr_family x = AF_UNSPEC)"
proof -
  have "pton4 i x = Some v \<Longrightarrow> length v = 4" "pton6 i x = Some v \<Longrightarrow> length v = 16" for x v
    using assms by (auto simp: inet_contract_def)
  then show ?thesis
    by (auto simp: net_addr_parse_def strlen_def net_addr_zero_def split: option.splits)
qed

lemma prepare_spec:
  assumes "route_item_valid J item" "inet_contract i"
  shows "\<exists>r. route_proxy_destination_prepare J i alloc_ok item = Some r
    \<and> (case r of None \<Rightarrow> address_fits J item \<longrightarrow> \<not> alloc_ok | Some d \<Rightarrow> asks_for J i item d \<and> destination_ok d)"
proof -
  obtain a where a: "cJSON_GetObjectItem J item address_key = Some a"
    using assms(1) by (auto simp: route_item_valid_def is_item_def split: option.splits)
  have port: "uint (word_of_int (cJSON_valueint J p) :: u16) = cJSON_valueint J p" if "cJSON_GetObjectItem J item port_key = Some p" for p
    using assms(1) that by (simp add: route_item_valid_def uint_word_of_int take_bit_int_eq_self)
  obtain x where x: "net_addr_parse i (Some (cJSON_valuestring J a @ [0])) = Some x"
      "case (pton4 i (cstr (cJSON_valuestring J a @ [0])), pton6 i (cstr (cJSON_valuestring J a @ [0]))) of
         (Some v, _) \<Rightarrow> addr_family x = AF_INET \<and> take 4 (addr_bytes x) = v
       | (None, Some v) \<Rightarrow> addr_family x = AF_INET6 \<and> take 16 (addr_bytes x) = v
       | (None, None) \<Rightarrow> addr_family x = AF_UNSPEC"
    using net_addr_parse_exact [OF assms(2)] by blast
  show ?thesis
  proof (cases "cJSON_GetObjectItem J item port_key")
    case None
    then show ?thesis
      using a name_create_fails [of alloc_ok "cJSON_valuestring J a" True]
      by (auto simp: route_proxy_destination_prepare_def asks_for_def item_address_def destination_ok_def route_destination_zero_def
          address_fits_def Let_def name_create_eq split: option.splits)
  next
    case (Some p)
    then show ?thesis
      using a x port [OF Some] name_create_fails [of alloc_ok "cJSON_valuestring J a" False]
      by (auto simp: route_proxy_destination_prepare_def asks_for_def item_address_def destination_ok_def route_destination_zero_def
          address_fits_def Let_def name_create_eq split: option.splits)
  qed
qed

lemma entries_add_spec:
  "route_entries_add J ok item j vhosts routes = Some routes' \<Longrightarrow>
     routes' = routes @ map (route_entry_make J item j) (filter (cJSON_IsString J) vhosts)"
  by (induction vhosts arbitrary: routes) (fastforce split: if_splits)+

lemma entries_add_fails: "route_entries_add J ok item j vhosts routes = None \<Longrightarrow> \<exists>k. \<not> ok k"
  by (induction vhosts arbitrary: routes) (auto split: if_splits)

definition alloc_all :: "table_alloc \<Rightarrow> bool" where
  "alloc_all al \<longleftrightarrow>
     ta_table al \<and> ta_destinations al \<and> ta_buckets al \<and> ta_routes al \<and> (\<forall>k. ta_name al k) \<and> (\<forall>k. ta_strdup al k)"

text \<open>The items with at least one route.\<close>

definition routed :: "'j cjson \<Rightarrow> 'j list \<Rightarrow> 'j list" where
  "routed J items = filter (\<lambda>item. route_item_vhosts J item \<noteq> []) items"

lemma route_specs_simps [simp]:
  "route_specs J [] = []" "route_specs J (item # items) = map (Pair item) (route_item_vhosts J item) @ route_specs J items"
proof -
  have "concat (map (\<lambda>v. if P v then [(item, v)] else []) vs) = map (Pair item) (filter P vs)" for P and vs :: "'a list"
    by (induction vs) simp_all
  then show "route_specs J (item # items) = map (Pair item) (route_item_vhosts J item) @ route_specs J items"
    by (simp add: route_specs_def route_item_vhosts_def split: option.splits)
qed (simp add: route_specs_def)

lemma count_loop_spec:
  "route_proxy_count_loop J items c n = Some (c', n') \<Longrightarrow>
     list_all (route_item_valid J) items \<and> c' = c + length (routed J items) \<and> n' = n + length (route_specs J items)"
proof (induction items arbitrary: c n)
  case (Cons item items)
  let ?m = "length (route_item_vhosts J item)"
  have "route_proxy_count_loop J items (if 0 < ?m then c + 1 else c) (n + ?m) = Some (c', n')" "route_item_valid J item"
    using Cons.prems by (auto simp: Let_def split: if_splits)
  then show ?case
    using Cons.IH [of "if 0 < ?m then c + 1 else c" "n + ?m"] by (simp add: routed_def split: if_splits)
qed (simp add: routed_def)

lemma count_loop_bound: "route_proxy_count_loop J items c n = Some (c', n') \<Longrightarrow> n \<le> SIZE_MAX \<Longrightarrow> n' \<le> SIZE_MAX"
  by (induction items arbitrary: c n) (auto simp: Let_def split: if_splits)

lemma count_loop_fails:
  "route_proxy_count_loop J items c n = None \<Longrightarrow> c \<le> n \<Longrightarrow>
     \<not> (list_all (item_accepted J) items \<and> n + length (route_specs J items) \<le> SIZE_MAX)"
proof (induction items arbitrary: c n)
  case (Cons item items)
  let ?m = "length (route_item_vhosts J item)"
  show ?case
  proof (cases "route_item_valid J item \<and> n + ?m \<le> SIZE_MAX")
    case True
    then have "?m = 0 \<or> c \<noteq> SIZE_MAX"
      using Cons.prems(2) by linarith
    then have "route_proxy_count_loop J items (if 0 < ?m then c + 1 else c) (n + ?m) = None"
      using True Cons.prems by (auto simp: Let_def split: if_splits)
    moreover have "(if 0 < ?m then c + 1 else c) \<le> n + ?m"
      using Cons.prems(2) by (cases ?m) simp_all
    ultimately show ?thesis
      using Cons.IH [of "if 0 < ?m then c + 1 else c" "n + ?m"] by (simp add: ac_simps)
  qed (auto simp: item_valid_iff)
qed simp

lemma proxy_count_iff: "route_proxy_count J proxy \<noteq> None \<longleftrightarrow> configuration_accepted J proxy"
proof (cases "\<exists>p. proxy = Some p \<and> cJSON_IsArray J p")
  case True
  then obtain p where p: "proxy = Some p" "cJSON_IsArray J p" by blast
  show ?thesis
  proof (cases "route_proxy_count_loop J (cJSON_children J p) 0 0")
    case None
    then show ?thesis
      using p count_loop_fails [OF None] by (auto simp: route_proxy_count_def configuration_accepted_def is_item_def)
  next
    case (Some cn)
    then have "list_all (item_accepted J) (cJSON_children J p)" "snd cn = length (route_specs J (cJSON_children J p))"
      using count_loop_spec [of J "cJSON_children J p" 0 0 "fst cn" "snd cn"] by (simp_all add: item_valid_iff [abs_def])
    moreover have "snd cn \<le> SIZE_MAX"
      using count_loop_bound [of J "cJSON_children J p" 0 0 "fst cn" "snd cn"] Some by simp
    ultimately show ?thesis
      using p Some by (simp add: route_proxy_count_def configuration_accepted_def is_item_def)
  qed
qed (auto simp: route_proxy_count_def configuration_accepted_def is_item_def split: option.splits)

lemma implements_entries:
  assumes "j < length ds" "asks_for J i item (ds ! j)"
  shows "list_all2 (route_implements J i ds) (map (route_entry_make J item j) vs) (map (Pair item) vs)"
  using assms by (simp add: list_all2_conv_all_nth route_implements_def route_entry_make_def item_address_def flag_set_iff)

definition loop_result ::
  "'j cjson \<Rightarrow> inet \<Rightarrow> table_alloc \<Rightarrow> bool \<Rightarrow> ('j \<times> 'j) list \<Rightarrow> (route_destination list \<times> route_entry list) option \<Rightarrow> bool" where
  "loop_result J i al fits specs r \<longleftrightarrow>
     (case r of
        None \<Rightarrow> fits \<longrightarrow> \<not> alloc_all al
      | Some (ds, routes) \<Rightarrow>
          list_all destination_ok ds \<and> sorted_wrt (\<lambda>d e. \<not> route_destination_equal d e) ds
          \<and> list_all2 (route_implements J i ds) routes specs)"

lemma loop_result_mono: "loop_result J i al fits specs r \<Longrightarrow> (fits' \<Longrightarrow> fits) \<Longrightarrow> loop_result J i al fits' specs r"
  by (auto simp: loop_result_def split: option.splits)

lemma build_loop_spec:
  assumes "list_all (route_item_valid J) items" "inet_contract i" "chains_inv n ds buckets" "length ds + length (routed J items) \<le> n"
    and "list_all2 (route_implements J i ds) routes specs"
  shows "\<exists>r. route_table_build_loop J i al n items ds buckets routes k = Some r
    \<and> loop_result J i al (list_all (address_fits J) items) (specs @ route_specs J items) r"
  using assms
proof (induction items arbitrary: ds buckets routes specs k)
  case Nil
  then show ?case by (simp add: chains_inv_def loop_result_def)
next
  case (Cons item items)
  define vhosts where "vhosts = (case cJSON_GetObjectItem J item vhost_key of None \<Rightarrow> [] | Some v \<Rightarrow> cJSON_children J v)"
  have vs: "route_item_vhosts J item = filter (cJSON_IsString J) vhosts"
    by (simp add: route_item_vhosts_def vhosts_def split: option.splits)
  show ?case
  proof (cases "list_ex (cJSON_IsString J) vhosts")
    case False
    then have none: "route_item_vhosts J item = []"
      by (simp add: vs list_ex_iff filter_empty_conv)
    then have specs: "route_specs J (item # items) = route_specs J items"
      by simp
    show ?thesis
      unfolding specs using none Cons.IH [of ds buckets routes specs "k + 1"] Cons.prems False
      by (auto simp: routed_def simp flip: vhosts_def intro: loop_result_mono)
  next
    case True
    then have ne: "route_item_vhosts J item \<noteq> []"
      by (simp add: vs list_ex_iff filter_empty_conv)
    obtain r where r: "route_proxy_destination_prepare J i (ta_name al k) item = Some r"
        "case r of None \<Rightarrow> address_fits J item \<longrightarrow> \<not> ta_name al k | Some d \<Rightarrow> asks_for J i item d \<and> destination_ok d"
      using prepare_spec [of J item i] Cons.prems(1,2) by (auto simp: list_all_iff)
    show ?thesis
    proof (cases r)
      case None
      then show ?thesis using True r by (auto simp: alloc_all_def loop_result_def simp flip: vhosts_def)
    next
      case (Some d)
      have "length ds < n"
        using Cons.prems(4) ne by (simp add: routed_def)
      then obtain ds' buckets' j where add: "route_table_destination_add ds buckets n d = Some (ds', buckets', j)" "chains_inv n ds' buckets'"
          "j < length ds'" "route_destination_equal (ds' ! j) d" and ext: "\<exists>es. ds' = ds @ es \<and> length es \<le> 1"
        using destination_add_spec [OF Cons.prems(3), of d] r(2) Some by auto
      show ?thesis
      proof (cases "route_entries_add J (ta_strdup al) item j vhosts routes")
        case None
        then show ?thesis
          using True r(1) Some add(1) entries_add_fails [OF None] by (auto simp: alloc_all_def loop_result_def simp flip: vhosts_def)
      next
        case entries: (Some routes')
        have "list_all2 (route_implements J i ds') routes specs"
          using Cons.prems(5) ext by (auto intro: list_all2_mono route_implements_append)
        moreover have "list_all2 (route_implements J i ds') (map (route_entry_make J item j) (route_item_vhosts J item)) (map (Pair item) (route_item_vhosts J item))"
          using add(3,4) r(2) Some by (intro implements_entries) (auto intro: destination_equal_asks)
        ultimately have "list_all2 (route_implements J i ds') routes' (specs @ map (Pair item) (route_item_vhosts J item))"
          using entries_add_spec [OF entries] by (simp add: vs list_all2_appendI)
        moreover have "length ds' + length (routed J items) \<le> n"
          using Cons.prems(4) ext ne by (auto simp: routed_def)
        ultimately show ?thesis
          unfolding route_specs_simps append_assoc [symmetric] using Cons.IH [of ds' buckets' routes' "specs @ map (Pair item) (route_item_vhosts J item)" "k + 1"] Cons.prems(1,2) add(1,2) True r(1) Some entries
          by (auto simp flip: vhosts_def intro: loop_result_mono)
      qed
    qed
  qed
qed

lemma find_loop_spec:
  "k + length rs = length (rt_routes t) \<Longrightarrow> drop k (rt_routes t) = rs \<Longrightarrow>
     route_find_loop t vhost k rs = find (\<lambda>r. route_vhost_matches (re_vhost r) vhost) rs"
proof (induction rs arbitrary: k)
  case (Cons r rs)
  then have "rt_routes t ! k = r" "k < length (rt_routes t)" "drop (Suc k) (rt_routes t) = rs"
    by (auto simp: nth_via_drop) (metis Cons_nth_drop_Suc add_Suc_right less_add_Suc1 list.inject)
  then show ?case
    using Cons.IH [of "Suc k"] Cons.prems by (simp add: route_table_route_get_def)
qed simp

text \<open>The counts and names of the configuration fit into memory.\<close>

definition table_fits :: "nat \<Rightarrow> nat \<Rightarrow> 'j cjson \<Rightarrow> 'j option option \<Rightarrow> bool" where
  "table_fits sd se J source \<longleftrightarrow>
     (case source of
        Some (Some proxy) \<Rightarrow>
          length (routed J (cJSON_children J proxy)) \<le> min (SIZE_MAX div sd) (SIZE_MAX div 8)
          \<and> length (route_specs J (cJSON_children J proxy)) \<le> SIZE_MAX div se \<and> list_all (address_fits J) (cJSON_children J proxy)
      | _ \<Rightarrow> True)"

lemma build_spec:
  assumes "inet_contract i"
  shows "\<exists>st table. route_table_build sd se J i al source result_ok = Some (st, table) \<and> (st = ROUTE_TABLE_BUILD_OK \<longleftrightarrow> table \<noteq> None)
    \<and> (st = ROUTE_TABLE_BUILD_BAD_ARGUMENT \<longleftrightarrow> source = None \<or> \<not> result_ok)
    \<and> (st = ROUTE_TABLE_BUILD_INVALID \<longleftrightarrow> source \<noteq> None \<and> result_ok \<and> \<not> configuration_accepted J (the source))
    \<and> (st = ROUTE_TABLE_BUILD_MEMORY \<longrightarrow> \<not> (alloc_all al \<and> table_fits sd se J source))
    \<and> (\<forall>t. table = Some t \<longrightarrow> (\<exists>proxy. source = Some (Some proxy)
         \<and> list_all2 (route_implements J i (rt_destinations t)) (rt_routes t) (route_specs J (cJSON_children J proxy))
         \<and> sorted_wrt (\<lambda>d e. \<not> route_destination_equal d e) (rt_destinations t)))"
proof (cases "\<exists>proxy c n. source = Some (Some proxy) \<and> result_ok \<and> route_proxy_count J (Some proxy) = Some (c, n)")
  case False
  then show ?thesis
    using proxy_count_iff [of J "the source"]
    by (cases source) (auto simp: route_table_build_def route_proxy_count_def is_item_def split: option.splits)
next
  case True
  then obtain proxy c n where p: "source = Some (Some proxy)" "result_ok" "route_proxy_count J (Some proxy) = Some (c, n)" by blast
  let ?items = "cJSON_children J proxy"
  have count: "list_all (route_item_valid J) ?items" "c = length (routed J ?items)" "n = length (route_specs J ?items)"
    using count_loop_spec [of J ?items 0 0 c n] p(3) by (auto simp: route_proxy_count_def split: if_splits)
  obtain r where r: "route_table_build_loop J i al c ?items [] (\<lambda>_. None) [] 0 = Some r"
      "loop_result J i al (list_all (address_fits J) ?items) (route_specs J ?items) r"
    using build_loop_spec [OF count(1) assms chains_inv_empty, of c "[]" "[]" al 0, unfolded append_Nil] count(2) by auto
  moreover have "length routes = n" if "r = Some (ds, routes)" for ds routes
    using r(2) that count(3) by (auto simp: loop_result_def dest: list_all2_lengthD)
  ultimately show ?thesis
    using p count(2,3) proxy_count_iff [of J "Some proxy"]
    by (cases r) (auto simp: route_table_build_def table_fits_def alloc_all_def loop_result_def)
qed

lemma vhost_matches_iff:
  "route_vhost_matches configured received \<longleftrightarrow>
     map lower_char configured = map lower_char (if received \<noteq> [] \<and> last received = 0x2E then butlast received else received)"
proof -
  define r where "r = (if received \<noteq> [] \<and> last received = 0x2E then butlast received else received)"
  define k where "k = (if length received > 0 \<and> received ! (length received - 1) = 0x2E then length received - 1 else length received)"
  have "length r = k" "take k received = r"
    by (auto simp: r_def k_def last_conv_nth butlast_conv_take)
  then have "route_vhost_matches configured received \<longleftrightarrow> length configured = length r \<and> map lower_char (take (length r) configured) = map lower_char r"
    unfolding route_vhost_matches_def k_def [symmetric] Let_def by simp
  also have "\<dots> \<longleftrightarrow> map lower_char configured = map lower_char r"
    by (metis length_map order_refl take_all)
  finally show ?thesis
    by (simp add: r_def)
qed

section \<open>Properties\<close>

text \<open>
  C9: building the route table is total and exact. Whatever the configuration, building ends without leaving its arrays, and a
  table results exactly when the status says so. The arguments are bad exactly when a pointer is missing or a result is already
  there; the configuration is invalid exactly when it is not an array of proxies that each have an address string, an array of
  virtual hosts and no port or a port of 16 bits, or has more routes than a size can count; memory is short only when an
  allocation fails or a size does not fit. The routes of the table are, in order, the virtual hosts of the configured proxies:
  each has the virtual host, address and flags of its proxy and leads to the destination the proxy asks for. Without a port
  that is a service query for the lower-cased name under the prefix, the root name giving the prefix alone; with a port it is
  that port and the numeric address if the address is one, otherwise a query for the lower-cased name without its trailing dot.
  No two destinations of the table are equal.
\<close>

theorem route_table_build_exact:
  assumes "inet_contract i"
  shows "\<exists>st table. route_table_build sd se J i al source result_ok = Some (st, table) \<and> (st = ROUTE_TABLE_BUILD_OK \<longleftrightarrow> table \<noteq> None)
    \<and> (st = ROUTE_TABLE_BUILD_BAD_ARGUMENT \<longleftrightarrow> source = None \<or> \<not> result_ok)
    \<and> (st = ROUTE_TABLE_BUILD_INVALID \<longleftrightarrow> source \<noteq> None \<and> result_ok \<and> \<not> configuration_accepted J (the source))
    \<and> (st = ROUTE_TABLE_BUILD_MEMORY \<longrightarrow> \<not> (alloc_all al \<and> table_fits sd se J source))
    \<and> (\<forall>t. table = Some t \<longrightarrow> (\<exists>proxy. source = Some (Some proxy)
         \<and> list_all2 (route_implements J i (rt_destinations t)) (rt_routes t) (route_specs J (cJSON_children J proxy))
         \<and> sorted_wrt (\<lambda>d e. \<not> route_destination_equal d e) (rt_destinations t)))"
  by (rule build_spec [OF assms])

text \<open>A concrete JSON tree for the examples.\<close>

datatype json = JStr bytes | JNum int | JBool bool | JArr "json list" | JObj "(bytes \<times> json) list"

definition json_lib :: "json cjson" where
  "json_lib =
     \<lparr>cJSON_IsArray = (\<lambda>j. case j of JArr _ \<Rightarrow> True | _ \<Rightarrow> False), cJSON_IsBool = (\<lambda>j. case j of JBool _ \<Rightarrow> True | _ \<Rightarrow> False),
      cJSON_IsNumber = (\<lambda>j. case j of JNum _ \<Rightarrow> True | _ \<Rightarrow> False), cJSON_IsString = (\<lambda>j. case j of JStr _ \<Rightarrow> True | _ \<Rightarrow> False),
      cJSON_IsTrue = (\<lambda>j. j = JBool True),
      cJSON_children = (\<lambda>j. case j of JArr js \<Rightarrow> js | JObj kvs \<Rightarrow> map snd kvs | _ \<Rightarrow> []),
      cJSON_GetObjectItem = (\<lambda>j k. case j of JObj kvs \<Rightarrow> map_of kvs k | _ \<Rightarrow> None),
      cJSON_valueint = (\<lambda>j. case j of JNum n \<Rightarrow> n | _ \<Rightarrow> 0), cJSON_valuestring = (\<lambda>j. case j of JStr s \<Rightarrow> s | _ \<Rightarrow> [])\<rparr>"

definition sample_proxies :: json where
  "sample_proxies = JArr
     [JObj [(address_key, JStr [0x4D, 0x43]), (port_key, JNum 25565), (vhost_key, JArr [JStr [0x61], JNum 3, JStr [0x62]])],
      JObj [(address_key, JStr [0x6D, 0x63]), (port_key, JNum 25565), (vhost_key, JArr [JStr [0x63]]), (rewrite_key, JBool True)]]"

definition sample_table_alloc :: table_alloc where
  "sample_table_alloc =
     \<lparr>ta_table = True, ta_destinations = True, ta_buckets = True, ta_routes = True, ta_name = (\<lambda>_. True), ta_strdup = (\<lambda>_. True)\<rparr>"

theorem route_table_build_exact_witness:
  "\<exists>st table. route_table_build 64 40 json_lib letter_inet sample_table_alloc (Some (Some sample_proxies)) True = Some (st, table)
    \<and> (st = ROUTE_TABLE_BUILD_OK \<longleftrightarrow> table \<noteq> None)
    \<and> (st = ROUTE_TABLE_BUILD_BAD_ARGUMENT \<longleftrightarrow> Some (Some sample_proxies) = None \<or> \<not> True)
    \<and> (st = ROUTE_TABLE_BUILD_INVALID \<longleftrightarrow>
         Some (Some sample_proxies) \<noteq> None \<and> True \<and> \<not> configuration_accepted json_lib (the (Some (Some sample_proxies))))
    \<and> (st = ROUTE_TABLE_BUILD_MEMORY \<longrightarrow> \<not> (alloc_all sample_table_alloc \<and> table_fits 64 40 json_lib (Some (Some sample_proxies))))
    \<and> (\<forall>t. table = Some t \<longrightarrow> (\<exists>proxy. Some (Some sample_proxies) = Some (Some proxy)
         \<and> list_all2 (route_implements json_lib letter_inet (rt_destinations t)) (rt_routes t) (route_specs json_lib (cJSON_children json_lib proxy))
         \<and> sorted_wrt (\<lambda>d e. \<not> route_destination_equal d e) (rt_destinations t)))"
  by (rule route_table_build_exact [OF letter_inet_contract])

lemma sample_built: "\<exists>t. route_table_build 64 40 json_lib letter_inet sample_table_alloc (Some (Some sample_proxies)) True = Some (ROUTE_TABLE_BUILD_OK, Some t)"
proof -
  have keys: "address_key \<noteq> port_key" "address_key \<noteq> vhost_key" "port_key \<noteq> vhost_key" "vhost_key \<noteq> rewrite_key" "address_key \<noteq> rewrite_key"
      "port_key \<noteq> rewrite_key"
    by (simp_all add: address_key_def port_key_def vhost_key_def rewrite_key_def)
  have "alloc_all sample_table_alloc" "table_fits 64 40 json_lib (Some (Some sample_proxies))"
    "route_proxy_count json_lib (Some sample_proxies) \<noteq> None"
    using keys keys [symmetric]
    by (simp_all add: alloc_all_def sample_table_alloc_def table_fits_def sample_proxies_def json_lib_def routed_def route_item_vhosts_def
        address_fits_def route_proxy_count_def is_item_def route_item_valid_def)
  moreover have "route_table_build 64 40 json_lib letter_inet sample_table_alloc (Some (Some sample_proxies)) True \<noteq> Some (ROUTE_TABLE_BUILD_INVALID, x)"
      "route_table_build 64 40 json_lib letter_inet sample_table_alloc (Some (Some sample_proxies)) True \<noteq> Some (ROUTE_TABLE_BUILD_BAD_ARGUMENT, x)" for x
    using calculation(3) by (auto simp: route_table_build_def bind_eq_Some_conv split: option.splits if_splits)
  ultimately show ?thesis
    using build_spec [OF letter_inet_contract, of 64 40 json_lib sample_table_alloc "Some (Some sample_proxies)" True]
    by (metis not_Some_eq route_table_build_status.exhaust)
qed

text \<open>
  C10: a virtual host finds the first route configured for it. In a built table, a received name selects the first configured virtual host that equals it
  up to letter case and one trailing dot, with the settings and a destination of the proxy that lists it; and no route is
  found exactly when no configured virtual host equals it.
\<close>

theorem route_table_find_first:
  assumes "inet_contract i" "route_table_build sd se J i al (Some (Some proxy)) True = Some (ROUTE_TABLE_BUILD_OK, Some t)"
  defines "same v received \<equiv> map lower_char v = map lower_char (if received \<noteq> [] \<and> last received = 0x2E then butlast received else received)"
    and "specs \<equiv> route_specs J (cJSON_children J proxy)"
  shows "case route_table_find (Some t) (Some received) of
      None \<Rightarrow> \<not> (\<exists>k<length specs. same (cJSON_valuestring J (snd (specs ! k))) received)
    | Some r \<Rightarrow> \<exists>k<length specs. same (cJSON_valuestring J (snd (specs ! k))) received
        \<and> (\<forall>j<k. \<not> same (cJSON_valuestring J (snd (specs ! j))) received) \<and> route_implements J i (rt_destinations t) r (specs ! k)"
proof -
  have l: "list_all2 (route_implements J i (rt_destinations t)) (rt_routes t) specs"
    using build_spec [OF assms(1), of sd se J al "Some (Some proxy)" True] assms(2) by (auto simp: specs_def)
  then have len: "length (rt_routes t) = length specs"
    by (rule list_all2_lengthD)
  have imp: "route_implements J i (rt_destinations t) (rt_routes t ! k) (specs ! k)" if "k < length specs" for k
    using l that len by (simp add: list_all2_conv_all_nth)
  have vhost: "re_vhost (rt_routes t ! k) = cJSON_valuestring J (snd (specs ! k))" if "k < length specs" for k
    using imp [OF that] by (cases "specs ! k") (simp add: route_implements_def)
  have f: "route_table_find (Some t) (Some received) = find (\<lambda>r. same (re_vhost r) received) (rt_routes t)"
    using find_loop_spec [of 0 "rt_routes t" t received] by (simp add: route_table_find_def vhost_matches_iff same_def)
  show ?thesis
  proof (cases "find (\<lambda>r. same (re_vhost r) received) (rt_routes t)")
    case None
    then have "\<not> same (re_vhost (rt_routes t ! k)) received" if "k < length specs" for k
      using that len by (auto simp: find_None_iff)
    then show ?thesis
      unfolding f None option.case using vhost by metis
  next
    case (Some r)
    then obtain k where k: "k < length specs" "same (re_vhost (rt_routes t ! k)) received" "rt_routes t ! k = r"
        "\<forall>j<k. \<not> same (re_vhost (rt_routes t ! j)) received"
      using len by (auto simp: find_Some_iff)
    have "same (cJSON_valuestring J (snd (specs ! k))) received"
      using k(2) unfolding vhost [OF k(1)] .
    moreover have "\<not> same (cJSON_valuestring J (snd (specs ! j))) received" if "j < k" for j
      using k(4) that unfolding vhost [OF less_trans [OF that k(1)], symmetric] by blast
    ultimately show ?thesis
      unfolding f Some option.case using imp [OF k(1)] k(1,3) by blast
  qed
qed


theorem route_table_find_first_witness:
  "\<exists>t. route_table_build 64 40 json_lib letter_inet sample_table_alloc (Some (Some sample_proxies)) True = Some (ROUTE_TABLE_BUILD_OK, Some t)
    \<and> (let specs = route_specs json_lib (cJSON_children json_lib sample_proxies);
          same = (\<lambda>v received. map lower_char v = map lower_char (if received \<noteq> [] \<and> last received = 0x2E then butlast received else received)) in
       case route_table_find (Some t) (Some [0x43, 0x2E]) of
         None \<Rightarrow> \<not> (\<exists>k<length specs. same (cJSON_valuestring json_lib (snd (specs ! k))) [0x43, 0x2E])
       | Some r \<Rightarrow> \<exists>k<length specs. same (cJSON_valuestring json_lib (snd (specs ! k))) [0x43, 0x2E]
           \<and> (\<forall>j<k. \<not> same (cJSON_valuestring json_lib (snd (specs ! j))) [0x43, 0x2E])
           \<and> route_implements json_lib letter_inet (rt_destinations t) r (specs ! k))"
proof -
  obtain t where t: "route_table_build 64 40 json_lib letter_inet sample_table_alloc (Some (Some sample_proxies)) True = Some (ROUTE_TABLE_BUILD_OK, Some t)"
    using sample_built by blast
  from route_table_find_first [OF letter_inet_contract t, of "[0x43, 0x2E]"] t show ?thesis
    unfolding Let_def by blast
qed

end
