(* ===== verification/Ipc.thy ===== *)
theory Ipc
  imports Dns_Types Timeutil
begin

text \<open>
  The packets between the listener and the resolver helper (\<open>src/resolver/ipc.c\<close>, \<open>src/resolver/ipc.h\<close>). A received packet
  is the list of its bytes, and an output packet the array it is written to, whose length is its capacity. The enumerations are
  the integers they are in C, since decoded values and zeroed structures are compared with them. The checked
  reader works on the packet's bytes; the checked writer writes through \<open>buf_write\<close>, so that an access outside
  the packet would be undefined.
\<close>

section \<open>Types\<close>

abbreviation RESOLVER_IPC_PACKET_BYTE_LIMIT :: nat where "RESOLVER_IPC_PACKET_BYTE_LIMIT \<equiv> 4096"
abbreviation (input) RESOLVER_IPC_PROTOCOL_VERSION :: u16 where "RESOLVER_IPC_PROTOCOL_VERSION \<equiv> 1"
abbreviation RESOLVER_IPC_HEADER_SIZE :: nat where "RESOLVER_IPC_HEADER_SIZE \<equiv> 20"
abbreviation (input) RESOLVER_IPC_MAGIC :: u32 where "RESOLVER_IPC_MAGIC \<equiv> 0x4D525350"
abbreviation (input) ns_c_in :: u16 where "ns_c_in \<equiv> 1"

abbreviation (input) RESOLVER_IPC_ADDRESS_IPV4 :: u16 where "RESOLVER_IPC_ADDRESS_IPV4 \<equiv> 1"
abbreviation (input) RESOLVER_IPC_ADDRESS_IPV6 :: u16 where "RESOLVER_IPC_ADDRESS_IPV6 \<equiv> 2"

datatype resolver_ipc_codec_status =
    RESOLVER_IPC_CODEC_OK
  | RESOLVER_IPC_CODEC_BAD_ARGUMENT
  | RESOLVER_IPC_CODEC_LIMIT
  | RESOLVER_IPC_CODEC_MALFORMED
  | RESOLVER_IPC_CODEC_UNSUPPORTED

type_synonym resolver_ipc_lookup_status = u32

abbreviation (input) RESOLVER_IPC_LOOKUP_OK :: resolver_ipc_lookup_status where "RESOLVER_IPC_LOOKUP_OK \<equiv> 1"
abbreviation (input) RESOLVER_IPC_LOOKUP_BAD_ARGUMENT :: resolver_ipc_lookup_status where "RESOLVER_IPC_LOOKUP_BAD_ARGUMENT \<equiv> 2"
abbreviation (input) RESOLVER_IPC_LOOKUP_LIMIT :: resolver_ipc_lookup_status where "RESOLVER_IPC_LOOKUP_LIMIT \<equiv> 3"
abbreviation (input) RESOLVER_IPC_LOOKUP_MALFORMED :: resolver_ipc_lookup_status where "RESOLVER_IPC_LOOKUP_MALFORMED \<equiv> 4"
abbreviation (input) RESOLVER_IPC_LOOKUP_MEMORY :: resolver_ipc_lookup_status where "RESOLVER_IPC_LOOKUP_MEMORY \<equiv> 5"
abbreviation (input) RESOLVER_IPC_LOOKUP_NODATA :: resolver_ipc_lookup_status where "RESOLVER_IPC_LOOKUP_NODATA \<equiv> 6"
abbreviation (input) RESOLVER_IPC_LOOKUP_NOT_FOUND :: resolver_ipc_lookup_status where "RESOLVER_IPC_LOOKUP_NOT_FOUND \<equiv> 7"
abbreviation (input) RESOLVER_IPC_LOOKUP_PERMANENT_ERROR :: resolver_ipc_lookup_status where "RESOLVER_IPC_LOOKUP_PERMANENT_ERROR \<equiv> 8"
abbreviation (input) RESOLVER_IPC_LOOKUP_TEMPORARY_ERROR :: resolver_ipc_lookup_status where "RESOLVER_IPC_LOOKUP_TEMPORARY_ERROR \<equiv> 9"
abbreviation (input) RESOLVER_IPC_LOOKUP_TRUNCATED :: resolver_ipc_lookup_status where "RESOLVER_IPC_LOOKUP_TRUNCATED \<equiv> 10"

type_synonym resolver_ipc_packet_kind = u32

abbreviation (input) RESOLVER_IPC_PACKET_REQUEST :: resolver_ipc_packet_kind where "RESOLVER_IPC_PACKET_REQUEST \<equiv> 1"
abbreviation (input) RESOLVER_IPC_PACKET_RESPONSE_BEGIN :: resolver_ipc_packet_kind where "RESOLVER_IPC_PACKET_RESPONSE_BEGIN \<equiv> 2"
abbreviation (input) RESOLVER_IPC_PACKET_RESPONSE_CNAME :: resolver_ipc_packet_kind where "RESOLVER_IPC_PACKET_RESPONSE_CNAME \<equiv> 3"
abbreviation (input) RESOLVER_IPC_PACKET_RESPONSE_ADDRESS :: resolver_ipc_packet_kind where "RESOLVER_IPC_PACKET_RESPONSE_ADDRESS \<equiv> 4"
abbreviation (input) RESOLVER_IPC_PACKET_RESPONSE_SRV :: resolver_ipc_packet_kind where "RESOLVER_IPC_PACKET_RESPONSE_SRV \<equiv> 5"
abbreviation (input) RESOLVER_IPC_PACKET_RESPONSE_END :: resolver_ipc_packet_kind where "RESOLVER_IPC_PACKET_RESPONSE_END \<equiv> 6"

record resolver_ipc_packet_header =
  ph_kind :: resolver_ipc_packet_kind
  ph_query_id :: u64

record resolver_ipc_request =
  rq_query_name :: bytes
  rq_query_class :: u16
  rq_query_id :: u64
  rq_query_type :: u16

record resolver_ipc_response_address =
  ra_index :: u16
  ra_query_id :: u64
  ra_record :: dns_address_record

record resolver_ipc_response_begin =
  rb_canonical_name :: bytes
  rb_cname_count :: nat
  rb_completed_at :: timespec
  rb_negative :: dns_negative_record
  rb_question_name :: bytes
  rb_query_class :: u16
  rb_query_id :: u64
  rb_query_type :: u16
  rb_rcode :: u8
  rb_record_count :: nat
  rb_status :: resolver_ipc_lookup_status

record resolver_ipc_response_cname =
  rc_record :: dns_cname_record
  rc_index :: u16
  rc_query_id :: u64

record resolver_ipc_response_end =
  re_cname_count :: nat
  re_query_id :: u64
  re_record_count :: nat

record resolver_ipc_response_srv =
  rv_index :: u16
  rv_query_id :: u64
  rv_record :: dns_srv_record

record resolver_ipc_reader =
  rd_data :: bytes
  rd_offset :: nat
  rd_size :: nat

record resolver_ipc_writer =
  wr_data :: bytes
  wr_offset :: nat
  wr_size :: nat

text \<open>The structures after \<open>memset (.., 0, ..)\<close>.\<close>

definition resolver_ipc_packet_header_zero :: resolver_ipc_packet_header where
  "resolver_ipc_packet_header_zero = \<lparr>ph_kind = 0, ph_query_id = 0\<rparr>"

definition resolver_ipc_request_zero :: resolver_ipc_request where
  "resolver_ipc_request_zero = \<lparr>rq_query_name = [], rq_query_class = 0, rq_query_id = 0, rq_query_type = 0\<rparr>"

definition resolver_ipc_response_address_zero :: resolver_ipc_response_address where
  "resolver_ipc_response_address_zero =
     \<lparr>ra_index = 0, ra_query_id = 0, ra_record = \<lparr>ar_address = net_addr_zero, ar_effective_ttl = 0, ar_record_ttl = 0\<rparr>\<rparr>"

definition resolver_ipc_response_begin_zero :: resolver_ipc_response_begin where
  "resolver_ipc_response_begin_zero =
     \<lparr>rb_canonical_name = [], rb_cname_count = 0, rb_completed_at = \<lparr>tv_sec = 0, tv_nsec = 0\<rparr>, rb_negative = dns_negative_zero,
      rb_question_name = [], rb_query_class = 0, rb_query_id = 0, rb_query_type = 0, rb_rcode = 0, rb_record_count = 0, rb_status = 0\<rparr>"

definition resolver_ipc_response_cname_zero :: resolver_ipc_response_cname where
  "resolver_ipc_response_cname_zero = \<lparr>rc_record = \<lparr>cn_owner = [], cn_target = [], cn_ttl = 0\<rparr>, rc_index = 0, rc_query_id = 0\<rparr>"

definition resolver_ipc_response_end_zero :: resolver_ipc_response_end where
  "resolver_ipc_response_end_zero = \<lparr>re_cname_count = 0, re_query_id = 0, re_record_count = 0\<rparr>"

definition resolver_ipc_response_srv_zero :: resolver_ipc_response_srv where
  "resolver_ipc_response_srv_zero =
     \<lparr>rv_index = 0, rv_query_id = 0,
      rv_record = \<lparr>srv_priority = 0, srv_weight = 0, srv_port = 0, srv_target = [], srv_record_ttl = 0, srv_effective_ttl = 0\<rparr>\<rparr>"

section \<open>Local functions\<close>

definition resolver_ipc_address_family_decode :: "u16 \<Rightarrow> sa_family option" where
  "resolver_ipc_address_family_decode encoded =
     (if encoded = RESOLVER_IPC_ADDRESS_IPV4 then Some AF_INET
      else if encoded = RESOLVER_IPC_ADDRESS_IPV6 then Some AF_INET6
      else None)"

definition resolver_ipc_address_family_encode :: "sa_family \<Rightarrow> u16 option" where
  "resolver_ipc_address_family_encode family =
     (case family of
        AF_INET \<Rightarrow> Some RESOLVER_IPC_ADDRESS_IPV4
      | AF_INET6 \<Rightarrow> Some RESOLVER_IPC_ADDRESS_IPV6
      | _ \<Rightarrow> None)"

text \<open>The correspondence of the three status enumerations; a search names one of them with its value.\<close>

definition resolver_ipc_lookup_status_maps :: "(dns_address_lookup_status \<times> dns_srv_lookup_status \<times> resolver_ipc_lookup_status) list" where
  "resolver_ipc_lookup_status_maps =
     [(DNS_ADDRESS_LOOKUP_OK, DNS_SRV_LOOKUP_OK, RESOLVER_IPC_LOOKUP_OK),
      (DNS_ADDRESS_LOOKUP_BAD_ARGUMENT, DNS_SRV_LOOKUP_BAD_ARGUMENT, RESOLVER_IPC_LOOKUP_BAD_ARGUMENT),
      (DNS_ADDRESS_LOOKUP_LIMIT, DNS_SRV_LOOKUP_LIMIT, RESOLVER_IPC_LOOKUP_LIMIT),
      (DNS_ADDRESS_LOOKUP_MALFORMED, DNS_SRV_LOOKUP_MALFORMED, RESOLVER_IPC_LOOKUP_MALFORMED),
      (DNS_ADDRESS_LOOKUP_MEMORY, DNS_SRV_LOOKUP_MEMORY, RESOLVER_IPC_LOOKUP_MEMORY),
      (DNS_ADDRESS_LOOKUP_NODATA, DNS_SRV_LOOKUP_NODATA, RESOLVER_IPC_LOOKUP_NODATA),
      (DNS_ADDRESS_LOOKUP_NOT_FOUND, DNS_SRV_LOOKUP_NOT_FOUND, RESOLVER_IPC_LOOKUP_NOT_FOUND),
      (DNS_ADDRESS_LOOKUP_PERMANENT_ERROR, DNS_SRV_LOOKUP_PERMANENT_ERROR, RESOLVER_IPC_LOOKUP_PERMANENT_ERROR),
      (DNS_ADDRESS_LOOKUP_TEMPORARY_ERROR, DNS_SRV_LOOKUP_TEMPORARY_ERROR, RESOLVER_IPC_LOOKUP_TEMPORARY_ERROR),
      (DNS_ADDRESS_LOOKUP_TRUNCATED, DNS_SRV_LOOKUP_TRUNCATED, RESOLVER_IPC_LOOKUP_TRUNCATED)]"

datatype resolver_ipc_lookup_status_domain =
    RESOLVER_IPC_LOOKUP_STATUS_ADDRESS dns_address_lookup_status
  | RESOLVER_IPC_LOOKUP_STATUS_IPC resolver_ipc_lookup_status
  | RESOLVER_IPC_LOOKUP_STATUS_SRV dns_srv_lookup_status

definition resolver_ipc_lookup_status_find ::
  "resolver_ipc_lookup_status_domain \<Rightarrow> (dns_address_lookup_status \<times> dns_srv_lookup_status \<times> resolver_ipc_lookup_status) option" where
  "resolver_ipc_lookup_status_find source =
     find (\<lambda>(a, s, i). case source of
         RESOLVER_IPC_LOOKUP_STATUS_ADDRESS v \<Rightarrow> a = v
       | RESOLVER_IPC_LOOKUP_STATUS_IPC v \<Rightarrow> i = v
       | RESOLVER_IPC_LOOKUP_STATUS_SRV v \<Rightarrow> s = v) resolver_ipc_lookup_status_maps"

definition resolver_ipc_lookup_status_valid :: "resolver_ipc_lookup_status \<Rightarrow> bool" where
  "resolver_ipc_lookup_status_valid status \<longleftrightarrow> resolver_ipc_lookup_status_find (RESOLVER_IPC_LOOKUP_STATUS_IPC status) \<noteq> None"

definition resolver_ipc_name_size :: "bytes \<Rightarrow> bool \<Rightarrow> nat option" where
  "resolver_ipc_name_size name allow_empty =
     (let n = length (takeWhile (\<lambda>c. c \<noteq> 0) (take NS_MAXDNAME name)) in
      if n = NS_MAXDNAME \<or> (\<not> allow_empty \<and> n = 0) then None else Some n)"

definition resolver_ipc_negative_valid :: "dns_negative_record \<Rightarrow> bool" where
  "resolver_ipc_negative_valid negative \<longleftrightarrow>
     (if \<not> neg_valid negative
      then neg_effective_ttl negative = 0 \<and> neg_minimum negative = 0 \<and> neg_owner negative = [] \<and> neg_record_ttl negative = 0
      else resolver_ipc_name_size (neg_owner negative) False \<noteq> None \<and> neg_effective_ttl negative \<le> neg_minimum negative
        \<and> neg_effective_ttl negative \<le> neg_record_ttl negative)"

definition resolver_ipc_packet_kinds :: "resolver_ipc_packet_kind list" where
  "resolver_ipc_packet_kinds =
     [RESOLVER_IPC_PACKET_REQUEST, RESOLVER_IPC_PACKET_RESPONSE_BEGIN, RESOLVER_IPC_PACKET_RESPONSE_CNAME,
      RESOLVER_IPC_PACKET_RESPONSE_ADDRESS, RESOLVER_IPC_PACKET_RESPONSE_SRV, RESOLVER_IPC_PACKET_RESPONSE_END]"

definition resolver_ipc_packet_kind_decode :: "u16 \<Rightarrow> resolver_ipc_packet_kind option" where
  "resolver_ipc_packet_kind_decode encoded = (if ucast encoded \<in> set resolver_ipc_packet_kinds then Some (ucast encoded) else None)"

definition resolver_ipc_packet_kind_encode :: "resolver_ipc_packet_kind \<Rightarrow> u16 option" where
  "resolver_ipc_packet_kind_encode kind = (if kind \<in> set resolver_ipc_packet_kinds then Some (ucast kind) else None)"

definition resolver_ipc_query_type_valid :: "u16 \<Rightarrow> bool" where
  "resolver_ipc_query_type_valid query_type \<longleftrightarrow> query_type = ns_t_a \<or> query_type = ns_t_aaaa \<or> query_type = ns_t_srv"

section \<open>Reader\<close>

text \<open>The bytes a successful \<open>resolver_ipc_reader_take\<close> points to, and the advanced reader.\<close>

definition resolver_ipc_reader_take :: "resolver_ipc_reader \<Rightarrow> nat \<Rightarrow> (bytes \<times> resolver_ipc_reader) option" where
  "resolver_ipc_reader_take reader n =
     (if rd_offset reader > rd_size reader \<or> n > rd_size reader - rd_offset reader then None
      else Some (take n (drop (rd_offset reader) (rd_data reader)), reader\<lparr>rd_offset := rd_offset reader + n\<rparr>))"

definition resolver_ipc_reader_name :: "resolver_ipc_reader \<Rightarrow> u16 \<Rightarrow> bool \<Rightarrow> (bytes \<times> resolver_ipc_reader) option" where
  "resolver_ipc_reader_name reader n allow_empty =
     (if unat n \<ge> NS_MAXDNAME \<or> (\<not> allow_empty \<and> n = 0) then None
      else do {
        (source, reader) \<leftarrow> resolver_ipc_reader_take reader (unat n);
        if memchr 0 source \<noteq> None then None else Some (source, reader)
      })"

definition resolver_ipc_reader_u8 :: "resolver_ipc_reader \<Rightarrow> (u8 \<times> resolver_ipc_reader) option" where
  "resolver_ipc_reader_u8 reader = do {
     (source, reader) \<leftarrow> resolver_ipc_reader_take reader 1;
     Some (source ! 0, reader)
   }"

definition resolver_ipc_reader_u16 :: "resolver_ipc_reader \<Rightarrow> (u16 \<times> resolver_ipc_reader) option" where
  "resolver_ipc_reader_u16 reader = do {
     (source, reader) \<leftarrow> resolver_ipc_reader_take reader 2;
     Some (push_bit 8 (ucast (source ! 0)) OR ucast (source ! 1), reader)
   }"

definition resolver_ipc_reader_u32 :: "resolver_ipc_reader \<Rightarrow> (u32 \<times> resolver_ipc_reader) option" where
  "resolver_ipc_reader_u32 reader = do {
     (source, reader) \<leftarrow> resolver_ipc_reader_take reader 4;
     Some (push_bit 24 (ucast (source ! 0)) OR push_bit 16 (ucast (source ! 1)) OR push_bit 8 (ucast (source ! 2)) OR ucast (source ! 3), reader)
   }"

definition resolver_ipc_reader_u64 :: "resolver_ipc_reader \<Rightarrow> (u64 \<times> resolver_ipc_reader) option" where
  "resolver_ipc_reader_u64 reader = do {
     (source, reader) \<leftarrow> resolver_ipc_reader_take reader 8;
     Some (foldl (\<lambda>value c. push_bit 8 value OR ucast c) 0 source, reader)
   }"

definition resolver_ipc_status_decode :: "u16 \<Rightarrow> resolver_ipc_lookup_status option" where
  "resolver_ipc_status_decode encoded = (if resolver_ipc_lookup_status_valid (ucast encoded) then Some (ucast encoded) else None)"

definition resolver_ipc_status_encode :: "resolver_ipc_lookup_status \<Rightarrow> u16 option" where
  "resolver_ipc_status_encode status = (if resolver_ipc_lookup_status_valid status then Some (ucast status) else None)"

definition resolver_ipc_time_decode :: "u64 \<Rightarrow> u32 \<Rightarrow> timespec option" where
  "resolver_ipc_time_decode seconds nanos =
     (if unat nanos \<ge> 1000000000 then None
      else
        (let converted_seconds = to_time_t (unat seconds) in
         if converted_seconds < 0 \<or> of_time_t converted_seconds \<noteq> unat seconds then None
         else Some \<lparr>tv_sec = converted_seconds, tv_nsec = int (unat nanos)\<rparr>))"

definition resolver_ipc_time_encode :: "timespec \<Rightarrow> (u64 \<times> u32) option" where
  "resolver_ipc_time_encode source =
     (if \<not> timeutil_valid (Some source) then None
      else
        (let converted_seconds = of_time_t (tv_sec source) in
         if to_time_t converted_seconds \<noteq> tv_sec source then None
         else Some (of_nat converted_seconds, word_of_int (tv_nsec source))))"

section \<open>Writer\<close>

text \<open>The place a successful \<open>resolver_ipc_writer_take\<close> points to, and the advanced writer. A write yields whether it succeeded.\<close>

definition resolver_ipc_writer_take :: "resolver_ipc_writer \<Rightarrow> nat \<Rightarrow> (nat \<times> resolver_ipc_writer) option" where
  "resolver_ipc_writer_take writer n =
     (if wr_offset writer > wr_size writer \<or> n > wr_size writer - wr_offset writer then None
      else Some (wr_offset writer, writer\<lparr>wr_offset := wr_offset writer + n\<rparr>))"

definition writer_store :: "bytes \<Rightarrow> resolver_ipc_writer \<Rightarrow> (bool \<times> resolver_ipc_writer) option" where
  "writer_store bs writer =
     (case resolver_ipc_writer_take writer (length bs) of
        None \<Rightarrow> Some (False, writer)
      | Some (target, writer) \<Rightarrow> do {
          data \<leftarrow> buf_write target bs (wr_data writer);
          Some (True, writer\<lparr>wr_data := data\<rparr>)
        })"

definition resolver_ipc_writer_bytes :: "bytes \<Rightarrow> nat \<Rightarrow> resolver_ipc_writer \<Rightarrow> (bool \<times> resolver_ipc_writer) option" where
  "resolver_ipc_writer_bytes source n writer = do {
     bs \<leftarrow> buf_read 0 n source;
     writer_store bs writer
   }"

definition resolver_ipc_writer_u8 :: "u8 \<Rightarrow> resolver_ipc_writer \<Rightarrow> (bool \<times> resolver_ipc_writer) option" where
  "resolver_ipc_writer_u8 value = writer_store [value]"

definition resolver_ipc_writer_u16 :: "u16 \<Rightarrow> resolver_ipc_writer \<Rightarrow> (bool \<times> resolver_ipc_writer) option" where
  "resolver_ipc_writer_u16 value = writer_store [ucast (drop_bit 8 value), ucast value]"

definition resolver_ipc_writer_u32 :: "u32 \<Rightarrow> resolver_ipc_writer \<Rightarrow> (bool \<times> resolver_ipc_writer) option" where
  "resolver_ipc_writer_u32 value =
     writer_store [ucast (drop_bit 24 value), ucast (drop_bit 16 value), ucast (drop_bit 8 value), ucast value]"

text \<open>The loop of \<open>resolver_ipc_writer_u64\<close> stores from the last byte to the first.\<close>

fun be_bytes :: "nat \<Rightarrow> 'a::len word \<Rightarrow> bytes" where
  "be_bytes 0 value = []"
| "be_bytes (Suc n) value = be_bytes n (drop_bit 8 value) @ [ucast value]"

definition resolver_ipc_writer_u64 :: "u64 \<Rightarrow> resolver_ipc_writer \<Rightarrow> (bool \<times> resolver_ipc_writer) option" where
  "resolver_ipc_writer_u64 value = writer_store (be_bytes 8 value)"

text \<open>A chain of writes joined by \<open>||\<close> stops at the first that fails.\<close>

fun writer_all :: "(resolver_ipc_writer \<Rightarrow> (bool \<times> resolver_ipc_writer) option) list \<Rightarrow> resolver_ipc_writer \<Rightarrow> (bool \<times> resolver_ipc_writer) option" where
  "writer_all [] writer = Some (True, writer)"
| "writer_all (f # fs) writer = do {
     (ok, writer) \<leftarrow> f writer;
     if ok then writer_all fs writer else Some (False, writer)
   }"

section \<open>Headers\<close>

definition resolver_ipc_header_decode ::
  "bytes option \<Rightarrow> resolver_ipc_packet_kind \<Rightarrow> resolver_ipc_codec_status \<times> resolver_ipc_packet_header \<times> resolver_ipc_reader" where
  "resolver_ipc_header_decode packet expected_kind =
     (let zero = (resolver_ipc_packet_header_zero, \<lparr>rd_data = [], rd_offset = 0, rd_size = 0\<rparr>) in
      case packet of
        None \<Rightarrow> (RESOLVER_IPC_CODEC_BAD_ARGUMENT, zero)
      | Some data \<Rightarrow>
          if length data > RESOLVER_IPC_PACKET_BYTE_LIMIT then (RESOLVER_IPC_CODEC_LIMIT, zero)
          else if length data < RESOLVER_IPC_HEADER_SIZE then (RESOLVER_IPC_CODEC_MALFORMED, zero)
          else
            (case do {
                    let reader = \<lparr>rd_data = data, rd_offset = 0, rd_size = length data\<rparr>;
                    (magic, reader) \<leftarrow> resolver_ipc_reader_u32 reader;
                    (version, reader) \<leftarrow> resolver_ipc_reader_u16 reader;
                    (encoded_kind, reader) \<leftarrow> resolver_ipc_reader_u16 reader;
                    (encoded_size, reader) \<leftarrow> resolver_ipc_reader_u16 reader;
                    (reserved, reader) \<leftarrow> resolver_ipc_reader_u16 reader;
                    (query_id, reader) \<leftarrow> resolver_ipc_reader_u64 reader;
                    Some (magic, version, encoded_kind, encoded_size, reserved, query_id, reader)
                  } of
               None \<Rightarrow> (RESOLVER_IPC_CODEC_MALFORMED, zero)
             | Some (magic, version, encoded_kind, encoded_size, reserved, query_id, reader) \<Rightarrow>
                 if magic \<noteq> RESOLVER_IPC_MAGIC \<or> unat encoded_size \<noteq> length data \<or> reserved \<noteq> 0 \<or> query_id = 0
                 then (RESOLVER_IPC_CODEC_MALFORMED, zero)
                 else if version \<noteq> RESOLVER_IPC_PROTOCOL_VERSION then (RESOLVER_IPC_CODEC_UNSUPPORTED, zero)
                 else
                   (case resolver_ipc_packet_kind_decode encoded_kind of
                      None \<Rightarrow> (RESOLVER_IPC_CODEC_UNSUPPORTED, zero)
                    | Some kind \<Rightarrow>
                        if expected_kind \<noteq> 0 \<and> kind \<noteq> expected_kind then (RESOLVER_IPC_CODEC_MALFORMED, zero)
                        else (RESOLVER_IPC_CODEC_OK, \<lparr>ph_kind = kind, ph_query_id = query_id\<rparr>, reader))))"

text \<open>The status, and the writer behind the header once writing has begun.\<close>

definition resolver_ipc_header_encode ::
  "resolver_ipc_packet_kind \<Rightarrow> u64 \<Rightarrow> bytes option \<Rightarrow> nat \<Rightarrow> (resolver_ipc_codec_status \<times> resolver_ipc_writer option) option" where
  "resolver_ipc_header_encode kind query_id packet packet_size =
     (if packet = None \<or> query_id = 0 then Some (RESOLVER_IPC_CODEC_BAD_ARGUMENT, None)
      else if packet_size > RESOLVER_IPC_PACKET_BYTE_LIMIT \<or> packet_size > UINT16_MAX \<or> length (the packet) < packet_size
      then Some (RESOLVER_IPC_CODEC_LIMIT, None)
      else
        (case resolver_ipc_packet_kind_encode kind of
           None \<Rightarrow> Some (RESOLVER_IPC_CODEC_BAD_ARGUMENT, None)
         | Some encoded_kind \<Rightarrow> do {
             (ok, writer) \<leftarrow> writer_all
               [resolver_ipc_writer_u32 RESOLVER_IPC_MAGIC, resolver_ipc_writer_u16 RESOLVER_IPC_PROTOCOL_VERSION,
                resolver_ipc_writer_u16 encoded_kind, resolver_ipc_writer_u16 (of_nat packet_size), resolver_ipc_writer_u16 0,
                resolver_ipc_writer_u64 query_id]
               \<lparr>wr_data = the packet, wr_offset = 0, wr_size = packet_size\<rparr>;
             Some (if ok then RESOLVER_IPC_CODEC_OK else RESOLVER_IPC_CODEC_LIMIT, Some writer)
           }))"

definition resolver_ipc_response_count_valid :: "u16 \<Rightarrow> nat \<Rightarrow> nat \<Rightarrow> bool" where
  "resolver_ipc_response_count_valid query_type cname_count record_count \<longleftrightarrow>
     (if cname_count > DNS_CNAME_DEPTH_LIMIT then False
      else if query_type = ns_t_a \<or> query_type = ns_t_aaaa then record_count \<le> DNS_ADDRESS_RECORD_LIMIT
      else query_type = ns_t_srv \<and> record_count \<le> DNS_SRV_RECORD_LIMIT)"

section \<open>Exported functions\<close>

definition resolver_ipc_lookup_status_from_address :: "dns_address_lookup_status \<Rightarrow> resolver_ipc_lookup_status option" where
  "resolver_ipc_lookup_status_from_address source =
     map_option (\<lambda>(a, s, i). i) (resolver_ipc_lookup_status_find (RESOLVER_IPC_LOOKUP_STATUS_ADDRESS source))"

definition resolver_ipc_lookup_status_from_srv :: "dns_srv_lookup_status \<Rightarrow> resolver_ipc_lookup_status option" where
  "resolver_ipc_lookup_status_from_srv source =
     map_option (\<lambda>(a, s, i). i) (resolver_ipc_lookup_status_find (RESOLVER_IPC_LOOKUP_STATUS_SRV source))"

definition resolver_ipc_lookup_status_to_address :: "resolver_ipc_lookup_status \<Rightarrow> dns_address_lookup_status option" where
  "resolver_ipc_lookup_status_to_address source =
     map_option (\<lambda>(a, s, i). a) (resolver_ipc_lookup_status_find (RESOLVER_IPC_LOOKUP_STATUS_IPC source))"

definition resolver_ipc_lookup_status_to_srv :: "resolver_ipc_lookup_status \<Rightarrow> dns_srv_lookup_status option" where
  "resolver_ipc_lookup_status_to_srv source =
     map_option (\<lambda>(a, s, i). s) (resolver_ipc_lookup_status_find (RESOLVER_IPC_LOOKUP_STATUS_IPC source))"

definition resolver_ipc_packet_inspect :: "bytes option \<Rightarrow> bool \<Rightarrow> resolver_ipc_codec_status \<times> resolver_ipc_packet_header" where
  "resolver_ipc_packet_inspect packet result_ok =
     (if \<not> result_ok then (RESOLVER_IPC_CODEC_BAD_ARGUMENT, resolver_ipc_packet_header_zero)
      else
        (case resolver_ipc_header_decode packet 0 of
           (status, candidate, reader) \<Rightarrow>
             (status, if status = RESOLVER_IPC_CODEC_OK then candidate else resolver_ipc_packet_header_zero)))"

text \<open>
  The common frame of the decoders: the header must be valid and of the expected kind; if the fields do not decode or
  do not use up the packet, the zeroed structure is left.
\<close>

definition packet_decode ::
  "resolver_ipc_packet_kind \<Rightarrow> 'a \<Rightarrow> (resolver_ipc_packet_header \<Rightarrow> resolver_ipc_reader \<Rightarrow> ('a \<times> resolver_ipc_reader) option) \<Rightarrow>
     bytes option \<Rightarrow> bool \<Rightarrow> resolver_ipc_codec_status \<times> 'a" where
  "packet_decode kind zero contents packet result_ok =
     (if \<not> result_ok then (RESOLVER_IPC_CODEC_BAD_ARGUMENT, zero)
      else
        (case resolver_ipc_header_decode packet kind of
           (status, header, reader) \<Rightarrow>
             if status \<noteq> RESOLVER_IPC_CODEC_OK then (status, zero)
             else
               (case contents header reader of
                  None \<Rightarrow> (RESOLVER_IPC_CODEC_MALFORMED, zero)
                | Some (result, reader) \<Rightarrow>
                    if rd_offset reader \<noteq> rd_size reader then (RESOLVER_IPC_CODEC_MALFORMED, zero)
                    else (RESOLVER_IPC_CODEC_OK, result))))"

text \<open>
  The common end of the encoders: the header, then the fields, which must fill the packet. They yield the status, the packet and the
  value stored to \<open>packet_size\<close>.
\<close>

definition header_then ::
  "resolver_ipc_packet_kind \<Rightarrow> u64 \<Rightarrow> bytes option \<Rightarrow> nat \<Rightarrow> (resolver_ipc_writer \<Rightarrow> (resolver_ipc_codec_status \<times> bytes option \<times> nat) option) \<Rightarrow>
     (resolver_ipc_codec_status \<times> bytes option \<times> nat) option" where
  "header_then kind query_id packet encoded_size continue = do {
     (status, writer) \<leftarrow> resolver_ipc_header_encode kind query_id packet encoded_size;
     if status \<noteq> RESOLVER_IPC_CODEC_OK
     then Some (status, (case writer of None \<Rightarrow> packet | Some w \<Rightarrow> Some (wr_data w)), 0)
     else continue (the writer)
   }"

definition fields_then_size ::
  "(resolver_ipc_writer \<Rightarrow> (bool \<times> resolver_ipc_writer) option) list \<Rightarrow> nat \<Rightarrow> resolver_ipc_writer \<Rightarrow>
     (resolver_ipc_codec_status \<times> bytes option \<times> nat) option" where
  "fields_then_size ops encoded_size writer = do {
     (ok, writer) \<leftarrow> writer_all ops writer;
     if \<not> ok \<or> wr_offset writer \<noteq> wr_size writer then Some (RESOLVER_IPC_CODEC_LIMIT, Some (wr_data writer), 0)
     else Some (RESOLVER_IPC_CODEC_OK, Some (wr_data writer), encoded_size)
   }"

definition request_fields :: "resolver_ipc_packet_header \<Rightarrow> resolver_ipc_reader \<Rightarrow> (resolver_ipc_request \<times> resolver_ipc_reader) option" where
  "request_fields header reader = do {
     (query_class, reader) \<leftarrow> resolver_ipc_reader_u16 reader;
     (query_type, reader) \<leftarrow> resolver_ipc_reader_u16 reader;
     (name_size, reader) \<leftarrow> resolver_ipc_reader_u16 reader;
     if query_class \<noteq> ns_c_in \<or> \<not> resolver_ipc_query_type_valid query_type then None
     else do {
       (query_name, reader) \<leftarrow> resolver_ipc_reader_name reader name_size False;
       Some (\<lparr>rq_query_name = query_name, rq_query_class = query_class, rq_query_id = ph_query_id header, rq_query_type = query_type\<rparr>, reader)
     }
   }"

definition resolver_ipc_request_decode :: "bytes option \<Rightarrow> bool \<Rightarrow> resolver_ipc_codec_status \<times> resolver_ipc_request" where
  "resolver_ipc_request_decode = packet_decode RESOLVER_IPC_PACKET_REQUEST resolver_ipc_request_zero request_fields"

definition resolver_ipc_request_encode ::
  "resolver_ipc_request option \<Rightarrow> bytes option \<Rightarrow> bool \<Rightarrow> (resolver_ipc_codec_status \<times> bytes option \<times> nat) option" where
  "resolver_ipc_request_encode request packet size_ok =
     (case request of
        None \<Rightarrow> Some (RESOLVER_IPC_CODEC_BAD_ARGUMENT, packet, 0)
      | Some request \<Rightarrow>
          if packet = None \<or> \<not> size_ok \<or> rq_query_class request \<noteq> ns_c_in \<or> \<not> resolver_ipc_query_type_valid (rq_query_type request)
          then Some (RESOLVER_IPC_CODEC_BAD_ARGUMENT, packet, 0)
          else
            (case resolver_ipc_name_size (rq_query_name request) False of
               None \<Rightarrow> Some (RESOLVER_IPC_CODEC_BAD_ARGUMENT, packet, 0)
             | Some name_size \<Rightarrow>
                 (let encoded_size = RESOLVER_IPC_HEADER_SIZE + 2 * 3 + name_size in
                  header_then RESOLVER_IPC_PACKET_REQUEST (rq_query_id request) packet encoded_size
                    (fields_then_size
                       [resolver_ipc_writer_u16 (rq_query_class request), resolver_ipc_writer_u16 (rq_query_type request),
                        resolver_ipc_writer_u16 (of_nat name_size), resolver_ipc_writer_bytes (rq_query_name request) name_size]
                       encoded_size))))"

text \<open>An address is copied into the zeroed union of the result.\<close>

definition address_fields :: "resolver_ipc_packet_header \<Rightarrow> resolver_ipc_reader \<Rightarrow> (resolver_ipc_response_address \<times> resolver_ipc_reader) option" where
  "address_fields header reader = do {
     (index, reader) \<leftarrow> resolver_ipc_reader_u16 reader;
     (family, reader) \<leftarrow> resolver_ipc_reader_u16 reader;
     (record_ttl, reader) \<leftarrow> resolver_ipc_reader_u32 reader;
     (effective_ttl, reader) \<leftarrow> resolver_ipc_reader_u32 reader;
     (address_size, reader) \<leftarrow> resolver_ipc_reader_u16 reader;
     if unat index \<ge> DNS_ADDRESS_RECORD_LIMIT \<or> effective_ttl > record_ttl then None
     else do {
       decoded_family \<leftarrow> resolver_ipc_address_family_decode family;
       (addr, reader) \<leftarrow> resolver_ipc_reader_take reader (unat address_size);
       if (decoded_family = AF_INET \<and> unat address_size \<noteq> 4) \<or> (decoded_family = AF_INET6 \<and> unat address_size \<noteq> 16) then None
       else Some (\<lparr>ra_index = index, ra_query_id = ph_query_id header,
                   ra_record = \<lparr>ar_address = net_addr_zero\<lparr>addr_family := decoded_family, addr_bytes := addr @ drop (unat address_size) (replicate 16 0)\<rparr>,
                                ar_effective_ttl = unat effective_ttl, ar_record_ttl = unat record_ttl\<rparr>\<rparr>, reader)
     }
   }"

definition resolver_ipc_response_address_decode :: "bytes option \<Rightarrow> bool \<Rightarrow> resolver_ipc_codec_status \<times> resolver_ipc_response_address" where
  "resolver_ipc_response_address_decode = packet_decode RESOLVER_IPC_PACKET_RESPONSE_ADDRESS resolver_ipc_response_address_zero address_fields"

definition resolver_ipc_response_address_encode ::
  "resolver_ipc_response_address option \<Rightarrow> bytes option \<Rightarrow> bool \<Rightarrow> (resolver_ipc_codec_status \<times> bytes option \<times> nat) option" where
  "resolver_ipc_response_address_encode response packet size_ok =
     (case response of
        None \<Rightarrow> Some (RESOLVER_IPC_CODEC_BAD_ARGUMENT, packet, 0)
      | Some response \<Rightarrow>
          (let record = ra_record response; addr = ar_address record; family = addr_family addr in
           if packet = None \<or> \<not> size_ok \<or> unat (ra_index response) \<ge> DNS_ADDRESS_RECORD_LIMIT \<or> addr_err addr \<noteq> NET_OK
              \<or> ar_effective_ttl record > ar_record_ttl record \<or> (family \<noteq> AF_INET \<and> family \<noteq> AF_INET6)
           then Some (RESOLVER_IPC_CODEC_BAD_ARGUMENT, packet, 0)
           else
             (let address_size = (if family = AF_INET then 4 else 16);
                  encoded_size = RESOLVER_IPC_HEADER_SIZE + 2 * 3 + 4 * 2 + address_size in
              header_then RESOLVER_IPC_PACKET_RESPONSE_ADDRESS (ra_query_id response) packet encoded_size
                (\<lambda>writer.
                   case resolver_ipc_address_family_encode family of
                     None \<Rightarrow> Some (RESOLVER_IPC_CODEC_BAD_ARGUMENT, Some (wr_data writer), 0)
                   | Some encoded_family \<Rightarrow>
                       fields_then_size
                         [resolver_ipc_writer_u16 (ra_index response), resolver_ipc_writer_u16 encoded_family,
                          resolver_ipc_writer_u32 (of_nat (ar_record_ttl record)), resolver_ipc_writer_u32 (of_nat (ar_effective_ttl record)),
                          resolver_ipc_writer_u16 (of_nat address_size), resolver_ipc_writer_bytes (addr_bytes addr) address_size]
                         encoded_size writer))))"

definition begin_fields :: "resolver_ipc_packet_header \<Rightarrow> resolver_ipc_reader \<Rightarrow> (resolver_ipc_response_begin \<times> resolver_ipc_reader) option" where
  "begin_fields header reader = do {
     (query_class, reader) \<leftarrow> resolver_ipc_reader_u16 reader;
     (query_type, reader) \<leftarrow> resolver_ipc_reader_u16 reader;
     (encoded_status, reader) \<leftarrow> resolver_ipc_reader_u16 reader;
     (rcode, reader) \<leftarrow> resolver_ipc_reader_u8 reader;
     (negative_valid, reader) \<leftarrow> resolver_ipc_reader_u8 reader;
     (seconds, reader) \<leftarrow> resolver_ipc_reader_u64 reader;
     (nanos, reader) \<leftarrow> resolver_ipc_reader_u32 reader;
     (cname_count, reader) \<leftarrow> resolver_ipc_reader_u16 reader;
     (record_count, reader) \<leftarrow> resolver_ipc_reader_u16 reader;
     (question_size, reader) \<leftarrow> resolver_ipc_reader_u16 reader;
     (canonical_size, reader) \<leftarrow> resolver_ipc_reader_u16 reader;
     (negative_owner_size, reader) \<leftarrow> resolver_ipc_reader_u16 reader;
     (effective_ttl, reader) \<leftarrow> resolver_ipc_reader_u32 reader;
     (minimum, reader) \<leftarrow> resolver_ipc_reader_u32 reader;
     (record_ttl, reader) \<leftarrow> resolver_ipc_reader_u32 reader;
     if query_class \<noteq> ns_c_in \<or> \<not> resolver_ipc_query_type_valid query_type then None
     else do {
       status \<leftarrow> resolver_ipc_status_decode encoded_status;
       if rcode > 15 \<or> negative_valid > 1 then None
       else do {
         completed_at \<leftarrow> resolver_ipc_time_decode seconds nanos;
         if \<not> resolver_ipc_response_count_valid query_type (unat cname_count) (unat record_count) then None
         else do {
           (question_name, reader) \<leftarrow> resolver_ipc_reader_name reader question_size True;
           (canonical_name, reader) \<leftarrow> resolver_ipc_reader_name reader canonical_size True;
           (owner, reader) \<leftarrow> resolver_ipc_reader_name reader negative_owner_size (negative_valid = 0);
           let negative = \<lparr>neg_effective_ttl = unat effective_ttl, neg_minimum = unat minimum, neg_owner = owner,
                           neg_record_ttl = unat record_ttl, neg_valid = (negative_valid \<noteq> 0)\<rparr>;
           if \<not> resolver_ipc_negative_valid negative then None
           else Some (\<lparr>rb_canonical_name = canonical_name, rb_cname_count = unat cname_count, rb_completed_at = completed_at, rb_negative = negative,
                       rb_question_name = question_name, rb_query_class = query_class, rb_query_id = ph_query_id header, rb_query_type = query_type,
                       rb_rcode = rcode, rb_record_count = unat record_count, rb_status = status\<rparr>, reader)
         }
       }
     }
   }"

definition resolver_ipc_response_begin_decode :: "bytes option \<Rightarrow> bool \<Rightarrow> resolver_ipc_codec_status \<times> resolver_ipc_response_begin" where
  "resolver_ipc_response_begin_decode = packet_decode RESOLVER_IPC_PACKET_RESPONSE_BEGIN resolver_ipc_response_begin_zero begin_fields"

definition resolver_ipc_response_begin_encode ::
  "resolver_ipc_response_begin option \<Rightarrow> bytes option \<Rightarrow> bool \<Rightarrow> (resolver_ipc_codec_status \<times> bytes option \<times> nat) option" where
  "resolver_ipc_response_begin_encode response packet size_ok =
     (case response of
        None \<Rightarrow> Some (RESOLVER_IPC_CODEC_BAD_ARGUMENT, packet, 0)
      | Some response \<Rightarrow>
          (let negative = rb_negative response in
           if packet = None \<or> \<not> size_ok \<or> rb_query_class response \<noteq> ns_c_in \<or> \<not> resolver_ipc_query_type_valid (rb_query_type response)
              \<or> \<not> resolver_ipc_lookup_status_valid (rb_status response) \<or> rb_rcode response > 15 \<or> \<not> resolver_ipc_negative_valid negative
              \<or> \<not> resolver_ipc_response_count_valid (rb_query_type response) (rb_cname_count response) (rb_record_count response)
           then Some (RESOLVER_IPC_CODEC_BAD_ARGUMENT, packet, 0)
           else
             (case do {
                     (seconds, nanos) \<leftarrow> resolver_ipc_time_encode (rb_completed_at response);
                     question_size \<leftarrow> resolver_ipc_name_size (rb_question_name response) True;
                     canonical_size \<leftarrow> resolver_ipc_name_size (rb_canonical_name response) True;
                     negative_owner_size \<leftarrow> resolver_ipc_name_size (neg_owner negative) (\<not> neg_valid negative);
                     Some (seconds, nanos, question_size, canonical_size, negative_owner_size)
                   } of
                None \<Rightarrow> Some (RESOLVER_IPC_CODEC_BAD_ARGUMENT, packet, 0)
              | Some (seconds, nanos, question_size, canonical_size, negative_owner_size) \<Rightarrow>
                  (let encoded_size = RESOLVER_IPC_HEADER_SIZE + 2 * 8 + 1 * 2 + 8 + 4 * 4 + question_size + canonical_size + negative_owner_size in
                   header_then RESOLVER_IPC_PACKET_RESPONSE_BEGIN (rb_query_id response) packet encoded_size
                     (\<lambda>writer.
                        case resolver_ipc_status_encode (rb_status response) of
                          None \<Rightarrow> Some (RESOLVER_IPC_CODEC_LIMIT, Some (wr_data writer), 0)
                        | Some encoded_status \<Rightarrow>
                            fields_then_size
                              [resolver_ipc_writer_u16 (rb_query_class response), resolver_ipc_writer_u16 (rb_query_type response),
                               resolver_ipc_writer_u16 encoded_status, resolver_ipc_writer_u8 (rb_rcode response),
                               resolver_ipc_writer_u8 (if neg_valid negative then 1 else 0), resolver_ipc_writer_u64 seconds, resolver_ipc_writer_u32 nanos,
                               resolver_ipc_writer_u16 (of_nat (rb_cname_count response)), resolver_ipc_writer_u16 (of_nat (rb_record_count response)),
                               resolver_ipc_writer_u16 (of_nat question_size), resolver_ipc_writer_u16 (of_nat canonical_size),
                               resolver_ipc_writer_u16 (of_nat negative_owner_size), resolver_ipc_writer_u32 (of_nat (neg_effective_ttl negative)),
                               resolver_ipc_writer_u32 (of_nat (neg_minimum negative)), resolver_ipc_writer_u32 (of_nat (neg_record_ttl negative)),
                               resolver_ipc_writer_bytes (rb_question_name response) question_size,
                               resolver_ipc_writer_bytes (rb_canonical_name response) canonical_size,
                               resolver_ipc_writer_bytes (neg_owner negative) negative_owner_size]
                              encoded_size writer)))))"

definition cname_fields :: "resolver_ipc_packet_header \<Rightarrow> resolver_ipc_reader \<Rightarrow> (resolver_ipc_response_cname \<times> resolver_ipc_reader) option" where
  "cname_fields header reader = do {
     (index, reader) \<leftarrow> resolver_ipc_reader_u16 reader;
     (ttl, reader) \<leftarrow> resolver_ipc_reader_u32 reader;
     (owner_size, reader) \<leftarrow> resolver_ipc_reader_u16 reader;
     (target_length, reader) \<leftarrow> resolver_ipc_reader_u16 reader;
     if unat index \<ge> DNS_CNAME_DEPTH_LIMIT then None
     else do {
       (owner, reader) \<leftarrow> resolver_ipc_reader_name reader owner_size False;
       (target, reader) \<leftarrow> resolver_ipc_reader_name reader target_length False;
       Some (\<lparr>rc_record = \<lparr>cn_owner = owner, cn_target = target, cn_ttl = unat ttl\<rparr>, rc_index = index, rc_query_id = ph_query_id header\<rparr>, reader)
     }
   }"

definition resolver_ipc_response_cname_decode :: "bytes option \<Rightarrow> bool \<Rightarrow> resolver_ipc_codec_status \<times> resolver_ipc_response_cname" where
  "resolver_ipc_response_cname_decode = packet_decode RESOLVER_IPC_PACKET_RESPONSE_CNAME resolver_ipc_response_cname_zero cname_fields"

definition resolver_ipc_response_cname_encode ::
  "resolver_ipc_response_cname option \<Rightarrow> bytes option \<Rightarrow> bool \<Rightarrow> (resolver_ipc_codec_status \<times> bytes option \<times> nat) option" where
  "resolver_ipc_response_cname_encode response packet size_ok =
     (case response of
        None \<Rightarrow> Some (RESOLVER_IPC_CODEC_BAD_ARGUMENT, packet, 0)
      | Some response \<Rightarrow>
          (let record = rc_record response in
           if packet = None \<or> \<not> size_ok \<or> unat (rc_index response) \<ge> DNS_CNAME_DEPTH_LIMIT
           then Some (RESOLVER_IPC_CODEC_BAD_ARGUMENT, packet, 0)
           else
             (case do {
                     owner_size \<leftarrow> resolver_ipc_name_size (cn_owner record) False;
                     target_length \<leftarrow> resolver_ipc_name_size (cn_target record) False;
                     Some (owner_size, target_length)
                   } of
                None \<Rightarrow> Some (RESOLVER_IPC_CODEC_BAD_ARGUMENT, packet, 0)
              | Some (owner_size, target_length) \<Rightarrow>
                  (let encoded_size = RESOLVER_IPC_HEADER_SIZE + 2 * 3 + 4 + owner_size + target_length in
                   header_then RESOLVER_IPC_PACKET_RESPONSE_CNAME (rc_query_id response) packet encoded_size
                     (fields_then_size
                        [resolver_ipc_writer_u16 (rc_index response), resolver_ipc_writer_u32 (of_nat (cn_ttl record)),
                         resolver_ipc_writer_u16 (of_nat owner_size), resolver_ipc_writer_u16 (of_nat target_length),
                         resolver_ipc_writer_bytes (cn_owner record) owner_size, resolver_ipc_writer_bytes (cn_target record) target_length]
                        encoded_size)))))"

definition end_fields :: "resolver_ipc_packet_header \<Rightarrow> resolver_ipc_reader \<Rightarrow> (resolver_ipc_response_end \<times> resolver_ipc_reader) option" where
  "end_fields header reader = do {
     (cname_count, reader) \<leftarrow> resolver_ipc_reader_u16 reader;
     (record_count, reader) \<leftarrow> resolver_ipc_reader_u16 reader;
     if unat cname_count > DNS_CNAME_DEPTH_LIMIT \<or> (unat record_count > DNS_ADDRESS_RECORD_LIMIT \<and> unat record_count > DNS_SRV_RECORD_LIMIT) then None
     else Some (\<lparr>re_cname_count = unat cname_count, re_query_id = ph_query_id header, re_record_count = unat record_count\<rparr>, reader)
   }"

definition resolver_ipc_response_end_decode :: "bytes option \<Rightarrow> bool \<Rightarrow> resolver_ipc_codec_status \<times> resolver_ipc_response_end" where
  "resolver_ipc_response_end_decode = packet_decode RESOLVER_IPC_PACKET_RESPONSE_END resolver_ipc_response_end_zero end_fields"

definition resolver_ipc_response_end_encode ::
  "resolver_ipc_response_end option \<Rightarrow> bytes option \<Rightarrow> bool \<Rightarrow> (resolver_ipc_codec_status \<times> bytes option \<times> nat) option" where
  "resolver_ipc_response_end_encode response packet size_ok =
     (case response of
        None \<Rightarrow> Some (RESOLVER_IPC_CODEC_BAD_ARGUMENT, packet, 0)
      | Some response \<Rightarrow>
          if packet = None \<or> \<not> size_ok \<or> re_cname_count response > DNS_CNAME_DEPTH_LIMIT
             \<or> (re_record_count response > DNS_ADDRESS_RECORD_LIMIT \<and> re_record_count response > DNS_SRV_RECORD_LIMIT)
          then Some (RESOLVER_IPC_CODEC_BAD_ARGUMENT, packet, 0)
          else
            (let encoded_size = RESOLVER_IPC_HEADER_SIZE + 2 * 2 in
             header_then RESOLVER_IPC_PACKET_RESPONSE_END (re_query_id response) packet encoded_size
               (fields_then_size
                  [resolver_ipc_writer_u16 (of_nat (re_cname_count response)), resolver_ipc_writer_u16 (of_nat (re_record_count response))]
                  encoded_size)))"

definition srv_fields :: "resolver_ipc_packet_header \<Rightarrow> resolver_ipc_reader \<Rightarrow> (resolver_ipc_response_srv \<times> resolver_ipc_reader) option" where
  "srv_fields header reader = do {
     (index, reader) \<leftarrow> resolver_ipc_reader_u16 reader;
     (priority, reader) \<leftarrow> resolver_ipc_reader_u16 reader;
     (weight, reader) \<leftarrow> resolver_ipc_reader_u16 reader;
     (port_number, reader) \<leftarrow> resolver_ipc_reader_u16 reader;
     (record_ttl, reader) \<leftarrow> resolver_ipc_reader_u32 reader;
     (effective_ttl, reader) \<leftarrow> resolver_ipc_reader_u32 reader;
     (target_length, reader) \<leftarrow> resolver_ipc_reader_u16 reader;
     if unat index \<ge> DNS_SRV_RECORD_LIMIT \<or> effective_ttl > record_ttl then None
     else do {
       (target, reader) \<leftarrow> resolver_ipc_reader_name reader target_length False;
       Some (\<lparr>rv_index = index, rv_query_id = ph_query_id header,
              rv_record = \<lparr>srv_priority = priority, srv_weight = weight, srv_port = port_number, srv_target = target,
                           srv_record_ttl = unat record_ttl, srv_effective_ttl = unat effective_ttl\<rparr>\<rparr>, reader)
     }
   }"

definition resolver_ipc_response_srv_decode :: "bytes option \<Rightarrow> bool \<Rightarrow> resolver_ipc_codec_status \<times> resolver_ipc_response_srv" where
  "resolver_ipc_response_srv_decode = packet_decode RESOLVER_IPC_PACKET_RESPONSE_SRV resolver_ipc_response_srv_zero srv_fields"

definition resolver_ipc_response_srv_encode ::
  "resolver_ipc_response_srv option \<Rightarrow> bytes option \<Rightarrow> bool \<Rightarrow> (resolver_ipc_codec_status \<times> bytes option \<times> nat) option" where
  "resolver_ipc_response_srv_encode response packet size_ok =
     (case response of
        None \<Rightarrow> Some (RESOLVER_IPC_CODEC_BAD_ARGUMENT, packet, 0)
      | Some response \<Rightarrow>
          (let record = rv_record response in
           if packet = None \<or> \<not> size_ok \<or> unat (rv_index response) \<ge> DNS_SRV_RECORD_LIMIT \<or> srv_effective_ttl record > srv_record_ttl record
           then Some (RESOLVER_IPC_CODEC_BAD_ARGUMENT, packet, 0)
           else
             (case resolver_ipc_name_size (srv_target record) False of
                None \<Rightarrow> Some (RESOLVER_IPC_CODEC_BAD_ARGUMENT, packet, 0)
              | Some target_length \<Rightarrow>
                  (let encoded_size = RESOLVER_IPC_HEADER_SIZE + 2 * 5 + 4 * 2 + target_length in
                   header_then RESOLVER_IPC_PACKET_RESPONSE_SRV (rv_query_id response) packet encoded_size
                     (fields_then_size
                        [resolver_ipc_writer_u16 (rv_index response), resolver_ipc_writer_u16 (srv_priority record), resolver_ipc_writer_u16 (srv_weight record),
                         resolver_ipc_writer_u16 (srv_port record), resolver_ipc_writer_u32 (of_nat (srv_record_ttl record)),
                         resolver_ipc_writer_u32 (of_nat (srv_effective_ttl record)), resolver_ipc_writer_u16 (of_nat target_length),
                         resolver_ipc_writer_bytes (srv_target record) target_length]
                        encoded_size)))))"

end
