(* ===== verification/Ipc_Correct.thy ===== *)
theory Ipc_Correct
  imports Ipc
begin

text \<open>
  Correctness of the resolver's packet codecs. Big-endian integers, the checked reader and the checked writer are characterised once;
  the locale \<open>ipc_packet\<close> collects what a packet kind promises and derives from it that encoding and decoding are inverse to each
  other; each of the six kinds is an interpretation.
\<close>

section \<open>Big-endian integers\<close>

definition be_value :: "bytes \<Rightarrow> 'a::len word" where
  "be_value bs = foldl (\<lambda>value c. push_bit 8 value OR ucast c) 0 bs"

lemma be_value_append [simp]: "be_value (bs @ [c]) = push_bit 8 (be_value bs) OR ucast c"
  by (simp add: be_value_def)

lemma be_value_Nil [simp]: "be_value [] = 0"
  by (simp add: be_value_def)

lemma length_be_bytes [simp]: "length (be_bytes n v) = n"
  by (induction n arbitrary: v) simp_all

lemma be_value_bytes: "be_value (be_bytes n v) = take_bit (8 * n) (v :: 'a::len word)"
proof (induction n arbitrary: v)
  case (Suc n)
  have "push_bit 8 (take_bit (8 * n) (drop_bit 8 v)) OR ucast (ucast v :: u8) = take_bit (8 * Suc n) v"
    by (rule bit_word_eqI) (auto simp: bit_simps)
  then show ?case by (simp add: Suc)
qed simp

lemma be_bytes_value: "8 * length bs \<le> LENGTH('a::len) \<Longrightarrow> be_bytes (length bs) (be_value bs :: 'a word) = bs \<and> take_bit (8 * length bs) (be_value bs :: 'a word) = be_value bs"
proof (induction bs rule: rev_induct)
  case (snoc c bs)
  let ?x = "be_value bs :: 'a word"
  have x: "be_bytes (length bs) ?x = bs" "take_bit (8 * length bs) ?x = ?x"
    using snoc by simp_all
  have small: "\<not> bit ?x n" if "8 * length bs \<le> n" for n
    using x(2) that by (metis bit_take_bit_iff not_less)
  have "drop_bit 8 (push_bit 8 ?x OR ucast c) = ?x"
  proof (rule bit_word_eqI)
    fix n
    assume "n < LENGTH('a)"
    then show "bit (drop_bit 8 (push_bit 8 ?x OR ucast c)) n = bit ?x n"
      using small [of n] snoc.prems by (cases "8 * length bs \<le> n") (auto simp: bit_simps dest: bit_imp_le_length)
  qed
  moreover have "ucast (push_bit 8 ?x OR ucast c) = c"
    using snoc.prems by (intro bit_word_eqI) (auto simp: bit_simps)
  moreover have "take_bit (8 * Suc (length bs)) (push_bit 8 ?x OR ucast c) = push_bit 8 ?x OR ucast c"
  proof (rule bit_word_eqI)
    fix n
    show "bit (take_bit (8 * Suc (length bs)) (push_bit 8 ?x OR ucast c)) n = bit (push_bit 8 ?x OR ucast c) n"
      using small [of "n - 8"] by (cases "n < 8 * Suc (length bs)") (auto simp: bit_simps dest: bit_imp_le_length)
  qed
  ultimately show ?case using x by simp
qed simp

lemma be_bytes_inject: "8 * n = LENGTH('a::len) \<Longrightarrow> be_bytes n v = be_bytes n w \<Longrightarrow> v = (w :: 'a word)"
  by (metis be_value_bytes take_bit_length_eq)

lemma be_bytes_explicit:
  "[ucast (drop_bit 24 w), ucast (drop_bit 16 w), ucast (drop_bit 8 w), ucast w] = be_bytes 4 w"
  "[ucast (drop_bit 8 v), ucast v] = be_bytes 2 v"
  by (simp_all add: eval_nat_numeral)

lemma be_value_explicit:
  "push_bit 8 (ucast a) OR ucast b = be_value [a, b]"
  "push_bit 24 (ucast a) OR push_bit 16 (ucast b) OR push_bit 8 (ucast c) OR ucast d = be_value [a, b, c, d]"
  by (simp_all add: be_value_def push_bit_or ac_simps)

section \<open>The reader\<close>

text \<open>The bytes in front of a reader, and what it means to have read some of them.\<close>

definition rd_ok :: "resolver_ipc_reader \<Rightarrow> bool" where
  "rd_ok r \<longleftrightarrow> rd_size r = length (rd_data r) \<and> rd_offset r \<le> rd_size r"

definition rest :: "resolver_ipc_reader \<Rightarrow> bytes" where
  "rest r = drop (rd_offset r) (rd_data r)"

definition reads :: "resolver_ipc_reader \<Rightarrow> bytes \<Rightarrow> resolver_ipc_reader \<Rightarrow> bool" where
  "reads r bs r' \<longleftrightarrow> rd_ok r \<and> rest r = bs @ rest r' \<and> r' = r\<lparr>rd_offset := rd_offset r + length bs\<rparr>"

lemma reads_take: "reads r bs r' \<longleftrightarrow> rd_ok r \<and> rd_offset r + length bs \<le> length (rd_data r) \<and> bs = take (length bs) (rest r)
    \<and> r' = r\<lparr>rd_offset := rd_offset r + length bs\<rparr>"
proof -
  have l: "rd_offset r + length bs \<le> length (rd_data r)" if "rd_ok r" "drop (rd_offset r) (rd_data r) = bs @ drop (rd_offset r + length bs) (rd_data r)"
  proof -
    have "length (rd_data r) - rd_offset r = length bs + (length (rd_data r) - (rd_offset r + length bs))"
      using arg_cong [OF that(2), of length] by simp
    with that(1) show ?thesis unfolding rd_ok_def by linarith
  qed
  have "drop (rd_offset r) (rd_data r) = bs @ drop (rd_offset r + length bs) (rd_data r) \<longleftrightarrow> bs = take (length bs) (drop (rd_offset r) (rd_data r))"
    by (metis add.commute append_eq_conv_conj append_take_drop_id drop_drop)
  with l show ?thesis by (auto simp: reads_def rest_def)
qed

lemma reads_ok: "reads r bs r' \<Longrightarrow> rd_ok r \<and> rd_ok r'"
  by (auto simp: reads_take rd_ok_def)

lemma reads_append: "reads r (as @ bs) r' \<longleftrightarrow> (\<exists>r1. reads r as r1 \<and> reads r1 bs r')"
proof
  assume a: "reads r (as @ bs) r'"
  define r1 where "r1 = r\<lparr>rd_offset := rd_offset r + length as\<rparr>"
  have "reads r as r1" "reads r1 bs r'"
    using a unfolding reads_take by (auto simp: r1_def rest_def rd_ok_def take_add ac_simps)
  then show "\<exists>r1. reads r as r1 \<and> reads r1 bs r'" by blast
next
  assume "\<exists>r1. reads r as r1 \<and> reads r1 bs r'"
  then show "reads r (as @ bs) r'" by (auto simp: reads_def)
qed

lemma take_iff: "rd_ok r \<Longrightarrow> resolver_ipc_reader_take r n = Some (bs, r') \<longleftrightarrow> length bs = n \<and> reads r bs r'"
  unfolding reads_take by (auto simp: resolver_ipc_reader_take_def rd_ok_def rest_def)

lemma name_iff:
  "rd_ok r \<Longrightarrow> resolver_ipc_reader_name r n allow_empty = Some (s, r') \<longleftrightarrow>
     length s = unat n \<and> length s < NS_MAXDNAME \<and> (allow_empty \<or> s \<noteq> []) \<and> 0 \<notin> set s \<and> reads r s r'"
  by (auto simp: resolver_ipc_reader_name_def bind_eq_Some_conv take_iff memchr_None_iff unat_eq_0 split: if_splits)

lemma integer_iff:
  fixes v :: "'a::len word"
  assumes "rd_ok r" "8 * n = LENGTH('a)"
  shows "(\<exists>bs. resolver_ipc_reader_take r n = Some (bs, r') \<and> v = be_value bs) \<longleftrightarrow> reads r (be_bytes n v) r'"
proof
  assume "\<exists>bs. resolver_ipc_reader_take r n = Some (bs, r') \<and> v = be_value bs"
  then show "reads r (be_bytes n v) r'"
    using assms be_bytes_value [where 'a = 'a] by (auto simp: take_iff)
next
  assume "reads r (be_bytes n v) r'"
  then show "\<exists>bs. resolver_ipc_reader_take r n = Some (bs, r') \<and> v = be_value bs"
    using assms by (auto simp: take_iff be_value_bytes intro!: exI [of _ "be_bytes n v"])
qed

lemma list_of_length: "length bs = 1 \<Longrightarrow> [bs ! 0] = bs" "length bs = 2 \<Longrightarrow> [bs ! 0, bs ! 1] = bs" "length bs = 4 \<Longrightarrow> [bs ! 0, bs ! 1, bs ! 2, bs ! 3] = bs"
  by (auto simp: length_Suc_conv eval_nat_numeral)

lemma u8_iff: "rd_ok r \<Longrightarrow> resolver_ipc_reader_u8 r = Some (v, r') \<longleftrightarrow> reads r [v] r'"
  by (auto simp: resolver_ipc_reader_u8_def bind_eq_Some_conv take_iff dest: list_of_length(1) intro: exI [of _ "[v]"]) (metis list_of_length(1) One_nat_def)

lemma u16_iff: "rd_ok r \<Longrightarrow> resolver_ipc_reader_u16 r = Some (v, r') \<longleftrightarrow> reads r (be_bytes 2 v) r'"
proof -
  assume r: "rd_ok r"
  have "resolver_ipc_reader_u16 r = Some (v, r') \<longleftrightarrow> (\<exists>bs. resolver_ipc_reader_take r 2 = Some (bs, r') \<and> v = be_value bs)"
    unfolding resolver_ipc_reader_u16_def be_value_explicit using r
    by (auto simp: bind_eq_Some_conv take_iff list_of_length(2) [simplified])
  also have "\<dots> \<longleftrightarrow> reads r (be_bytes 2 v) r'"
    by (rule integer_iff [OF r]) simp
  finally show ?thesis .
qed

lemma u32_iff: "rd_ok r \<Longrightarrow> resolver_ipc_reader_u32 r = Some (v, r') \<longleftrightarrow> reads r (be_bytes 4 v) r'"
proof -
  assume r: "rd_ok r"
  have "resolver_ipc_reader_u32 r = Some (v, r') \<longleftrightarrow> (\<exists>bs. resolver_ipc_reader_take r 4 = Some (bs, r') \<and> v = be_value bs)"
    unfolding resolver_ipc_reader_u32_def be_value_explicit(2) using r
    by (auto simp: bind_eq_Some_conv take_iff list_of_length(3) [simplified])
  also have "\<dots> \<longleftrightarrow> reads r (be_bytes 4 v) r'"
    by (rule integer_iff [OF r]) simp
  finally show ?thesis .
qed

lemma u64_iff: "rd_ok r \<Longrightarrow> resolver_ipc_reader_u64 r = Some (v, r') \<longleftrightarrow> reads r (be_bytes 8 v) r'"
  using integer_iff [of r 8 r' v]
  by (auto simp: resolver_ipc_reader_u64_def bind_eq_Some_conv be_value_def)

lemma unat_of_nat_small: "n < 65536 \<Longrightarrow> unat (of_nat n :: u16) = n" "n < 4294967296 \<Longrightarrow> unat (of_nat n :: u32) = n"
  by (simp_all add: unsigned_of_nat take_bit_nat_eq_self)

lemma u8_D: "resolver_ipc_reader_u8 r = Some (v, r') \<Longrightarrow> rd_ok r \<Longrightarrow> reads r [v] r' \<and> rd_ok r'"
  using u8_iff reads_ok by blast

lemma u16_D: "resolver_ipc_reader_u16 r = Some (v, r') \<Longrightarrow> rd_ok r \<Longrightarrow> reads r (be_bytes 2 v) r' \<and> rd_ok r'"
  using u16_iff reads_ok by blast

lemma u32_D: "resolver_ipc_reader_u32 r = Some (v, r') \<Longrightarrow> rd_ok r \<Longrightarrow> reads r (be_bytes 4 v) r' \<and> rd_ok r'"
  using u32_iff reads_ok by blast

lemma u64_D: "resolver_ipc_reader_u64 r = Some (v, r') \<Longrightarrow> rd_ok r \<Longrightarrow> reads r (be_bytes 8 v) r' \<and> rd_ok r'"
  using u64_iff reads_ok by blast

lemma name_D:
  "resolver_ipc_reader_name r n allow_empty = Some (s, r') \<Longrightarrow> rd_ok r \<Longrightarrow>
     n = of_nat (length s) \<and> length s < NS_MAXDNAME \<and> (allow_empty \<or> s \<noteq> []) \<and> 0 \<notin> set s \<and> reads r s r' \<and> rd_ok r'"
  by (auto simp: name_iff dest: reads_ok)

lemma take_D: "resolver_ipc_reader_take r n = Some (bs, r') \<Longrightarrow> rd_ok r \<Longrightarrow> length bs = n \<and> reads r bs r' \<and> rd_ok r'"
  using take_iff reads_ok by blast

lemmas reader_D = u8_D u16_D u32_D u64_D name_D take_D

lemma u8_I: "reads r [v] r' \<Longrightarrow> resolver_ipc_reader_u8 r = Some (v, r')"
  using u8_iff reads_ok by blast

lemma u16_I: "reads r (be_bytes 2 v) r' \<Longrightarrow> resolver_ipc_reader_u16 r = Some (v, r')"
  using u16_iff reads_ok by blast

lemma u32_I: "reads r (be_bytes 4 v) r' \<Longrightarrow> resolver_ipc_reader_u32 r = Some (v, r')"
  using u32_iff reads_ok by blast

lemma u64_I: "reads r (be_bytes 8 v) r' \<Longrightarrow> resolver_ipc_reader_u64 r = Some (v, r')"
  using u64_iff reads_ok by blast

lemmas reader_I = u8_I u16_I u32_I u64_I

lemma name_I:
  "reads r s r' \<Longrightarrow> length s < NS_MAXDNAME \<Longrightarrow> allow_empty \<or> s \<noteq> [] \<Longrightarrow> 0 \<notin> set s \<Longrightarrow>
     resolver_ipc_reader_name r (of_nat (length s)) allow_empty = Some (s, r')"
  using reads_ok by (simp add: name_iff unat_of_nat_small)

lemma reads_appendI: "reads r as r1 \<Longrightarrow> reads r1 bs r' \<Longrightarrow> reads r (as @ bs) r'"
  using reads_append by blast

section \<open>Headers and frames\<close>

definition header_bytes :: "resolver_ipc_packet_kind \<Rightarrow> nat \<Rightarrow> u64 \<Rightarrow> bytes" where
  "header_bytes kind n query_id =
     be_bytes 4 RESOLVER_IPC_MAGIC @ be_bytes 2 RESOLVER_IPC_PROTOCOL_VERSION @ be_bytes 2 (ucast kind :: u16) @ be_bytes 2 (of_nat n :: u16) @ be_bytes 2 (0 :: u16)
       @ be_bytes 8 query_id"

definition frame :: "resolver_ipc_packet_kind \<Rightarrow> u64 \<Rightarrow> bytes \<Rightarrow> bytes" where
  "frame kind query_id payload = header_bytes kind (RESOLVER_IPC_HEADER_SIZE + length payload) query_id @ payload"

lemma length_header_bytes [simp]: "length (header_bytes kind n query_id) = 20"
  by (simp add: header_bytes_def)

lemma length_frame [simp]: "length (frame kind query_id payload) = 20 + length payload"
  by (simp add: frame_def)

lemma kind_ucast:
  assumes "kind \<in> set resolver_ipc_packet_kinds"
  shows "ucast (ucast kind :: u16) = kind"
  using assms by (auto simp: resolver_ipc_packet_kinds_def)

lemma kind_decode_iff: "resolver_ipc_packet_kind_decode k = Some kind \<longleftrightarrow> kind \<in> set resolver_ipc_packet_kinds \<and> k = ucast kind"
  using kind_ucast ucast_widen(2) by (auto simp: resolver_ipc_packet_kind_decode_def)

lemma kind_nonzero: "kind \<in> set resolver_ipc_packet_kinds \<Longrightarrow> kind \<noteq> 0"
  by (auto simp: resolver_ipc_packet_kinds_def)

lemma size_word: "n \<le> 4096 \<Longrightarrow> unat (of_nat n :: u16) = n"
  by (simp add: unat_of_nat_small)

abbreviation reader0 :: "bytes \<Rightarrow> resolver_ipc_reader" where
  "reader0 data \<equiv> \<lparr>rd_data = data, rd_offset = 0, rd_size = length data\<rparr>"

lemma reader0_ok: "rd_ok (reader0 data)" "rest (reader0 data) = data"
  by (simp_all add: rd_ok_def rest_def)

lemma header_fields_iff:
  "(do {
      (magic, reader) \<leftarrow> resolver_ipc_reader_u32 (reader0 data);
      (version, reader) \<leftarrow> resolver_ipc_reader_u16 reader;
      (encoded_kind, reader) \<leftarrow> resolver_ipc_reader_u16 reader;
      (encoded_size, reader) \<leftarrow> resolver_ipc_reader_u16 reader;
      (reserved, reader) \<leftarrow> resolver_ipc_reader_u16 reader;
      (query_id, reader) \<leftarrow> resolver_ipc_reader_u64 reader;
      Some (magic, version, encoded_kind, encoded_size, reserved, query_id, reader)
    }) = Some (m, v, k, n, z, q, r) \<longleftrightarrow>
   reads (reader0 data) (be_bytes 4 m @ be_bytes 2 v @ be_bytes 2 k @ be_bytes 2 n @ be_bytes 2 z @ be_bytes 8 q) r" (is "?l \<longleftrightarrow> ?r")
proof
  assume ?l
  with reader0_ok(1) [of data] show ?r
    by (auto simp: bind_eq_Some_conv dest!: reader_D) (blast intro: reads_appendI)
next
  assume ?r
  then show ?l
    by (auto simp: reads_append dest!: reader_I)
qed


lemma header_decode_iff:
  "resolver_ipc_header_decode (Some p) expected = (RESOLVER_IPC_CODEC_OK, h, r) \<longleftrightarrow>
     length p \<le> RESOLVER_IPC_PACKET_BYTE_LIMIT \<and> ph_query_id h \<noteq> 0 \<and> ph_kind h \<in> set resolver_ipc_packet_kinds \<and> (expected = 0 \<or> ph_kind h = expected)
     \<and> reads (reader0 p) (header_bytes (ph_kind h) (length p) (ph_query_id h)) r" (is "?l \<longleftrightarrow> ?r")
proof
  assume l: ?l
  then obtain m v k and n z :: u16 and q where f: "length p \<le> RESOLVER_IPC_PACKET_BYTE_LIMIT"
      "reads (reader0 p) (be_bytes 4 m @ be_bytes 2 v @ be_bytes 2 k @ be_bytes 2 n @ be_bytes 2 z @ be_bytes 8 q) r"
      "m = RESOLVER_IPC_MAGIC" "unat n = length p" "z = 0" "q \<noteq> 0" "v = RESOLVER_IPC_PROTOCOL_VERSION"
      "resolver_ipc_packet_kind_decode k = Some (ph_kind h)" "expected = 0 \<or> ph_kind h = expected" "ph_query_id h = q"
    unfolding resolver_ipc_header_decode_def Let_def option.case
    by (auto simp: header_fields_iff split: if_splits option.splits)
  moreover have "n = of_nat (length p)"
    by (simp add: f(4) [symmetric])
  ultimately show ?r by (auto simp: kind_decode_iff header_bytes_def)
next
  assume r: ?r
  then have "length p \<ge> RESOLVER_IPC_HEADER_SIZE"
    by (auto simp: reads_take)
  moreover have "resolver_ipc_packet_kind_decode (ucast (ph_kind h)) = Some (ph_kind h)"
    using r by (simp add: kind_decode_iff)
  ultimately show ?l
    using r unfolding header_bytes_def header_fields_iff [symmetric] resolver_ipc_header_decode_def Let_def
    by (simp add: unat_of_nat_small)
qed

section \<open>The writer\<close>

lemma writer_ops:
  "resolver_ipc_writer_u8 a = writer_store [a]"
  "resolver_ipc_writer_u16 b = writer_store (be_bytes 2 b)"
  "resolver_ipc_writer_u32 c = writer_store (be_bytes 4 c)"
  "resolver_ipc_writer_u64 d = writer_store (be_bytes 8 d)"
  "n = length s \<Longrightarrow> resolver_ipc_writer_bytes s n = writer_store s"
  by (simp only: resolver_ipc_writer_u8_def resolver_ipc_writer_u16_def resolver_ipc_writer_u64_def be_bytes_explicit(2)
      | simp only: resolver_ipc_writer_u32_def be_bytes_explicit(1)
      | simp add: resolver_ipc_writer_bytes_def buf_read_def fun_eq_iff)+

text \<open>A writer that has written \<open>pre\<close> at the front of an array.\<close>

definition writer_at :: "bytes \<Rightarrow> bytes \<Rightarrow> nat \<Rightarrow> resolver_ipc_writer" where
  "writer_at pre suf n = \<lparr>wr_data = pre @ suf, wr_offset = length pre, wr_size = n\<rparr>"

lemma writer_store_at:
  "length pre + length bs \<le> n \<Longrightarrow> n \<le> length pre + length suf \<Longrightarrow>
     writer_store bs (writer_at pre suf n) = Some (True, writer_at (pre @ bs) (drop (length bs) suf) n)"
  by (simp add: writer_store_def resolver_ipc_writer_take_def writer_at_def buf_write_append)

lemma writer_all_at:
  "length pre + length (concat bss) \<le> n \<Longrightarrow> n \<le> length pre + length suf \<Longrightarrow>
     writer_all (map writer_store bss) (writer_at pre suf n) = Some (True, writer_at (pre @ concat bss) (drop (length (concat bss)) suf) n)"
  by (induction bss arbitrary: pre suf) (simp_all add: writer_store_at add.commute)

lemma header_encode_eq:
  assumes "kind \<in> set resolver_ipc_packet_kinds" "20 \<le> n"
  shows "resolver_ipc_header_encode kind q (Some buf) n =
    (if q = 0 then Some (RESOLVER_IPC_CODEC_BAD_ARGUMENT, None)
     else if n > RESOLVER_IPC_PACKET_BYTE_LIMIT \<or> length buf < n then Some (RESOLVER_IPC_CODEC_LIMIT, None)
     else Some (RESOLVER_IPC_CODEC_OK, Some (writer_at (header_bytes kind n q) (drop 20 buf) n)))"
proof -
  let ?bss = "[be_bytes 4 RESOLVER_IPC_MAGIC, be_bytes 2 RESOLVER_IPC_PROTOCOL_VERSION, be_bytes 2 (ucast kind :: u16), be_bytes 2 (of_nat n :: u16), be_bytes 2 (0 :: u16), be_bytes 8 q]"
  have "writer_all (map writer_store ?bss) (writer_at [] buf n) = Some (True, writer_at (concat ?bss) (drop (length (concat ?bss)) buf) n)"
    if "n \<le> length buf"
    using writer_all_at [of "[]" ?bss n buf] assms that by simp
  with assms show ?thesis
    by (auto simp: resolver_ipc_header_encode_def resolver_ipc_packet_kind_encode_def writer_ops header_bytes_def writer_at_def)
qed

text \<open>What an encoder does with a structure whose fields pass its checks or not.\<close>

definition encode_result ::
  "resolver_ipc_packet_kind \<Rightarrow> bool \<Rightarrow> u64 \<Rightarrow> bytes \<Rightarrow> bytes \<Rightarrow> (resolver_ipc_codec_status \<times> bytes option \<times> nat) option" where
  "encode_result kind valid q payload buf =
     (if \<not> valid \<or> q = 0 then Some (RESOLVER_IPC_CODEC_BAD_ARGUMENT, Some buf, 0)
      else if length buf < 20 + length payload then Some (RESOLVER_IPC_CODEC_LIMIT, Some buf, 0)
      else Some (RESOLVER_IPC_CODEC_OK, Some (frame kind q payload @ drop (20 + length payload) buf), 20 + length payload))"

lemma fields_encode_eq:
  assumes "kind \<in> set resolver_ipc_packet_kinds" "payload = concat bss" "n = 20 + length payload" "n \<le> RESOLVER_IPC_PACKET_BYTE_LIMIT"
    and "\<And>writer. continue writer = fields_then_size (map writer_store bss) n writer"
  shows "header_then kind q (Some buf) n continue = encode_result kind True q payload buf"
proof -
  have "fields_then_size (map writer_store bss) n (writer_at (header_bytes kind n q) (drop 20 buf) n)
      = Some (RESOLVER_IPC_CODEC_OK, Some (frame kind q payload @ drop n buf), n)" if "n \<le> length buf"
    using that assms(2,3) by (simp add: fields_then_size_def writer_all_at) (simp add: writer_at_def frame_def add.commute)
  with assms show ?thesis
    by (auto simp: header_then_def header_encode_eq encode_result_def)
qed

section \<open>A packet kind\<close>

text \<open>
  What an encoder and a decoder owe each other. For every structure whose fields are in the range of their types, encoding never leaves the
  packet array; a structure that the code allows fits any array of \<open>RESOLVER_IPC_PACKET_BYTE_LIMIT\<close> bytes, its packet decodes to it, and the
  rest of the array is untouched; any failure leaves the whole array untouched and stores the size 0. Conversely a packet that decodes is the
  one packet that encodes what it decodes to.
\<close>

definition codec_exact ::
  "('a option \<Rightarrow> bytes option \<Rightarrow> bool \<Rightarrow> (resolver_ipc_codec_status \<times> bytes option \<times> nat) option) \<Rightarrow>
     (bytes option \<Rightarrow> bool \<Rightarrow> resolver_ipc_codec_status \<times> 'a) \<Rightarrow> ('a \<Rightarrow> bool) \<Rightarrow> ('a \<Rightarrow> bool) \<Rightarrow> ('a \<Rightarrow> 'a) \<Rightarrow> bool" where
  "codec_exact encode decode typed allowed norm \<longleftrightarrow>
     (\<forall>x buf. typed x \<longrightarrow>
        (\<exists>status packet n. encode (Some x) (Some buf) True = Some (status, Some packet, n)
          \<and> (status = RESOLVER_IPC_CODEC_BAD_ARGUMENT \<longleftrightarrow> \<not> allowed x)
          \<and> (allowed x \<and> RESOLVER_IPC_PACKET_BYTE_LIMIT \<le> length buf \<longrightarrow> status = RESOLVER_IPC_CODEC_OK)
          \<and> (if status = RESOLVER_IPC_CODEC_OK
             then n \<le> length buf \<and> length packet = length buf \<and> drop n packet = drop n buf
               \<and> decode (Some (take n packet)) True = (RESOLVER_IPC_CODEC_OK, norm x)
             else packet = buf \<and> n = 0)))
     \<and> (\<forall>p x. decode (Some p) True = (RESOLVER_IPC_CODEC_OK, x) \<longrightarrow>
          typed x \<and> allowed x \<and> encode (Some x) (Some (replicate (length p) 0)) True = Some (RESOLVER_IPC_CODEC_OK, Some p, length p))"

text \<open>
  What the six kinds of packet have in common. The locale's parameters are the field decoder and the encoder of a kind; \<open>wf\<close> is the
  range of the fields' types, \<open>ok\<close> the conditions that the code checks, \<open>payload\<close> the bytes behind the header, and \<open>norm\<close>
  clears what a packet does not carry. The promises are that the field decoder accepts exactly the payloads of normal structures,
  and that the encoder writes the frame of a structure or leaves the packet alone.
\<close>

locale ipc_packet =
  fixes kind :: resolver_ipc_packet_kind
    and zero :: 'a
    and contents :: "resolver_ipc_packet_header \<Rightarrow> resolver_ipc_reader \<Rightarrow> ('a \<times> resolver_ipc_reader) option"
    and encode :: "'a option \<Rightarrow> bytes option \<Rightarrow> bool \<Rightarrow> (resolver_ipc_codec_status \<times> bytes option \<times> nat) option"
    and wf :: "'a \<Rightarrow> bool"
    and ok :: "'a \<Rightarrow> bool"
    and query :: "'a \<Rightarrow> u64"
    and payload :: "'a \<Rightarrow> bytes"
    and norm :: "'a \<Rightarrow> 'a"
  assumes kind: "kind \<in> set resolver_ipc_packet_kinds"
    and contents_iff: "rd_ok r \<Longrightarrow> contents h r = Some (x, r') \<longleftrightarrow> wf x \<and> ok x \<and> norm x = x \<and> query x = ph_query_id h \<and> reads r (payload x) r'"
    and norm: "wf x \<Longrightarrow> ok x \<Longrightarrow> wf (norm x) \<and> ok (norm x) \<and> norm (norm x) = norm x \<and> query (norm x) = query x \<and> payload (norm x) = payload x"
    and payload_limit: "wf x \<Longrightarrow> ok x \<Longrightarrow> 20 + length (payload x) \<le> RESOLVER_IPC_PACKET_BYTE_LIMIT"
    and encode_eq: "wf x \<Longrightarrow> encode (Some x) (Some buf) True = encode_result kind (ok x) (query x) (payload x) buf"
begin

lemma decode_iff:
  "packet_decode kind zero contents (Some p) True = (RESOLVER_IPC_CODEC_OK, x) \<longleftrightarrow>
     wf x \<and> ok x \<and> norm x = x \<and> query x \<noteq> 0 \<and> p = frame kind (query x) (payload x)" (is "?l \<longleftrightarrow> ?r")
proof
  assume ?l
  then obtain h r r' where h: "resolver_ipc_header_decode (Some p) kind = (RESOLVER_IPC_CODEC_OK, h, r)" "contents h r = Some (x, r')"
      "rd_offset r' = rd_size r'"
    by (auto simp: packet_decode_def split: prod.splits if_splits option.splits)
  have r: "reads (reader0 p) (header_bytes (ph_kind h) (length p) (ph_query_id h)) r" "ph_kind h = kind" "ph_query_id h \<noteq> 0"
    using h(1) kind kind_nonzero by (auto simp: header_decode_iff)
  with h(2) have x: "wf x" "ok x" "norm x = x" "query x = ph_query_id h" "reads r (payload x) r'"
    using contents_iff reads_ok by blast+
  have "rd_ok r'" using x(5) reads_ok by blast
  then have "rest r' = []" using h(3) by (simp add: rest_def rd_ok_def)
  then have "rest r = payload x" using x(5) unfolding reads_def by (metis append_Nil2)
  then have p: "p = header_bytes kind (length p) (query x) @ payload x"
    using r(1) unfolding r(2) x(4) reads_def reader0_ok(2) by metis
  then have "length p = 20 + length (payload x)"
    by (metis length_append length_header_bytes)
  with p x r(3) show ?r by (simp add: frame_def)
next
  assume r: ?r
  define h where "h = \<lparr>ph_kind = kind, ph_query_id = query x\<rparr>"
  define q where "q = \<lparr>rd_data = p, rd_offset = 20, rd_size = length p\<rparr>"
  define q' where "q' = \<lparr>rd_data = p, rd_offset = length p, rd_size = length p\<rparr>"
  have "length p \<le> RESOLVER_IPC_PACKET_BYTE_LIMIT" using r payload_limit by simp
  moreover have "reads (reader0 p) (header_bytes kind (length p) (query x)) q" "reads q (payload x) q'"
    using r by (auto simp: reads_def rd_ok_def rest_def frame_def q_def q'_def)
  ultimately have "resolver_ipc_header_decode (Some p) kind = (RESOLVER_IPC_CODEC_OK, h, q)" "contents h q = Some (x, q')"
    using r kind reads_ok [of q "payload x" q'] contents_iff [of q h x q'] by (auto simp: header_decode_iff h_def)
  then show ?l by (simp add: packet_decode_def q'_def)
qed

lemma encode_decode:
  assumes "wf x" "encode (Some x) (Some buf) True = Some (RESOLVER_IPC_CODEC_OK, packet, n)"
  shows "packet_decode kind zero contents (Some (take n (the packet))) True = (RESOLVER_IPC_CODEC_OK, norm x)"
  using assms norm by (auto simp: encode_eq encode_result_def decode_iff split: if_splits)

lemma decode_encode:
  assumes "packet_decode kind zero contents (Some p) True = (RESOLVER_IPC_CODEC_OK, x)" "length buf \<ge> length p"
  shows "encode (Some x) (Some buf) True = Some (RESOLVER_IPC_CODEC_OK, Some (p @ drop (length p) buf), length p)"
  using assms by (auto simp: encode_eq encode_result_def decode_iff)

lemma exact: "codec_exact encode (packet_decode kind zero contents) wf (\<lambda>x. ok x \<and> query x \<noteq> 0) norm"
proof -
  have "\<exists>status packet n. encode (Some x) (Some buf) True = Some (status, Some packet, n)
      \<and> (status = RESOLVER_IPC_CODEC_BAD_ARGUMENT \<longleftrightarrow> \<not> (ok x \<and> query x \<noteq> 0))
      \<and> ((ok x \<and> query x \<noteq> 0) \<and> RESOLVER_IPC_PACKET_BYTE_LIMIT \<le> length buf \<longrightarrow> status = RESOLVER_IPC_CODEC_OK)
      \<and> (if status = RESOLVER_IPC_CODEC_OK
         then n \<le> length buf \<and> length packet = length buf \<and> drop n packet = drop n buf
           \<and> packet_decode kind zero contents (Some (take n packet)) True = (RESOLVER_IPC_CODEC_OK, norm x)
         else packet = buf \<and> n = 0)" if "wf x" for x buf
    using that payload_limit [of x] encode_decode [OF that, of buf] by (auto simp: encode_eq encode_result_def)
  moreover have "wf x \<and> (ok x \<and> query x \<noteq> 0) \<and> encode (Some x) (Some (replicate (length p) 0)) True = Some (RESOLVER_IPC_CODEC_OK, Some p, length p)"
    if "packet_decode kind zero contents (Some p) True = (RESOLVER_IPC_CODEC_OK, x)" for p x
    using that decode_encode [OF that, of "replicate (length p) 0"] by (auto simp: decode_iff)
  ultimately show ?thesis unfolding codec_exact_def by blast
qed

lemma decode_inspect:
  assumes "packet_decode kind zero contents (Some p) True = (RESOLVER_IPC_CODEC_OK, x)"
  shows "resolver_ipc_packet_inspect (Some p) True = (RESOLVER_IPC_CODEC_OK, \<lparr>ph_kind = kind, ph_query_id = query x\<rparr>)"
proof -
  obtain h r where h: "resolver_ipc_header_decode (Some p) kind = (RESOLVER_IPC_CODEC_OK, h, r)" "contents h r \<noteq> None"
    using assms by (auto simp: packet_decode_def split: prod.splits if_splits option.splits)
  have x: "query x \<noteq> 0" "p = frame kind (query x) (payload x)" using assms decode_iff by blast+
  have "length p \<le> RESOLVER_IPC_PACKET_BYTE_LIMIT" using assms payload_limit decode_iff by auto
  moreover have "reads (reader0 p) (header_bytes kind (length p) (query x)) \<lparr>rd_data = p, rd_offset = 20, rd_size = length p\<rparr>"
    using x by (auto simp: reads_def rd_ok_def rest_def frame_def)
  ultimately have "resolver_ipc_header_decode (Some p) 0 = (RESOLVER_IPC_CODEC_OK, \<lparr>ph_kind = kind, ph_query_id = query x\<rparr>, \<lparr>rd_data = p, rd_offset = 20, rd_size = length p\<rparr>)"
    using x kind by (simp add: header_decode_iff)
  then show ?thesis by (simp add: resolver_ipc_packet_inspect_def)
qed

end

section \<open>The six kinds\<close>

definition name_array :: "bytes \<Rightarrow> bool" where
  "name_array s \<longleftrightarrow> 0 \<notin> set s \<and> length s \<le> NS_MAXDNAME"

definition name_ok :: "bool \<Rightarrow> bytes \<Rightarrow> bool" where
  "name_ok allow_empty s \<longleftrightarrow> length s < NS_MAXDNAME \<and> (allow_empty \<or> s \<noteq> [])"

lemma name_size_eq: "name_array s \<Longrightarrow> resolver_ipc_name_size s allow_empty = (if name_ok allow_empty s then Some (length s) else None)"
proof -
  assume "name_array s"
  then have t: "takeWhile (\<lambda>c. c \<noteq> 0) (take NS_MAXDNAME s) = s" and l: "length s \<le> NS_MAXDNAME"
    by (auto simp: name_array_def takeWhile_eq_all_conv)
  show ?thesis unfolding resolver_ipc_name_size_def t Let_def name_ok_def using l by auto
qed

lemma name_D':
  "resolver_ipc_reader_name r n allow_empty = Some (s, r') \<Longrightarrow> rd_ok r \<Longrightarrow>
     n = of_nat (length s) \<and> name_array s \<and> name_ok allow_empty s \<and> reads r s r' \<and> rd_ok r'"
  by (auto simp: name_array_def name_ok_def dest!: name_D)

lemma name_I':
  "reads r s r' \<Longrightarrow> name_array s \<Longrightarrow> name_ok allow_empty s \<Longrightarrow> resolver_ipc_reader_name r (of_nat (length s)) allow_empty = Some (s, r')"
  by (auto simp: name_array_def name_ok_def intro!: name_I)

lemma word_le_of_nat: "a < 4294967296 \<Longrightarrow> b < 4294967296 \<Longrightarrow> (of_nat a < (of_nat b :: u32)) \<longleftrightarrow> a < b"
  by (simp add: word_less_nat_alt unat_of_nat_small)

definition request_wf :: "resolver_ipc_request \<Rightarrow> bool" where
  "request_wf x \<longleftrightarrow> name_array (rq_query_name x)"

definition request_ok :: "resolver_ipc_request \<Rightarrow> bool" where
  "request_ok x \<longleftrightarrow> rq_query_class x = ns_c_in \<and> resolver_ipc_query_type_valid (rq_query_type x) \<and> name_ok False (rq_query_name x)"

definition request_payload :: "resolver_ipc_request \<Rightarrow> bytes" where
  "request_payload x =
     be_bytes 2 (rq_query_class x) @ be_bytes 2 (rq_query_type x) @ be_bytes 2 (of_nat (length (rq_query_name x)) :: u16) @ rq_query_name x"

interpretation request_packet: ipc_packet RESOLVER_IPC_PACKET_REQUEST resolver_ipc_request_zero request_fields resolver_ipc_request_encode
  request_wf request_ok rq_query_id request_payload id
proof
  fix r h r' and x :: resolver_ipc_request
  assume r: "rd_ok r"
  show "request_fields h r = Some (x, r') \<longleftrightarrow> request_wf x \<and> request_ok x \<and> id x = x \<and> rq_query_id x = ph_query_id h \<and> reads r (request_payload x) r'" (is "?l \<longleftrightarrow> ?r")
  proof
    assume ?l
    with r show ?r
      by (auto simp: request_fields_def bind_eq_Some_conv request_wf_def request_ok_def request_payload_def
          split: if_splits dest!: reader_D(1-4) name_D') (blast intro: reads_appendI)
  next
    assume ?r
    then show ?l
      by (cases x) (auto simp: request_fields_def request_wf_def request_ok_def request_payload_def reads_append dest!: reader_I name_I' [where allow_empty = False])
  qed
next
  fix x :: resolver_ipc_request and buf
  let ?bss = "[be_bytes 2 (rq_query_class x), be_bytes 2 (rq_query_type x), be_bytes 2 (of_nat (length (rq_query_name x)) :: u16), rq_query_name x]"
  assume "request_wf x"
  then show "resolver_ipc_request_encode (Some x) (Some buf) True = encode_result RESOLVER_IPC_PACKET_REQUEST (request_ok x) (rq_query_id x) (request_payload x) buf"
    by (auto simp: resolver_ipc_request_encode_def request_wf_def request_ok_def request_payload_def name_size_eq writer_ops resolver_ipc_packet_kinds_def name_ok_def
        Let_def encode_result_def [where valid = False] intro!: fields_encode_eq [where bss = ?bss])
qed (auto simp: resolver_ipc_packet_kinds_def request_ok_def request_payload_def name_ok_def)

text \<open>An IPv4 address uses only the first four bytes of the union.\<close>

definition address_wf :: "resolver_ipc_response_address \<Rightarrow> bool" where
  "address_wf x \<longleftrightarrow> ar_record_ttl (ra_record x) \<le> UINT32_MAX \<and> ar_effective_ttl (ra_record x) \<le> UINT32_MAX \<and> length (addr_bytes (ar_address (ra_record x))) = 16"

definition address_ok :: "resolver_ipc_response_address \<Rightarrow> bool" where
  "address_ok x \<longleftrightarrow> unat (ra_index x) < DNS_ADDRESS_RECORD_LIMIT \<and> addr_err (ar_address (ra_record x)) = NET_OK
     \<and> ar_effective_ttl (ra_record x) \<le> ar_record_ttl (ra_record x) \<and> addr_family (ar_address (ra_record x)) \<in> {AF_INET, AF_INET6}"

definition address_size :: "net_addr \<Rightarrow> nat" where
  "address_size a = (if addr_family a = AF_INET then 4 else 16)"

definition address_payload :: "resolver_ipc_response_address \<Rightarrow> bytes" where
  "address_payload x =
     be_bytes 2 (ra_index x) @ be_bytes 2 (the (resolver_ipc_address_family_encode (addr_family (ar_address (ra_record x)))))
       @ be_bytes 4 (of_nat (ar_record_ttl (ra_record x)) :: u32) @ be_bytes 4 (of_nat (ar_effective_ttl (ra_record x)) :: u32)
       @ be_bytes 2 (of_nat (address_size (ar_address (ra_record x))) :: u16)
       @ take (address_size (ar_address (ra_record x))) (addr_bytes (ar_address (ra_record x)))"

definition net_addr_norm :: "net_addr \<Rightarrow> net_addr" where
  "net_addr_norm a = a\<lparr>addr_bytes := take (address_size a) (addr_bytes a) @ drop (address_size a) (replicate 16 0)\<rparr>"

definition address_norm :: "resolver_ipc_response_address \<Rightarrow> resolver_ipc_response_address" where
  "address_norm x = x\<lparr>ra_record := (ra_record x)\<lparr>ar_address := net_addr_norm (ar_address (ra_record x))\<rparr>\<rparr>"

lemma unat_le_max: "unat (v :: u32) \<le> UINT32_MAX"
  using unat_bounds(3) [of v] by simp

lemma family_decode_iff: "resolver_ipc_address_family_decode k = Some f \<longleftrightarrow> resolver_ipc_address_family_encode f = Some k"
  by (cases f) (auto simp: resolver_ipc_address_family_decode_def resolver_ipc_address_family_encode_def)

lemma family_encode_cases: "resolver_ipc_address_family_encode f = Some k \<Longrightarrow> f = AF_INET \<or> f = AF_INET6"
  by (cases f) (auto simp: resolver_ipc_address_family_encode_def)

lemma take_I: "reads r bs r' \<Longrightarrow> n = length bs \<Longrightarrow> resolver_ipc_reader_take r n = Some (bs, r')"
  using take_iff reads_ok by blast

lemma address_fields_D:
  assumes "rd_ok r" "address_fields h r = Some (x, r')"
  shows "address_wf x \<and> address_ok x \<and> address_norm x = x \<and> ra_query_id x = ph_query_id h \<and> reads r (address_payload x) r'"
proof -
  obtain index fam rec eff n f addr r1 r2 r3 r4 r5 where f:
      "resolver_ipc_reader_u16 r = Some (index, r1)" "resolver_ipc_reader_u16 r1 = Some (fam, r2)" "resolver_ipc_reader_u32 r2 = Some (rec, r3)"
      "resolver_ipc_reader_u32 r3 = Some (eff, r4)" "resolver_ipc_reader_u16 r4 = Some (n, r5)" "\<not> unat index \<ge> DNS_ADDRESS_RECORD_LIMIT" "\<not> eff > rec"
      "resolver_ipc_address_family_decode fam = Some f" "resolver_ipc_reader_take r5 (unat n) = Some (addr, r')"
      "f = AF_INET \<longrightarrow> unat n = 4" "f = AF_INET6 \<longrightarrow> unat n = 16"
    and x: "x = \<lparr>ra_index = index, ra_query_id = ph_query_id h,
                   ra_record = \<lparr>ar_address = net_addr_zero\<lparr>addr_family := f, addr_bytes := addr @ drop (unat n) (replicate 16 0)\<rparr>,
                                ar_effective_ttl = unat eff, ar_record_ttl = unat rec\<rparr>\<rparr>"
    using assms(2) unfolding address_fields_def by (auto simp: bind_eq_Some_conv split: if_splits)
  have f': "f = AF_INET \<or> f = AF_INET6" "resolver_ipc_address_family_encode f = Some fam"
    using f(8) family_decode_iff family_encode_cases by blast+
  have s: "address_size (ar_address (ra_record x)) = unat n" "unat n \<le> 16" "n = of_nat (unat n)"
    using f' f(10,11) by (auto simp: x address_size_def)
  have rd: "reads r (be_bytes 2 index @ be_bytes 2 fam @ be_bytes 4 rec @ be_bytes 4 eff @ be_bytes 2 n @ addr) r'" "length addr = unat n"
    using assms(1) f(1-5,9) by (auto dest!: reader_D) (blast intro: reads_appendI)
  have "address_payload x = be_bytes 2 index @ be_bytes 2 fam @ be_bytes 4 rec @ be_bytes 4 eff @ be_bytes 2 n @ addr"
    using s rd(2) f' by (simp add: address_payload_def) (simp add: x)
  with rd s f' f(6,7) show ?thesis
    by (simp add: address_wf_def address_ok_def address_norm_def net_addr_norm_def)
      (auto simp: x unat_le_max word_less_nat_alt net_addr_zero_def address_size_def)
qed

lemma address_fields_I:
  assumes "address_wf x" "address_ok x" "address_norm x = x" "ra_query_id x = ph_query_id h" "reads r (address_payload x) r'"
  shows "address_fields h r = Some (x, r')"
proof -
  define a where "a = ar_address (ra_record x)"
  define n where "n = address_size a"
  obtain fam where fam: "resolver_ipc_address_family_encode (addr_family a) = Some fam"
    using assms(2) by (auto simp: address_ok_def a_def resolver_ipc_address_family_encode_def)
  have n: "n = 4 \<or> n = 16" "addr_family a = AF_INET \<longrightarrow> n = 4" "addr_family a = AF_INET6 \<longrightarrow> n = 16"
    by (auto simp: n_def address_size_def)
  obtain r1 r2 r3 r4 r5 where f:
      "resolver_ipc_reader_u16 r = Some (ra_index x, r1)" "resolver_ipc_reader_u16 r1 = Some (fam, r2)"
      "resolver_ipc_reader_u32 r2 = Some (of_nat (ar_record_ttl (ra_record x)), r3)"
      "resolver_ipc_reader_u32 r3 = Some (of_nat (ar_effective_ttl (ra_record x)), r4)" "resolver_ipc_reader_u16 r4 = Some (of_nat n, r5)"
      "resolver_ipc_reader_take r5 n = Some (take n (addr_bytes a), r')"
    using assms(1,5) n(1) fam
    by (auto simp: address_payload_def reads_append address_wf_def a_def n_def dest!: reader_I take_I [where n = n, unfolded n_def a_def])
  have "addr_bytes (ar_address (ra_record (address_norm x))) = take n (addr_bytes a) @ drop n (replicate 16 0)"
    by (simp add: address_norm_def net_addr_norm_def a_def n_def)
  then have b: "take n (addr_bytes a) @ drop n (replicate 16 0) = addr_bytes a"
    unfolding assms(3) a_def by simp
  have x: "x = \<lparr>ra_index = ra_index x, ra_query_id = ph_query_id h,
      ra_record = \<lparr>ar_address = net_addr_zero\<lparr>addr_family := addr_family a, addr_bytes := take n (addr_bytes a) @ drop n (replicate 16 0)\<rparr>,
        ar_effective_ttl = ar_effective_ttl (ra_record x), ar_record_ttl = ar_record_ttl (ra_record x)\<rparr>\<rparr>"
    unfolding b assms(4) [symmetric] using assms(2) by (cases x, cases "ra_record x", cases a) (simp add: address_ok_def a_def net_addr_zero_def)
  have "unat (of_nat n :: u16) = n" "resolver_ipc_address_family_decode fam = Some (addr_family a)"
    using n(1) fam by (auto simp: unat_of_nat_small family_decode_iff)
  with f n(2,3) show ?thesis
    using assms(1,2) by (subst x) (simp add: address_fields_def address_wf_def address_ok_def word_le_of_nat unat_of_nat_small not_less)
qed

interpretation address_packet: ipc_packet RESOLVER_IPC_PACKET_RESPONSE_ADDRESS resolver_ipc_response_address_zero address_fields resolver_ipc_response_address_encode
  address_wf address_ok ra_query_id address_payload address_norm
proof
  fix r h r' and x :: resolver_ipc_response_address
  assume "rd_ok r"
  then show "address_fields h r = Some (x, r') \<longleftrightarrow> address_wf x \<and> address_ok x \<and> address_norm x = x \<and> ra_query_id x = ph_query_id h \<and> reads r (address_payload x) r'"
    using address_fields_D address_fields_I by blast
next
  fix x :: resolver_ipc_response_address and buf :: bytes
  let ?a = "ar_address (ra_record x)"
  let ?bss = "[be_bytes 2 (ra_index x), be_bytes 2 (the (resolver_ipc_address_family_encode (addr_family ?a))),
    be_bytes 4 (of_nat (ar_record_ttl (ra_record x)) :: u32), be_bytes 4 (of_nat (ar_effective_ttl (ra_record x)) :: u32),
    be_bytes 2 (of_nat (address_size ?a) :: u16), take (address_size ?a) (addr_bytes ?a)]"
  assume wf: "address_wf x"
  have bytes: "resolver_ipc_writer_bytes (addr_bytes ?a) (address_size ?a) = writer_store (take (address_size ?a) (addr_bytes ?a))"
    using wf by (auto simp: resolver_ipc_writer_bytes_def buf_read_def fun_eq_iff address_wf_def address_size_def)
  have refused: "Some buf = None \<or> \<not> True \<or> unat (ra_index x) \<ge> DNS_ADDRESS_RECORD_LIMIT \<or> addr_err ?a \<noteq> NET_OK
      \<or> ar_effective_ttl (ra_record x) > ar_record_ttl (ra_record x) \<or> (addr_family ?a \<noteq> AF_INET \<and> addr_family ?a \<noteq> AF_INET6) \<longleftrightarrow> \<not> address_ok x"
    by (auto simp: address_ok_def)
  have "address_ok x \<Longrightarrow> header_then RESOLVER_IPC_PACKET_RESPONSE_ADDRESS (ra_query_id x) (Some buf) (RESOLVER_IPC_HEADER_SIZE + 2 * 3 + 4 * 2 + address_size ?a)
      (\<lambda>writer. case resolver_ipc_address_family_encode (addr_family ?a) of
         None \<Rightarrow> Some (RESOLVER_IPC_CODEC_BAD_ARGUMENT, Some (wr_data writer), 0)
       | Some encoded_family \<Rightarrow> fields_then_size
           [resolver_ipc_writer_u16 (ra_index x), resolver_ipc_writer_u16 encoded_family, resolver_ipc_writer_u32 (of_nat (ar_record_ttl (ra_record x))),
            resolver_ipc_writer_u32 (of_nat (ar_effective_ttl (ra_record x))), resolver_ipc_writer_u16 (of_nat (address_size ?a)),
            resolver_ipc_writer_bytes (addr_bytes ?a) (address_size ?a)] (RESOLVER_IPC_HEADER_SIZE + 2 * 3 + 4 * 2 + address_size ?a) writer)
      = encode_result RESOLVER_IPC_PACKET_RESPONSE_ADDRESS True (ra_query_id x) (address_payload x) buf"
    using wf unfolding bytes
    by (intro fields_encode_eq [where bss = ?bss])
      (auto simp: address_payload_def address_wf_def address_ok_def address_size_def resolver_ipc_packet_kinds_def resolver_ipc_address_family_encode_def writer_ops)
  then show "resolver_ipc_response_address_encode (Some x) (Some buf) True =
      encode_result RESOLVER_IPC_PACKET_RESPONSE_ADDRESS (address_ok x) (ra_query_id x) (address_payload x) buf"
    unfolding resolver_ipc_response_address_encode_def Let_def address_size_def [symmetric] option.case refused
    by (cases "address_ok x") (simp_all add: encode_result_def [where valid = False])
qed (auto simp: resolver_ipc_packet_kinds_def address_wf_def address_ok_def address_norm_def net_addr_norm_def address_payload_def address_size_def)

definition cname_wf :: "resolver_ipc_response_cname \<Rightarrow> bool" where
  "cname_wf x \<longleftrightarrow> cn_ttl (rc_record x) \<le> UINT32_MAX \<and> name_array (cn_owner (rc_record x)) \<and> name_array (cn_target (rc_record x))"

definition cname_ok :: "resolver_ipc_response_cname \<Rightarrow> bool" where
  "cname_ok x \<longleftrightarrow> unat (rc_index x) < DNS_CNAME_DEPTH_LIMIT \<and> name_ok False (cn_owner (rc_record x)) \<and> name_ok False (cn_target (rc_record x))"

definition cname_payload :: "resolver_ipc_response_cname \<Rightarrow> bytes" where
  "cname_payload x =
     be_bytes 2 (rc_index x) @ be_bytes 4 (of_nat (cn_ttl (rc_record x)) :: u32) @ be_bytes 2 (of_nat (length (cn_owner (rc_record x))) :: u16)
       @ be_bytes 2 (of_nat (length (cn_target (rc_record x))) :: u16) @ cn_owner (rc_record x) @ cn_target (rc_record x)"

lemmas cname_defs = cname_wf_def cname_ok_def cname_payload_def

interpretation cname_packet: ipc_packet RESOLVER_IPC_PACKET_RESPONSE_CNAME resolver_ipc_response_cname_zero cname_fields resolver_ipc_response_cname_encode
  cname_wf cname_ok rc_query_id cname_payload id
proof
  fix r h r' and x :: resolver_ipc_response_cname
  assume r: "rd_ok r"
  show "cname_fields h r = Some (x, r') \<longleftrightarrow> cname_wf x \<and> cname_ok x \<and> id x = x \<and> rc_query_id x = ph_query_id h \<and> reads r (cname_payload x) r'" (is "?l \<longleftrightarrow> ?r")
  proof
    assume ?l
    with r show ?r
      by (auto simp: cname_fields_def bind_eq_Some_conv cname_defs unat_le_max
          split: if_splits dest!: reader_D(1-4) name_D') (blast intro: reads_appendI)
  next
    assume ?r
    then show ?l
      by (cases x, cases "rc_record x")
        (auto simp: cname_fields_def cname_defs reads_append unat_of_nat_small dest!: reader_I name_I' [where allow_empty = False])
  qed
next
  fix x :: resolver_ipc_response_cname and buf
  let ?bss = "[be_bytes 2 (rc_index x), be_bytes 4 (of_nat (cn_ttl (rc_record x)) :: u32), be_bytes 2 (of_nat (length (cn_owner (rc_record x))) :: u16),
    be_bytes 2 (of_nat (length (cn_target (rc_record x))) :: u16), cn_owner (rc_record x), cn_target (rc_record x)]"
  assume "cname_wf x"
  then show "resolver_ipc_response_cname_encode (Some x) (Some buf) True = encode_result RESOLVER_IPC_PACKET_RESPONSE_CNAME (cname_ok x) (rc_query_id x) (cname_payload x) buf"
    by (auto simp: resolver_ipc_response_cname_encode_def cname_defs name_size_eq writer_ops resolver_ipc_packet_kinds_def name_ok_def
        Let_def encode_result_def [where valid = False] intro!: fields_encode_eq [where bss = ?bss])
qed (auto simp: resolver_ipc_packet_kinds_def cname_defs name_ok_def)

definition end_wf :: "resolver_ipc_response_end \<Rightarrow> bool" where
  "end_wf x \<longleftrightarrow> re_cname_count x \<le> SIZE_MAX \<and> re_record_count x \<le> SIZE_MAX"

definition end_ok :: "resolver_ipc_response_end \<Rightarrow> bool" where
  "end_ok x \<longleftrightarrow> re_cname_count x \<le> DNS_CNAME_DEPTH_LIMIT \<and> (re_record_count x \<le> DNS_ADDRESS_RECORD_LIMIT \<or> re_record_count x \<le> DNS_SRV_RECORD_LIMIT)"

definition end_payload :: "resolver_ipc_response_end \<Rightarrow> bytes" where
  "end_payload x = be_bytes 2 (of_nat (re_cname_count x) :: u16) @ be_bytes 2 (of_nat (re_record_count x) :: u16)"

lemmas end_defs = end_wf_def end_ok_def end_payload_def

interpretation end_packet: ipc_packet RESOLVER_IPC_PACKET_RESPONSE_END resolver_ipc_response_end_zero end_fields resolver_ipc_response_end_encode
  end_wf end_ok re_query_id end_payload id
proof
  fix r h r' and x :: resolver_ipc_response_end
  assume r: "rd_ok r"
  show "end_fields h r = Some (x, r') \<longleftrightarrow> end_wf x \<and> end_ok x \<and> id x = x \<and> re_query_id x = ph_query_id h \<and> reads r (end_payload x) r'" (is "?l \<longleftrightarrow> ?r")
  proof
    assume ?l
    with r show ?r
      by (auto simp: end_fields_def bind_eq_Some_conv end_defs split: if_splits dest!: reader_D(1-4)) (blast intro: reads_appendI)
  next
    assume ?r
    then show ?l
      by (cases x) (auto simp: end_fields_def end_defs reads_append unat_of_nat_small dest!: reader_I)
  qed
next
  fix x :: resolver_ipc_response_end and buf
  let ?bss = "[be_bytes 2 (of_nat (re_cname_count x) :: u16), be_bytes 2 (of_nat (re_record_count x) :: u16)]"
  show "resolver_ipc_response_end_encode (Some x) (Some buf) True = encode_result RESOLVER_IPC_PACKET_RESPONSE_END (end_ok x) (re_query_id x) (end_payload x) buf"
    by (auto simp: resolver_ipc_response_end_encode_def end_defs writer_ops resolver_ipc_packet_kinds_def
        Let_def encode_result_def [where valid = False] intro!: fields_encode_eq [where bss = ?bss])
qed (auto simp: resolver_ipc_packet_kinds_def end_defs)

definition srv_wf :: "resolver_ipc_response_srv \<Rightarrow> bool" where
  "srv_wf x \<longleftrightarrow> srv_record_ttl (rv_record x) \<le> UINT32_MAX \<and> srv_effective_ttl (rv_record x) \<le> UINT32_MAX \<and> name_array (srv_target (rv_record x))"

definition srv_ok :: "resolver_ipc_response_srv \<Rightarrow> bool" where
  "srv_ok x \<longleftrightarrow> unat (rv_index x) < DNS_SRV_RECORD_LIMIT \<and> srv_effective_ttl (rv_record x) \<le> srv_record_ttl (rv_record x) \<and> name_ok False (srv_target (rv_record x))"

definition srv_payload :: "resolver_ipc_response_srv \<Rightarrow> bytes" where
  "srv_payload x =
     be_bytes 2 (rv_index x) @ be_bytes 2 (srv_priority (rv_record x)) @ be_bytes 2 (srv_weight (rv_record x)) @ be_bytes 2 (srv_port (rv_record x))
       @ be_bytes 4 (of_nat (srv_record_ttl (rv_record x)) :: u32) @ be_bytes 4 (of_nat (srv_effective_ttl (rv_record x)) :: u32)
       @ be_bytes 2 (of_nat (length (srv_target (rv_record x))) :: u16) @ srv_target (rv_record x)"

lemmas srv_defs = srv_wf_def srv_ok_def srv_payload_def

interpretation srv_packet: ipc_packet RESOLVER_IPC_PACKET_RESPONSE_SRV resolver_ipc_response_srv_zero srv_fields resolver_ipc_response_srv_encode
  srv_wf srv_ok rv_query_id srv_payload id
proof
  fix r h r' and x :: resolver_ipc_response_srv
  assume r: "rd_ok r"
  show "srv_fields h r = Some (x, r') \<longleftrightarrow> srv_wf x \<and> srv_ok x \<and> id x = x \<and> rv_query_id x = ph_query_id h \<and> reads r (srv_payload x) r'" (is "?l \<longleftrightarrow> ?r")
  proof
    assume ?l
    with r show ?r
      by (auto simp: srv_fields_def bind_eq_Some_conv srv_defs unat_le_max word_less_nat_alt
          split: if_splits dest!: reader_D(1-4) name_D') (blast intro: reads_appendI)
  next
    assume ?r
    then show ?l
      by (cases x, cases "rv_record x")
        (auto simp: srv_fields_def srv_defs reads_append unat_of_nat_small word_le_of_nat dest!: reader_I name_I' [where allow_empty = False])
  qed
next
  fix x :: resolver_ipc_response_srv and buf
  let ?bss = "[be_bytes 2 (rv_index x), be_bytes 2 (srv_priority (rv_record x)), be_bytes 2 (srv_weight (rv_record x)), be_bytes 2 (srv_port (rv_record x)),
    be_bytes 4 (of_nat (srv_record_ttl (rv_record x)) :: u32), be_bytes 4 (of_nat (srv_effective_ttl (rv_record x)) :: u32),
    be_bytes 2 (of_nat (length (srv_target (rv_record x))) :: u16), srv_target (rv_record x)]"
  assume "srv_wf x"
  then show "resolver_ipc_response_srv_encode (Some x) (Some buf) True = encode_result RESOLVER_IPC_PACKET_RESPONSE_SRV (srv_ok x) (rv_query_id x) (srv_payload x) buf"
    by (auto simp: resolver_ipc_response_srv_encode_def srv_defs name_size_eq writer_ops resolver_ipc_packet_kinds_def name_ok_def
        Let_def encode_result_def [where valid = False] intro!: fields_encode_eq [where bss = ?bss])
qed (auto simp: resolver_ipc_packet_kinds_def srv_defs name_ok_def)

lemma to_time_t_nonneg: "u < 18446744073709551616 \<Longrightarrow> 0 \<le> to_time_t u \<Longrightarrow> u < 2 ^ 63"
  by (auto simp: to_time_t_def split: if_splits)

lemma uint_less_of_unat: "unat w < n \<Longrightarrow> uint w < int n"
  by (metis of_nat_less_iff uint_nat)

lemma time_decode_iff:
  "resolver_ipc_time_decode s n = Some t \<longleftrightarrow> timespec_range t \<and> resolver_ipc_time_encode t = Some (s, n)"
proof
  assume d: "resolver_ipc_time_decode s n = Some t"
  then have t: "unat n < 1000000000" "0 \<le> to_time_t (unat s)" "of_time_t (to_time_t (unat s)) = unat s"
      "t = \<lparr>tv_sec = to_time_t (unat s), tv_nsec = int (unat n)\<rparr>"
    by (auto simp: resolver_ipc_time_decode_def Let_def split: if_splits)
  moreover have u: "unat s < 2 ^ 63" by (rule to_time_t_nonneg [OF unat_bounds(4) t(2)])
  ultimately have "t = \<lparr>tv_sec = uint s, tv_nsec = uint n\<rparr>" "uint s < 2 ^ 63" "uint n < 1000000000"
    using uint_less_of_unat [of n 1000000000] uint_less_of_unat [of s "2 ^ 63"] by (simp_all add: to_time_t_def)
  moreover have "- 9223372036854775808 \<le> uint s" "- 9223372036854775808 \<le> uint n"
    by (rule order_trans [OF _ uint_ge_0]; simp)+
  ultimately show "timespec_range t \<and> resolver_ipc_time_encode t = Some (s, n)"
    using u by (simp add: timespec_range_def resolver_ipc_time_encode_def timeutil_valid_def to_time_t_def of_time_t_def Let_def)
next
  assume e: "timespec_range t \<and> resolver_ipc_time_encode t = Some (s, n)"
  then have t: "0 \<le> tv_sec t" "tv_sec t < 2 ^ 63" "0 \<le> tv_nsec t" "tv_nsec t < 1000000000" "s = of_nat (nat (tv_sec t))" "n = word_of_int (tv_nsec t)"
    by (auto simp: timespec_range_def resolver_ipc_time_encode_def Let_def timeutil_valid_def of_time_t_def split: if_splits)
  have "unat s = nat (tv_sec t)" "unat n = nat (tv_nsec t)"
    using t by (simp_all add: unsigned_of_nat take_bit_nat_eq_self unsigned_of_int take_bit_int_eq_self unat_eq_nat_uint)
  with t show "resolver_ipc_time_decode s n = Some t"
    by (cases t) (auto simp: resolver_ipc_time_decode_def Let_def to_time_t_def of_time_t_def)
qed

lemma time_encode_valid: "timespec_range t \<Longrightarrow> timeutil_valid (Some t) \<longleftrightarrow> resolver_ipc_time_encode t \<noteq> None"
  by (auto simp: resolver_ipc_time_encode_def Let_def timespec_range_def timeutil_valid_def to_time_t_def of_time_t_def)

definition begin_wf :: "resolver_ipc_response_begin \<Rightarrow> bool" where
  "begin_wf x \<longleftrightarrow> timespec_range (rb_completed_at x) \<and> name_array (rb_question_name x) \<and> name_array (rb_canonical_name x) \<and> name_array (neg_owner (rb_negative x))
     \<and> neg_effective_ttl (rb_negative x) \<le> UINT32_MAX \<and> neg_minimum (rb_negative x) \<le> UINT32_MAX \<and> neg_record_ttl (rb_negative x) \<le> UINT32_MAX"

definition begin_ok :: "resolver_ipc_response_begin \<Rightarrow> bool" where
  "begin_ok x \<longleftrightarrow> rb_query_class x = ns_c_in \<and> resolver_ipc_query_type_valid (rb_query_type x) \<and> resolver_ipc_lookup_status_valid (rb_status x)
     \<and> rb_rcode x \<le> 15 \<and> resolver_ipc_negative_valid (rb_negative x)
     \<and> resolver_ipc_response_count_valid (rb_query_type x) (rb_cname_count x) (rb_record_count x) \<and> timeutil_valid (Some (rb_completed_at x))
     \<and> name_ok True (rb_question_name x) \<and> name_ok True (rb_canonical_name x) \<and> name_ok (\<not> neg_valid (rb_negative x)) (neg_owner (rb_negative x))"

definition begin_pieces :: "resolver_ipc_response_begin \<Rightarrow> bytes list" where
  "begin_pieces x =
     (let (seconds, nanos) = the (resolver_ipc_time_encode (rb_completed_at x)); negative = rb_negative x in
      [be_bytes 2 (rb_query_class x), be_bytes 2 (rb_query_type x), be_bytes 2 (ucast (rb_status x) :: u16), [rb_rcode x],
       [if neg_valid negative then 1 else 0], be_bytes 8 seconds, be_bytes 4 nanos, be_bytes 2 (of_nat (rb_cname_count x) :: u16),
       be_bytes 2 (of_nat (rb_record_count x) :: u16), be_bytes 2 (of_nat (length (rb_question_name x)) :: u16),
       be_bytes 2 (of_nat (length (rb_canonical_name x)) :: u16), be_bytes 2 (of_nat (length (neg_owner negative)) :: u16),
       be_bytes 4 (of_nat (neg_effective_ttl negative) :: u32), be_bytes 4 (of_nat (neg_minimum negative) :: u32), be_bytes 4 (of_nat (neg_record_ttl negative) :: u32),
       rb_question_name x, rb_canonical_name x, neg_owner negative])"

definition begin_payload :: "resolver_ipc_response_begin \<Rightarrow> bytes" where
  "begin_payload x = concat (begin_pieces x)"

lemma status_valid_ucast:
  assumes "resolver_ipc_lookup_status_valid s"
  shows "ucast (ucast s :: u16) = s"
proof -
  have "s \<in> {1, 2, 3, 4, 5, 6, 7, 8, 9, 10}"
    using assms by (auto simp: resolver_ipc_lookup_status_valid_def resolver_ipc_lookup_status_find_def resolver_ipc_lookup_status_maps_def split: if_splits)
  then show ?thesis by auto
qed

lemma status_decode_iff: "resolver_ipc_status_decode k = Some s \<longleftrightarrow> resolver_ipc_lookup_status_valid s \<and> k = ucast s"
  using status_valid_ucast ucast_widen(2) by (auto simp: resolver_ipc_status_decode_def)

lemma counts_small: "resolver_ipc_response_count_valid t c n \<Longrightarrow> c < 65536 \<and> n < 65536"
  by (auto simp: resolver_ipc_response_count_valid_def split: if_splits)

lemma byte_bool: "\<not> 1 < (v :: u8) \<Longrightarrow> (if v \<noteq> 0 then 1 else 0) = v"
proof -
  assume "\<not> 1 < v"
  then have "unat v = 0 \<or> unat v = 1" by (auto simp: word_less_nat_alt)
  then show ?thesis by (auto simp: word_unat_eq_iff)
qed

lemma begin_fields_D:
  assumes "rd_ok r" "begin_fields h r = Some (x, r')"
  shows "begin_wf x \<and> begin_ok x \<and> rb_query_id x = ph_query_id h \<and> reads r (begin_payload x) r'"
proof -
  obtain qc qt es rc nv s n cc rn qs cs os et mi rt st at q c ow r1 r2 r3 r4 r5 r6 r7 r8 r9 r10 r11 r12 r13 r14 r15 r16 r17 where f:
      "resolver_ipc_reader_u16 r = Some (qc, r1)" "resolver_ipc_reader_u16 r1 = Some (qt, r2)" "resolver_ipc_reader_u16 r2 = Some (es, r3)"
      "resolver_ipc_reader_u8 r3 = Some (rc, r4)" "resolver_ipc_reader_u8 r4 = Some (nv, r5)" "resolver_ipc_reader_u64 r5 = Some (s, r6)"
      "resolver_ipc_reader_u32 r6 = Some (n, r7)" "resolver_ipc_reader_u16 r7 = Some (cc, r8)" "resolver_ipc_reader_u16 r8 = Some (rn, r9)"
      "resolver_ipc_reader_u16 r9 = Some (qs, r10)" "resolver_ipc_reader_u16 r10 = Some (cs, r11)" "resolver_ipc_reader_u16 r11 = Some (os, r12)"
      "resolver_ipc_reader_u32 r12 = Some (et, r13)" "resolver_ipc_reader_u32 r13 = Some (mi, r14)" "resolver_ipc_reader_u32 r14 = Some (rt, r15)"
      "resolver_ipc_reader_name r15 qs True = Some (q, r16)" "resolver_ipc_reader_name r16 cs True = Some (c, r17)"
      "resolver_ipc_reader_name r17 os (nv = 0) = Some (ow, r')"
    and g: "qc = ns_c_in" "resolver_ipc_query_type_valid qt" "resolver_ipc_status_decode es = Some st" "\<not> rc > 15" "\<not> nv > 1"
      "resolver_ipc_time_decode s n = Some at" "resolver_ipc_response_count_valid qt (unat cc) (unat rn)"
      "resolver_ipc_negative_valid (rb_negative x)"
    and x: "x = \<lparr>rb_canonical_name = c, rb_cname_count = unat cc, rb_completed_at = at,
        rb_negative = \<lparr>neg_effective_ttl = unat et, neg_minimum = unat mi, neg_owner = ow, neg_record_ttl = unat rt, neg_valid = (nv \<noteq> 0)\<rparr>,
        rb_question_name = q, rb_query_class = qc, rb_query_id = ph_query_id h, rb_query_type = qt,
        rb_rcode = rc, rb_record_count = unat rn, rb_status = st\<rparr>"
    using assms(2) unfolding begin_fields_def Let_def bind_eq_Some_conv
    by (elim exE conjE) (simp add: bind_eq_Some_conv split: if_splits prod.splits)
  have st: "resolver_ipc_lookup_status_valid st" "es = ucast st" using g(3) by (simp_all add: status_decode_iff)
  have at: "timespec_range at" "resolver_ipc_time_encode at = Some (s, n)" using g(6) by (simp_all add: time_decode_iff)
  then have atv: "timeutil_valid (Some at)" by (simp add: time_encode_valid)
  have rd: "reads r (be_bytes 2 qc @ be_bytes 2 qt @ be_bytes 2 es @ [rc] @ [nv] @ be_bytes 8 s @ be_bytes 4 n @ be_bytes 2 cc @ be_bytes 2 rn @ be_bytes 2 qs @ be_bytes 2 cs
      @ be_bytes 2 os @ be_bytes 4 et @ be_bytes 4 mi @ be_bytes 4 rt @ q @ c @ ow) r'"
    and nm: "name_array q" "name_ok True q" "qs = of_nat (length q)" "name_array c" "name_ok True c" "cs = of_nat (length c)"
      "name_array ow" "name_ok (nv = 0) ow" "os = of_nat (length ow)"
    using assms(1) f by (auto dest!: reader_D(1-4) name_D' simp del: append_Cons append_Nil intro!: reads_appendI)
  have "begin_payload x = be_bytes 2 qc @ be_bytes 2 qt @ be_bytes 2 es @ [rc] @ [nv] @ be_bytes 8 s @ be_bytes 4 n @ be_bytes 2 cc @ be_bytes 2 rn @ be_bytes 2 qs @ be_bytes 2 cs
      @ be_bytes 2 os @ be_bytes 4 et @ be_bytes 4 mi @ be_bytes 4 rt @ q @ c @ ow"
    using at(2) st nm byte_bool [OF g(5)] by (simp add: begin_payload_def begin_pieces_def x)
  with rd have "reads r (begin_payload x) r'" by metis
  with nm st at atv g show ?thesis
    by (simp add: begin_wf_def begin_ok_def x unat_le_max not_less)
qed

lemma begin_fields_I:
  assumes "begin_wf x" "begin_ok x" "rb_query_id x = ph_query_id h" "reads r (begin_payload x) r'"
  shows "begin_fields h r = Some (x, r')"
proof -
  define ng where "ng = rb_negative x"
  obtain s n where t: "resolver_ipc_time_encode (rb_completed_at x) = Some (s, n)"
    using assms(1,2) time_encode_valid by (auto simp: begin_wf_def begin_ok_def)
  have td: "resolver_ipc_time_decode s n = Some (rb_completed_at x)"
    using assms(1) t by (simp add: time_decode_iff begin_wf_def)
  have sd: "resolver_ipc_status_decode (ucast (rb_status x)) = Some (rb_status x)"
    using assms(2) by (simp add: status_decode_iff begin_ok_def)
  have nm: "name_array (rb_question_name x)" "name_ok True (rb_question_name x)" "name_array (rb_canonical_name x)" "name_ok True (rb_canonical_name x)"
      "name_array (neg_owner ng)" "name_ok (\<not> neg_valid ng) (neg_owner ng)"
    using assms(1,2) by (auto simp: begin_wf_def begin_ok_def ng_def)
  have p: "begin_payload x = be_bytes 2 (rb_query_class x) @ be_bytes 2 (rb_query_type x) @ be_bytes 2 (ucast (rb_status x) :: u16) @ [rb_rcode x]
      @ [if neg_valid ng then 1 else 0] @ be_bytes 8 s @ be_bytes 4 n @ be_bytes 2 (of_nat (rb_cname_count x) :: u16)
      @ be_bytes 2 (of_nat (rb_record_count x) :: u16) @ be_bytes 2 (of_nat (length (rb_question_name x)) :: u16)
      @ be_bytes 2 (of_nat (length (rb_canonical_name x)) :: u16) @ be_bytes 2 (of_nat (length (neg_owner ng)) :: u16)
      @ be_bytes 4 (of_nat (neg_effective_ttl ng) :: u32) @ be_bytes 4 (of_nat (neg_minimum ng) :: u32) @ be_bytes 4 (of_nat (neg_record_ttl ng) :: u32)
      @ rb_question_name x @ rb_canonical_name x @ neg_owner ng"
    by (simp add: begin_payload_def begin_pieces_def t ng_def Let_def)
  obtain r1 r2 r3 r4 r5 r6 r7 r8 r9 r10 r11 r12 r13 r14 r15 r16 r17 where f:
      "resolver_ipc_reader_u16 r = Some (rb_query_class x, r1)" "resolver_ipc_reader_u16 r1 = Some (rb_query_type x, r2)"
      "resolver_ipc_reader_u16 r2 = Some (ucast (rb_status x), r3)" "resolver_ipc_reader_u8 r3 = Some (rb_rcode x, r4)"
      "resolver_ipc_reader_u8 r4 = Some (if neg_valid ng then 1 else 0, r5)" "resolver_ipc_reader_u64 r5 = Some (s, r6)"
      "resolver_ipc_reader_u32 r6 = Some (n, r7)" "resolver_ipc_reader_u16 r7 = Some (of_nat (rb_cname_count x), r8)"
      "resolver_ipc_reader_u16 r8 = Some (of_nat (rb_record_count x), r9)" "resolver_ipc_reader_u16 r9 = Some (of_nat (length (rb_question_name x)), r10)"
      "resolver_ipc_reader_u16 r10 = Some (of_nat (length (rb_canonical_name x)), r11)" "resolver_ipc_reader_u16 r11 = Some (of_nat (length (neg_owner ng)), r12)"
      "resolver_ipc_reader_u32 r12 = Some (of_nat (neg_effective_ttl ng), r13)" "resolver_ipc_reader_u32 r13 = Some (of_nat (neg_minimum ng), r14)"
      "resolver_ipc_reader_u32 r14 = Some (of_nat (neg_record_ttl ng), r15)"
      "reads r15 (rb_question_name x) r16" "reads r16 (rb_canonical_name x) r17" "reads r17 (neg_owner ng) r'"
    using assms(4) unfolding p reads_append by (elim exE conjE) (rule that; (assumption | erule reader_I))
  have v: "(if neg_valid ng then 1 else 0 :: u8) = 0 \<longleftrightarrow> \<not> neg_valid ng" "\<not> (if neg_valid ng then 1 else 0 :: u8) > 1" by simp_all
  have nr: "resolver_ipc_reader_name r15 (of_nat (length (rb_question_name x))) True = Some (rb_question_name x, r16)"
      "resolver_ipc_reader_name r16 (of_nat (length (rb_canonical_name x))) True = Some (rb_canonical_name x, r17)"
      "resolver_ipc_reader_name r17 (of_nat (length (neg_owner ng))) (\<not> neg_valid ng) = Some (neg_owner ng, r')"
    using f(16-18) nm by (auto intro: name_I')
  have u: "unat (of_nat (rb_cname_count x) :: u16) = rb_cname_count x" "unat (of_nat (rb_record_count x) :: u16) = rb_record_count x"
      "unat (of_nat (neg_effective_ttl ng) :: u32) = neg_effective_ttl ng" "unat (of_nat (neg_minimum ng) :: u32) = neg_minimum ng"
      "unat (of_nat (neg_record_ttl ng) :: u32) = neg_record_ttl ng"
    using assms(1,2) counts_small by (auto simp: begin_wf_def begin_ok_def ng_def intro!: unat_of_nat_small)
  have c: "\<not> (rb_query_class x \<noteq> ns_c_in \<or> \<not> resolver_ipc_query_type_valid (rb_query_type x))" "\<not> 15 < rb_rcode x"
      "resolver_ipc_response_count_valid (rb_query_type x) (rb_cname_count x) (rb_record_count x)" "resolver_ipc_negative_valid ng"
    using assms(2) by (auto simp: begin_ok_def ng_def)
  have ng: "\<lparr>neg_effective_ttl = neg_effective_ttl ng, neg_minimum = neg_minimum ng, neg_owner = neg_owner ng, neg_record_ttl = neg_record_ttl ng, neg_valid = neg_valid ng\<rparr> = ng"
    by simp
  have x: "\<lparr>rb_canonical_name = rb_canonical_name x, rb_cname_count = rb_cname_count x, rb_completed_at = rb_completed_at x, rb_negative = ng,
      rb_question_name = rb_question_name x, rb_query_class = rb_query_class x, rb_query_id = ph_query_id h, rb_query_type = rb_query_type x,
      rb_rcode = rb_rcode x, rb_record_count = rb_record_count x, rb_status = rb_status x\<rparr> = x"
    unfolding ng_def assms(3) [symmetric] by simp
  show ?thesis
    unfolding begin_fields_def by (simp only: f bind.simps prod.case c if_False sd td u nr v Let_def not_not simp_thms ng x)
qed

interpretation begin_packet: ipc_packet RESOLVER_IPC_PACKET_RESPONSE_BEGIN resolver_ipc_response_begin_zero begin_fields resolver_ipc_response_begin_encode
  begin_wf begin_ok rb_query_id begin_payload id
proof
  fix r h r' and x :: resolver_ipc_response_begin
  assume "rd_ok r"
  then show "begin_fields h r = Some (x, r') \<longleftrightarrow> begin_wf x \<and> begin_ok x \<and> id x = x \<and> rb_query_id x = ph_query_id h \<and> reads r (begin_payload x) r'"
    using begin_fields_D begin_fields_I by (metis id_apply)
next
  fix x :: resolver_ipc_response_begin and buf
  assume wf: "begin_wf x"
  define ng where "ng = rb_negative x"
  have n: "resolver_ipc_name_size (rb_question_name x) True = (if name_ok True (rb_question_name x) then Some (length (rb_question_name x)) else None)"
      "resolver_ipc_name_size (rb_canonical_name x) True = (if name_ok True (rb_canonical_name x) then Some (length (rb_canonical_name x)) else None)"
      "resolver_ipc_name_size (neg_owner ng) (\<not> neg_valid ng) = (if name_ok (\<not> neg_valid ng) (neg_owner ng) then Some (length (neg_owner ng)) else None)"
    using wf name_size_eq by (auto simp: begin_wf_def ng_def)
  have t: "resolver_ipc_time_encode (rb_completed_at x) = None \<longleftrightarrow> \<not> timeutil_valid (Some (rb_completed_at x))"
    using wf time_encode_valid [of "rb_completed_at x"] unfolding begin_wf_def by blast
  show "resolver_ipc_response_begin_encode (Some x) (Some buf) True = encode_result RESOLVER_IPC_PACKET_RESPONSE_BEGIN (begin_ok x) (rb_query_id x) (begin_payload x) buf"
  proof (cases "begin_ok x")
    case True
    obtain s m where s: "resolver_ipc_time_encode (rb_completed_at x) = Some (s, m)"
      using True t by (auto simp: begin_ok_def)
    have l: "begin_payload x = concat (begin_pieces x)" "length (begin_payload x) = 42 + length (rb_question_name x) + length (rb_canonical_name x) + length (neg_owner ng)"
      by (simp_all add: begin_payload_def begin_pieces_def s ng_def Let_def)
    have se: "resolver_ipc_status_encode (rb_status x) = Some (ucast (rb_status x))"
      using True by (simp add: resolver_ipc_status_encode_def begin_ok_def)
    show ?thesis
      using True n s unfolding resolver_ipc_response_begin_encode_def Let_def ng_def [symmetric]
      by (auto simp: begin_ok_def name_ok_def l(2) resolver_ipc_packet_kinds_def se writer_ops begin_pieces_def Let_def ng_def
          intro!: fields_encode_eq [where bss = "begin_pieces x", OF _ l(1)])
  next
    case False
    then show ?thesis
      using n t by (auto simp: resolver_ipc_response_begin_encode_def Let_def begin_ok_def ng_def encode_result_def bind_eq_Some_conv split: option.splits if_splits)
  qed
qed (auto simp: resolver_ipc_packet_kinds_def begin_ok_def begin_payload_def begin_pieces_def name_ok_def Let_def split: prod.splits)

section \<open>Properties\<close>

text \<open>
  C8: the six packet codecs are exact. For requests, response beginnings, aliases, addresses, service records and response
  ends alike: whatever a caller passes, the encoder stays inside the packet array; what it accepts always fits a packet and is read back
  unchanged (an IPv4 address without the unused bytes of its union); a refusal touches nothing; and a decoded packet is the only
  encoding of its contents, so no byte of a packet is ignored.
\<close>

theorem ipc_codecs_exact:
  "codec_exact resolver_ipc_request_encode resolver_ipc_request_decode request_wf (\<lambda>x. request_ok x \<and> rq_query_id x \<noteq> 0) id
   \<and> codec_exact resolver_ipc_response_begin_encode resolver_ipc_response_begin_decode begin_wf (\<lambda>x. begin_ok x \<and> rb_query_id x \<noteq> 0) id
   \<and> codec_exact resolver_ipc_response_cname_encode resolver_ipc_response_cname_decode cname_wf (\<lambda>x. cname_ok x \<and> rc_query_id x \<noteq> 0) id
   \<and> codec_exact resolver_ipc_response_address_encode resolver_ipc_response_address_decode address_wf (\<lambda>x. address_ok x \<and> ra_query_id x \<noteq> 0) address_norm
   \<and> codec_exact resolver_ipc_response_srv_encode resolver_ipc_response_srv_decode srv_wf (\<lambda>x. srv_ok x \<and> rv_query_id x \<noteq> 0) id
   \<and> codec_exact resolver_ipc_response_end_encode resolver_ipc_response_end_decode end_wf (\<lambda>x. end_ok x \<and> re_query_id x \<noteq> 0) id"
  unfolding resolver_ipc_request_decode_def resolver_ipc_response_begin_decode_def resolver_ipc_response_cname_decode_def
    resolver_ipc_response_address_decode_def resolver_ipc_response_srv_decode_def resolver_ipc_response_end_decode_def
  by (intro conjI request_packet.exact begin_packet.exact cname_packet.exact address_packet.exact srv_packet.exact end_packet.exact)

text \<open>The status values survive the passage to IPC values and back.\<close>

lemma lookup_status_roundtrip:
  "Option.bind (resolver_ipc_lookup_status_from_address a) resolver_ipc_lookup_status_to_address = Some a"
  "Option.bind (resolver_ipc_lookup_status_from_srv s) resolver_ipc_lookup_status_to_srv = Some s"
  by (cases a; simp add: resolver_ipc_lookup_status_from_address_def resolver_ipc_lookup_status_to_address_def resolver_ipc_lookup_status_find_def
      resolver_ipc_lookup_status_maps_def)
    (cases s; simp add: resolver_ipc_lookup_status_from_srv_def resolver_ipc_lookup_status_to_srv_def resolver_ipc_lookup_status_find_def
      resolver_ipc_lookup_status_maps_def)

end
