(* ===== verification/Ipc_Assembly.thy ===== *)
theory Ipc_Assembly
  imports Ipc_Correct Cache
begin

text \<open>
  The listener's assembly of a helper's response packets (\<open>src/resolver/ipc_assembly.c\<close>) under a shared memory budget.

  An assembly is identified by its address, a number, and live assemblies have distinct addresses; the budget's doubly linked list is the list of its assemblies, the
  newest first. The union of the two result structures is unfolded into the fields the two have in common and the arrays of each: an array is the
  optional list of all its allocated elements, and the counts are separate, since they are set only at the end. The outcomes of \<open>calloc\<close> are
  arguments, structure sizes and the byte limit are the parameter \<open>cfg\<close>. \<open>None\<close> is undefined behaviour: the use of an assembly
  that has been freed or an access outside an array.
\<close>

section \<open>Types\<close>

record assembly_config =
  ac_cache :: cache_config
  RESOLVER_REPLY_ASSEMBLY_BYTE_LIMIT :: nat
  sizeof_assembly :: nat
  sizeof_assembly_budget :: nat

datatype resolver_ipc_assembly_status =
    RESOLVER_IPC_ASSEMBLY_OK
  | RESOLVER_IPC_ASSEMBLY_COMPLETE
  | RESOLVER_IPC_ASSEMBLY_BAD_ARGUMENT
  | RESOLVER_IPC_ASSEMBLY_LIMIT
  | RESOLVER_IPC_ASSEMBLY_MEMORY
  | RESOLVER_IPC_ASSEMBLY_PROTOCOL

datatype resolver_ipc_assembly_state =
    RESOLVER_IPC_ASSEMBLY_STATE_BEGIN
  | RESOLVER_IPC_ASSEMBLY_STATE_CNAME
  | RESOLVER_IPC_ASSEMBLY_STATE_RECORD
  | RESOLVER_IPC_ASSEMBLY_STATE_END
  | RESOLVER_IPC_ASSEMBLY_STATE_COMPLETE
  | RESOLVER_IPC_ASSEMBLY_STATE_FAILED
  | RESOLVER_IPC_ASSEMBLY_STATE_TAKEN

datatype resolver_ipc_assembly_counter =
    create_ok
  | create_bad_argument
  | create_limit
  | create_memory
  | limit_result_shape
  | limit_result_bytes
  | limit_budget_bytes
  | terminal_complete
  | terminal_bad_argument
  | terminal_limit
  | terminal_memory
  | terminal_protocol
  | abandoned
  | nonterminal_current

record resolver_ipc_assembly_metrics_state =
  am_owned_bytes_high_water :: nat
  am_query :: "metrics_query_type \<Rightarrow> resolver_ipc_assembly_counter \<Rightarrow> nat"
  am_result_size :: "metrics_query_type \<Rightarrow> metrics_histogram"
  am_saturation_total :: nat

record resolver_ipc_assembly_payload =
  ap_addresses :: "dns_address_record list option"
  ap_canonical_name :: bytes
  ap_cnames :: "dns_cname_record list option"
  ap_cname_count :: nat
  ap_negative :: dns_negative_record
  ap_question_name :: bytes
  ap_rcode :: u8
  ap_records :: "dns_srv_record list option"
  ap_record_count :: nat

record resolver_ipc_assembly =
  as_chain_ttl :: nat
  as_declared_cname_count :: nat
  as_declared_record_count :: nat
  as_dynamic_bytes :: nat
  as_expected_name :: bytes
  as_payload :: resolver_ipc_assembly_payload
  as_query_class :: u16
  as_query_id :: u64
  as_query_type :: u16
  as_received_cname_count :: nat
  as_received_record_count :: nat
  as_state :: resolver_ipc_assembly_state
  as_status :: resolver_ipc_lookup_status
  as_completed_at :: timespec

record resolver_ipc_assembly_budget =
  ab_assemblies :: "(nat \<times> resolver_ipc_assembly) list"
  ab_metrics :: resolver_ipc_assembly_metrics_state
  ab_owned_bytes :: nat

record resolver_ipc_assembly_result =
  at_completed_at :: timespec
  at_dynamic_bytes :: nat
  at_payload :: resolver_ipc_assembly_payload
  at_query_id :: u64
  at_query_type :: u16
  at_status :: resolver_ipc_lookup_status

record resolver_ipc_assembly_metrics_snapshot =
  as_nonterminal_current :: nat
  as_owned_bytes_current :: nat
  as_owned_bytes_high_water :: nat
  as_query :: "metrics_query_type \<Rightarrow> resolver_ipc_assembly_counter \<Rightarrow> nat"
  as_result_size :: "metrics_query_type \<Rightarrow> metrics_histogram_snapshot option"
  as_saturation_total :: nat

definition resolver_ipc_assembly_payload_zero :: resolver_ipc_assembly_payload where
  "resolver_ipc_assembly_payload_zero =
     \<lparr>ap_addresses = None, ap_canonical_name = [], ap_cnames = None, ap_cname_count = 0, ap_negative = dns_negative_zero, ap_question_name = [],
      ap_rcode = 0, ap_records = None, ap_record_count = 0\<rparr>"

definition resolver_ipc_assembly_zero :: resolver_ipc_assembly where
  "resolver_ipc_assembly_zero =
     \<lparr>as_chain_ttl = 0, as_declared_cname_count = 0, as_declared_record_count = 0, as_dynamic_bytes = 0, as_expected_name = [],
      as_payload = resolver_ipc_assembly_payload_zero, as_query_class = 0, as_query_id = 0, as_query_type = 0, as_received_cname_count = 0,
      as_received_record_count = 0, as_state = RESOLVER_IPC_ASSEMBLY_STATE_BEGIN, as_status = 0, as_completed_at = \<lparr>tv_sec = 0, tv_nsec = 0\<rparr>\<rparr>"

definition dns_cname_record_zero :: dns_cname_record where
  "dns_cname_record_zero = \<lparr>cn_owner = [], cn_target = [], cn_ttl = 0\<rparr>"

definition dns_address_record_zero :: dns_address_record where
  "dns_address_record_zero = \<lparr>ar_address = net_addr_zero, ar_effective_ttl = 0, ar_record_ttl = 0\<rparr>"

definition dns_srv_record_zero :: dns_srv_record where
  "dns_srv_record_zero = \<lparr>srv_priority = 0, srv_weight = 0, srv_port = 0, srv_target = [], srv_record_ttl = 0, srv_effective_ttl = 0\<rparr>"

section \<open>Local functions\<close>

definition resolver_ipc_assembly_metrics_increment ::
  "metrics_query_type \<Rightarrow> resolver_ipc_assembly_counter \<Rightarrow> resolver_ipc_assembly_budget \<Rightarrow> resolver_ipc_assembly_budget" where
  "resolver_ipc_assembly_metrics_increment q k b =
     (let m = ab_metrics b;
          (v, sat, _) = metrics_counter_add (am_query m q k) 1 (am_saturation_total m)
      in b\<lparr>ab_metrics := m\<lparr>am_query := (am_query m)(q := (am_query m q)(k := v)), am_saturation_total := sat\<rparr>\<rparr>)"

definition resolver_ipc_assembly_metrics_query_type :: "u16 \<Rightarrow> metrics_query_type" where
  "resolver_ipc_assembly_metrics_query_type query_type =
     (if query_type = ns_t_a then METRICS_QUERY_TYPE_A
      else if query_type = ns_t_aaaa then METRICS_QUERY_TYPE_AAAA
      else METRICS_QUERY_TYPE_SRV)"

definition resolver_ipc_assembly_metrics_limit_record ::
  "resolver_ipc_assembly \<Rightarrow> resolver_cache_result_fit \<Rightarrow> resolver_ipc_assembly_budget \<Rightarrow> resolver_ipc_assembly_budget" where
  "resolver_ipc_assembly_metrics_limit_record a classification =
     resolver_ipc_assembly_metrics_increment (resolver_ipc_assembly_metrics_query_type (as_query_type a))
       (if classification = RESOLVER_CACHE_RESULT_FIT_SHAPE then limit_result_shape else limit_result_bytes)"

definition resolver_ipc_assembly_state_nonterminal :: "resolver_ipc_assembly_state \<Rightarrow> bool" where
  "resolver_ipc_assembly_state_nonterminal state \<longleftrightarrow>
     state = RESOLVER_IPC_ASSEMBLY_STATE_BEGIN \<or> state = RESOLVER_IPC_ASSEMBLY_STATE_CNAME \<or> state = RESOLVER_IPC_ASSEMBLY_STATE_RECORD
     \<or> state = RESOLVER_IPC_ASSEMBLY_STATE_END"

definition resolver_ipc_assembly_metrics_terminal_record ::
  "resolver_ipc_assembly \<Rightarrow> resolver_ipc_assembly_status \<Rightarrow> resolver_ipc_assembly_budget \<Rightarrow> resolver_ipc_assembly_budget option" where
  "resolver_ipc_assembly_metrics_terminal_record a status b =
     (if \<not> resolver_ipc_assembly_state_nonterminal (as_state a) then Some b
      else
        (let query = resolver_ipc_assembly_metrics_query_type (as_query_type a); m = ab_metrics b in
         do {
           b \<leftarrow> (if status = RESOLVER_IPC_ASSEMBLY_COMPLETE then do {
                   (h, sat) \<leftarrow> metrics_size_histogram_observe (am_result_size m query) (as_dynamic_bytes a) (am_saturation_total m);
                   Some (b\<lparr>ab_metrics := m\<lparr>am_result_size := (am_result_size m)(query := h), am_saturation_total := sat\<rparr>\<rparr>)
                 }
                 else Some b);
           Some (resolver_ipc_assembly_metrics_increment query
             (case status of
                RESOLVER_IPC_ASSEMBLY_COMPLETE \<Rightarrow> terminal_complete
              | RESOLVER_IPC_ASSEMBLY_BAD_ARGUMENT \<Rightarrow> terminal_bad_argument
              | RESOLVER_IPC_ASSEMBLY_LIMIT \<Rightarrow> terminal_limit
              | RESOLVER_IPC_ASSEMBLY_MEMORY \<Rightarrow> terminal_memory
              | _ \<Rightarrow> terminal_protocol) b)
         }))"

text \<open>The charge of a structure is returned, clamped at zero.\<close>

definition budget_return :: "nat \<Rightarrow> resolver_ipc_assembly_budget \<Rightarrow> resolver_ipc_assembly_budget" where
  "budget_return n b = b\<lparr>ab_owned_bytes := (if ab_owned_bytes b \<ge> n then ab_owned_bytes b - n else 0)\<rparr>"

definition resolver_ipc_assembly_data_clear ::
  "resolver_ipc_assembly \<Rightarrow> resolver_ipc_assembly_budget \<Rightarrow> resolver_ipc_assembly \<times> resolver_ipc_assembly_budget" where
  "resolver_ipc_assembly_data_clear a b =
     (a\<lparr>as_payload := resolver_ipc_assembly_payload_zero, as_dynamic_bytes := 0\<rparr>, budget_return (as_dynamic_bytes a) b)"

definition resolver_ipc_assembly_name_normalized :: "bytes \<Rightarrow> bool" where
  "resolver_ipc_assembly_name_normalized name \<longleftrightarrow> name_normalize name = Some name"

definition resolver_ipc_assembly_ttl_expected :: "nat \<Rightarrow> nat \<Rightarrow> nat" where
  "resolver_ipc_assembly_ttl_expected record_ttl chain_ttl = (if record_ttl < chain_ttl then record_ttl else chain_ttl)"

definition resolver_ipc_assembly_arrays_allocate ::
  "assembly_config \<Rightarrow> bool \<times> bool \<Rightarrow> nat \<Rightarrow> nat \<Rightarrow> resolver_ipc_assembly \<Rightarrow> resolver_ipc_assembly_budget \<Rightarrow>
     resolver_ipc_assembly_status \<times> resolver_ipc_assembly \<times> resolver_ipc_assembly_budget" where
  "resolver_ipc_assembly_arrays_allocate cfg alloc cname_count record_count a b =
     (let classification = resolver_cache_result_classify (ac_cache cfg) (as_query_type a) cname_count record_count;
          srv = (as_query_type a = ns_t_srv);
          record_size = (if srv then sizeof_srv_record (ac_cache cfg) else sizeof_address_record (ac_cache cfg));
          cname_bytes = (if cname_count > 0 then resolver_size_multiply DNS_CNAME_DEPTH_LIMIT (sizeof_cname_record (ac_cache cfg)) else Some 0);
          record_bytes = resolver_size_multiply record_count record_size;
          too_large = (RESOLVER_IPC_ASSEMBLY_LIMIT, a, resolver_ipc_assembly_metrics_limit_record a RESOLVER_CACHE_RESULT_FIT_BYTES b) in
      if classification \<noteq> RESOLVER_CACHE_RESULT_FIT_OK
      then (RESOLVER_IPC_ASSEMBLY_LIMIT, a, resolver_ipc_assembly_metrics_limit_record a classification b)
      else if cname_bytes = None \<or> record_bytes = None then too_large
      else
        (case resolver_size_add (the cname_bytes) (the record_bytes) of
           None \<Rightarrow> too_large
         | Some allocation_size \<Rightarrow>
             if allocation_size > RESOLVER_REPLY_ASSEMBLY_BYTE_LIMIT cfg then too_large
             else if ab_owned_bytes b > RESOLVER_REPLY_ASSEMBLY_BYTE_LIMIT cfg - allocation_size
             then (RESOLVER_IPC_ASSEMBLY_LIMIT, a,
                   resolver_ipc_assembly_metrics_increment (resolver_ipc_assembly_metrics_query_type (as_query_type a)) limit_budget_bytes b)
             else if (cname_count > 0 \<and> \<not> fst alloc) \<or> (record_count > 0 \<and> \<not> snd alloc) then (RESOLVER_IPC_ASSEMBLY_MEMORY, a, b)
             else
               (let cnames = (if cname_count = 0 then None else Some (replicate DNS_CNAME_DEPTH_LIMIT dns_cname_record_zero));
                    payload = (as_payload a)\<lparr>ap_cnames := cnames\<rparr>;
                    payload = (if srv then payload\<lparr>ap_records := if record_count = 0 then None else Some (replicate record_count dns_srv_record_zero)\<rparr>
                               else payload\<lparr>ap_addresses := if record_count = 0 then None else Some (replicate record_count dns_address_record_zero)\<rparr>);
                    owned = ab_owned_bytes b + allocation_size; m = ab_metrics b in
                (RESOLVER_IPC_ASSEMBLY_OK, a\<lparr>as_payload := payload, as_dynamic_bytes := allocation_size\<rparr>,
                 b\<lparr>ab_owned_bytes := owned, ab_metrics := m\<lparr>am_owned_bytes_high_water := metrics_high_water_update (am_owned_bytes_high_water m) owned\<rparr>\<rparr>))))"

abbreviation (input) ns_r_servfail :: u8 where "ns_r_servfail \<equiv> 2"

definition resolver_ipc_assembly_begin_check :: "resolver_ipc_assembly \<Rightarrow> resolver_ipc_response_begin \<Rightarrow> bool" where
  "resolver_ipc_assembly_begin_check a begin \<longleftrightarrow>
     (let status = rb_status begin; question = rb_question_name begin; canonical = rb_canonical_name begin; rcode = rb_rcode begin;
          negative_valid = neg_valid (rb_negative begin);
          positive = (status = RESOLVER_IPC_LOOKUP_OK);
          negative = (status = RESOLVER_IPC_LOOKUP_NODATA \<or> status = RESOLVER_IPC_LOOKUP_NOT_FOUND);
          resolver_error = (status = RESOLVER_IPC_LOOKUP_PERMANENT_ERROR \<or> status = RESOLVER_IPC_LOOKUP_TEMPORARY_ERROR) in
      if rb_query_id begin \<noteq> as_query_id a \<or> rb_query_class begin \<noteq> as_query_class a \<or> rb_query_type begin \<noteq> as_query_type a then False
      else if positive \<or> negative then
        (if negative \<and> question = []
         then canonical = [] \<and> rb_cname_count begin = 0 \<and> rb_record_count begin = 0 \<and> \<not> negative_valid \<and> rcode = 0
         else if \<not> resolver_ipc_assembly_name_normalized question \<or> question \<noteq> as_expected_name a \<or> \<not> resolver_ipc_assembly_name_normalized canonical
         then False
         else if positive then rcode = ns_r_noerror \<and> rb_record_count begin > 0 \<and> \<not> negative_valid
         else rb_record_count begin = 0
           \<and> ((status = RESOLVER_IPC_LOOKUP_NODATA \<and> rcode = ns_r_noerror)
              \<or> (status = RESOLVER_IPC_LOOKUP_NOT_FOUND \<and> (rcode = ns_r_nxdomain \<or> (rcode = 0 \<and> \<not> negative_valid)))))
      else if resolver_error then
        (if rb_record_count begin \<noteq> 0 \<or> negative_valid then False
         else if (status = RESOLVER_IPC_LOOKUP_TEMPORARY_ERROR \<and> rcode \<noteq> 0 \<and> rcode \<noteq> ns_r_servfail)
              \<or> (status = RESOLVER_IPC_LOOKUP_PERMANENT_ERROR \<and> (rcode = ns_r_nxdomain \<or> rcode = ns_r_servfail)) then False
         else if question = [] then canonical = [] \<and> rb_cname_count begin = 0 \<and> rcode = 0
         else resolver_ipc_assembly_name_normalized question \<and> question = as_expected_name a
           \<and> (if rb_cname_count begin > 0 then resolver_ipc_assembly_name_normalized canonical else canonical = []))
      else rb_cname_count begin = 0 \<and> rb_record_count begin = 0 \<and> \<not> negative_valid \<and> question = [] \<and> canonical = [] \<and> rcode = 0)"

section \<open>Consuming packets\<close>

definition resolver_ipc_assembly_begin_consume ::
  "assembly_config \<Rightarrow> bool \<times> bool \<Rightarrow> bytes option \<Rightarrow> resolver_ipc_assembly \<Rightarrow> resolver_ipc_assembly_budget \<Rightarrow>
     resolver_ipc_assembly_status \<times> resolver_ipc_assembly \<times> resolver_ipc_assembly_budget" where
  "resolver_ipc_assembly_begin_consume cfg alloc packet a b =
     (case resolver_ipc_response_begin_decode packet True of
        (decoded, begin) \<Rightarrow>
          if decoded \<noteq> RESOLVER_IPC_CODEC_OK \<or> \<not> resolver_ipc_assembly_begin_check a begin then (RESOLVER_IPC_ASSEMBLY_PROTOCOL, a, b)
          else
            (case resolver_ipc_assembly_arrays_allocate cfg alloc (rb_cname_count begin) (rb_record_count begin) a b of
               (status, a, b) \<Rightarrow>
                 if status \<noteq> RESOLVER_IPC_ASSEMBLY_OK then (status, a, b)
                 else
                   (RESOLVER_IPC_ASSEMBLY_OK,
                    a\<lparr>as_chain_ttl := UINT32_MAX, as_completed_at := rb_completed_at begin, as_declared_cname_count := rb_cname_count begin,
                      as_declared_record_count := rb_record_count begin, as_status := rb_status begin,
                      as_payload := (as_payload a)\<lparr>ap_canonical_name := rb_canonical_name begin, ap_negative := rb_negative begin,
                        ap_question_name := rb_question_name begin, ap_rcode := rb_rcode begin\<rparr>,
                      as_state := (if rb_cname_count begin > 0 then RESOLVER_IPC_ASSEMBLY_STATE_CNAME
                        else if rb_record_count begin > 0 then RESOLVER_IPC_ASSEMBLY_STATE_RECORD
                        else RESOLVER_IPC_ASSEMBLY_STATE_END)\<rparr>, b)))"

text \<open>Access to an allocated array.\<close>

definition array_get :: "'a list option \<Rightarrow> nat \<Rightarrow> 'a option" where
  "array_get xs i = (case xs of None \<Rightarrow> None | Some l \<Rightarrow> if i < length l then Some (l ! i) else None)"

definition array_set :: "'a list option \<Rightarrow> nat \<Rightarrow> 'a \<Rightarrow> 'a list option option" where
  "array_set xs i v = (case xs of None \<Rightarrow> None | Some l \<Rightarrow> if i < length l then Some (Some (l[i := v])) else None)"

text \<open>The loop over the aliases received so far: does one of them own the name?\<close>

fun cname_owner_known :: "dns_cname_record list option \<Rightarrow> bytes \<Rightarrow> nat \<Rightarrow> nat \<Rightarrow> bool option" where
  "cname_owner_known cnames name index 0 = Some False"
| "cname_owner_known cnames name index (Suc left) = do {
     c \<leftarrow> array_get cnames index;
     if name = cn_owner c then Some True else cname_owner_known cnames name (Suc index) left
   }"

definition resolver_ipc_assembly_cname_consume ::
  "bytes option \<Rightarrow> resolver_ipc_assembly \<Rightarrow> (resolver_ipc_assembly_status \<times> resolver_ipc_assembly) option" where
  "resolver_ipc_assembly_cname_consume packet a =
     (case resolver_ipc_response_cname_decode packet True of
        (decoded, response) \<Rightarrow>
          if decoded \<noteq> RESOLVER_IPC_CODEC_OK \<or> rc_query_id response \<noteq> as_query_id a \<or> unat (rc_index response) \<noteq> as_received_cname_count a
             \<or> \<not> resolver_ipc_assembly_name_normalized (cn_owner (rc_record response))
             \<or> \<not> resolver_ipc_assembly_name_normalized (cn_target (rc_record response))
          then Some (RESOLVER_IPC_ASSEMBLY_PROTOCOL, a)
          else do {
            let payload = as_payload a;
            let record = rc_record response;
            let received = as_received_cname_count a;
            expected_owner \<leftarrow> (if received = 0 then Some (ap_question_name payload) else map_option cn_target (array_get (ap_cnames payload) (received - 1)));
            if cn_owner record \<noteq> expected_owner then Some (RESOLVER_IPC_ASSEMBLY_PROTOCOL, a)
            else do {
              known \<leftarrow> cname_owner_known (ap_cnames payload) (cn_target record) 0 received;
              if known \<or> cn_target record = cn_owner record then Some (RESOLVER_IPC_ASSEMBLY_PROTOCOL, a)
              else do {
                cnames \<leftarrow> array_set (ap_cnames payload) received record;
                let received = received + 1;
                Some (RESOLVER_IPC_ASSEMBLY_OK,
                  a\<lparr>as_payload := payload\<lparr>ap_cnames := cnames\<rparr>, as_received_cname_count := received,
                    as_chain_ttl := (if cn_ttl record < as_chain_ttl a then cn_ttl record else as_chain_ttl a),
                    as_state := (if received = as_declared_cname_count a
                      then (if as_declared_record_count a > 0 then RESOLVER_IPC_ASSEMBLY_STATE_RECORD else RESOLVER_IPC_ASSEMBLY_STATE_END)
                      else as_state a)\<rparr>)
              }
            }
          })"

definition resolver_ipc_assembly_complete_check :: "resolver_ipc_assembly \<Rightarrow> bool option" where
  "resolver_ipc_assembly_complete_check a =
     (let payload = as_payload a; canonical = ap_canonical_name payload; negative = ap_negative payload;
          resolver_error = (as_status a = RESOLVER_IPC_LOOKUP_PERMANENT_ERROR \<or> as_status a = RESOLVER_IPC_LOOKUP_TEMPORARY_ERROR) in
      do {
        chain_ok \<leftarrow> (if as_declared_cname_count a > 0
          then map_option (\<lambda>c. canonical = cn_target c) (array_get (ap_cnames payload) (as_declared_cname_count a - 1))
          else Some (resolver_error \<or> canonical = ap_question_name payload));
        if \<not> chain_ok then Some False
        else if \<not> neg_valid negative then Some True
        else
          (let expected_ttl = (if neg_minimum negative < neg_record_ttl negative then neg_minimum negative else neg_record_ttl negative);
               expected_ttl = resolver_ipc_assembly_ttl_expected expected_ttl (as_chain_ttl a) in
           Some (resolver_ipc_assembly_name_normalized (neg_owner negative) \<and> resolver_name_encloses (Some (neg_owner negative)) (Some canonical)
             \<and> neg_effective_ttl negative = expected_ttl))
      })"

definition resolver_ipc_assembly_end_consume ::
  "bytes option \<Rightarrow> resolver_ipc_assembly \<Rightarrow> resolver_ipc_assembly_budget \<Rightarrow>
     (resolver_ipc_assembly_status \<times> resolver_ipc_assembly \<times> resolver_ipc_assembly_budget) option" where
  "resolver_ipc_assembly_end_consume packet a b =
     (case resolver_ipc_response_end_decode packet True of
        (decoded, response) \<Rightarrow>
          if decoded \<noteq> RESOLVER_IPC_CODEC_OK \<or> re_query_id response \<noteq> as_query_id a \<or> re_cname_count response \<noteq> as_declared_cname_count a
             \<or> re_record_count response \<noteq> as_declared_record_count a \<or> as_received_cname_count a \<noteq> as_declared_cname_count a
             \<or> as_received_record_count a \<noteq> as_declared_record_count a
          then Some (RESOLVER_IPC_ASSEMBLY_PROTOCOL, a, b)
          else do {
            complete \<leftarrow> resolver_ipc_assembly_complete_check a;
            if \<not> complete then Some (RESOLVER_IPC_ASSEMBLY_PROTOCOL, a, b)
            else do {
              let a = a\<lparr>as_payload := (as_payload a)\<lparr>ap_cname_count := as_declared_cname_count a, ap_record_count := as_declared_record_count a\<rparr>\<rparr>;
              b \<leftarrow> resolver_ipc_assembly_metrics_terminal_record a RESOLVER_IPC_ASSEMBLY_COMPLETE b;
              Some (RESOLVER_IPC_ASSEMBLY_COMPLETE, a\<lparr>as_state := RESOLVER_IPC_ASSEMBLY_STATE_COMPLETE\<rparr>, b)
            }
          })"

definition resolver_ipc_assembly_fail ::
  "resolver_ipc_assembly_status \<Rightarrow> resolver_ipc_assembly \<Rightarrow> resolver_ipc_assembly_budget \<Rightarrow>
     (resolver_ipc_assembly_status \<times> resolver_ipc_assembly \<times> resolver_ipc_assembly_budget) option" where
  "resolver_ipc_assembly_fail status a b = do {
     b \<leftarrow> resolver_ipc_assembly_metrics_terminal_record a status b;
     let (a, b) = resolver_ipc_assembly_data_clear a b;
     Some (status, a\<lparr>as_state := RESOLVER_IPC_ASSEMBLY_STATE_FAILED\<rparr>, b)
   }"

text \<open>The common end of the two record handlers, after the record has been stored.\<close>

definition resolver_ipc_assembly_record_commit :: "resolver_ipc_assembly \<Rightarrow> resolver_ipc_assembly" where
  "resolver_ipc_assembly_record_commit a =
     (let received = as_received_record_count a + 1 in
      a\<lparr>as_received_record_count := received,
        as_state := (if received = as_declared_record_count a then RESOLVER_IPC_ASSEMBLY_STATE_END else as_state a)\<rparr>)"

definition resolver_ipc_assembly_record_address_consume ::
  "bytes option \<Rightarrow> resolver_ipc_assembly \<Rightarrow> (resolver_ipc_assembly_status \<times> resolver_ipc_assembly) option" where
  "resolver_ipc_assembly_record_address_consume packet a =
     (case resolver_ipc_response_address_decode packet True of
        (decoded, response) \<Rightarrow>
          let record = ra_record response; expected_family = (if as_query_type a = ns_t_a then AF_INET else AF_INET6) in
          if decoded \<noteq> RESOLVER_IPC_CODEC_OK \<or> ra_query_id response \<noteq> as_query_id a \<or> unat (ra_index response) \<noteq> as_received_record_count a
             \<or> addr_family (ar_address record) \<noteq> expected_family
             \<or> ar_effective_ttl record \<noteq> resolver_ipc_assembly_ttl_expected (ar_record_ttl record) (as_chain_ttl a)
          then Some (RESOLVER_IPC_ASSEMBLY_PROTOCOL, a)
          else do {
            addresses \<leftarrow> array_set (ap_addresses (as_payload a)) (as_received_record_count a) record;
            Some (RESOLVER_IPC_ASSEMBLY_OK, resolver_ipc_assembly_record_commit (a\<lparr>as_payload := (as_payload a)\<lparr>ap_addresses := addresses\<rparr>\<rparr>))
          })"

definition resolver_ipc_assembly_record_srv_consume ::
  "bytes option \<Rightarrow> resolver_ipc_assembly \<Rightarrow> (resolver_ipc_assembly_status \<times> resolver_ipc_assembly) option" where
  "resolver_ipc_assembly_record_srv_consume packet a =
     (case resolver_ipc_response_srv_decode packet True of
        (decoded, response) \<Rightarrow>
          let record = rv_record response in
          if decoded \<noteq> RESOLVER_IPC_CODEC_OK \<or> rv_query_id response \<noteq> as_query_id a \<or> unat (rv_index response) \<noteq> as_received_record_count a
             \<or> \<not> resolver_ipc_assembly_name_normalized (srv_target record)
             \<or> srv_effective_ttl record \<noteq> resolver_ipc_assembly_ttl_expected (srv_record_ttl record) (as_chain_ttl a)
          then Some (RESOLVER_IPC_ASSEMBLY_PROTOCOL, a)
          else do {
            records \<leftarrow> array_set (ap_records (as_payload a)) (as_received_record_count a) record;
            Some (RESOLVER_IPC_ASSEMBLY_OK, resolver_ipc_assembly_record_commit (a\<lparr>as_payload := (as_payload a)\<lparr>ap_records := records\<rparr>\<rparr>))
          })"

definition keep_budget :: "resolver_ipc_assembly_budget \<Rightarrow> ('s \<times> resolver_ipc_assembly) option \<Rightarrow> ('s \<times> resolver_ipc_assembly \<times> resolver_ipc_assembly_budget) option" where
  "keep_budget b r = map_option (\<lambda>(st, a). (st, a, b)) r"

text \<open>\<open>resolver_ipc_assembly_packet_consume\<close> on the assembly itself.\<close>

definition assembly_consume ::
  "assembly_config \<Rightarrow> bool \<times> bool \<Rightarrow> bytes option \<Rightarrow> resolver_ipc_assembly \<Rightarrow> resolver_ipc_assembly_budget \<Rightarrow>
     (resolver_ipc_assembly_status \<times> resolver_ipc_assembly \<times> resolver_ipc_assembly_budget) option" where
  "assembly_consume cfg alloc packet a b =
     (if packet = None then Some (RESOLVER_IPC_ASSEMBLY_BAD_ARGUMENT, a, b)
      else if \<not> resolver_ipc_assembly_state_nonterminal (as_state a) then resolver_ipc_assembly_fail RESOLVER_IPC_ASSEMBLY_PROTOCOL a b
      else
        (case resolver_ipc_packet_inspect packet True of
           (inspected, header) \<Rightarrow>
             if inspected \<noteq> RESOLVER_IPC_CODEC_OK \<or> ph_query_id header \<noteq> as_query_id a
             then resolver_ipc_assembly_fail RESOLVER_IPC_ASSEMBLY_PROTOCOL a b
             else do {
               (status, a, b) \<leftarrow>
                 (case as_state a of
                    RESOLVER_IPC_ASSEMBLY_STATE_BEGIN \<Rightarrow>
                      Some (if ph_kind header = RESOLVER_IPC_PACKET_RESPONSE_BEGIN then resolver_ipc_assembly_begin_consume cfg alloc packet a b
                            else (RESOLVER_IPC_ASSEMBLY_PROTOCOL, a, b))
                  | RESOLVER_IPC_ASSEMBLY_STATE_CNAME \<Rightarrow>
                      keep_budget b (if ph_kind header = RESOLVER_IPC_PACKET_RESPONSE_CNAME then resolver_ipc_assembly_cname_consume packet a
                                     else Some (RESOLVER_IPC_ASSEMBLY_PROTOCOL, a))
                  | RESOLVER_IPC_ASSEMBLY_STATE_RECORD \<Rightarrow>
                      keep_budget b (if as_query_type a = ns_t_srv
                        then (if ph_kind header = RESOLVER_IPC_PACKET_RESPONSE_SRV then resolver_ipc_assembly_record_srv_consume packet a
                              else Some (RESOLVER_IPC_ASSEMBLY_PROTOCOL, a))
                        else (if ph_kind header = RESOLVER_IPC_PACKET_RESPONSE_ADDRESS then resolver_ipc_assembly_record_address_consume packet a
                              else Some (RESOLVER_IPC_ASSEMBLY_PROTOCOL, a)))
                  | RESOLVER_IPC_ASSEMBLY_STATE_END \<Rightarrow>
                      (if ph_kind header = RESOLVER_IPC_PACKET_RESPONSE_END then resolver_ipc_assembly_end_consume packet a b
                       else Some (RESOLVER_IPC_ASSEMBLY_PROTOCOL, a, b))
                  | _ \<Rightarrow> Some (RESOLVER_IPC_ASSEMBLY_PROTOCOL, a, b));
               if status = RESOLVER_IPC_ASSEMBLY_OK \<or> status = RESOLVER_IPC_ASSEMBLY_COMPLETE then Some (status, a, b)
               else resolver_ipc_assembly_fail status a b
             }))"

section \<open>Exported functions\<close>

text \<open>The assembly at an address, and its replacement in the budget's list.\<close>

definition assembly_at :: "nat \<Rightarrow> resolver_ipc_assembly_budget \<Rightarrow> resolver_ipc_assembly option" where
  "assembly_at p b = map_of (ab_assemblies b) p"

fun entry_put :: "nat \<Rightarrow> 'a \<Rightarrow> (nat \<times> 'a) list \<Rightarrow> (nat \<times> 'a) list" where
  "entry_put p a [] = []"
| "entry_put p a ((q, c) # es) = (q, if q = p then a else c) # entry_put p a es"

definition assembly_put :: "nat \<Rightarrow> resolver_ipc_assembly \<Rightarrow> resolver_ipc_assembly_budget \<Rightarrow> resolver_ipc_assembly_budget" where
  "assembly_put p a b = b\<lparr>ab_assemblies := entry_put p a (ab_assemblies b)\<rparr>"

definition resolver_ipc_assembly_budget_create :: "assembly_config \<Rightarrow> bool \<Rightarrow> resolver_ipc_assembly_budget option" where
  "resolver_ipc_assembly_budget_create cfg calloc_ok =
     (if sizeof_assembly_budget cfg > RESOLVER_REPLY_ASSEMBLY_BYTE_LIMIT cfg \<or> \<not> calloc_ok then None
      else Some
        \<lparr>ab_assemblies = [],
         ab_metrics = \<lparr>am_owned_bytes_high_water = sizeof_assembly_budget cfg, am_query = (\<lambda>_ _. 0), am_result_size = (\<lambda>_. metrics_histogram_zero),
                       am_saturation_total = 0\<rparr>,
         ab_owned_bytes = sizeof_assembly_budget cfg\<rparr>)"

text \<open>The address of the new assembly is the result of \<open>calloc\<close>.\<close>

definition resolver_ipc_assembly_create ::
  "assembly_config \<Rightarrow> nat option \<Rightarrow> resolver_ipc_assembly_budget \<Rightarrow> bytes \<Rightarrow> u16 \<Rightarrow> u16 \<Rightarrow> u64 \<Rightarrow> bool \<Rightarrow>
     resolver_ipc_assembly_status \<times> resolver_ipc_assembly_budget \<times> nat option" where
  "resolver_ipc_assembly_create cfg calloc_result b query_name query_class query_type query_id result_ok =
     (let attributable = (query_type = ns_t_a \<or> query_type = ns_t_aaaa \<or> query_type = ns_t_srv);
          q = resolver_ipc_assembly_metrics_query_type query_type;
          normalized_name = name_normalize query_name in
      if \<not> attributable \<or> \<not> result_ok \<or> query_class \<noteq> ns_c_in \<or> query_id = 0 \<or> normalized_name = None
      then (RESOLVER_IPC_ASSEMBLY_BAD_ARGUMENT, if attributable then resolver_ipc_assembly_metrics_increment q create_bad_argument b else b, None)
      else if sizeof_assembly cfg > RESOLVER_REPLY_ASSEMBLY_BYTE_LIMIT cfg
              \<or> ab_owned_bytes b > RESOLVER_REPLY_ASSEMBLY_BYTE_LIMIT cfg - sizeof_assembly cfg
      then (RESOLVER_IPC_ASSEMBLY_LIMIT,
            resolver_ipc_assembly_metrics_increment q limit_budget_bytes (resolver_ipc_assembly_metrics_increment q create_limit b), None)
      else
        (case calloc_result of
           None \<Rightarrow> (RESOLVER_IPC_ASSEMBLY_MEMORY, resolver_ipc_assembly_metrics_increment q create_memory b, None)
         | Some p \<Rightarrow>
             (let a = resolver_ipc_assembly_zero\<lparr>as_expected_name := the normalized_name, as_query_class := query_class, as_query_id := query_id,
                        as_query_type := query_type, as_state := RESOLVER_IPC_ASSEMBLY_STATE_BEGIN\<rparr>;
                  owned = ab_owned_bytes b + sizeof_assembly cfg; m = ab_metrics b;
                  b = b\<lparr>ab_assemblies := (p, a) # ab_assemblies b, ab_owned_bytes := owned,
                        ab_metrics := m\<lparr>am_owned_bytes_high_water := metrics_high_water_update (am_owned_bytes_high_water m) owned\<rparr>\<rparr> in
              (RESOLVER_IPC_ASSEMBLY_OK, resolver_ipc_assembly_metrics_increment q create_ok b, Some p))))"

definition resolver_ipc_assembly_destroy :: "assembly_config \<Rightarrow> nat \<Rightarrow> resolver_ipc_assembly_budget \<Rightarrow> resolver_ipc_assembly_budget option" where
  "resolver_ipc_assembly_destroy cfg p b =
     (case assembly_at p b of
        None \<Rightarrow> None
      | Some a \<Rightarrow>
          (let b = (if resolver_ipc_assembly_state_nonterminal (as_state a)
                    then resolver_ipc_assembly_metrics_increment (resolver_ipc_assembly_metrics_query_type (as_query_type a)) abandoned b
                    else b);
               (a, b) = resolver_ipc_assembly_data_clear a b;
               b = b\<lparr>ab_assemblies := filter (\<lambda>(q, c). q \<noteq> p) (ab_assemblies b)\<rparr> in
           Some (budget_return (sizeof_assembly cfg) b)))"

text \<open>The loop of \<open>resolver_ipc_assembly_budget_destroy\<close>, which always destroys the first assembly.\<close>

lemma increment_frame [simp]:
  "ab_assemblies (resolver_ipc_assembly_metrics_increment q k b) = ab_assemblies b"
  "ab_owned_bytes (resolver_ipc_assembly_metrics_increment q k b) = ab_owned_bytes b"
  "am_owned_bytes_high_water (ab_metrics (resolver_ipc_assembly_metrics_increment q k b)) = am_owned_bytes_high_water (ab_metrics b)"
  "am_result_size (ab_metrics (resolver_ipc_assembly_metrics_increment q k b)) = am_result_size (ab_metrics b)"
  by (simp_all add: resolver_ipc_assembly_metrics_increment_def Let_def split: prod.splits)

lemma budget_return_frame [simp]: "ab_assemblies (budget_return n b) = ab_assemblies b" "ab_metrics (budget_return n b) = ab_metrics b"
  by (simp_all add: budget_return_def)

lemma destroy_assemblies:
  "resolver_ipc_assembly_destroy cfg p b = Some b' \<Longrightarrow> ab_assemblies b' = filter (\<lambda>(q, c). q \<noteq> p) (ab_assemblies b) \<and> assembly_at p b \<noteq> None"
  by (auto simp: resolver_ipc_assembly_destroy_def resolver_ipc_assembly_data_clear_def Let_def split: option.splits if_splits)

lemma destroy_shrinks: "resolver_ipc_assembly_destroy cfg p b = Some b' \<Longrightarrow> length (ab_assemblies b') < length (ab_assemblies b)"
proof -
  assume d: "resolver_ipc_assembly_destroy cfg p b = Some b'"
  then obtain a where "(p, a) \<in> set (ab_assemblies b)"
    using destroy_assemblies [OF d] by (auto simp: assembly_at_def dest: map_of_SomeD)
  then show ?thesis using destroy_assemblies [OF d] by (auto intro!: length_filter_less)
qed

function resolver_ipc_assembly_budget_destroy :: "assembly_config \<Rightarrow> resolver_ipc_assembly_budget \<Rightarrow> resolver_ipc_assembly_budget option" where
  "resolver_ipc_assembly_budget_destroy cfg b =
     (case ab_assemblies b of
        [] \<Rightarrow> Some b
      | (p, _) # _ \<Rightarrow>
          (case resolver_ipc_assembly_destroy cfg p b of
             None \<Rightarrow> None
           | Some b' \<Rightarrow> resolver_ipc_assembly_budget_destroy cfg b'))"
  by pat_completeness auto

termination
  by (relation "measure (\<lambda>(cfg, b). length (ab_assemblies b))") (auto dest: destroy_shrinks)

declare resolver_ipc_assembly_budget_destroy.simps [simp del]

definition resolver_ipc_assembly_metrics_get :: "resolver_ipc_assembly_budget option \<Rightarrow> bool \<Rightarrow> resolver_ipc_assembly_metrics_snapshot option" where
  "resolver_ipc_assembly_metrics_get budget result_ok =
     (case budget of
        None \<Rightarrow> None
      | Some b \<Rightarrow>
          if \<not> result_ok then None
          else
            (let m = ab_metrics b;
                 live = filter (\<lambda>(p, a). resolver_ipc_assembly_state_nonterminal (as_state a)) (ab_assemblies b);
                 of_type = (\<lambda>q. length (filter (\<lambda>(p, a). resolver_ipc_assembly_metrics_query_type (as_query_type a) = q) live)) in
             Some \<lparr>as_nonterminal_current = length live, as_owned_bytes_current = ab_owned_bytes b,
                   as_owned_bytes_high_water = am_owned_bytes_high_water m,
                   as_query = (\<lambda>q. (am_query m q)(nonterminal_current := am_query m q nonterminal_current + of_type q)),
                   as_result_size = (\<lambda>q. metrics_size_histogram_get (am_result_size m q)), as_saturation_total = am_saturation_total m\<rparr>))"

definition resolver_ipc_assembly_packet_consume ::
  "assembly_config \<Rightarrow> bool \<times> bool \<Rightarrow> nat option \<Rightarrow> bytes option \<Rightarrow> resolver_ipc_assembly_budget \<Rightarrow>
     (resolver_ipc_assembly_status \<times> resolver_ipc_assembly_budget) option" where
  "resolver_ipc_assembly_packet_consume cfg alloc assembly packet b =
     (case assembly of
        None \<Rightarrow> Some (RESOLVER_IPC_ASSEMBLY_BAD_ARGUMENT, b)
      | Some p \<Rightarrow> do {
          a \<leftarrow> assembly_at p b;
          (status, a, b) \<leftarrow> assembly_consume cfg alloc packet a b;
          Some (status, assembly_put p a b)
        })"

definition resolver_ipc_assembly_result_destroy ::
  "resolver_ipc_assembly_result \<Rightarrow> resolver_ipc_assembly_budget \<Rightarrow> resolver_ipc_assembly_budget" where
  "resolver_ipc_assembly_result_destroy r b = budget_return (at_dynamic_bytes r) b"

text \<open>The result and the budget after a successful take.\<close>

definition resolver_ipc_assembly_result_take ::
  "nat option \<Rightarrow> bool \<Rightarrow> resolver_ipc_assembly_budget \<Rightarrow> (resolver_ipc_assembly_result option \<times> resolver_ipc_assembly_budget) option" where
  "resolver_ipc_assembly_result_take assembly result_empty b =
     (case assembly of
        None \<Rightarrow> Some (None, b)
      | Some p \<Rightarrow> do {
          a \<leftarrow> assembly_at p b;
          if \<not> result_empty \<or> as_state a \<noteq> RESOLVER_IPC_ASSEMBLY_STATE_COMPLETE then Some (None, b)
          else Some
            (Some \<lparr>at_completed_at = as_completed_at a, at_dynamic_bytes = as_dynamic_bytes a, at_payload = as_payload a, at_query_id = as_query_id a,
                   at_query_type = as_query_type a, at_status = as_status a\<rparr>,
             assembly_put p (a\<lparr>as_payload := resolver_ipc_assembly_payload_zero, as_dynamic_bytes := 0, as_state := RESOLVER_IPC_ASSEMBLY_STATE_TAKEN\<rparr>) b)
        })"

text \<open>The DNS results that a payload stands for: the arrays up to their counts.\<close>

definition array_prefix :: "nat \<Rightarrow> 'a list option \<Rightarrow> 'a list option" where
  "array_prefix n xs = map_option (take n) xs"

definition payload_address :: "resolver_ipc_assembly_payload \<Rightarrow> dns_address_result" where
  "payload_address p =
     \<lparr>ad_addresses = array_prefix (ap_record_count p) (ap_addresses p), ad_canonical_name = ap_canonical_name p,
      ad_cnames = array_prefix (ap_cname_count p) (ap_cnames p), ad_negative = ap_negative p, ad_question_name = ap_question_name p, ad_rcode = ap_rcode p\<rparr>"

definition payload_srv :: "resolver_ipc_assembly_payload \<Rightarrow> dns_srv_result" where
  "payload_srv p =
     \<lparr>sr_canonical_name = ap_canonical_name p, sr_cnames = array_prefix (ap_cname_count p) (ap_cnames p), sr_negative = ap_negative p,
      sr_question_name = ap_question_name p, sr_rcode = ap_rcode p, sr_records = array_prefix (ap_record_count p) (ap_records p)\<rparr>"

end
