(* ===== verification/Ipc_Assembly_Inv.thy ===== *)
theory Ipc_Assembly_Inv
  imports Ipc_Assembly Cache_Correct
begin

text \<open>
  The invariant of the IPC assembly: what an assembly holds in each of its states, that every packet keeps it without undefined
  behaviour and moves the budget's charge with it, the invariant of all assemblies of a budget as a transition system, and the acceptance
  of completed results by the cache's validation.
\<close>

section \<open>The invariant of an assembly\<close>

text \<open>The alias chain from the question: consecutive, normalized, and never back to a name that has an alias.\<close>

fun chain_ok :: "bytes \<Rightarrow> bytes list \<Rightarrow> dns_cname_record list \<Rightarrow> bool" where
  "chain_ok name owners [] \<longleftrightarrow> True"
| "chain_ok name owners (c # cs) \<longleftrightarrow>
     cn_owner c = name \<and> resolver_ipc_assembly_name_normalized (cn_owner c) \<and> resolver_ipc_assembly_name_normalized (cn_target c)
     \<and> cn_target c \<notin> set (cn_owner c # owners) \<and> chain_ok (cn_target c) (cn_owner c # owners) cs"

definition chain_end :: "bytes \<Rightarrow> dns_cname_record list \<Rightarrow> bytes" where
  "chain_end name cs = (if cs = [] then name else cn_target (last cs))"

definition chain_ttl :: "dns_cname_record list \<Rightarrow> nat" where
  "chain_ttl cs = foldl (\<lambda>t c. if cn_ttl c < t then cn_ttl c else t) UINT32_MAX cs"

lemma chain_ok_snoc:
  "chain_ok name owners (cs @ [c]) \<longleftrightarrow>
     chain_ok name owners cs \<and> cn_owner c = chain_end name cs \<and> resolver_ipc_assembly_name_normalized (cn_owner c)
     \<and> resolver_ipc_assembly_name_normalized (cn_target c) \<and> cn_target c \<notin> set (cn_owner c # rev (map cn_owner cs) @ owners)"
  by (induction cs arbitrary: name owners) (auto simp: chain_end_def)

lemma chain_ttl_snoc: "chain_ttl (cs @ [c]) = (if cn_ttl c < chain_ttl cs then cn_ttl c else chain_ttl cs)"
  by (simp add: chain_ttl_def)

definition received_cnames :: "resolver_ipc_assembly \<Rightarrow> dns_cname_record list" where
  "received_cnames a = take (as_received_cname_count a) (case ap_cnames (as_payload a) of None \<Rightarrow> [] | Some l \<Rightarrow> l)"

definition received_addresses :: "resolver_ipc_assembly \<Rightarrow> dns_address_record list" where
  "received_addresses a = take (as_received_record_count a) (case ap_addresses (as_payload a) of None \<Rightarrow> [] | Some l \<Rightarrow> l)"

definition received_records :: "resolver_ipc_assembly \<Rightarrow> dns_srv_record list" where
  "received_records a = take (as_received_record_count a) (case ap_records (as_payload a) of None \<Rightarrow> [] | Some l \<Rightarrow> l)"

text \<open>The bytes charged for the arrays of a response.\<close>

definition arrays_size :: "assembly_config \<Rightarrow> u16 \<Rightarrow> nat \<Rightarrow> nat \<Rightarrow> nat" where
  "arrays_size cfg query_type cname_count record_count =
     (if cname_count > 0 then DNS_CNAME_DEPTH_LIMIT * sizeof_cname_record (ac_cache cfg) else 0)
       + record_count * (if query_type = ns_t_srv then sizeof_srv_record (ac_cache cfg) else sizeof_address_record (ac_cache cfg))"

definition array_of :: "nat \<Rightarrow> nat \<Rightarrow> 'a list option \<Rightarrow> bool" where
  "array_of count capacity xs \<longleftrightarrow> (case xs of None \<Rightarrow> count = 0 | Some l \<Rightarrow> count > 0 \<and> length l = capacity)"

text \<open>The beginning of the response as the assembly remembers it.\<close>

definition begin_of :: "resolver_ipc_assembly \<Rightarrow> resolver_ipc_response_begin" where
  "begin_of a =
     \<lparr>rb_canonical_name = ap_canonical_name (as_payload a), rb_cname_count = as_declared_cname_count a, rb_completed_at = as_completed_at a,
      rb_negative = ap_negative (as_payload a), rb_question_name = ap_question_name (as_payload a), rb_query_class = as_query_class a,
      rb_query_id = as_query_id a, rb_query_type = as_query_type a, rb_rcode = ap_rcode (as_payload a),
      rb_record_count = as_declared_record_count a, rb_status = as_status a\<rparr>"

definition response_ok :: "assembly_config \<Rightarrow> resolver_ipc_assembly \<Rightarrow> bool" where
  "response_ok cfg a \<longleftrightarrow>
     begin_wf (begin_of a) \<and> begin_ok (begin_of a) \<and> resolver_ipc_assembly_begin_check a (begin_of a)
     \<and> as_dynamic_bytes a = arrays_size cfg (as_query_type a) (as_declared_cname_count a) (as_declared_record_count a)
     \<and> as_received_cname_count a \<le> as_declared_cname_count a \<and> as_received_record_count a \<le> as_declared_record_count a
     \<and> (as_received_record_count a > 0 \<longrightarrow> as_received_cname_count a = as_declared_cname_count a)
     \<and> array_of (as_declared_cname_count a) DNS_CNAME_DEPTH_LIMIT (ap_cnames (as_payload a))
     \<and> chain_ok (ap_question_name (as_payload a)) [] (received_cnames a) \<and> as_chain_ttl a = chain_ttl (received_cnames a)
     \<and> list_all (\<lambda>c. cn_ttl c \<le> UINT32_MAX) (received_cnames a)
     \<and> (if as_query_type a = ns_t_srv
        then ap_addresses (as_payload a) = None \<and> array_of (as_declared_record_count a) (as_declared_record_count a) (ap_records (as_payload a))
          \<and> list_all (\<lambda>r. resolver_ipc_assembly_name_normalized (srv_target r) \<and> srv_record_ttl r \<le> UINT32_MAX
               \<and> srv_effective_ttl r = resolver_ipc_assembly_ttl_expected (srv_record_ttl r) (as_chain_ttl a)) (received_records a)
        else ap_records (as_payload a) = None \<and> array_of (as_declared_record_count a) (as_declared_record_count a) (ap_addresses (as_payload a))
          \<and> list_all (\<lambda>r. addr_family (ar_address r) = (if as_query_type a = ns_t_a then AF_INET else AF_INET6) \<and> addr_err (ar_address r) = NET_OK
               \<and> ar_record_ttl r \<le> UINT32_MAX
               \<and> ar_effective_ttl r = resolver_ipc_assembly_ttl_expected (ar_record_ttl r) (as_chain_ttl a)) (received_addresses a))"

definition assembly_ok :: "assembly_config \<Rightarrow> resolver_ipc_assembly \<Rightarrow> bool" where
  "assembly_ok cfg a \<longleftrightarrow>
     resolver_ipc_query_type_valid (as_query_type a) \<and> as_query_class a = ns_c_in \<and> as_query_id a \<noteq> 0 \<and> normalized (as_expected_name a)
     \<and> (case as_state a of
          RESOLVER_IPC_ASSEMBLY_STATE_BEGIN \<Rightarrow>
            as_payload a = resolver_ipc_assembly_payload_zero \<and> as_dynamic_bytes a = 0 \<and> as_received_cname_count a = 0 \<and> as_received_record_count a = 0
        | RESOLVER_IPC_ASSEMBLY_STATE_CNAME \<Rightarrow>
            response_ok cfg a \<and> as_received_cname_count a < as_declared_cname_count a \<and> ap_cname_count (as_payload a) = 0 \<and> ap_record_count (as_payload a) = 0
        | RESOLVER_IPC_ASSEMBLY_STATE_RECORD \<Rightarrow>
            response_ok cfg a \<and> as_received_cname_count a = as_declared_cname_count a \<and> as_received_record_count a < as_declared_record_count a
            \<and> ap_cname_count (as_payload a) = 0 \<and> ap_record_count (as_payload a) = 0
        | RESOLVER_IPC_ASSEMBLY_STATE_END \<Rightarrow>
            response_ok cfg a \<and> as_received_cname_count a = as_declared_cname_count a \<and> as_received_record_count a = as_declared_record_count a
            \<and> ap_cname_count (as_payload a) = 0 \<and> ap_record_count (as_payload a) = 0
        | RESOLVER_IPC_ASSEMBLY_STATE_COMPLETE \<Rightarrow>
            response_ok cfg a \<and> as_received_cname_count a = as_declared_cname_count a \<and> as_received_record_count a = as_declared_record_count a
            \<and> ap_cname_count (as_payload a) = as_declared_cname_count a \<and> ap_record_count (as_payload a) = as_declared_record_count a
            \<and> resolver_ipc_assembly_complete_check a = Some True
        | _ \<Rightarrow> as_payload a = resolver_ipc_assembly_payload_zero \<and> as_dynamic_bytes a = 0)"

section \<open>Steps of an assembly\<close>

text \<open>The budget moves with the charge of the assembly, and keeps the rest.\<close>

definition histograms_ok :: "resolver_ipc_assembly_budget \<Rightarrow> bool" where
  "histograms_ok b \<longleftrightarrow> (\<forall>q. length (hist_buckets (am_result_size (ab_metrics b) q)) = METRICS_DURATION_BUCKET_COUNT)"

definition charge_moves :: "assembly_config \<Rightarrow> resolver_ipc_assembly \<Rightarrow> resolver_ipc_assembly_budget \<Rightarrow> resolver_ipc_assembly \<Rightarrow> resolver_ipc_assembly_budget \<Rightarrow> bool" where
  "charge_moves cfg a b a' b' \<longleftrightarrow>
     ab_assemblies b' = ab_assemblies b \<and> (histograms_ok b \<longrightarrow> histograms_ok b')
     \<and> ab_owned_bytes b' + as_dynamic_bytes a = ab_owned_bytes b + as_dynamic_bytes a'
     \<and> (ab_owned_bytes b \<le> RESOLVER_REPLY_ASSEMBLY_BYTE_LIMIT cfg \<longrightarrow> ab_owned_bytes b' \<le> RESOLVER_REPLY_ASSEMBLY_BYTE_LIMIT cfg)"

lemma charge_refl: "charge_moves cfg a b a b"
  by (simp add: charge_moves_def)

lemma charge_trans: "charge_moves cfg a b a1 b1 \<Longrightarrow> charge_moves cfg a1 b1 a2 b2 \<Longrightarrow> charge_moves cfg a b a2 b2"
  by (simp add: charge_moves_def)

lemma increment_histograms [simp]: "histograms_ok (resolver_ipc_assembly_metrics_increment q k b) = histograms_ok b"
  by (simp add: histograms_ok_def)

text \<open>The payload with its arrays allocated.\<close>

definition arrays_payload :: "resolver_ipc_assembly \<Rightarrow> nat \<Rightarrow> nat \<Rightarrow> resolver_ipc_assembly_payload" where
  "arrays_payload a c n =
     (let payload = (as_payload a)\<lparr>ap_cnames := if c = 0 then None else Some (replicate DNS_CNAME_DEPTH_LIMIT dns_cname_record_zero)\<rparr> in
      if as_query_type a = ns_t_srv then payload\<lparr>ap_records := if n = 0 then None else Some (replicate n dns_srv_record_zero)\<rparr>
      else payload\<lparr>ap_addresses := if n = 0 then None else Some (replicate n dns_address_record_zero)\<rparr>)"

lemma allocate_cases:
  assumes "resolver_ipc_assembly_arrays_allocate cfg alloc c n a b = (st, a', b')"
  shows "(st \<in> {RESOLVER_IPC_ASSEMBLY_LIMIT, RESOLVER_IPC_ASSEMBLY_MEMORY} \<and> a' = a \<and> ab_assemblies b' = ab_assemblies b \<and> histograms_ok b' = histograms_ok b \<and> ab_owned_bytes b' = ab_owned_bytes b)
    \<or> (st = RESOLVER_IPC_ASSEMBLY_OK \<and> ab_assemblies b' = ab_assemblies b \<and> histograms_ok b' = histograms_ok b
       \<and> ab_owned_bytes b' = ab_owned_bytes b + arrays_size cfg (as_query_type a) c n \<and> ab_owned_bytes b' \<le> RESOLVER_REPLY_ASSEMBLY_BYTE_LIMIT cfg
       \<and> a' = a\<lparr>as_payload := arrays_payload a c n, as_dynamic_bytes := arrays_size cfg (as_query_type a) c n\<rparr>)"
proof -
  define cb where "cb = (if c > 0 then resolver_size_multiply DNS_CNAME_DEPTH_LIMIT (sizeof_cname_record (ac_cache cfg)) else Some 0)"
  define rs where "rs = (if as_query_type a = ns_t_srv then sizeof_srv_record (ac_cache cfg) else sizeof_address_record (ac_cache cfg))"
  have sz: "arrays_size cfg (as_query_type a) c n = size" if "cb = Some x" "resolver_size_multiply n rs = Some y" "resolver_size_add x y = Some size" for x y size
    using that by (auto simp: arrays_size_def resolver_size_multiply_def resolver_size_add_def cb_def rs_def split: if_splits)
  note eq = assms [unfolded resolver_ipc_assembly_arrays_allocate_def Let_def resolver_ipc_assembly_metrics_limit_record_def,
      folded cb_def rs_def, folded arrays_payload_def [unfolded Let_def]]
  show ?thesis
  proof (cases "resolver_cache_result_classify (ac_cache cfg) (as_query_type a) c n = RESOLVER_CACHE_RESULT_FIT_OK \<and> cb \<noteq> None \<and> resolver_size_multiply n rs \<noteq> None")
    case True
    then obtain x y where xy: "cb = Some x" "resolver_size_multiply n rs = Some y" by blast
    show ?thesis
      using eq True xy sz [OF xy] by (cases "resolver_size_add x y") (auto simp: histograms_ok_def split: if_splits)
  next
    case False
    with eq show ?thesis by (auto split: if_splits)
  qed
qed

lemma begin_check_cong:
  assumes "as_query_id a' = as_query_id a" "as_query_class a' = as_query_class a" "as_query_type a' = as_query_type a" "as_expected_name a' = as_expected_name a"
  shows "resolver_ipc_assembly_begin_check a' begin = resolver_ipc_assembly_begin_check a begin"
  unfolding resolver_ipc_assembly_begin_check_def assms ..

lemma begin_consume_ok:
  assumes "assembly_ok cfg a" "as_state a = RESOLVER_IPC_ASSEMBLY_STATE_BEGIN"
    and "resolver_ipc_assembly_begin_consume cfg alloc packet a b = (st, a', b')"
  shows "st \<noteq> RESOLVER_IPC_ASSEMBLY_COMPLETE \<and> charge_moves cfg a b a' b' \<and> assembly_ok cfg a'"
proof -
  obtain d x where d: "resolver_ipc_response_begin_decode packet True = (d, x)" by fastforce
  show ?thesis
  proof (cases "d \<noteq> RESOLVER_IPC_CODEC_OK \<or> \<not> resolver_ipc_assembly_begin_check a x")
    case True
    then show ?thesis using assms d by (simp add: resolver_ipc_assembly_begin_consume_def charge_refl)
  next
    case False
    obtain s1 a1 b1 where al: "resolver_ipc_assembly_arrays_allocate cfg alloc (rb_cname_count x) (rb_record_count x) a b = (s1, a1, b1)"
      by (metis prod_cases3)
    note cases = allocate_cases [OF al]
    show ?thesis
    proof (cases "s1 = RESOLVER_IPC_ASSEMBLY_OK")
      case s1: False
      then have "(st, a', b') = (s1, a1, b1)"
        using assms(3) d False al by (simp add: resolver_ipc_assembly_begin_consume_def)
      with s1 cases assms(1) show ?thesis by (auto simp: charge_moves_def)
    next
      case s1: True
      obtain p where p: "packet = Some p" using False d by (cases packet) (auto simp: resolver_ipc_response_begin_decode_def packet_decode_def resolver_ipc_header_decode_def)
      have x: "begin_wf x" "begin_ok x"
        using begin_packet.decode_iff [of p x] d False p by (simp_all add: resolver_ipc_response_begin_decode_def)
      have c: "ab_assemblies b1 = ab_assemblies b" "histograms_ok b1 = histograms_ok b" "ab_owned_bytes b1 = ab_owned_bytes b + arrays_size cfg (as_query_type a) (rb_cname_count x) (rb_record_count x)"
          "ab_owned_bytes b1 \<le> RESOLVER_REPLY_ASSEMBLY_BYTE_LIMIT cfg"
          "a1 = a\<lparr>as_payload := arrays_payload a (rb_cname_count x) (rb_record_count x), as_dynamic_bytes := arrays_size cfg (as_query_type a) (rb_cname_count x) (rb_record_count x)\<rparr>"
        using cases s1 by auto
      have r: "st = RESOLVER_IPC_ASSEMBLY_OK" "b' = b1" "a' = a1\<lparr>as_chain_ttl := UINT32_MAX, as_completed_at := rb_completed_at x, as_declared_cname_count := rb_cname_count x,
          as_declared_record_count := rb_record_count x, as_status := rb_status x,
          as_payload := (as_payload a1)\<lparr>ap_canonical_name := rb_canonical_name x, ap_negative := rb_negative x, ap_question_name := rb_question_name x, ap_rcode := rb_rcode x\<rparr>,
          as_state := (if rb_cname_count x > 0 then RESOLVER_IPC_ASSEMBLY_STATE_CNAME
            else if rb_record_count x > 0 then RESOLVER_IPC_ASSEMBLY_STATE_RECORD else RESOLVER_IPC_ASSEMBLY_STATE_END)\<rparr>"
        using assms(3) d False al s1 by (simp_all add: resolver_ipc_assembly_begin_consume_def)
      have z: "as_payload a = resolver_ipc_assembly_payload_zero" "as_dynamic_bytes a = 0" "as_received_cname_count a = 0" "as_received_record_count a = 0"
        using assms(1,2) by (simp_all add: assembly_ok_def)
      have q: "rb_query_id x = as_query_id a" "rb_query_class x = as_query_class a" "rb_query_type x = as_query_type a"
        using False by (auto simp: resolver_ipc_assembly_begin_check_def Let_def split: if_splits)
      have "begin_of a' = x" using q by (simp add: begin_of_def r c arrays_payload_def z resolver_ipc_assembly_payload_zero_def Let_def)
      moreover have "resolver_ipc_assembly_begin_check a' x" using False by (subst begin_check_cong [of a' a]) (simp_all add: r c)
      moreover have "array_of (rb_cname_count x) DNS_CNAME_DEPTH_LIMIT (ap_cnames (as_payload a'))"
        by (simp add: array_of_def r c arrays_payload_def Let_def)
      ultimately have "response_ok cfg a'"
        using x z by (simp add: response_ok_def received_cnames_def received_records_def received_addresses_def)
          (simp add: r c arrays_payload_def z resolver_ipc_assembly_payload_zero_def array_of_def chain_ttl_def Let_def)
      then have "assembly_ok cfg a'"
        using assms(1) z by (auto simp: assembly_ok_def r c arrays_payload_def resolver_ipc_assembly_payload_zero_def Let_def)
      moreover have "charge_moves cfg a b a' b'" using c z by (simp add: charge_moves_def r)
      ultimately show ?thesis by (simp add: r)
    qed
  qed
qed

lemma array_getI: "i < length l \<Longrightarrow> array_get (Some l) i = Some (l ! i)"
  by (simp add: array_get_def)

lemma array_setI: "i < length l \<Longrightarrow> array_set (Some l) i v = Some (Some (l[i := v]))"
  by (simp add: array_set_def)

lemma take_Suc_update: "n < length l \<Longrightarrow> take (Suc n) (l[n := v]) = take n l @ [v]"
  by (simp add: take_Suc_conv_app_nth)

lemma owner_known_eq:
  "i + k \<le> length l \<Longrightarrow> cname_owner_known (Some l) name i k = Some (name \<in> cn_owner ` set (take k (drop i l)))"
proof (induction k arbitrary: i)
  case (Suc k)
  then have "take (Suc k) (drop i l) = l ! i # take k (drop (Suc i) l)"
    by (simp add: Cons_nth_drop_Suc [symmetric])
  with Suc show ?case by (auto simp: array_getI)
qed simp

lemma declared_bounds:
  "response_ok cfg a \<Longrightarrow> as_declared_cname_count a \<le> DNS_CNAME_DEPTH_LIMIT"
  by (auto simp: response_ok_def begin_ok_def begin_of_def resolver_ipc_response_count_valid_def split: if_splits)

lemma decode_some:
  "resolver_ipc_response_cname_decode packet True = (RESOLVER_IPC_CODEC_OK, x) \<Longrightarrow> cname_wf x"
  "resolver_ipc_response_address_decode packet True = (RESOLVER_IPC_CODEC_OK, y) \<Longrightarrow> address_wf y \<and> address_ok y"
  "resolver_ipc_response_srv_decode packet True = (RESOLVER_IPC_CODEC_OK, z) \<Longrightarrow> srv_wf z"
  by (cases packet; simp add: resolver_ipc_response_cname_decode_def resolver_ipc_response_address_decode_def resolver_ipc_response_srv_decode_def
      cname_packet.decode_iff address_packet.decode_iff srv_packet.decode_iff;
      simp add: packet_decode_def resolver_ipc_header_decode_def)+

text \<open>The alias handler in closed form: what it refuses and what it stores.\<close>

definition cname_refused :: "resolver_ipc_assembly \<Rightarrow> resolver_ipc_codec_status \<Rightarrow> resolver_ipc_response_cname \<Rightarrow> bool" where
  "cname_refused a d x \<longleftrightarrow>
     d \<noteq> RESOLVER_IPC_CODEC_OK \<or> rc_query_id x \<noteq> as_query_id a \<or> unat (rc_index x) \<noteq> as_received_cname_count a
     \<or> \<not> resolver_ipc_assembly_name_normalized (cn_owner (rc_record x)) \<or> \<not> resolver_ipc_assembly_name_normalized (cn_target (rc_record x))
     \<or> cn_owner (rc_record x) \<noteq> chain_end (ap_question_name (as_payload a)) (received_cnames a)
     \<or> cn_target (rc_record x) \<in> cn_owner ` set (received_cnames a) \<or> cn_target (rc_record x) = cn_owner (rc_record x)"

definition cname_stored :: "resolver_ipc_assembly \<Rightarrow> dns_cname_record \<Rightarrow> resolver_ipc_assembly" where
  "cname_stored a c =
     a\<lparr>as_payload := (as_payload a)\<lparr>ap_cnames := map_option (\<lambda>l. l[as_received_cname_count a := c]) (ap_cnames (as_payload a))\<rparr>,
       as_received_cname_count := Suc (as_received_cname_count a),
       as_chain_ttl := (if cn_ttl c < as_chain_ttl a then cn_ttl c else as_chain_ttl a),
       as_state := (if Suc (as_received_cname_count a) = as_declared_cname_count a
         then (if as_declared_record_count a > 0 then RESOLVER_IPC_ASSEMBLY_STATE_RECORD else RESOLVER_IPC_ASSEMBLY_STATE_END)
         else as_state a)\<rparr>"

lemma cname_array:
  assumes "response_ok cfg a" "as_received_cname_count a < as_declared_cname_count a"
  obtains l where "ap_cnames (as_payload a) = Some l" "length l = DNS_CNAME_DEPTH_LIMIT" "as_received_cname_count a < length l"
    "received_cnames a = take (as_received_cname_count a) l"
proof -
  obtain l where l: "ap_cnames (as_payload a) = Some l" "length l = DNS_CNAME_DEPTH_LIMIT"
    using assms by (auto simp: response_ok_def array_of_def split: option.splits)
  with that assms declared_bounds [OF assms(1)] show thesis by (simp add: received_cnames_def)
qed

lemma cname_consume_eq:
  assumes "response_ok cfg a" "as_received_cname_count a < as_declared_cname_count a" "resolver_ipc_response_cname_decode packet True = (d, x)"
  shows "resolver_ipc_assembly_cname_consume packet a
    = Some (if cname_refused a d x then (RESOLVER_IPC_ASSEMBLY_PROTOCOL, a) else (RESOLVER_IPC_ASSEMBLY_OK, cname_stored a (rc_record x)))"
proof -
  define n where "n = as_received_cname_count a"
  obtain l where l: "ap_cnames (as_payload a) = Some l" "length l = DNS_CNAME_DEPTH_LIMIT" and n: "n < length l" and rc: "received_cnames a = take n l"
    using cname_array [OF assms(1,2)] by (auto simp: n_def)
  let ?c = "rc_record x"
  have eo: "(if n = 0 then Some (ap_question_name (as_payload a)) else map_option cn_target (array_get (ap_cnames (as_payload a)) (n - 1)))
      = Some (chain_end (ap_question_name (as_payload a)) (take n l))"
    using n l by (auto simp: chain_end_def array_getI last_conv_nth)
  have ow: "cname_owner_known (ap_cnames (as_payload a)) (cn_target ?c) 0 n = Some (cn_target ?c \<in> cn_owner ` set (take n l))"
    using n l owner_known_eq [of 0 n l] by simp
  define bad where "bad \<longleftrightarrow> d \<noteq> RESOLVER_IPC_CODEC_OK \<or> rc_query_id x \<noteq> as_query_id a \<or> unat (rc_index x) \<noteq> n
     \<or> \<not> resolver_ipc_assembly_name_normalized (cn_owner ?c) \<or> \<not> resolver_ipc_assembly_name_normalized (cn_target ?c)"
  have ref: "cname_refused a d x \<longleftrightarrow> bad \<or> cn_owner ?c \<noteq> chain_end (ap_question_name (as_payload a)) (take n l)
     \<or> cn_target ?c \<in> cn_owner ` set (take n l) \<or> cn_target ?c = cn_owner ?c"
    by (auto simp: cname_refused_def bad_def n_def rc)
  show ?thesis
    unfolding resolver_ipc_assembly_cname_consume_def assms(3) prod.case Let_def n_def [symmetric] eo ow bad_def [symmetric] ref
    using n l by (auto simp: array_setI cname_stored_def n_def)
qed

lemma cname_stored_fields:
  "as_payload (cname_stored a c) = (as_payload a)\<lparr>ap_cnames := map_option (\<lambda>l. l[as_received_cname_count a := c]) (ap_cnames (as_payload a))\<rparr>"
  "as_received_cname_count (cname_stored a c) = Suc (as_received_cname_count a)"
  "as_chain_ttl (cname_stored a c) = (if cn_ttl c < as_chain_ttl a then cn_ttl c else as_chain_ttl a)" "as_query_id (cname_stored a c) = as_query_id a"
  "as_query_class (cname_stored a c) = as_query_class a" "as_query_type (cname_stored a c) = as_query_type a" "as_expected_name (cname_stored a c) = as_expected_name a"
  "as_declared_cname_count (cname_stored a c) = as_declared_cname_count a" "as_declared_record_count (cname_stored a c) = as_declared_record_count a"
  "as_received_record_count (cname_stored a c) = as_received_record_count a" "as_dynamic_bytes (cname_stored a c) = as_dynamic_bytes a"
  "as_completed_at (cname_stored a c) = as_completed_at a" "as_status (cname_stored a c) = as_status a"
  "as_state (cname_stored a c) = (if Suc (as_received_cname_count a) = as_declared_cname_count a
     then (if as_declared_record_count a > 0 then RESOLVER_IPC_ASSEMBLY_STATE_RECORD else RESOLVER_IPC_ASSEMBLY_STATE_END) else as_state a)"
  by (simp_all add: cname_stored_def)

lemma cname_consume_ok:
  assumes "assembly_ok cfg a" "as_state a = RESOLVER_IPC_ASSEMBLY_STATE_CNAME"
  shows "\<exists>st a'. resolver_ipc_assembly_cname_consume packet a = Some (st, a') \<and> st \<noteq> RESOLVER_IPC_ASSEMBLY_COMPLETE
    \<and> as_dynamic_bytes a' = as_dynamic_bytes a \<and> assembly_ok cfg a'"
proof -
  have a: "response_ok cfg a" "as_received_cname_count a < as_declared_cname_count a" "ap_cname_count (as_payload a) = 0" "ap_record_count (as_payload a) = 0"
    using assms by (simp_all add: assembly_ok_def)
  obtain d x where d: "resolver_ipc_response_cname_decode packet True = (d, x)" by fastforce
  have "assembly_ok cfg (cname_stored a (rc_record x))" if ref: "\<not> cname_refused a d x"
  proof -
    let ?c = "rc_record x"
    define a' where "a' = cname_stored a ?c"
    define n where "n = as_received_cname_count a"
    obtain l where l: "ap_cnames (as_payload a) = Some l" "length l = DNS_CNAME_DEPTH_LIMIT" and n: "n < length l" and rc: "received_cnames a = take n l"
      using cname_array [OF a(1,2)] by (auto simp: n_def)
    have x: "cname_wf x" using d decode_some(1) ref by (auto simp: cname_refused_def)
    note f = cname_stored_fields [of a ?c, folded a'_def n_def, unfolded l option.map assms(2)]
    have rc': "received_cnames a' = received_cnames a @ [?c]"
      unfolding received_cnames_def [of a'] f using n by (simp add: rc take_Suc_update)
    have "begin_of a' = begin_of a" by (simp add: begin_of_def f)
    moreover have "chain_ok (ap_question_name (as_payload a)) [] (received_cnames a')"
      using ref a(1) by (auto simp: rc' chain_ok_snoc cname_refused_def response_ok_def)
    moreover have "chain_ttl (received_cnames a') = as_chain_ttl a'" "list_all (\<lambda>c. cn_ttl c \<le> UINT32_MAX) (received_cnames a')"
      using a(1) x by (simp_all add: rc' chain_ttl_snoc response_ok_def cname_wf_def f)
    moreover have z: "as_received_record_count a = 0" using a(1,2) by (auto simp: response_ok_def)
    moreover have "resolver_ipc_assembly_begin_check a' (begin_of a)"
      using a(1) by (subst begin_check_cong [of a' a]) (simp_all add: f response_ok_def)
    moreover have "array_of (as_declared_cname_count a) DNS_CNAME_DEPTH_LIMIT (ap_cnames (as_payload a'))"
      using a(2) l(2) by (simp add: f array_of_def)
    ultimately have "response_ok cfg a'"
      using a unfolding response_ok_def by (auto simp: f n_def received_records_def received_addresses_def)
    then show ?thesis
      unfolding a'_def [symmetric] using assms a(2-4) z by (auto simp: assembly_ok_def f n_def)
  qed
  then show ?thesis
    using cname_consume_eq [OF a(1,2) d] assms(1) by (auto simp: cname_stored_fields)
qed

lemma commit_fields:
  "as_state (resolver_ipc_assembly_record_commit a) =
     (if Suc (as_received_record_count a) = as_declared_record_count a then RESOLVER_IPC_ASSEMBLY_STATE_END else as_state a)"
  "as_received_record_count (resolver_ipc_assembly_record_commit a) = Suc (as_received_record_count a)"
  "as_payload (resolver_ipc_assembly_record_commit a) = as_payload a" "as_chain_ttl (resolver_ipc_assembly_record_commit a) = as_chain_ttl a"
  "as_query_id (resolver_ipc_assembly_record_commit a) = as_query_id a" "as_query_class (resolver_ipc_assembly_record_commit a) = as_query_class a"
  "as_query_type (resolver_ipc_assembly_record_commit a) = as_query_type a" "as_expected_name (resolver_ipc_assembly_record_commit a) = as_expected_name a"
  "as_declared_cname_count (resolver_ipc_assembly_record_commit a) = as_declared_cname_count a"
  "as_declared_record_count (resolver_ipc_assembly_record_commit a) = as_declared_record_count a"
  "as_received_cname_count (resolver_ipc_assembly_record_commit a) = as_received_cname_count a"
  "as_dynamic_bytes (resolver_ipc_assembly_record_commit a) = as_dynamic_bytes a"
  "as_completed_at (resolver_ipc_assembly_record_commit a) = as_completed_at a" "as_status (resolver_ipc_assembly_record_commit a) = as_status a"
  by (simp_all add: resolver_ipc_assembly_record_commit_def Let_def)

lemma record_stored_ok:
  assumes "assembly_ok cfg a" "as_state a = RESOLVER_IPC_ASSEMBLY_STATE_RECORD" "n = as_received_record_count a"
    and "p = (as_payload a)\<lparr>ap_addresses := ads, ap_records := rcs\<rparr>"
    and "if as_query_type a = ns_t_srv
      then ads = None \<and> (\<exists>l r. ap_records (as_payload a) = Some l \<and> rcs = Some (l[n := r]) \<and> resolver_ipc_assembly_name_normalized (srv_target r)
        \<and> srv_record_ttl r \<le> UINT32_MAX \<and> srv_effective_ttl r = resolver_ipc_assembly_ttl_expected (srv_record_ttl r) (as_chain_ttl a))
      else rcs = None \<and> (\<exists>l r. ap_addresses (as_payload a) = Some l \<and> ads = Some (l[n := r])
        \<and> addr_family (ar_address r) = (if as_query_type a = ns_t_a then AF_INET else AF_INET6) \<and> addr_err (ar_address r) = NET_OK
        \<and> ar_record_ttl r \<le> UINT32_MAX \<and> ar_effective_ttl r = resolver_ipc_assembly_ttl_expected (ar_record_ttl r) (as_chain_ttl a))"
  shows "assembly_ok cfg (resolver_ipc_assembly_record_commit (a\<lparr>as_payload := p\<rparr>))"
proof -
  have a: "response_ok cfg a" "as_received_cname_count a = as_declared_cname_count a" "n < as_declared_record_count a"
      "ap_cname_count (as_payload a) = 0" "ap_record_count (as_payload a) = 0"
    using assms(1-3) by (simp_all add: assembly_ok_def)
  define a' where "a' = resolver_ipc_assembly_record_commit (a\<lparr>as_payload := p\<rparr>)"
  note f = commit_fields [of "a\<lparr>as_payload := p\<rparr>", folded a'_def, simplified]
  have p: "ap_cnames p = ap_cnames (as_payload a)" "ap_question_name p = ap_question_name (as_payload a)" "ap_addresses p = ads" "ap_records p = rcs"
      "ap_cname_count p = 0" "ap_record_count p = 0"
    using a(4,5) by (simp_all add: assms(4))
  have "begin_of a' = begin_of a" by (simp add: begin_of_def f assms(4))
  moreover have "resolver_ipc_assembly_begin_check a' (begin_of a)"
    using a(1) by (subst begin_check_cong [of a' a]) (simp_all add: f response_ok_def)
  moreover have "received_cnames a' = received_cnames a" by (simp add: received_cnames_def f p)
  moreover have "if as_query_type a = ns_t_srv
        then ads = None \<and> array_of (as_declared_record_count a) (as_declared_record_count a) rcs
          \<and> list_all (\<lambda>r. resolver_ipc_assembly_name_normalized (srv_target r) \<and> srv_record_ttl r \<le> UINT32_MAX
               \<and> srv_effective_ttl r = resolver_ipc_assembly_ttl_expected (srv_record_ttl r) (as_chain_ttl a)) (received_records a')
        else rcs = None \<and> array_of (as_declared_record_count a) (as_declared_record_count a) ads
          \<and> list_all (\<lambda>r. addr_family (ar_address r) = (if as_query_type a = ns_t_a then AF_INET else AF_INET6) \<and> addr_err (ar_address r) = NET_OK
               \<and> ar_record_ttl r \<le> UINT32_MAX
               \<and> ar_effective_ttl r = resolver_ipc_assembly_ttl_expected (ar_record_ttl r) (as_chain_ttl a)) (received_addresses a')"
  proof (cases "as_query_type a = ns_t_srv")
    case True
    then obtain l r where l: "ap_records (as_payload a) = Some l" "rcs = Some (l[n := r])" "ads = None"
      and r: "resolver_ipc_assembly_name_normalized (srv_target r)" "srv_record_ttl r \<le> UINT32_MAX"
        "srv_effective_ttl r = resolver_ipc_assembly_ttl_expected (srv_record_ttl r) (as_chain_ttl a)"
      using assms(5) by auto
    have "length l = as_declared_record_count a" using a(1) True l(1) by (simp add: response_ok_def array_of_def)
    moreover have "received_records a' = received_records a @ [r]"
      using l a(3) calculation by (simp add: received_records_def f p assms(3) [symmetric] take_Suc_update)
    ultimately show ?thesis using True l r a(1,3) by (auto simp: response_ok_def array_of_def)
  next
    case False
    then obtain l r where l: "ap_addresses (as_payload a) = Some l" "ads = Some (l[n := r])" "rcs = None"
      and r: "addr_family (ar_address r) = (if as_query_type a = ns_t_a then AF_INET else AF_INET6)" "addr_err (ar_address r) = NET_OK"
        "ar_record_ttl r \<le> UINT32_MAX" "ar_effective_ttl r = resolver_ipc_assembly_ttl_expected (ar_record_ttl r) (as_chain_ttl a)"
      using assms(5) by auto
    have "length l = as_declared_record_count a" using a(1) False l(1) by (simp add: response_ok_def array_of_def)
    moreover have "received_addresses a' = received_addresses a @ [r]"
      using l a(3) calculation by (simp add: received_addresses_def f p assms(3) [symmetric] take_Suc_update)
    ultimately show ?thesis using False l r a(1,3) by (auto simp: response_ok_def array_of_def)
  qed
  ultimately have "response_ok cfg a'"
    using a unfolding response_ok_def f p by (auto simp: assms(3))
  then show ?thesis
    unfolding a'_def [symmetric] using assms(1-3) a p by (auto simp: assembly_ok_def f)
qed

lemma record_consume_ok:
  assumes "assembly_ok cfg a" "as_state a = RESOLVER_IPC_ASSEMBLY_STATE_RECORD"
  shows "as_query_type a = ns_t_srv \<Longrightarrow> \<exists>st a'. resolver_ipc_assembly_record_srv_consume packet a = Some (st, a') \<and> st \<noteq> RESOLVER_IPC_ASSEMBLY_COMPLETE
      \<and> as_dynamic_bytes a' = as_dynamic_bytes a \<and> assembly_ok cfg a'"
    and "as_query_type a \<noteq> ns_t_srv \<Longrightarrow> \<exists>st a'. resolver_ipc_assembly_record_address_consume packet a = Some (st, a') \<and> st \<noteq> RESOLVER_IPC_ASSEMBLY_COMPLETE
      \<and> as_dynamic_bytes a' = as_dynamic_bytes a \<and> assembly_ok cfg a'"
proof -
  have a: "response_ok cfg a" "as_received_record_count a < as_declared_record_count a"
    using assms by (simp_all add: assembly_ok_def)
  show "\<exists>st a'. resolver_ipc_assembly_record_srv_consume packet a = Some (st, a') \<and> st \<noteq> RESOLVER_IPC_ASSEMBLY_COMPLETE
      \<and> as_dynamic_bytes a' = as_dynamic_bytes a \<and> assembly_ok cfg a'" if srv: "as_query_type a = ns_t_srv"
  proof -
    obtain d x where d: "resolver_ipc_response_srv_decode packet True = (d, x)" by fastforce
    obtain l where l: "ap_records (as_payload a) = Some l" "length l = as_declared_record_count a" "ap_addresses (as_payload a) = None"
      using a srv by (auto simp: response_ok_def array_of_def split: option.splits)
    have "assembly_ok cfg (resolver_ipc_assembly_record_commit (a\<lparr>as_payload := (as_payload a)\<lparr>ap_records := Some (l[as_received_record_count a := rv_record x])\<rparr>\<rparr>))"
      if "d = RESOLVER_IPC_CODEC_OK" "resolver_ipc_assembly_name_normalized (srv_target (rv_record x))"
        "srv_effective_ttl (rv_record x) = resolver_ipc_assembly_ttl_expected (srv_record_ttl (rv_record x)) (as_chain_ttl a)"
      using that decode_some(3) [of packet x] d srv l
      by (intro record_stored_ok [OF assms refl, where ads = None and rcs = "Some (l[as_received_record_count a := rv_record x])"]) (auto simp: srv_wf_def)
    then show ?thesis
      using assms(1) a(2) l d by (auto simp: resolver_ipc_assembly_record_srv_consume_def Let_def array_setI commit_fields)
  qed
  show "\<exists>st a'. resolver_ipc_assembly_record_address_consume packet a = Some (st, a') \<and> st \<noteq> RESOLVER_IPC_ASSEMBLY_COMPLETE
      \<and> as_dynamic_bytes a' = as_dynamic_bytes a \<and> assembly_ok cfg a'" if ad: "as_query_type a \<noteq> ns_t_srv"
  proof -
    obtain d x where d: "resolver_ipc_response_address_decode packet True = (d, x)" by fastforce
    obtain l where l: "ap_addresses (as_payload a) = Some l" "length l = as_declared_record_count a" "ap_records (as_payload a) = None"
      using a ad by (auto simp: response_ok_def array_of_def split: option.splits)
    have "assembly_ok cfg (resolver_ipc_assembly_record_commit (a\<lparr>as_payload := (as_payload a)\<lparr>ap_addresses := Some (l[as_received_record_count a := ra_record x])\<rparr>\<rparr>))"
      if "d = RESOLVER_IPC_CODEC_OK" "addr_family (ar_address (ra_record x)) = (if as_query_type a = ns_t_a then AF_INET else AF_INET6)"
        "ar_effective_ttl (ra_record x) = resolver_ipc_assembly_ttl_expected (ar_record_ttl (ra_record x)) (as_chain_ttl a)"
      using that decode_some(2) [of packet x] d ad l
      by (intro record_stored_ok [OF assms refl, where rcs = None and ads = "Some (l[as_received_record_count a := ra_record x])"]) (auto simp: address_wf_def address_ok_def)
    then show ?thesis
      using assms(1) a(2) l d by (auto simp: resolver_ipc_assembly_record_address_consume_def Let_def array_setI commit_fields)
  qed
qed

lemma size_observe_defined:
  assumes "length (hist_buckets h) = METRICS_DURATION_BUCKET_COUNT"
  shows "\<exists>h' sat'. metrics_size_histogram_observe h v sat = Some (h', sat') \<and> length (hist_buckets h') = METRICS_DURATION_BUCKET_COUNT"
proof -
  have "metrics_bucket metrics_size_bounds v < METRICS_DURATION_BUCKET_COUNT"
    using metrics_bucket_le [of metrics_size_bounds v] by (simp add: metrics_size_bounds_def)
  with assms show ?thesis
    by (auto simp: metrics_size_histogram_observe_def metrics_histogram_observe_def Let_def split: prod.splits)
qed

lemma terminal_record_defined:
  assumes "histograms_ok b"
  shows "\<exists>b'. resolver_ipc_assembly_metrics_terminal_record a st b = Some b' \<and> histograms_ok b' \<and> ab_assemblies b' = ab_assemblies b \<and> ab_owned_bytes b' = ab_owned_bytes b"
proof -
  define q where "q = resolver_ipc_assembly_metrics_query_type (as_query_type a)"
  obtain h sat where h: "metrics_size_histogram_observe (am_result_size (ab_metrics b) q) (as_dynamic_bytes a) (am_saturation_total (ab_metrics b)) = Some (h, sat)"
      "length (hist_buckets h) = METRICS_DURATION_BUCKET_COUNT"
    using assms size_observe_defined unfolding histograms_ok_def by blast
  then have "histograms_ok (b\<lparr>ab_metrics := (ab_metrics b)\<lparr>am_result_size := (am_result_size (ab_metrics b))(q := h), am_saturation_total := sat\<rparr>\<rparr>)"
    using assms by (simp add: histograms_ok_def)
  then show ?thesis
    using assms h(1) unfolding resolver_ipc_assembly_metrics_terminal_record_def Let_def q_def [symmetric]
    by (cases st) simp_all
qed

lemma end_consume_ok:
  assumes "assembly_ok cfg a" "as_state a = RESOLVER_IPC_ASSEMBLY_STATE_END" "histograms_ok b"
  shows "\<exists>st a' b'. resolver_ipc_assembly_end_consume packet a b = Some (st, a', b') \<and> st \<in> {RESOLVER_IPC_ASSEMBLY_COMPLETE, RESOLVER_IPC_ASSEMBLY_PROTOCOL}
    \<and> charge_moves cfg a b a' b' \<and> assembly_ok cfg a' \<and> (st = RESOLVER_IPC_ASSEMBLY_COMPLETE \<longrightarrow> as_state a' = RESOLVER_IPC_ASSEMBLY_STATE_COMPLETE)"
proof -
  have a: "response_ok cfg a" "as_received_cname_count a = as_declared_cname_count a" "as_received_record_count a = as_declared_record_count a"
    using assms(1,2) by (simp_all add: assembly_ok_def)
  have l: "\<exists>l. ap_cnames (as_payload a) = Some l \<and> length l = DNS_CNAME_DEPTH_LIMIT" if "as_declared_cname_count a > 0"
    using a(1) that by (auto simp: response_ok_def array_of_def split: option.splits)
  have "resolver_ipc_assembly_complete_check a \<noteq> None"
    using l declared_bounds [OF a(1)] by (cases "as_declared_cname_count a > 0") (auto simp: resolver_ipc_assembly_complete_check_def Let_def array_get_def)
  then obtain ok where ok: "resolver_ipc_assembly_complete_check a = Some ok" by blast
  define a1 where "a1 = a\<lparr>as_payload := (as_payload a)\<lparr>ap_cname_count := as_declared_cname_count a, ap_record_count := as_declared_record_count a\<rparr>\<rparr>"
  obtain b1 where b1: "resolver_ipc_assembly_metrics_terminal_record a1 RESOLVER_IPC_ASSEMBLY_COMPLETE b = Some b1" "histograms_ok b1"
      "ab_assemblies b1 = ab_assemblies b" "ab_owned_bytes b1 = ab_owned_bytes b"
    using terminal_record_defined [OF assms(3)] by blast
  define a' where "a' = a1\<lparr>as_state := RESOLVER_IPC_ASSEMBLY_STATE_COMPLETE\<rparr>"
  obtain d x where d: "resolver_ipc_response_end_decode packet True = (d, x)" by fastforce
  have f: "as_payload a' = (as_payload a)\<lparr>ap_cname_count := as_declared_cname_count a, ap_record_count := as_declared_record_count a\<rparr>"
      "as_chain_ttl a' = as_chain_ttl a" "as_query_id a' = as_query_id a" "as_query_class a' = as_query_class a" "as_query_type a' = as_query_type a"
      "as_expected_name a' = as_expected_name a" "as_declared_cname_count a' = as_declared_cname_count a" "as_declared_record_count a' = as_declared_record_count a"
      "as_received_cname_count a' = as_received_cname_count a" "as_received_record_count a' = as_received_record_count a" "as_dynamic_bytes a' = as_dynamic_bytes a"
      "as_completed_at a' = as_completed_at a" "as_status a' = as_status a" "as_state a' = RESOLVER_IPC_ASSEMBLY_STATE_COMPLETE"
    by (simp_all add: a'_def a1_def)
  have pf: "ap_cnames (as_payload a') = ap_cnames (as_payload a)" "ap_canonical_name (as_payload a') = ap_canonical_name (as_payload a)"
      "ap_negative (as_payload a') = ap_negative (as_payload a)" "ap_question_name (as_payload a') = ap_question_name (as_payload a)"
    by (simp_all add: f)
  have "begin_of a' = begin_of a" "received_cnames a' = received_cnames a" "received_records a' = received_records a" "received_addresses a' = received_addresses a"
    by (simp_all add: begin_of_def received_cnames_def received_records_def received_addresses_def f)
  moreover have "resolver_ipc_assembly_begin_check a' (begin_of a)"
    using a(1) by (subst begin_check_cong [of a' a]) (simp_all add: f response_ok_def)
  ultimately have "response_ok cfg a'" using a(1) by (auto simp: response_ok_def f)
  moreover have "resolver_ipc_assembly_complete_check a' = resolver_ipc_assembly_complete_check a"
    unfolding resolver_ipc_assembly_complete_check_def Let_def pf f(2-13) ..
  ultimately have "assembly_ok cfg a'" if ok using that ok assms(1) a by (simp add: assembly_ok_def f)
  moreover have "charge_moves cfg a b a' b1" by (simp add: charge_moves_def f b1)
  ultimately show ?thesis
    using assms(1) ok b1(1) by (auto simp: resolver_ipc_assembly_end_consume_def d Let_def a1_def [symmetric] a'_def [symmetric] f charge_refl)
qed

lemma fail_ok:
  assumes "assembly_ok cfg a" "histograms_ok b" "as_dynamic_bytes a \<le> ab_owned_bytes b"
  shows "\<exists>a' b'. resolver_ipc_assembly_fail st a b = Some (st, a', b') \<and> charge_moves cfg a b a' b' \<and> assembly_ok cfg a' \<and> as_state a' = RESOLVER_IPC_ASSEMBLY_STATE_FAILED"
proof -
  obtain b1 where b1: "resolver_ipc_assembly_metrics_terminal_record a st b = Some b1" "histograms_ok b1"
      "ab_assemblies b1 = ab_assemblies b" "ab_owned_bytes b1 = ab_owned_bytes b"
    using terminal_record_defined [OF assms(2)] by blast
  then show ?thesis
    using assms by (auto simp: resolver_ipc_assembly_fail_def resolver_ipc_assembly_data_clear_def charge_moves_def budget_return_def histograms_ok_def assembly_ok_def)
qed

text \<open>What a packet handler owes: a status, with the invariant and the accounting kept.\<close>

definition handled :: "assembly_config \<Rightarrow> resolver_ipc_assembly \<Rightarrow> resolver_ipc_assembly_budget \<Rightarrow> (resolver_ipc_assembly_status \<times> resolver_ipc_assembly \<times> resolver_ipc_assembly_budget) option \<Rightarrow> bool" where
  "handled cfg a b r \<longleftrightarrow> (\<exists>st a' b'. r = Some (st, a', b') \<and> charge_moves cfg a b a' b' \<and> assembly_ok cfg a'
     \<and> (st = RESOLVER_IPC_ASSEMBLY_COMPLETE \<longrightarrow> as_state a' = RESOLVER_IPC_ASSEMBLY_STATE_COMPLETE))"

lemma handled_keep: "\<exists>st a'. r = Some (st, a') \<and> st \<noteq> RESOLVER_IPC_ASSEMBLY_COMPLETE \<and> as_dynamic_bytes a' = as_dynamic_bytes a \<and> assembly_ok cfg a' \<Longrightarrow>
    handled cfg a b (keep_budget b r)"
  by (auto simp: handled_def keep_budget_def charge_moves_def)

lemma handled_refused: "assembly_ok cfg a \<Longrightarrow> handled cfg a b (Some (RESOLVER_IPC_ASSEMBLY_PROTOCOL, a, b))"
  by (simp add: handled_def charge_refl)

lemma handled_finish:
  assumes "handled cfg a b r" "histograms_ok b" "as_dynamic_bytes a \<le> ab_owned_bytes b"
  shows "handled cfg a b (do {
      (status, a, b) \<leftarrow> r;
      if status = RESOLVER_IPC_ASSEMBLY_OK \<or> status = RESOLVER_IPC_ASSEMBLY_COMPLETE then Some (status, a, b) else resolver_ipc_assembly_fail status a b
    })"
proof -
  obtain st a1 b1 where r: "r = Some (st, a1, b1)" "charge_moves cfg a b a1 b1" "assembly_ok cfg a1"
      "st = RESOLVER_IPC_ASSEMBLY_COMPLETE \<longrightarrow> as_state a1 = RESOLVER_IPC_ASSEMBLY_STATE_COMPLETE"
    using assms(1) by (auto simp: handled_def)
  have "histograms_ok b1" "as_dynamic_bytes a1 \<le> ab_owned_bytes b1"
    using r(2) assms(2,3) by (auto simp: charge_moves_def)
  from fail_ok [OF r(3) this, of st] r show ?thesis
    using charge_trans [OF r(2)] by (auto simp: handled_def)
qed

lemma consume_ok:
  assumes "assembly_ok cfg a" "histograms_ok b" "as_dynamic_bytes a \<le> ab_owned_bytes b"
  shows "handled cfg a b (assembly_consume cfg alloc packet a b)"
proof -
  have fail: "handled cfg a b (resolver_ipc_assembly_fail RESOLVER_IPC_ASSEMBLY_PROTOCOL a b)"
    using fail_ok [OF assms] by (fastforce simp: handled_def)
  obtain i h where i: "resolver_ipc_packet_inspect packet True = (i, h)" by fastforce
  have "handled cfg a b
     (case as_state a of
        RESOLVER_IPC_ASSEMBLY_STATE_BEGIN \<Rightarrow>
          Some (if ph_kind h = RESOLVER_IPC_PACKET_RESPONSE_BEGIN then resolver_ipc_assembly_begin_consume cfg alloc packet a b
                else (RESOLVER_IPC_ASSEMBLY_PROTOCOL, a, b))
      | RESOLVER_IPC_ASSEMBLY_STATE_CNAME \<Rightarrow>
          keep_budget b (if ph_kind h = RESOLVER_IPC_PACKET_RESPONSE_CNAME then resolver_ipc_assembly_cname_consume packet a
                         else Some (RESOLVER_IPC_ASSEMBLY_PROTOCOL, a))
      | RESOLVER_IPC_ASSEMBLY_STATE_RECORD \<Rightarrow>
          keep_budget b (if as_query_type a = ns_t_srv
            then (if ph_kind h = RESOLVER_IPC_PACKET_RESPONSE_SRV then resolver_ipc_assembly_record_srv_consume packet a
                  else Some (RESOLVER_IPC_ASSEMBLY_PROTOCOL, a))
            else (if ph_kind h = RESOLVER_IPC_PACKET_RESPONSE_ADDRESS then resolver_ipc_assembly_record_address_consume packet a
                  else Some (RESOLVER_IPC_ASSEMBLY_PROTOCOL, a)))
      | RESOLVER_IPC_ASSEMBLY_STATE_END \<Rightarrow>
          (if ph_kind h = RESOLVER_IPC_PACKET_RESPONSE_END then resolver_ipc_assembly_end_consume packet a b
           else Some (RESOLVER_IPC_ASSEMBLY_PROTOCOL, a, b))
      | _ \<Rightarrow> Some (RESOLVER_IPC_ASSEMBLY_PROTOCOL, a, b))" (is "handled cfg a b ?r")
  proof (cases "as_state a")
    case RESOLVER_IPC_ASSEMBLY_STATE_BEGIN
    obtain st a1 b1 where "resolver_ipc_assembly_begin_consume cfg alloc packet a b = (st, a1, b1)" by (metis prod_cases3)
    with begin_consume_ok [OF assms(1) RESOLVER_IPC_ASSEMBLY_STATE_BEGIN this] show ?thesis
      using RESOLVER_IPC_ASSEMBLY_STATE_BEGIN handled_refused [OF assms(1)] by (auto simp: handled_def)
  next
    case RESOLVER_IPC_ASSEMBLY_STATE_CNAME
    then show ?thesis using cname_consume_ok [OF assms(1)] assms(1) by (auto intro!: handled_keep)
  next
    case RESOLVER_IPC_ASSEMBLY_STATE_RECORD
    then show ?thesis using record_consume_ok [OF assms(1)] assms(1) by (auto intro!: handled_keep)
  next
    case RESOLVER_IPC_ASSEMBLY_STATE_END
    then show ?thesis using end_consume_ok [OF assms(1) _ assms(2)] handled_refused [OF assms(1)] by (fastforce simp: handled_def)
  qed (simp_all add: handled_refused assms(1))
  from handled_finish [OF this assms(2,3)] fail show ?thesis
    unfolding assembly_consume_def i prod.case using assms(1) by (auto simp: handled_def charge_refl)
qed

section \<open>All assemblies of a budget\<close>

text \<open>The budget together with the results that have been taken and not yet destroyed.\<close>

record assembly_system =
  sys_budget :: resolver_ipc_assembly_budget
  sys_results :: "resolver_ipc_assembly_result list"

definition result_of :: "resolver_ipc_assembly \<Rightarrow> resolver_ipc_assembly_result" where
  "result_of a = \<lparr>at_completed_at = as_completed_at a, at_dynamic_bytes = as_dynamic_bytes a, at_payload = as_payload a, at_query_id = as_query_id a,
     at_query_type = as_query_type a, at_status = as_status a\<rparr>"

definition charges :: "assembly_config \<Rightarrow> (nat \<times> resolver_ipc_assembly) list \<Rightarrow> nat" where
  "charges cfg as = sum_list (map (\<lambda>(p, a). sizeof_assembly cfg + as_dynamic_bytes a) as)"

definition assembly_inv :: "assembly_config \<Rightarrow> assembly_system \<Rightarrow> bool" where
  "assembly_inv cfg s \<longleftrightarrow>
     (let b = sys_budget s in
      distinct (map fst (ab_assemblies b)) \<and> (\<forall>(p, a) \<in> set (ab_assemblies b). assembly_ok cfg a) \<and> histograms_ok b
      \<and> ab_owned_bytes b = sizeof_assembly_budget cfg + charges cfg (ab_assemblies b) + sum_list (map at_dynamic_bytes (sys_results s))
      \<and> ab_owned_bytes b \<le> RESOLVER_REPLY_ASSEMBLY_BYTE_LIMIT cfg
      \<and> (\<forall>r \<in> set (sys_results s). \<exists>a. assembly_ok cfg a \<and> as_state a = RESOLVER_IPC_ASSEMBLY_STATE_COMPLETE \<and> r = result_of a))"

inductive assembly_step :: "assembly_config \<Rightarrow> assembly_system \<Rightarrow> assembly_system \<Rightarrow> bool" for cfg where
  step_create: "resolver_ipc_assembly_create cfg calloc_result (sys_budget s) name cls typ query_id True = (st, b', p) \<Longrightarrow>
     (\<And>q. calloc_result = Some q \<Longrightarrow> assembly_at q (sys_budget s) = None) \<Longrightarrow> assembly_step cfg s (s\<lparr>sys_budget := b'\<rparr>)"
| step_consume: "resolver_ipc_assembly_packet_consume cfg alloc (Some p) packet (sys_budget s) = Some (st, b') \<Longrightarrow> assembly_step cfg s (s\<lparr>sys_budget := b'\<rparr>)"
| step_destroy: "resolver_ipc_assembly_destroy cfg p (sys_budget s) = Some b' \<Longrightarrow> assembly_step cfg s (s\<lparr>sys_budget := b'\<rparr>)"
| step_take: "resolver_ipc_assembly_result_take (Some p) True (sys_budget s) = Some (Some r, b') \<Longrightarrow>
     assembly_step cfg s (s\<lparr>sys_budget := b', sys_results := r # sys_results s\<rparr>)"
| step_result_destroy: "r \<in> set (sys_results s) \<Longrightarrow>
     assembly_step cfg s (s\<lparr>sys_budget := resolver_ipc_assembly_result_destroy r (sys_budget s), sys_results := remove1 r (sys_results s)\<rparr>)"

definition assembly_init :: "assembly_config \<Rightarrow> assembly_system \<Rightarrow> bool" where
  "assembly_init cfg s \<longleftrightarrow> resolver_ipc_assembly_budget_create cfg True = Some (sys_budget s) \<and> sys_results s = []"

lemma entry_put_fresh: "p \<notin> fst ` set es \<Longrightarrow> entry_put p a es = es"
  by (induction p a es rule: entry_put.induct) auto

lemma entry_put_keys: "map fst (entry_put p a es) = map fst es"
  by (induction p a es rule: entry_put.induct) auto

lemma entry_put_set: "(q, c) \<in> set (entry_put p a es) \<Longrightarrow> c = a \<or> (q, c) \<in> set es"
  by (induction p a es rule: entry_put.induct) (auto split: if_splits)

lemma charges_Cons: "charges cfg ((p, a) # as) = sizeof_assembly cfg + as_dynamic_bytes a + charges cfg as"
  by (simp add: charges_def)

lemma charges_put:
  "distinct (map fst as) \<Longrightarrow> map_of as p = Some a \<Longrightarrow>
     charges cfg (entry_put p a' as) + as_dynamic_bytes a = charges cfg as + as_dynamic_bytes a'"
  by (induction p a' as rule: entry_put.induct) (auto simp: charges_Cons entry_put_fresh split: if_splits)

lemma filter_fresh: "p \<notin> fst ` set as \<Longrightarrow> filter (\<lambda>(q, c). q \<noteq> p) as = as"
  by (induction as) auto

lemma charges_remove:
  "distinct (map fst as) \<Longrightarrow> map_of as p = Some a \<Longrightarrow>
     charges cfg (filter (\<lambda>(q, c). q \<noteq> p) as) + sizeof_assembly cfg + as_dynamic_bytes a = charges cfg as"
  by (induction as) (auto simp: charges_Cons filter_fresh split: if_splits)

lemma put_inv:
  assumes "assembly_inv cfg s" "assembly_at p (sys_budget s) = Some a" "charge_moves cfg a (sys_budget s) a' b'" "assembly_ok cfg a'"
  shows "assembly_inv cfg (s\<lparr>sys_budget := assembly_put p a' b'\<rparr>)"
proof -
  note c = charges_put [of "ab_assemblies (sys_budget s)" p a cfg a']
  have "\<forall>(q, c) \<in> set (entry_put p a' (ab_assemblies (sys_budget s))). assembly_ok cfg c"
    using assms(1,4) entry_put_set unfolding assembly_inv_def Let_def by fast
  then show ?thesis
    using assms c unfolding assembly_inv_def Let_def charge_moves_def assembly_at_def assembly_put_def histograms_ok_def
    by (simp add: entry_put_keys)
qed

lemma live_charge:
  assumes "assembly_inv cfg s" "assembly_at p (sys_budget s) = Some a"
  shows "sizeof_assembly cfg + as_dynamic_bytes a \<le> ab_owned_bytes (sys_budget s)" "assembly_ok cfg a" "histograms_ok (sys_budget s)"
  using assms charges_remove [of "ab_assemblies (sys_budget s)" p a cfg]
  by (auto simp: assembly_inv_def Let_def assembly_at_def dest: map_of_SomeD)

lemma consume_defined:
  assumes "assembly_inv cfg s" "assembly_at p (sys_budget s) \<noteq> None"
  shows "\<exists>st b'. resolver_ipc_assembly_packet_consume cfg alloc (Some p) packet (sys_budget s) = Some (st, b') \<and> assembly_inv cfg (s\<lparr>sys_budget := b'\<rparr>)"
proof -
  obtain a where a: "assembly_at p (sys_budget s) = Some a" using assms(2) by blast
  note l = live_charge [OF assms(1) a]
  obtain st a' b' where c: "assembly_consume cfg alloc packet a (sys_budget s) = Some (st, a', b')" "charge_moves cfg a (sys_budget s) a' b'" "assembly_ok cfg a'"
    using consume_ok [OF l(2,3), of alloc packet] l(1) by (auto simp: handled_def)
  then show ?thesis using put_inv [OF assms(1) a c(2,3)] a by (simp add: resolver_ipc_assembly_packet_consume_def)
qed

lemma destroy_defined:
  assumes "assembly_inv cfg s" "assembly_at p (sys_budget s) \<noteq> None"
  shows "\<exists>b'. resolver_ipc_assembly_destroy cfg p (sys_budget s) = Some b' \<and> assembly_inv cfg (s\<lparr>sys_budget := b'\<rparr>)"
proof -
  obtain a where a: "assembly_at p (sys_budget s) = Some a" using assms(2) by blast
  note l = live_charge [OF assms(1) a]
  have c: "charges cfg (filter (\<lambda>(q, c). q \<noteq> p) (ab_assemblies (sys_budget s))) + sizeof_assembly cfg + as_dynamic_bytes a = charges cfg (ab_assemblies (sys_budget s))"
    using assms(1) a by (intro charges_remove) (simp_all add: assembly_inv_def Let_def assembly_at_def)
  obtain b' where b': "resolver_ipc_assembly_destroy cfg p (sys_budget s) = Some b'"
    using a by (simp add: resolver_ipc_assembly_destroy_def resolver_ipc_assembly_data_clear_def Let_def)
  then have b'': "ab_owned_bytes b' = ab_owned_bytes (sys_budget s) - as_dynamic_bytes a - sizeof_assembly cfg"
      "am_result_size (ab_metrics b') = am_result_size (ab_metrics (sys_budget s))"
    using a l(1) by (auto simp: resolver_ipc_assembly_destroy_def resolver_ipc_assembly_data_clear_def Let_def budget_return_def split: if_splits)
  have "ab_assemblies b' = filter (\<lambda>(q, c). q \<noteq> p) (ab_assemblies (sys_budget s))" using destroy_assemblies [OF b'] ..
  with b' b'' c l assms(1) show ?thesis
    by (auto simp: assembly_inv_def Let_def histograms_ok_def distinct_map_filter)
qed

lemma take_inv:
  assumes "assembly_inv cfg s" "resolver_ipc_assembly_result_take (Some p) True (sys_budget s) = Some (Some r, b')"
  shows "assembly_inv cfg (s\<lparr>sys_budget := b', sys_results := r # sys_results s\<rparr>)"
    and "\<exists>a. assembly_at p (sys_budget s) = Some a \<and> as_state a = RESOLVER_IPC_ASSEMBLY_STATE_COMPLETE \<and> assembly_ok cfg a \<and> r = result_of a"
proof -
  obtain a where a: "assembly_at p (sys_budget s) = Some a" "as_state a = RESOLVER_IPC_ASSEMBLY_STATE_COMPLETE" "r = result_of a"
    and b': "b' = assembly_put p (a\<lparr>as_payload := resolver_ipc_assembly_payload_zero, as_dynamic_bytes := 0, as_state := RESOLVER_IPC_ASSEMBLY_STATE_TAKEN\<rparr>) (sys_budget s)"
    using assms(2) by (auto simp: resolver_ipc_assembly_result_take_def result_of_def bind_eq_Some_conv split: if_splits)
  define a' where "a' = a\<lparr>as_payload := resolver_ipc_assembly_payload_zero, as_dynamic_bytes := 0, as_state := RESOLVER_IPC_ASSEMBLY_STATE_TAKEN\<rparr>"
  note l = live_charge [OF assms(1) a(1)]
  have a': "assembly_ok cfg a'" "as_dynamic_bytes a' = 0" using l(2) by (simp_all add: assembly_ok_def a'_def)
  have "\<forall>(q, c) \<in> set (entry_put p a' (ab_assemblies (sys_budget s))). assembly_ok cfg c"
    using assms(1) a'(1) entry_put_set unfolding assembly_inv_def Let_def by fast
  moreover have "charges cfg (entry_put p a' (ab_assemblies (sys_budget s))) + as_dynamic_bytes a = charges cfg (ab_assemblies (sys_budget s))"
    using charges_put [of "ab_assemblies (sys_budget s)" p a cfg a'] assms(1) a(1) a'(2) by (simp add: assembly_inv_def Let_def assembly_at_def)
  ultimately show "assembly_inv cfg (s\<lparr>sys_budget := b', sys_results := r # sys_results s\<rparr>)"
    using assms(1) a l(2) unfolding b' a'_def [symmetric]
    by (auto simp: assembly_inv_def Let_def assembly_put_def entry_put_keys histograms_ok_def result_of_def)
  show "\<exists>a. assembly_at p (sys_budget s) = Some a \<and> as_state a = RESOLVER_IPC_ASSEMBLY_STATE_COMPLETE \<and> assembly_ok cfg a \<and> r = result_of a"
    using a l(2) by blast
qed

lemma normalize_normalized:
  assumes "name_normalize t = Some m"
  shows "normalized m"
proof -
  obtain u r where u: "t @ [0] = u @ 0 # r" "0 \<notin> set u"
    using split_list_first [of 0 "t @ [0]"] by auto
  then have "normalize_text u = Some m"
    using assms resolver_name_normalize_text [OF u(2), of r] by (simp add: name_normalize_def)
  then show ?thesis using normalize_text_normalized u(2) by blast
qed

lemma assembly_create_inv:
  assumes "assembly_inv cfg s" "resolver_ipc_assembly_create cfg calloc_result (sys_budget s) name cls typ query_id True = (st, b', p)"
    and "\<And>q. calloc_result = Some q \<Longrightarrow> assembly_at q (sys_budget s) = None"
  shows "assembly_inv cfg (s\<lparr>sys_budget := b'\<rparr>)"
proof (cases "p = None")
  case True
  then have "ab_assemblies b' = ab_assemblies (sys_budget s)" "ab_owned_bytes b' = ab_owned_bytes (sys_budget s)"
      "am_result_size (ab_metrics b') = am_result_size (ab_metrics (sys_budget s))"
    using assms(2) by (auto simp: resolver_ipc_assembly_create_def Let_def split: if_splits option.splits)
  with assms(1) show ?thesis by (simp add: assembly_inv_def Let_def histograms_ok_def)
next
  case False
  define q where "q = the p"
  define a where "a = resolver_ipc_assembly_zero\<lparr>as_expected_name := the (name_normalize name), as_query_class := cls, as_query_id := query_id,
    as_query_type := typ, as_state := RESOLVER_IPC_ASSEMBLY_STATE_BEGIN\<rparr>"
  have r: "typ = ns_t_a \<or> typ = ns_t_aaaa \<or> typ = ns_t_srv" "cls = ns_c_in" "query_id \<noteq> 0" "name_normalize name \<noteq> None" "calloc_result = Some q"
      "sizeof_assembly cfg \<le> RESOLVER_REPLY_ASSEMBLY_BYTE_LIMIT cfg" "ab_owned_bytes (sys_budget s) \<le> RESOLVER_REPLY_ASSEMBLY_BYTE_LIMIT cfg - sizeof_assembly cfg"
      "ab_assemblies b' = (q, a) # ab_assemblies (sys_budget s)" "ab_owned_bytes b' = ab_owned_bytes (sys_budget s) + sizeof_assembly cfg"
      "am_result_size (ab_metrics b') = am_result_size (ab_metrics (sys_budget s))"
    using False assms(2) by (auto simp: resolver_ipc_assembly_create_def Let_def q_def a_def split: if_splits option.splits)
  have a: "assembly_ok cfg a" "as_dynamic_bytes a = 0"
    using r(1-4) normalize_normalized by (auto simp: assembly_ok_def a_def resolver_ipc_assembly_zero_def resolver_ipc_query_type_valid_def)
  have "q \<notin> fst ` set (ab_assemblies (sys_budget s))"
    using assms(3) [OF r(5)] by (simp add: assembly_at_def map_of_eq_None_iff)
  with assms(1) r a show ?thesis
    by (auto simp: assembly_inv_def Let_def histograms_ok_def charges_Cons)
qed

lemma result_destroy_inv:
  assumes "assembly_inv cfg s" "r \<in> set (sys_results s)"
  shows "assembly_inv cfg (s\<lparr>sys_budget := resolver_ipc_assembly_result_destroy r (sys_budget s), sys_results := remove1 r (sys_results s)\<rparr>)"
proof -
  have "sum_list (map at_dynamic_bytes (sys_results s)) = at_dynamic_bytes r + sum_list (map at_dynamic_bytes (remove1 r (sys_results s)))"
    using assms(2) by (rule sum_list_map_remove1)
  with assms show ?thesis
    by (auto simp: assembly_inv_def Let_def resolver_ipc_assembly_result_destroy_def budget_return_def histograms_ok_def dest: notin_set_remove1)
qed

lemma step_inv: "assembly_inv cfg s \<Longrightarrow> assembly_step cfg s t \<Longrightarrow> assembly_inv cfg t"
proof (erule assembly_step.cases)
  fix alloc p packet s' st b'
  assume "assembly_inv cfg s" "s = s'" "t = s'\<lparr>sys_budget := b'\<rparr>" "resolver_ipc_assembly_packet_consume cfg alloc (Some p) packet (sys_budget s') = Some (st, b')"
  then show ?thesis using consume_defined [of cfg s p alloc packet] by (cases "assembly_at p (sys_budget s)") (auto simp: resolver_ipc_assembly_packet_consume_def)
next
  fix p s' b'
  assume "assembly_inv cfg s" "s = s'" "t = s'\<lparr>sys_budget := b'\<rparr>" "resolver_ipc_assembly_destroy cfg p (sys_budget s') = Some b'"
  then show ?thesis using destroy_defined [of cfg s p] destroy_assemblies [of cfg p "sys_budget s" b'] by auto
qed (auto intro: assembly_create_inv take_inv(1) result_destroy_inv)

lemma init_inv: "assembly_init cfg s \<Longrightarrow> assembly_inv cfg s"
  by (cases s) (auto simp: assembly_init_def assembly_inv_def resolver_ipc_assembly_budget_create_def histograms_ok_def metrics_histogram_zero_def charges_def Let_def
      split: if_splits)

interpretation assembly_machine: invariant_system "assembly_init cfg" "assembly_step cfg" "assembly_inv cfg"
  by unfold_locales (fact init_inv, fact step_inv)


text \<open>Destroying a budget: every assembly goes, and what remains charged is the budget itself and the results still held.\<close>

lemma budget_destroy_complete:
  assumes "assembly_inv cfg s"
  shows "\<exists>b'. resolver_ipc_assembly_budget_destroy cfg (sys_budget s) = Some b' \<and> ab_assemblies b' = []
    \<and> ab_owned_bytes b' = sizeof_assembly_budget cfg + sum_list (map at_dynamic_bytes (sys_results s))"
  using assms
proof (induction "length (ab_assemblies (sys_budget s))" arbitrary: s rule: less_induct)
  case less
  show ?case
  proof (cases "ab_assemblies (sys_budget s)")
    case Nil
    then show ?thesis
      using less.prems by (subst resolver_ipc_assembly_budget_destroy.simps) (simp add: assembly_inv_def Let_def charges_def)
  next
    case (Cons x xs)
    obtain p a where x: "x = (p, a)" by fastforce
    then obtain b' where b': "resolver_ipc_assembly_destroy cfg p (sys_budget s) = Some b'" "assembly_inv cfg (s\<lparr>sys_budget := b'\<rparr>)"
      using destroy_defined [OF less.prems, of p] Cons by (auto simp: assembly_at_def)
    then have "length (ab_assemblies b') < length (ab_assemblies (sys_budget s))" using destroy_shrinks by blast
    then show ?thesis
      using less.hyps [of "s\<lparr>sys_budget := b'\<rparr>"] b' Cons x by (subst resolver_ipc_assembly_budget_destroy.simps) simp
  qed
qed

section \<open>Results\<close>

lemma normalized_valid: "resolver_ipc_assembly_name_normalized n \<Longrightarrow> resolver_cache_name_valid n"
  by (simp add: resolver_ipc_assembly_name_normalized_def resolver_cache_name_valid_def)

lemma chain_names: "chain_ok q os cs \<Longrightarrow> list_all (\<lambda>c. resolver_cache_name_valid (cn_owner c) \<and> resolver_cache_name_valid (cn_target c)) cs"
  by (induction q os cs rule: chain_ok.induct) (auto intro: normalized_valid)

lemma minimum_ttl_defined: "list_all ok rs \<Longrightarrow> \<exists>t'. minimum_ttl ok f t rs = Some t' \<and> t' = foldl min t (map f rs)"
proof (induction rs arbitrary: t)
  case (Cons r rs)
  then show ?case using Cons.IH [of "if f r < t then f r else t"] by (auto simp: min_def)
qed simp

text \<open>A complete assembly that reports a name's records, or their absence, satisfies the checks of the cache.\<close>

lemma complete_common:
  assumes "assembly_ok cfg a" "as_state a = RESOLVER_IPC_ASSEMBLY_STATE_COMPLETE" "ap_question_name (as_payload a) \<noteq> []"
    and "as_status a \<in> {RESOLVER_IPC_LOOKUP_OK, RESOLVER_IPC_LOOKUP_NODATA, RESOLVER_IPC_LOOKUP_NOT_FOUND}"
  shows "ap_question_name (as_payload a) = as_expected_name a" "name_normalize (as_expected_name a) = Some (as_expected_name a)"
    "resolver_cache_name_valid (ap_canonical_name (as_payload a))"
    "resolver_cache_cnames_valid (array_prefix (ap_cname_count (as_payload a)) (ap_cnames (as_payload a)))"
    "resolver_cache_negative_valid (ap_negative (as_payload a))"
proof -
  have r: "response_ok cfg a" "as_received_cname_count a = as_declared_cname_count a" "ap_cname_count (as_payload a) = as_declared_cname_count a"
      "resolver_ipc_assembly_complete_check a = Some True"
    using assms(1,2) by (simp_all add: assembly_ok_def)
  have b: "resolver_ipc_assembly_begin_check a (begin_of a)" "resolver_ipc_negative_valid (ap_negative (as_payload a))" "begin_wf (begin_of a)"
    using r(1) by (auto simp: response_ok_def begin_ok_def begin_of_def)
  then show q: "ap_question_name (as_payload a) = as_expected_name a" "resolver_cache_name_valid (ap_canonical_name (as_payload a))"
    using assms(3,4) by (auto simp: resolver_ipc_assembly_begin_check_def begin_of_def Let_def split: if_splits intro: normalized_valid)
  show "name_normalize (as_expected_name a) = Some (as_expected_name a)"
    using assms(1) by (simp add: assembly_ok_def name_normalize_text normalize_text_idem normalized_def)
  have "array_prefix (ap_cname_count (as_payload a)) (ap_cnames (as_payload a)) = (if as_declared_cname_count a = 0 then None else Some (received_cnames a))"
      "length (received_cnames a) = as_declared_cname_count a"
    using r(1,2,3) declared_bounds [OF r(1)]
    by (auto simp: response_ok_def array_of_def array_prefix_def received_cnames_def split: option.splits)
  then show "resolver_cache_cnames_valid (array_prefix (ap_cname_count (as_payload a)) (ap_cnames (as_payload a)))"
    using declared_bounds [OF r(1)] r(1) chain_names by (auto simp: resolver_cache_cnames_valid_def array_count_def response_ok_def)
  show "resolver_cache_negative_valid (ap_negative (as_payload a))"
    using b(2) r(4) by (auto simp: resolver_cache_negative_valid_def resolver_ipc_negative_valid_def resolver_ipc_assembly_complete_check_def Let_def bind_eq_Some_conv
        split: if_splits intro: normalized_valid)
qed

lemma ttl_expected_le: "resolver_ipc_assembly_ttl_expected t c \<le> t"
  by (simp add: resolver_ipc_assembly_ttl_expected_def)

lemma complete_address_valid:
  assumes "assembly_ok cfg a" "as_state a = RESOLVER_IPC_ASSEMBLY_STATE_COMPLETE" "as_query_type a \<noteq> ns_t_srv"
    and "ce_query_type e = as_query_type a" "ce_name e = as_expected_name a" "ap_question_name (as_payload a) \<noteq> []"
  defines "d \<equiv> payload_address (as_payload a)"
  shows "as_status a = RESOLVER_IPC_LOOKUP_OK \<Longrightarrow> \<exists>rs. ad_addresses d = Some rs \<and> length rs = as_declared_record_count a
      \<and> resolver_cache_address_result_validate e DNS_ADDRESS_LOOKUP_OK d = Some (foldl min UINT32_MAX (map ar_effective_ttl rs), RESOLVER_CACHE_VIEW_FRESH_POSITIVE)"
    and "as_status a = RESOLVER_IPC_LOOKUP_NODATA \<Longrightarrow>
      resolver_cache_address_result_validate e DNS_ADDRESS_LOOKUP_NODATA d = Some (neg_effective_ttl (ad_negative d), RESOLVER_CACHE_VIEW_FRESH_NODATA)"
    and "as_status a = RESOLVER_IPC_LOOKUP_NOT_FOUND \<Longrightarrow> ad_rcode d = ns_r_nxdomain \<Longrightarrow>
      resolver_cache_address_result_validate e DNS_ADDRESS_LOOKUP_NOT_FOUND d = Some (neg_effective_ttl (ad_negative d), RESOLVER_CACHE_VIEW_FRESH_NXDOMAIN)"
proof -
  note c = complete_common [OF assms(1,2,6)]
  have r: "response_ok cfg a" "as_received_record_count a = as_declared_record_count a" "ap_record_count (as_payload a) = as_declared_record_count a"
    using assms(1,2) by (simp_all add: assembly_ok_def)
  have b: "resolver_ipc_assembly_begin_check a (begin_of a)" "resolver_ipc_response_count_valid (as_query_type a) (as_declared_cname_count a) (as_declared_record_count a)"
    using r(1) by (auto simp: response_ok_def begin_ok_def begin_of_def)
  have t: "as_query_type a = ns_t_a \<or> as_query_type a = ns_t_aaaa" using assms(1,3) by (auto simp: assembly_ok_def resolver_ipc_query_type_valid_def)
  have ads: "ad_addresses d = (if as_declared_record_count a = 0 then None else Some (received_addresses a))" "length (received_addresses a) = as_declared_record_count a"
    using r assms(3) by (auto simp: d_def payload_address_def array_prefix_def response_ok_def array_of_def received_addresses_def split: option.splits)
  have rs: "list_all (\<lambda>x. addr_family (ar_address x) = (if ce_query_type e = ns_t_a then AF_INET else AF_INET6) \<and> ar_effective_ttl x \<le> ar_record_ttl x) (received_addresses a)"
    using r(1) assms(3,4) ttl_expected_le by (auto simp: response_ok_def list_all_iff split: if_splits)
  have f: "ad_canonical_name d = ap_canonical_name (as_payload a)" "ad_question_name d = ap_question_name (as_payload a)" "ad_rcode d = ap_rcode (as_payload a)"
      "ad_negative d = ap_negative (as_payload a)" "ad_cnames d = array_prefix (ap_cname_count (as_payload a)) (ap_cnames (as_payload a))"
    by (simp_all add: d_def payload_address_def)
  have chk: "\<not> ((ce_query_type e \<noteq> ns_t_a \<and> ce_query_type e \<noteq> ns_t_aaaa)
         \<or> \<not> resolver_cache_question_matches e (ad_question_name d) \<or> \<not> resolver_cache_name_valid (ad_canonical_name d)
         \<or> \<not> resolver_cache_cnames_valid (ad_cnames d) \<or> \<not> resolver_cache_negative_valid (ad_negative d))"
    if "as_status a \<in> {RESOLVER_IPC_LOOKUP_OK, RESOLVER_IPC_LOOKUP_NODATA, RESOLVER_IPC_LOOKUP_NOT_FOUND}"
    using c [OF that] t assms(4,5) by (auto simp: f resolver_cache_question_matches_def)
  show "\<exists>rs. ad_addresses d = Some rs \<and> length rs = as_declared_record_count a
      \<and> resolver_cache_address_result_validate e DNS_ADDRESS_LOOKUP_OK d = Some (foldl min UINT32_MAX (map ar_effective_ttl rs), RESOLVER_CACHE_VIEW_FRESH_POSITIVE)"
    if st: "as_status a = RESOLVER_IPC_LOOKUP_OK"
  proof -
    have o: "ad_rcode d = 0" "as_declared_record_count a > 0" "\<not> neg_valid (ad_negative d)"
      using b(1) st assms(6) by (auto simp: f resolver_ipc_assembly_begin_check_def begin_of_def Let_def split: if_splits)
    have "as_declared_record_count a \<le> DNS_ADDRESS_RECORD_LIMIT" using b(2) t by (auto simp: resolver_ipc_response_count_valid_def split: if_splits)
    then show ?thesis
      using chk st o ads minimum_ttl_defined [OF rs, of ar_effective_ttl UINT32_MAX]
      by (auto simp: resolver_cache_address_result_validate_def array_count_def Let_def)
  qed
  have neg: "neg_effective_ttl (ad_negative d) = (if neg_valid (ad_negative d) then neg_effective_ttl (ad_negative d) else 0)"
    if "as_status a \<in> {RESOLVER_IPC_LOOKUP_NODATA, RESOLVER_IPC_LOOKUP_NOT_FOUND}"
    using c(5) that by (auto simp: f resolver_cache_negative_valid_def)
  have none: "ad_addresses d = None" "as_status a = RESOLVER_IPC_LOOKUP_NODATA \<longrightarrow> ad_rcode d = 0"
    if "as_status a \<in> {RESOLVER_IPC_LOOKUP_NODATA, RESOLVER_IPC_LOOKUP_NOT_FOUND}"
    using b(1) that assms(6) ads by (auto simp: f resolver_ipc_assembly_begin_check_def begin_of_def Let_def split: if_splits)
  show "resolver_cache_address_result_validate e DNS_ADDRESS_LOOKUP_NODATA d = Some (neg_effective_ttl (ad_negative d), RESOLVER_CACHE_VIEW_FRESH_NODATA)"
    if "as_status a = RESOLVER_IPC_LOOKUP_NODATA"
    using that chk none neg by (simp add: resolver_cache_address_result_validate_def array_count_def)
  show "resolver_cache_address_result_validate e DNS_ADDRESS_LOOKUP_NOT_FOUND d = Some (neg_effective_ttl (ad_negative d), RESOLVER_CACHE_VIEW_FRESH_NXDOMAIN)"
    if "as_status a = RESOLVER_IPC_LOOKUP_NOT_FOUND" "ad_rcode d = ns_r_nxdomain"
    using that chk none neg by (simp add: resolver_cache_address_result_validate_def array_count_def)
qed

lemma complete_srv_valid:
  assumes "assembly_ok cfg a" "as_state a = RESOLVER_IPC_ASSEMBLY_STATE_COMPLETE" "as_query_type a = ns_t_srv"
    and "ce_query_type e = as_query_type a" "ce_name e = as_expected_name a" "ap_question_name (as_payload a) \<noteq> []"
  defines "d \<equiv> payload_srv (as_payload a)"
  shows "as_status a = RESOLVER_IPC_LOOKUP_OK \<Longrightarrow> \<exists>rs. sr_records d = Some rs \<and> length rs = as_declared_record_count a
      \<and> resolver_cache_srv_result_validate e DNS_SRV_LOOKUP_OK d = Some (foldl min UINT32_MAX (map srv_effective_ttl rs), RESOLVER_CACHE_VIEW_FRESH_POSITIVE)"
    and "as_status a = RESOLVER_IPC_LOOKUP_NODATA \<Longrightarrow>
      resolver_cache_srv_result_validate e DNS_SRV_LOOKUP_NODATA d = Some (neg_effective_ttl (sr_negative d), RESOLVER_CACHE_VIEW_FRESH_NODATA)"
    and "as_status a = RESOLVER_IPC_LOOKUP_NOT_FOUND \<Longrightarrow> sr_rcode d = ns_r_nxdomain \<Longrightarrow>
      resolver_cache_srv_result_validate e DNS_SRV_LOOKUP_NOT_FOUND d = Some (neg_effective_ttl (sr_negative d), RESOLVER_CACHE_VIEW_FRESH_NXDOMAIN)"
proof -
  note c = complete_common [OF assms(1,2,6)]
  have r: "response_ok cfg a" "as_received_record_count a = as_declared_record_count a" "ap_record_count (as_payload a) = as_declared_record_count a"
    using assms(1,2) by (simp_all add: assembly_ok_def)
  have b: "resolver_ipc_assembly_begin_check a (begin_of a)" "resolver_ipc_response_count_valid (as_query_type a) (as_declared_cname_count a) (as_declared_record_count a)"
    using r(1) by (auto simp: response_ok_def begin_ok_def begin_of_def)
  have ads: "sr_records d = (if as_declared_record_count a = 0 then None else Some (received_records a))" "length (received_records a) = as_declared_record_count a"
    using r assms(3) by (auto simp: d_def payload_srv_def array_prefix_def response_ok_def array_of_def received_records_def split: option.splits)
  have rs: "list_all (\<lambda>x. resolver_cache_name_valid (srv_target x) \<and> srv_effective_ttl x \<le> srv_record_ttl x) (received_records a)"
    using r(1) assms(3) ttl_expected_le by (auto simp: response_ok_def list_all_iff intro: normalized_valid)
  have f: "sr_canonical_name d = ap_canonical_name (as_payload a)" "sr_question_name d = ap_question_name (as_payload a)" "sr_rcode d = ap_rcode (as_payload a)"
      "sr_negative d = ap_negative (as_payload a)" "sr_cnames d = array_prefix (ap_cname_count (as_payload a)) (ap_cnames (as_payload a))"
    by (simp_all add: d_def payload_srv_def)
  have chk: "\<not> (ce_query_type e \<noteq> ns_t_srv
         \<or> \<not> resolver_cache_question_matches e (sr_question_name d) \<or> \<not> resolver_cache_name_valid (sr_canonical_name d)
         \<or> \<not> resolver_cache_cnames_valid (sr_cnames d) \<or> \<not> resolver_cache_negative_valid (sr_negative d))"
    if "as_status a \<in> {RESOLVER_IPC_LOOKUP_OK, RESOLVER_IPC_LOOKUP_NODATA, RESOLVER_IPC_LOOKUP_NOT_FOUND}"
    using c [OF that] assms(3,4,5) by (auto simp: f resolver_cache_question_matches_def)
  show "\<exists>rs. sr_records d = Some rs \<and> length rs = as_declared_record_count a
      \<and> resolver_cache_srv_result_validate e DNS_SRV_LOOKUP_OK d = Some (foldl min UINT32_MAX (map srv_effective_ttl rs), RESOLVER_CACHE_VIEW_FRESH_POSITIVE)"
    if st: "as_status a = RESOLVER_IPC_LOOKUP_OK"
  proof -
    have o: "sr_rcode d = 0" "as_declared_record_count a > 0" "\<not> neg_valid (sr_negative d)"
      using b(1) st assms(6) by (auto simp: f resolver_ipc_assembly_begin_check_def begin_of_def Let_def split: if_splits)
    have "as_declared_record_count a \<le> DNS_SRV_RECORD_LIMIT" using b(2) assms(3) by (auto simp: resolver_ipc_response_count_valid_def split: if_splits)
    then show ?thesis
      using chk st o ads minimum_ttl_defined [OF rs, of srv_effective_ttl UINT32_MAX]
      by (auto simp: resolver_cache_srv_result_validate_def array_count_def Let_def)
  qed
  have neg: "neg_effective_ttl (sr_negative d) = (if neg_valid (sr_negative d) then neg_effective_ttl (sr_negative d) else 0)"
    if "as_status a \<in> {RESOLVER_IPC_LOOKUP_NODATA, RESOLVER_IPC_LOOKUP_NOT_FOUND}"
    using c(5) that by (auto simp: f resolver_cache_negative_valid_def)
  have none: "sr_records d = None" "as_status a = RESOLVER_IPC_LOOKUP_NODATA \<longrightarrow> sr_rcode d = 0"
    if "as_status a \<in> {RESOLVER_IPC_LOOKUP_NODATA, RESOLVER_IPC_LOOKUP_NOT_FOUND}"
    using b(1) that assms(6) ads by (auto simp: f resolver_ipc_assembly_begin_check_def begin_of_def Let_def split: if_splits)
  show "resolver_cache_srv_result_validate e DNS_SRV_LOOKUP_NODATA d = Some (neg_effective_ttl (sr_negative d), RESOLVER_CACHE_VIEW_FRESH_NODATA)"
    if "as_status a = RESOLVER_IPC_LOOKUP_NODATA"
    using that chk none neg by (simp add: resolver_cache_srv_result_validate_def array_count_def)
  show "resolver_cache_srv_result_validate e DNS_SRV_LOOKUP_NOT_FOUND d = Some (neg_effective_ttl (sr_negative d), RESOLVER_CACHE_VIEW_FRESH_NXDOMAIN)"
    if "as_status a = RESOLVER_IPC_LOOKUP_NOT_FOUND" "sr_rcode d = ns_r_nxdomain"
    using that chk none neg by (simp add: resolver_cache_srv_result_validate_def array_count_def)
qed

end
