(* ===== verification/Ipc_Assembly_Correct.thy ===== *)
theory Ipc_Assembly_Correct
  imports Ipc_Assembly_Inv
begin

text \<open>
  The properties of the IPC assembly: a well-formed response is assembled to exactly the records it carries (each packet in turn, then whole responses,
  then delivery to a live assembly of a budget), the budget's accounting, the acceptance of results by the cache, and the destruction of a budget.
\<close>

text \<open>What a packet leaves as it is.\<close>

definition same_request :: "resolver_ipc_assembly \<Rightarrow> resolver_ipc_assembly \<Rightarrow> bool" where
  "same_request a a' \<longleftrightarrow> begin_of a' = begin_of a \<and> as_expected_name a' = as_expected_name a \<and> as_dynamic_bytes a' = as_dynamic_bytes a"

lemma same_request_D:
  "same_request a a' \<Longrightarrow> as_query_id a' = as_query_id a" "same_request a a' \<Longrightarrow> as_query_type a' = as_query_type a"
  "same_request a a' \<Longrightarrow> as_declared_cname_count a' = as_declared_cname_count a" "same_request a a' \<Longrightarrow> as_declared_record_count a' = as_declared_record_count a"
  "same_request a a' \<Longrightarrow> ap_question_name (as_payload a') = ap_question_name (as_payload a)"
  "same_request a a' \<Longrightarrow> as_dynamic_bytes a' = as_dynamic_bytes a"
  by (simp_all add: same_request_def begin_of_def)

lemma same_request_trans: "same_request a b \<Longrightarrow> same_request b c \<Longrightarrow> same_request a c" and same_request_refl: "same_request a a"
  by (simp_all add: same_request_def)

lemma consume_step:
  assumes "resolver_ipc_packet_inspect (Some p) True = (RESOLVER_IPC_CODEC_OK, \<lparr>ph_kind = k, ph_query_id = as_query_id a\<rparr>)"
    and "case as_state a of
        RESOLVER_IPC_ASSEMBLY_STATE_BEGIN \<Rightarrow> k = RESOLVER_IPC_PACKET_RESPONSE_BEGIN \<and> resolver_ipc_assembly_begin_consume cfg alloc (Some p) a b = (st, a', b')
      | RESOLVER_IPC_ASSEMBLY_STATE_CNAME \<Rightarrow> k = RESOLVER_IPC_PACKET_RESPONSE_CNAME \<and> resolver_ipc_assembly_cname_consume (Some p) a = Some (st, a') \<and> b' = b
      | RESOLVER_IPC_ASSEMBLY_STATE_RECORD \<Rightarrow>
          (if as_query_type a = ns_t_srv
           then k = RESOLVER_IPC_PACKET_RESPONSE_SRV \<and> resolver_ipc_assembly_record_srv_consume (Some p) a = Some (st, a')
           else k = RESOLVER_IPC_PACKET_RESPONSE_ADDRESS \<and> resolver_ipc_assembly_record_address_consume (Some p) a = Some (st, a')) \<and> b' = b
      | RESOLVER_IPC_ASSEMBLY_STATE_END \<Rightarrow> k = RESOLVER_IPC_PACKET_RESPONSE_END \<and> resolver_ipc_assembly_end_consume (Some p) a b = Some (st, a', b')
      | _ \<Rightarrow> False"
    and "st \<in> {RESOLVER_IPC_ASSEMBLY_OK, RESOLVER_IPC_ASSEMBLY_COMPLETE}"
  shows "assembly_consume cfg alloc (Some p) a b = Some (st, a', b')"
  using assms by (cases "as_state a") (auto simp: assembly_consume_def resolver_ipc_assembly_state_nonterminal_def keep_budget_def split: if_splits)

lemma cname_step:
  assumes "assembly_ok cfg a" "as_state a = RESOLVER_IPC_ASSEMBLY_STATE_CNAME" "resolver_ipc_response_cname_decode (Some p) True = (RESOLVER_IPC_CODEC_OK, x)"
    and "rc_query_id x = as_query_id a" "unat (rc_index x) = as_received_cname_count a"
    and "chain_ok (ap_question_name (as_payload a)) [] (received_cnames a @ [rc_record x])"
  shows "\<exists>a'. assembly_consume cfg alloc (Some p) a b = Some (RESOLVER_IPC_ASSEMBLY_OK, a', b) \<and> same_request a a' \<and> assembly_ok cfg a'
    \<and> received_cnames a' = received_cnames a @ [rc_record x] \<and> as_received_cname_count a' = Suc (as_received_cname_count a)
    \<and> as_received_record_count a' = as_received_record_count a
    \<and> as_state a' = (if Suc (as_received_cname_count a) = as_declared_cname_count a
       then (if as_declared_record_count a > 0 then RESOLVER_IPC_ASSEMBLY_STATE_RECORD else RESOLVER_IPC_ASSEMBLY_STATE_END) else RESOLVER_IPC_ASSEMBLY_STATE_CNAME)"
proof -
  have a: "response_ok cfg a" "as_received_cname_count a < as_declared_cname_count a"
    using assms(1,2) by (simp_all add: assembly_ok_def)
  obtain l where l: "ap_cnames (as_payload a) = Some l" "as_received_cname_count a < length l" "received_cnames a = take (as_received_cname_count a) l"
    using cname_array [OF a] by blast
  have "\<not> cname_refused a RESOLVER_IPC_CODEC_OK x" using assms(4-6) by (auto simp: cname_refused_def chain_ok_snoc)
  then have c: "resolver_ipc_assembly_cname_consume (Some p) a = Some (RESOLVER_IPC_ASSEMBLY_OK, cname_stored a (rc_record x))"
    using cname_consume_eq [OF a assms(3)] by simp
  then have "assembly_ok cfg (cname_stored a (rc_record x))" using cname_consume_ok [OF assms(1,2), of "Some p"] by auto
  moreover have "resolver_ipc_packet_inspect (Some p) True = (RESOLVER_IPC_CODEC_OK, \<lparr>ph_kind = RESOLVER_IPC_PACKET_RESPONSE_CNAME, ph_query_id = as_query_id a\<rparr>)"
    using cname_packet.decode_inspect assms(3,4) by (simp add: resolver_ipc_response_cname_decode_def)
  then have "assembly_consume cfg alloc (Some p) a b = Some (RESOLVER_IPC_ASSEMBLY_OK, cname_stored a (rc_record x), b)"
    using assms(2) c by (intro consume_step) auto
  ultimately show ?thesis
    using l assms(2) by (intro exI [of _ "cname_stored a (rc_record x)"])
      (simp add: cname_stored_def same_request_def begin_of_def received_cnames_def take_Suc_update)
qed

lemma commit_same:
  "same_request a (resolver_ipc_assembly_record_commit (a\<lparr>as_payload := (as_payload a)\<lparr>ap_addresses := x, ap_records := y\<rparr>\<rparr>))"
  "received_cnames (resolver_ipc_assembly_record_commit (a\<lparr>as_payload := (as_payload a)\<lparr>ap_addresses := x, ap_records := y\<rparr>\<rparr>)) = received_cnames a"
  by (simp_all add: same_request_def begin_of_def received_cnames_def commit_fields)

lemma payload_records:
  "ap_addresses p = None \<Longrightarrow> p\<lparr>ap_records := y\<rparr> = p\<lparr>ap_addresses := None, ap_records := y\<rparr>"
  "ap_records p = None \<Longrightarrow> p\<lparr>ap_addresses := x\<rparr> = p\<lparr>ap_addresses := x, ap_records := None\<rparr>"
  by (cases p; simp)+

lemma srv_step:
  assumes "assembly_ok cfg a" "as_state a = RESOLVER_IPC_ASSEMBLY_STATE_RECORD" "as_query_type a = ns_t_srv"
    and "resolver_ipc_response_srv_decode (Some p) True = (RESOLVER_IPC_CODEC_OK, x)"
    and "rv_query_id x = as_query_id a" "unat (rv_index x) = as_received_record_count a" "resolver_ipc_assembly_name_normalized (srv_target (rv_record x))"
    and "srv_effective_ttl (rv_record x) = resolver_ipc_assembly_ttl_expected (srv_record_ttl (rv_record x)) (chain_ttl (received_cnames a))"
  shows "\<exists>a'. assembly_consume cfg alloc (Some p) a b = Some (RESOLVER_IPC_ASSEMBLY_OK, a', b) \<and> same_request a a' \<and> assembly_ok cfg a'
    \<and> received_cnames a' = received_cnames a \<and> received_records a' = received_records a @ [rv_record x]
    \<and> as_received_record_count a' = Suc (as_received_record_count a)
    \<and> as_state a' = (if Suc (as_received_record_count a) = as_declared_record_count a then RESOLVER_IPC_ASSEMBLY_STATE_END else RESOLVER_IPC_ASSEMBLY_STATE_RECORD)"
proof -
  have a: "response_ok cfg a" "as_received_record_count a < as_declared_record_count a"
    using assms(1,2) by (simp_all add: assembly_ok_def)
  obtain l where l: "ap_records (as_payload a) = Some l" "length l = as_declared_record_count a" "ap_addresses (as_payload a) = None"
    using a assms(3) by (auto simp: response_ok_def array_of_def split: option.splits)
  have ttl: "as_chain_ttl a = chain_ttl (received_cnames a)" using a(1) by (simp add: response_ok_def)
  define a' where "a' = resolver_ipc_assembly_record_commit (a\<lparr>as_payload := (as_payload a)\<lparr>ap_addresses := None, ap_records := Some (l[as_received_record_count a := rv_record x])\<rparr>\<rparr>)"
  have c: "resolver_ipc_assembly_record_srv_consume (Some p) a = Some (RESOLVER_IPC_ASSEMBLY_OK, a')"
    using a(2) l(2) assms(5-8) unfolding resolver_ipc_assembly_record_srv_consume_def assms(4) prod.case Let_def l(1) ttl
    by (simp add: array_setI a'_def payload_records(1) [OF l(3)])
  then have "assembly_ok cfg a'" using record_consume_ok(1) [OF assms(1-3), of "Some p"] by auto
  moreover have "resolver_ipc_packet_inspect (Some p) True = (RESOLVER_IPC_CODEC_OK, \<lparr>ph_kind = RESOLVER_IPC_PACKET_RESPONSE_SRV, ph_query_id = as_query_id a\<rparr>)"
    using srv_packet.decode_inspect assms(4,5) by (simp add: resolver_ipc_response_srv_decode_def)
  then have "assembly_consume cfg alloc (Some p) a b = Some (RESOLVER_IPC_ASSEMBLY_OK, a', b)"
    using assms(2,3) c by (intro consume_step) auto
  moreover have "received_records a' = received_records a @ [rv_record x]"
    using l a(2) by (simp add: received_records_def a'_def commit_fields take_Suc_update)
  ultimately show ?thesis
    using assms(2) by (intro exI [of _ a']) (simp add: a'_def commit_same, simp add: commit_fields)
qed

lemma address_step:
  assumes "assembly_ok cfg a" "as_state a = RESOLVER_IPC_ASSEMBLY_STATE_RECORD" "as_query_type a \<noteq> ns_t_srv"
    and "resolver_ipc_response_address_decode (Some p) True = (RESOLVER_IPC_CODEC_OK, x)"
    and "ra_query_id x = as_query_id a" "unat (ra_index x) = as_received_record_count a"
    and "addr_family (ar_address (ra_record x)) = (if as_query_type a = ns_t_a then AF_INET else AF_INET6)"
    and "ar_effective_ttl (ra_record x) = resolver_ipc_assembly_ttl_expected (ar_record_ttl (ra_record x)) (chain_ttl (received_cnames a))"
  shows "\<exists>a'. assembly_consume cfg alloc (Some p) a b = Some (RESOLVER_IPC_ASSEMBLY_OK, a', b) \<and> same_request a a' \<and> assembly_ok cfg a'
    \<and> received_cnames a' = received_cnames a \<and> received_addresses a' = received_addresses a @ [ra_record x]
    \<and> as_received_record_count a' = Suc (as_received_record_count a)
    \<and> as_state a' = (if Suc (as_received_record_count a) = as_declared_record_count a then RESOLVER_IPC_ASSEMBLY_STATE_END else RESOLVER_IPC_ASSEMBLY_STATE_RECORD)"
proof -
  have a: "response_ok cfg a" "as_received_record_count a < as_declared_record_count a"
    using assms(1,2) by (simp_all add: assembly_ok_def)
  obtain l where l: "ap_addresses (as_payload a) = Some l" "length l = as_declared_record_count a" "ap_records (as_payload a) = None"
    using a assms(3) by (auto simp: response_ok_def array_of_def split: option.splits)
  have ttl: "as_chain_ttl a = chain_ttl (received_cnames a)" using a(1) by (simp add: response_ok_def)
  define a' where "a' = resolver_ipc_assembly_record_commit (a\<lparr>as_payload := (as_payload a)\<lparr>ap_addresses := Some (l[as_received_record_count a := ra_record x]), ap_records := None\<rparr>\<rparr>)"
  have c: "resolver_ipc_assembly_record_address_consume (Some p) a = Some (RESOLVER_IPC_ASSEMBLY_OK, a')"
    using a(2) l(2) assms(5-8) unfolding resolver_ipc_assembly_record_address_consume_def assms(4) prod.case Let_def l(1) ttl
    by (simp add: array_setI a'_def payload_records(2) [OF l(3), symmetric])
  then have "assembly_ok cfg a'" using record_consume_ok(2) [OF assms(1-3), of "Some p"] by auto
  moreover have "resolver_ipc_packet_inspect (Some p) True = (RESOLVER_IPC_CODEC_OK, \<lparr>ph_kind = RESOLVER_IPC_PACKET_RESPONSE_ADDRESS, ph_query_id = as_query_id a\<rparr>)"
    using address_packet.decode_inspect assms(4,5) by (simp add: resolver_ipc_response_address_decode_def)
  then have "assembly_consume cfg alloc (Some p) a b = Some (RESOLVER_IPC_ASSEMBLY_OK, a', b)"
    using assms(2,3) c by (intro consume_step) auto
  moreover have "received_addresses a' = received_addresses a @ [ra_record x]"
    using l a(2) by (simp add: received_addresses_def a'_def commit_fields take_Suc_update)
  ultimately show ?thesis
    using assms(2) by (intro exI [of _ a']) (simp add: a'_def commit_same, simp add: commit_fields)
qed

definition room :: "assembly_config \<Rightarrow> u16 \<Rightarrow> nat \<Rightarrow> nat \<Rightarrow> resolver_ipc_assembly_budget \<Rightarrow> bool" where
  "room cfg query_type c n b \<longleftrightarrow>
     resolver_cache_result_classify (ac_cache cfg) query_type c n = RESOLVER_CACHE_RESULT_FIT_OK
     \<and> ab_owned_bytes b + arrays_size cfg query_type c n \<le> RESOLVER_REPLY_ASSEMBLY_BYTE_LIMIT cfg \<and> RESOLVER_REPLY_ASSEMBLY_BYTE_LIMIT cfg \<le> SIZE_MAX"

lemma size_fits:
  "l * r \<le> SIZE_MAX \<Longrightarrow> resolver_size_multiply l r = Some (l * r)" "l + r \<le> SIZE_MAX \<Longrightarrow> resolver_size_add l r = Some (l + r)"
proof -
  show "resolver_size_multiply l r = Some (l * r)" if "l * r \<le> SIZE_MAX"
  proof (cases "l = 0")
    case False
    then have "r \<le> SIZE_MAX div l" using that by (metis mult.commute not_gr_zero less_eq_div_iff_mult_less_eq)
    then show ?thesis unfolding resolver_size_multiply_def by auto
  qed (simp add: resolver_size_multiply_def)
  show "resolver_size_add l r = Some (l + r)" if "l + r \<le> SIZE_MAX"
    using that unfolding resolver_size_add_def by (metis add.commute le_diff_conv2 linorder_not_le add_leD2)
qed

lemma allocate_room:
  assumes "room cfg (as_query_type a) c n b"
  shows "\<exists>a' b'. resolver_ipc_assembly_arrays_allocate cfg (True, True) c n a b = (RESOLVER_IPC_ASSEMBLY_OK, a', b')"
proof -
  define cb where "cb = (if c > 0 then DNS_CNAME_DEPTH_LIMIT * sizeof_cname_record (ac_cache cfg) else 0)"
  define rb where "rb = n * (if as_query_type a = ns_t_srv then sizeof_srv_record (ac_cache cfg) else sizeof_address_record (ac_cache cfg))"
  have s: "cb + rb \<le> SIZE_MAX" "ab_owned_bytes b + (cb + rb) \<le> RESOLVER_REPLY_ASSEMBLY_BYTE_LIMIT cfg"
    using assms by (simp_all add: room_def arrays_size_def cb_def rb_def)
  have "(if c > 0 then resolver_size_multiply DNS_CNAME_DEPTH_LIMIT (sizeof_cname_record (ac_cache cfg)) else Some 0) = Some cb"
      "resolver_size_multiply n (if as_query_type a = ns_t_srv then sizeof_srv_record (ac_cache cfg) else sizeof_address_record (ac_cache cfg)) = Some rb"
      "resolver_size_add cb rb = Some (cb + rb)"
    using s(1) size_fits(1) [of DNS_CNAME_DEPTH_LIMIT "sizeof_cname_record (ac_cache cfg)"] size_fits(2) [of cb rb]
      size_fits(1) [of n "if as_query_type a = ns_t_srv then sizeof_srv_record (ac_cache cfg) else sizeof_address_record (ac_cache cfg)"]
    unfolding cb_def [symmetric] rb_def [symmetric] by (auto simp: cb_def)
  note e = this
  have l: "\<not> cb + rb > RESOLVER_REPLY_ASSEMBLY_BYTE_LIMIT cfg" "\<not> ab_owned_bytes b > RESOLVER_REPLY_ASSEMBLY_BYTE_LIMIT cfg - (cb + rb)"
      "resolver_cache_result_classify (ac_cache cfg) (as_query_type a) c n = RESOLVER_CACHE_RESULT_FIT_OK"
    using s(2) assms by (auto simp: room_def)
  show ?thesis
    unfolding resolver_ipc_assembly_arrays_allocate_def Let_def e l(3) option.sel option.case by (simp add: l(1,2))
qed

lemma begin_step:
  assumes "assembly_ok cfg a" "as_state a = RESOLVER_IPC_ASSEMBLY_STATE_BEGIN" "resolver_ipc_response_begin_decode (Some p) True = (RESOLVER_IPC_CODEC_OK, x)"
    and "resolver_ipc_assembly_begin_check a x" "room cfg (as_query_type a) (rb_cname_count x) (rb_record_count x) b"
  shows "\<exists>a' b'. assembly_consume cfg (True, True) (Some p) a b = Some (RESOLVER_IPC_ASSEMBLY_OK, a', b') \<and> assembly_ok cfg a'
    \<and> begin_of a' = x \<and> as_expected_name a' = as_expected_name a \<and> histograms_ok b' = histograms_ok b
    \<and> as_received_cname_count a' = 0 \<and> as_received_record_count a' = 0
    \<and> as_state a' = (if rb_cname_count x > 0 then RESOLVER_IPC_ASSEMBLY_STATE_CNAME
        else if rb_record_count x > 0 then RESOLVER_IPC_ASSEMBLY_STATE_RECORD else RESOLVER_IPC_ASSEMBLY_STATE_END)"
proof -
  obtain a1 b1 where al: "resolver_ipc_assembly_arrays_allocate cfg (True, True) (rb_cname_count x) (rb_record_count x) a b = (RESOLVER_IPC_ASSEMBLY_OK, a1, b1)"
    using allocate_room [OF assms(5)] by blast
  define a' where "a' = a1\<lparr>as_chain_ttl := UINT32_MAX, as_completed_at := rb_completed_at x, as_declared_cname_count := rb_cname_count x,
      as_declared_record_count := rb_record_count x, as_status := rb_status x,
      as_payload := (as_payload a1)\<lparr>ap_canonical_name := rb_canonical_name x, ap_negative := rb_negative x, ap_question_name := rb_question_name x, ap_rcode := rb_rcode x\<rparr>,
      as_state := (if rb_cname_count x > 0 then RESOLVER_IPC_ASSEMBLY_STATE_CNAME
        else if rb_record_count x > 0 then RESOLVER_IPC_ASSEMBLY_STATE_RECORD else RESOLVER_IPC_ASSEMBLY_STATE_END)\<rparr>"
  have c: "resolver_ipc_assembly_begin_consume cfg (True, True) (Some p) a b = (RESOLVER_IPC_ASSEMBLY_OK, a', b1)"
    using assms(3,4) al by (simp add: resolver_ipc_assembly_begin_consume_def a'_def)
  have q: "rb_query_id x = as_query_id a" "rb_query_class x = as_query_class a" "rb_query_type x = as_query_type a"
    using assms(4) by (auto simp: resolver_ipc_assembly_begin_check_def Let_def split: if_splits)
  have "resolver_ipc_packet_inspect (Some p) True = (RESOLVER_IPC_CODEC_OK, \<lparr>ph_kind = RESOLVER_IPC_PACKET_RESPONSE_BEGIN, ph_query_id = as_query_id a\<rparr>)"
    using begin_packet.decode_inspect assms(3) q by (simp add: resolver_ipc_response_begin_decode_def)
  then have "assembly_consume cfg (True, True) (Some p) a b = Some (RESOLVER_IPC_ASSEMBLY_OK, a', b1)"
    using assms(2) c by (intro consume_step) auto
  moreover have "assembly_ok cfg a'" using begin_consume_ok [OF assms(1,2) c] by blast
  moreover have a1: "a1 = a\<lparr>as_payload := arrays_payload a (rb_cname_count x) (rb_record_count x), as_dynamic_bytes := arrays_size cfg (as_query_type a) (rb_cname_count x) (rb_record_count x)\<rparr>"
      "histograms_ok b1 = histograms_ok b"
    using allocate_cases [OF al] by auto
  moreover have "begin_of a' = x" using q by (simp add: begin_of_def a'_def a1 arrays_payload_def)
  moreover have "as_received_cname_count a = 0" "as_received_record_count a = 0" using assms(1,2) by (simp_all add: assembly_ok_def)
  ultimately show ?thesis by (intro exI [of _ a'] exI [of _ b1]) (simp add: a'_def)
qed

lemma end_step:
  assumes "assembly_ok cfg a" "as_state a = RESOLVER_IPC_ASSEMBLY_STATE_END" "histograms_ok b"
    and "resolver_ipc_response_end_decode (Some p) True = (RESOLVER_IPC_CODEC_OK, x)"
    and "re_query_id x = as_query_id a" "re_cname_count x = as_declared_cname_count a" "re_record_count x = as_declared_record_count a"
    and "resolver_ipc_assembly_complete_check a = Some True"
  shows "\<exists>a' b'. assembly_consume cfg alloc (Some p) a b = Some (RESOLVER_IPC_ASSEMBLY_COMPLETE, a', b')
    \<and> a' = a\<lparr>as_payload := (as_payload a)\<lparr>ap_cname_count := as_declared_cname_count a, ap_record_count := as_declared_record_count a\<rparr>, as_state := RESOLVER_IPC_ASSEMBLY_STATE_COMPLETE\<rparr>
    \<and> histograms_ok b'"
proof -
  have a: "as_received_cname_count a = as_declared_cname_count a" "as_received_record_count a = as_declared_record_count a"
    using assms(1,2) by (simp_all add: assembly_ok_def)
  define a1 where "a1 = a\<lparr>as_payload := (as_payload a)\<lparr>ap_cname_count := as_declared_cname_count a, ap_record_count := as_declared_record_count a\<rparr>\<rparr>"
  obtain b1 where b1: "resolver_ipc_assembly_metrics_terminal_record a1 RESOLVER_IPC_ASSEMBLY_COMPLETE b = Some b1" "histograms_ok b1"
    using terminal_record_defined [OF assms(3)] by blast
  have "resolver_ipc_assembly_end_consume (Some p) a b = Some (RESOLVER_IPC_ASSEMBLY_COMPLETE, a1\<lparr>as_state := RESOLVER_IPC_ASSEMBLY_STATE_COMPLETE\<rparr>, b1)"
    using assms(4-8) a b1(1) by (simp add: resolver_ipc_assembly_end_consume_def Let_def a1_def [symmetric])
  moreover have "resolver_ipc_packet_inspect (Some p) True = (RESOLVER_IPC_CODEC_OK, \<lparr>ph_kind = RESOLVER_IPC_PACKET_RESPONSE_END, ph_query_id = as_query_id a\<rparr>)"
    using end_packet.decode_inspect assms(4,5) by (simp add: resolver_ipc_response_end_decode_def)
  ultimately have "assembly_consume cfg alloc (Some p) a b = Some (RESOLVER_IPC_ASSEMBLY_COMPLETE, a1\<lparr>as_state := RESOLVER_IPC_ASSEMBLY_STATE_COMPLETE\<rparr>, b1)"
    using assms(2) by (intro consume_step) auto
  then show ?thesis using b1(2) by (simp add: a1_def)
qed

text \<open>Consuming packets in order, as long as they are accepted.\<close>

fun assembly_deliver ::
  "assembly_config \<Rightarrow> bytes list \<Rightarrow> resolver_ipc_assembly \<Rightarrow> resolver_ipc_assembly_budget \<Rightarrow>
     (resolver_ipc_assembly_status \<times> resolver_ipc_assembly \<times> resolver_ipc_assembly_budget) option" where
  "assembly_deliver cfg [] a b = Some (RESOLVER_IPC_ASSEMBLY_OK, a, b)"
| "assembly_deliver cfg (p # ps) a b =
     (case assembly_consume cfg (True, True) (Some p) a b of
        None \<Rightarrow> None
      | Some (st, a, b) \<Rightarrow> if st = RESOLVER_IPC_ASSEMBLY_OK then assembly_deliver cfg ps a b else Some (st, a, b))"

lemma deliver_append:
  "assembly_deliver cfg ps a b = Some (RESOLVER_IPC_ASSEMBLY_OK, a', b') \<Longrightarrow> assembly_deliver cfg (ps @ qs) a b = assembly_deliver cfg qs a' b'"
  by (induction ps arbitrary: a b) (auto split: option.splits prod.splits if_splits)

section \<open>Complete responses\<close>

text \<open>Packets that carry the elements of a list with consecutive indices.\<close>

fun numbered :: "(bytes option \<Rightarrow> bool \<Rightarrow> resolver_ipc_codec_status \<times> 'x) \<Rightarrow> (nat \<Rightarrow> 'a \<Rightarrow> 'x) \<Rightarrow> nat \<Rightarrow> 'a list \<Rightarrow> bytes list \<Rightarrow> bool" where
  "numbered decode mk i (x # xs) (p # ps) \<longleftrightarrow> decode (Some p) True = (RESOLVER_IPC_CODEC_OK, mk i x) \<and> numbered decode mk (Suc i) xs ps"
| "numbered decode mk i xs ps \<longleftrightarrow> xs = [] \<and> ps = []"

definition cname_message :: "u64 \<Rightarrow> nat \<Rightarrow> dns_cname_record \<Rightarrow> resolver_ipc_response_cname" where
  "cname_message query_id i c = \<lparr>rc_record = c, rc_index = of_nat i, rc_query_id = query_id\<rparr>"

definition address_message :: "u64 \<Rightarrow> nat \<Rightarrow> dns_address_record \<Rightarrow> resolver_ipc_response_address" where
  "address_message query_id i r = \<lparr>ra_index = of_nat i, ra_query_id = query_id, ra_record = r\<rparr>"

definition srv_message :: "u64 \<Rightarrow> nat \<Rightarrow> dns_srv_record \<Rightarrow> resolver_ipc_response_srv" where
  "srv_message query_id i r = \<lparr>rv_index = of_nat i, rv_query_id = query_id, rv_record = r\<rparr>"

definition stage :: "resolver_ipc_assembly \<Rightarrow> bool" where
  "stage a \<longleftrightarrow> as_state a =
     (if as_received_cname_count a < as_declared_cname_count a then RESOLVER_IPC_ASSEMBLY_STATE_CNAME
      else if as_received_record_count a < as_declared_record_count a then RESOLVER_IPC_ASSEMBLY_STATE_RECORD else RESOLVER_IPC_ASSEMBLY_STATE_END)"

lemma chain_ok_append: "chain_ok name os (cs @ ds) \<Longrightarrow> chain_ok name os cs"
  by (induction name os cs rule: chain_ok.induct) auto

lemma u16_index: "i < 65536 \<Longrightarrow> unat (of_nat i :: u16) = i"
  by (simp add: unat_of_nat_small)

lemma cnames_delivered:
  assumes "numbered resolver_ipc_response_cname_decode (cname_message (as_query_id a)) (as_received_cname_count a) cs ps"
    and "assembly_ok cfg a" "stage a" "as_received_record_count a = 0" "as_declared_cname_count a = as_received_cname_count a + length cs" "as_declared_cname_count a \<le> DNS_CNAME_DEPTH_LIMIT"
    and "chain_ok (ap_question_name (as_payload a)) [] (received_cnames a @ cs)"
  shows "\<exists>a'. assembly_deliver cfg ps a b = Some (RESOLVER_IPC_ASSEMBLY_OK, a', b) \<and> same_request a a' \<and> assembly_ok cfg a' \<and> stage a'
    \<and> received_cnames a' = received_cnames a @ cs \<and> as_received_cname_count a' = as_declared_cname_count a \<and> as_received_record_count a' = 0"
  using assms
proof (induction cs arbitrary: a ps)
  case Nil
  then show ?case by (cases ps) (simp_all add: same_request_refl)
next
  case (Cons c cs)
  then obtain p qs where p: "ps = p # qs" "resolver_ipc_response_cname_decode (Some p) True = (RESOLVER_IPC_CODEC_OK, cname_message (as_query_id a) (as_received_cname_count a) c)"
      "numbered resolver_ipc_response_cname_decode (cname_message (as_query_id a)) (Suc (as_received_cname_count a)) cs qs"
    by (cases ps) auto
  have st: "as_state a = RESOLVER_IPC_ASSEMBLY_STATE_CNAME" using Cons.prems(3,5) by (simp add: stage_def)
  have ch: "chain_ok (ap_question_name (as_payload a)) [] (received_cnames a @ [c])"
    using Cons.prems(7) chain_ok_append [of _ _ "received_cnames a @ [c]" cs] by simp
  obtain a1 where a1: "assembly_consume cfg (True, True) (Some p) a b = Some (RESOLVER_IPC_ASSEMBLY_OK, a1, b)" "same_request a a1" "assembly_ok cfg a1"
      "received_cnames a1 = received_cnames a @ [c]" "as_received_cname_count a1 = Suc (as_received_cname_count a)" "as_received_record_count a1 = 0"
      "as_state a1 = (if Suc (as_received_cname_count a) = as_declared_cname_count a
         then (if as_declared_record_count a > 0 then RESOLVER_IPC_ASSEMBLY_STATE_RECORD else RESOLVER_IPC_ASSEMBLY_STATE_END) else RESOLVER_IPC_ASSEMBLY_STATE_CNAME)"
    using cname_step [OF Cons.prems(2) st p(2), of "(True, True)" b] ch Cons.prems(4-6) by (auto simp: cname_message_def u16_index)
  note s = same_request_D [OF a1(2)]
  have "stage a1" using a1(5,6,7) Cons.prems(5) s by (auto simp: stage_def)
  then obtain a' where "assembly_deliver cfg qs a1 b = Some (RESOLVER_IPC_ASSEMBLY_OK, a', b)" "same_request a1 a'" "assembly_ok cfg a'" "stage a'"
      "received_cnames a' = received_cnames a1 @ cs" "as_received_cname_count a' = as_declared_cname_count a1" "as_received_record_count a' = 0"
    using Cons.IH [of a1 qs] p(3) a1 Cons.prems(5-7) s by auto
  then show ?case using p(1) a1(1,2,4) s same_request_trans by (intro exI [of _ a']) auto
qed

lemma addresses_delivered:
  assumes "numbered resolver_ipc_response_address_decode (address_message (as_query_id a)) (as_received_record_count a) rs ps"
    and "assembly_ok cfg a" "stage a" "as_received_cname_count a = as_declared_cname_count a" "as_declared_record_count a = as_received_record_count a + length rs"
      "as_declared_record_count a \<le> DNS_ADDRESS_RECORD_LIMIT" "as_query_type a \<noteq> ns_t_srv"
    and "\<forall>r \<in> set rs. addr_family (ar_address r) = (if as_query_type a = ns_t_a then AF_INET else AF_INET6)
      \<and> ar_effective_ttl r = resolver_ipc_assembly_ttl_expected (ar_record_ttl r) (chain_ttl (received_cnames a))"
  shows "\<exists>a'. assembly_deliver cfg ps a b = Some (RESOLVER_IPC_ASSEMBLY_OK, a', b) \<and> same_request a a' \<and> assembly_ok cfg a'
    \<and> as_state a' = RESOLVER_IPC_ASSEMBLY_STATE_END \<and> received_cnames a' = received_cnames a \<and> received_addresses a' = received_addresses a @ rs"
  using assms
proof (induction rs arbitrary: a ps)
  case Nil
  then show ?case by (cases ps) (simp_all add: same_request_refl stage_def)
next
  case (Cons r rs)
  then obtain p qs where p: "ps = p # qs" "resolver_ipc_response_address_decode (Some p) True = (RESOLVER_IPC_CODEC_OK, address_message (as_query_id a) (as_received_record_count a) r)"
      "numbered resolver_ipc_response_address_decode (address_message (as_query_id a)) (Suc (as_received_record_count a)) rs qs"
    by (cases ps) auto
  have st: "as_state a = RESOLVER_IPC_ASSEMBLY_STATE_RECORD" using Cons.prems(3-5) by (simp add: stage_def)
  obtain a1 where a1: "assembly_consume cfg (True, True) (Some p) a b = Some (RESOLVER_IPC_ASSEMBLY_OK, a1, b)" "same_request a a1" "assembly_ok cfg a1"
      "received_cnames a1 = received_cnames a" "received_addresses a1 = received_addresses a @ [r]" "as_received_record_count a1 = Suc (as_received_record_count a)"
      "as_state a1 = (if Suc (as_received_record_count a) = as_declared_record_count a then RESOLVER_IPC_ASSEMBLY_STATE_END else RESOLVER_IPC_ASSEMBLY_STATE_RECORD)"
    using address_step [OF Cons.prems(2) st Cons.prems(7) p(2), of "(True, True)" b] Cons.prems(5,6,8) by (auto simp: address_message_def u16_index)
  note s = same_request_D [OF a1(2)]
  have "as_received_cname_count a1 = as_declared_cname_count a1" using a1(3,7) by (auto simp: assembly_ok_def split: if_splits)
  moreover from this have "stage a1" using a1(6,7) Cons.prems(5) s by (auto simp: stage_def)
  ultimately obtain a' where "assembly_deliver cfg qs a1 b = Some (RESOLVER_IPC_ASSEMBLY_OK, a', b)" "same_request a1 a'" "assembly_ok cfg a'"
      "as_state a' = RESOLVER_IPC_ASSEMBLY_STATE_END" "received_cnames a' = received_cnames a1" "received_addresses a' = received_addresses a1 @ rs"
    using Cons.IH [of a1 qs] p(3) a1 Cons.prems(5-8) s by auto
  then show ?case using p(1) a1(1,2,4,5) same_request_trans by (intro exI [of _ a']) auto
qed

lemma srvs_delivered:
  assumes "numbered resolver_ipc_response_srv_decode (srv_message (as_query_id a)) (as_received_record_count a) rs ps"
    and "assembly_ok cfg a" "stage a" "as_received_cname_count a = as_declared_cname_count a" "as_declared_record_count a = as_received_record_count a + length rs"
      "as_declared_record_count a \<le> DNS_SRV_RECORD_LIMIT" "as_query_type a = ns_t_srv"
    and "\<forall>r \<in> set rs. resolver_ipc_assembly_name_normalized (srv_target r)
      \<and> srv_effective_ttl r = resolver_ipc_assembly_ttl_expected (srv_record_ttl r) (chain_ttl (received_cnames a))"
  shows "\<exists>a'. assembly_deliver cfg ps a b = Some (RESOLVER_IPC_ASSEMBLY_OK, a', b) \<and> same_request a a' \<and> assembly_ok cfg a'
    \<and> as_state a' = RESOLVER_IPC_ASSEMBLY_STATE_END \<and> received_cnames a' = received_cnames a \<and> received_records a' = received_records a @ rs"
  using assms
proof (induction rs arbitrary: a ps)
  case Nil
  then show ?case by (cases ps) (simp_all add: same_request_refl stage_def)
next
  case (Cons r rs)
  then obtain p qs where p: "ps = p # qs" "resolver_ipc_response_srv_decode (Some p) True = (RESOLVER_IPC_CODEC_OK, srv_message (as_query_id a) (as_received_record_count a) r)"
      "numbered resolver_ipc_response_srv_decode (srv_message (as_query_id a)) (Suc (as_received_record_count a)) rs qs"
    by (cases ps) auto
  have st: "as_state a = RESOLVER_IPC_ASSEMBLY_STATE_RECORD" using Cons.prems(3-5) by (simp add: stage_def)
  obtain a1 where a1: "assembly_consume cfg (True, True) (Some p) a b = Some (RESOLVER_IPC_ASSEMBLY_OK, a1, b)" "same_request a a1" "assembly_ok cfg a1"
      "received_cnames a1 = received_cnames a" "received_records a1 = received_records a @ [r]" "as_received_record_count a1 = Suc (as_received_record_count a)"
      "as_state a1 = (if Suc (as_received_record_count a) = as_declared_record_count a then RESOLVER_IPC_ASSEMBLY_STATE_END else RESOLVER_IPC_ASSEMBLY_STATE_RECORD)"
    using srv_step [OF Cons.prems(2) st Cons.prems(7) p(2), of "(True, True)" b] Cons.prems(5,6,8) by (auto simp: srv_message_def u16_index)
  note s = same_request_D [OF a1(2)]
  have "as_received_cname_count a1 = as_declared_cname_count a1" using a1(3,7) by (auto simp: assembly_ok_def split: if_splits)
  moreover from this have "stage a1" using a1(6,7) Cons.prems(5) s by (auto simp: stage_def)
  ultimately obtain a' where "assembly_deliver cfg qs a1 b = Some (RESOLVER_IPC_ASSEMBLY_OK, a', b)" "same_request a1 a'" "assembly_ok cfg a'"
      "as_state a' = RESOLVER_IPC_ASSEMBLY_STATE_END" "received_cnames a' = received_cnames a1" "received_records a' = received_records a1 @ rs"
    using Cons.IH [of a1 qs] p(3) a1 Cons.prems(5-8) s by auto
  then show ?case using p(1) a1(1,2,4,5) same_request_trans by (intro exI [of _ a']) auto
qed

definition response_complete :: "resolver_ipc_response_begin \<Rightarrow> dns_cname_record list \<Rightarrow> bool" where
  "response_complete x cs \<longleftrightarrow>
     (if cs = [] then rb_status x \<in> {RESOLVER_IPC_LOOKUP_PERMANENT_ERROR, RESOLVER_IPC_LOOKUP_TEMPORARY_ERROR} \<or> rb_canonical_name x = rb_question_name x
      else rb_canonical_name x = cn_target (last cs))
     \<and> (let n = rb_negative x in neg_valid n \<longrightarrow>
          resolver_ipc_assembly_name_normalized (neg_owner n) \<and> resolver_name_encloses (Some (neg_owner n)) (Some (rb_canonical_name x))
          \<and> neg_effective_ttl n = resolver_ipc_assembly_ttl_expected (min (neg_minimum n) (neg_record_ttl n)) (chain_ttl cs))"

lemma last_take_nth: "0 < n \<Longrightarrow> n \<le> length xs \<Longrightarrow> last (take n xs) = xs ! (n - 1)"
  by (subst last_conv_nth) (auto simp: min_def)

lemma complete_check_eq:
  assumes "assembly_ok cfg a" "as_state a = RESOLVER_IPC_ASSEMBLY_STATE_END"
  shows "resolver_ipc_assembly_complete_check a = Some (response_complete (begin_of a) (received_cnames a))"
proof -
  have a: "response_ok cfg a" "as_received_cname_count a = as_declared_cname_count a"
    using assms by (simp_all add: assembly_ok_def)
  then have ttl: "as_chain_ttl a = chain_ttl (received_cnames a)" by (simp add: response_ok_def)
  have l: "received_cnames a = [] \<longleftrightarrow> as_declared_cname_count a = 0"
      "as_declared_cname_count a > 0 \<Longrightarrow> array_get (ap_cnames (as_payload a)) (as_declared_cname_count a - 1) = Some (last (received_cnames a))"
    using a declared_bounds [OF a(1)]
    by (auto simp: received_cnames_def response_ok_def array_of_def array_get_def last_take_nth split: option.splits)
  show ?thesis
    unfolding resolver_ipc_assembly_complete_check_def Let_def ttl response_complete_def
    by (cases "as_declared_cname_count a = 0") (auto simp: l(1) l(2) [unfolded One_nat_def] begin_of_def min_def)
qed

text \<open>The arrays of a response: absent when empty.\<close>

definition response_array :: "'a list \<Rightarrow> 'a list option" where
  "response_array xs = (if xs = [] then None else Some xs)"

lemma completed_payload:
  assumes "assembly_ok cfg a" "as_state a = RESOLVER_IPC_ASSEMBLY_STATE_END"
    and "p = (as_payload a)\<lparr>ap_cname_count := as_declared_cname_count a, ap_record_count := as_declared_record_count a\<rparr>"
  shows "as_query_type a \<noteq> ns_t_srv \<Longrightarrow> payload_address p =
      \<lparr>ad_addresses = response_array (received_addresses a), ad_canonical_name = rb_canonical_name (begin_of a), ad_cnames = response_array (received_cnames a),
       ad_negative = rb_negative (begin_of a), ad_question_name = rb_question_name (begin_of a), ad_rcode = rb_rcode (begin_of a)\<rparr>"
    and "as_query_type a = ns_t_srv \<Longrightarrow> payload_srv p =
      \<lparr>sr_canonical_name = rb_canonical_name (begin_of a), sr_cnames = response_array (received_cnames a), sr_negative = rb_negative (begin_of a),
       sr_question_name = rb_question_name (begin_of a), sr_rcode = rb_rcode (begin_of a), sr_records = response_array (received_records a)\<rparr>"
proof -
  have a: "response_ok cfg a" "as_received_cname_count a = as_declared_cname_count a" "as_received_record_count a = as_declared_record_count a"
    using assms(1,2) by (simp_all add: assembly_ok_def)
  have c: "array_prefix (as_declared_cname_count a) (ap_cnames (as_payload a)) = response_array (received_cnames a)"
    using a(1,2) declared_bounds [OF a(1)]
    by (auto simp: array_prefix_def response_array_def received_cnames_def response_ok_def array_of_def split: option.splits)
  show "payload_address p =
      \<lparr>ad_addresses = response_array (received_addresses a), ad_canonical_name = rb_canonical_name (begin_of a), ad_cnames = response_array (received_cnames a),
       ad_negative = rb_negative (begin_of a), ad_question_name = rb_question_name (begin_of a), ad_rcode = rb_rcode (begin_of a)\<rparr>" if "as_query_type a \<noteq> ns_t_srv"
  proof -
    have "array_prefix (as_declared_record_count a) (ap_addresses (as_payload a)) = response_array (received_addresses a)"
      using a(1,3) that by (auto simp: array_prefix_def response_array_def received_addresses_def response_ok_def array_of_def split: option.splits)
    then show ?thesis by (simp add: payload_address_def assms(3) c begin_of_def)
  qed
  show "payload_srv p =
      \<lparr>sr_canonical_name = rb_canonical_name (begin_of a), sr_cnames = response_array (received_cnames a), sr_negative = rb_negative (begin_of a),
       sr_question_name = rb_question_name (begin_of a), sr_rcode = rb_rcode (begin_of a), sr_records = response_array (received_records a)\<rparr>" if "as_query_type a = ns_t_srv"
  proof -
    have "array_prefix (as_declared_record_count a) (ap_records (as_payload a)) = response_array (received_records a)"
      using a(1,3) that by (auto simp: array_prefix_def response_array_def received_records_def response_ok_def array_of_def split: option.splits)
    then show ?thesis by (simp add: payload_srv_def assms(3) c begin_of_def)
  qed
qed

definition response_shape :: "resolver_ipc_assembly \<Rightarrow> resolver_ipc_response_begin \<Rightarrow> dns_cname_record list \<Rightarrow> nat \<Rightarrow> bool" where
  "response_shape a x cs n \<longleftrightarrow>
     resolver_ipc_assembly_begin_check a x \<and> rb_cname_count x = length cs \<and> rb_record_count x = n \<and> chain_ok (rb_question_name x) [] cs \<and> response_complete x cs"

definition addresses_ok :: "u16 \<Rightarrow> dns_cname_record list \<Rightarrow> dns_address_record list \<Rightarrow> bool" where
  "addresses_ok query_type cs rs \<longleftrightarrow>
     (\<forall>r \<in> set rs. addr_family (ar_address r) = (if query_type = ns_t_a then AF_INET else AF_INET6)
        \<and> ar_effective_ttl r = resolver_ipc_assembly_ttl_expected (ar_record_ttl r) (chain_ttl cs))"

definition srvs_ok :: "dns_cname_record list \<Rightarrow> dns_srv_record list \<Rightarrow> bool" where
  "srvs_ok cs rs \<longleftrightarrow>
     (\<forall>r \<in> set rs. resolver_ipc_assembly_name_normalized (srv_target r)
        \<and> srv_effective_ttl r = resolver_ipc_assembly_ttl_expected (srv_record_ttl r) (chain_ttl cs))"

lemma opening_delivered:
  assumes "assembly_ok cfg a" "as_state a = RESOLVER_IPC_ASSEMBLY_STATE_BEGIN" "histograms_ok b" "resolver_ipc_response_begin_decode (Some pb) True = (RESOLVER_IPC_CODEC_OK, x)"
    and "response_shape a x cs n" "room cfg (as_query_type a) (length cs) n b"
    and "numbered resolver_ipc_response_cname_decode (cname_message (as_query_id a)) 0 cs pcs"
  obtains a' b' where "assembly_deliver cfg (pb # pcs) a b = Some (RESOLVER_IPC_ASSEMBLY_OK, a', b')" "assembly_ok cfg a'" "stage a'" "begin_of a' = x" "histograms_ok b'"
    "received_cnames a' = cs" "as_received_cname_count a' = as_declared_cname_count a'" "as_received_record_count a' = 0"
    "as_query_id a' = as_query_id a" "as_query_type a' = as_query_type a" "as_expected_name a' = as_expected_name a"
    "as_declared_cname_count a' = length cs" "as_declared_record_count a' = n" "resolver_ipc_response_count_valid (as_query_type a) (length cs) n"
proof -
  have x: "resolver_ipc_assembly_begin_check a x" "rb_cname_count x = length cs" "rb_record_count x = n" "chain_ok (rb_question_name x) [] cs"
    using assms(5) by (simp_all add: response_shape_def)
  have q: "rb_query_id x = as_query_id a" "rb_query_type x = as_query_type a"
    using x(1) by (auto simp: resolver_ipc_assembly_begin_check_def Let_def split: if_splits)
  have "begin_ok x" using begin_packet.decode_iff [of pb x] assms(4) by (simp add: resolver_ipc_response_begin_decode_def)
  then have cv: "resolver_ipc_response_count_valid (as_query_type a) (length cs) n" by (simp add: begin_ok_def q x)
  obtain a1 b1 where a1: "assembly_consume cfg (True, True) (Some pb) a b = Some (RESOLVER_IPC_ASSEMBLY_OK, a1, b1)" "assembly_ok cfg a1"
      "begin_of a1 = x" "as_expected_name a1 = as_expected_name a" "histograms_ok b1 = histograms_ok b" "as_received_cname_count a1 = 0" "as_received_record_count a1 = 0"
      "as_state a1 = (if rb_cname_count x > 0 then RESOLVER_IPC_ASSEMBLY_STATE_CNAME
        else if rb_record_count x > 0 then RESOLVER_IPC_ASSEMBLY_STATE_RECORD else RESOLVER_IPC_ASSEMBLY_STATE_END)"
    using begin_step [OF assms(1,2,4) x(1), of b] assms(6) x by auto
  have f: "as_query_id a1 = as_query_id a" "as_query_type a1 = as_query_type a" "as_declared_cname_count a1 = length cs" "as_declared_record_count a1 = n"
      "ap_question_name (as_payload a1) = rb_question_name x" "received_cnames a1 = []"
    using a1(3) q x by (auto simp: begin_of_def received_cnames_def a1(6))
  have "stage a1" by (simp add: stage_def a1 f x)
  moreover have "length cs \<le> DNS_CNAME_DEPTH_LIMIT" using cv by (auto simp: resolver_ipc_response_count_valid_def split: if_splits)
  ultimately obtain a2 where a2: "assembly_deliver cfg pcs a1 b1 = Some (RESOLVER_IPC_ASSEMBLY_OK, a2, b1)" "same_request a1 a2" "assembly_ok cfg a2" "stage a2"
      "received_cnames a2 = cs" "as_received_cname_count a2 = as_declared_cname_count a1" "as_received_record_count a2 = 0"
    using cnames_delivered [of a1 cs pcs cfg b1] assms(7) a1(2,6,7) f x(4) by auto
  have "assembly_deliver cfg (pb # pcs) a b = Some (RESOLVER_IPC_ASSEMBLY_OK, a2, b1)" using a1(1) a2(1) by simp
  moreover have "begin_of a2 = x" "as_expected_name a2 = as_expected_name a" using a2(2) a1(3,4) by (simp_all add: same_request_def)
  ultimately show thesis
    using that a2(3-7) same_request_D [OF a2(2)] f a1(5) assms(3) cv by metis
qed

lemma closing_delivered:
  assumes "assembly_ok cfg a" "as_state a = RESOLVER_IPC_ASSEMBLY_STATE_END" "histograms_ok b" "response_complete (begin_of a) (received_cnames a)"
    and "resolver_ipc_response_end_decode (Some pe) True = (RESOLVER_IPC_CODEC_OK, \<lparr>re_cname_count = as_declared_cname_count a, re_query_id = as_query_id a, re_record_count = as_declared_record_count a\<rparr>)"
  shows "\<exists>a' b'. assembly_deliver cfg [pe] a b = Some (RESOLVER_IPC_ASSEMBLY_COMPLETE, a', b') \<and> as_state a' = RESOLVER_IPC_ASSEMBLY_STATE_COMPLETE
    \<and> as_status a' = as_status a \<and> as_completed_at a' = as_completed_at a \<and> as_query_type a' = as_query_type a \<and> as_expected_name a' = as_expected_name a
    \<and> as_payload a' = (as_payload a)\<lparr>ap_cname_count := as_declared_cname_count a, ap_record_count := as_declared_record_count a\<rparr>"
  using end_step [OF assms(1-3,5), of "(True, True)"] complete_check_eq [OF assms(1,2)] assms(4) by auto

lemma address_response_delivered:
  assumes "assembly_ok cfg a" "as_state a = RESOLVER_IPC_ASSEMBLY_STATE_BEGIN" "histograms_ok b" "resolver_ipc_response_begin_decode (Some pb) True = (RESOLVER_IPC_CODEC_OK, x)"
    and "response_shape a x cs (length rs)" "room cfg (as_query_type a) (length cs) (length rs) b"
    and "numbered resolver_ipc_response_cname_decode (cname_message (as_query_id a)) 0 cs pcs" "as_query_type a \<noteq> ns_t_srv"
    and "numbered resolver_ipc_response_address_decode (address_message (as_query_id a)) 0 rs prs" "addresses_ok (as_query_type a) cs rs"
    and "resolver_ipc_response_end_decode (Some pe) True = (RESOLVER_IPC_CODEC_OK, \<lparr>re_cname_count = length cs, re_query_id = as_query_id a, re_record_count = length rs\<rparr>)"
  shows "\<exists>a' b'. assembly_deliver cfg ((pb # pcs) @ prs @ [pe]) a b = Some (RESOLVER_IPC_ASSEMBLY_COMPLETE, a', b')
    \<and> as_state a' = RESOLVER_IPC_ASSEMBLY_STATE_COMPLETE \<and> as_status a' = rb_status x \<and> as_completed_at a' = rb_completed_at x
    \<and> as_query_type a' = as_query_type a \<and> as_expected_name a' = as_expected_name a
    \<and> payload_address (as_payload a') =
        \<lparr>ad_addresses = response_array rs, ad_canonical_name = rb_canonical_name x, ad_cnames = response_array cs, ad_negative = rb_negative x,
         ad_question_name = rb_question_name x, ad_rcode = rb_rcode x\<rparr>"
proof -
  obtain a1 b1 where a1: "assembly_deliver cfg (pb # pcs) a b = Some (RESOLVER_IPC_ASSEMBLY_OK, a1, b1)" "assembly_ok cfg a1" "stage a1" "begin_of a1 = x" "histograms_ok b1"
    "received_cnames a1 = cs" "as_received_cname_count a1 = as_declared_cname_count a1" "as_received_record_count a1 = 0"
    "as_query_id a1 = as_query_id a" "as_query_type a1 = as_query_type a" "as_expected_name a1 = as_expected_name a"
    "as_declared_cname_count a1 = length cs" "as_declared_record_count a1 = length rs" "resolver_ipc_response_count_valid (as_query_type a) (length cs) (length rs)"
    using opening_delivered [OF assms(1-7)] by blast
  have "length rs \<le> DNS_ADDRESS_RECORD_LIMIT" using a1(14) assms(8) by (auto simp: resolver_ipc_response_count_valid_def split: if_splits)
  then obtain a2 where a2: "assembly_deliver cfg prs a1 b1 = Some (RESOLVER_IPC_ASSEMBLY_OK, a2, b1)" "same_request a1 a2" "assembly_ok cfg a2"
      "as_state a2 = RESOLVER_IPC_ASSEMBLY_STATE_END" "received_cnames a2 = cs" "received_addresses a2 = rs"
    using addresses_delivered [of a1 rs prs cfg b1] assms(8-10) a1 by (auto simp: addresses_ok_def received_addresses_def)
  note s = same_request_D [OF a2(2)]
  have b2: "begin_of a2 = x" "as_expected_name a2 = as_expected_name a" using a2(2) a1(4,11) by (simp_all add: same_request_def)
  have e: "resolver_ipc_response_end_decode (Some pe) True
      = (RESOLVER_IPC_CODEC_OK, \<lparr>re_cname_count = as_declared_cname_count a2, re_query_id = as_query_id a2, re_record_count = as_declared_record_count a2\<rparr>)"
    using assms(11) s a1(9,12,13) by simp
  have rc: "response_complete (begin_of a2) (received_cnames a2)" using assms(5) b2 a2(5) by (simp add: response_shape_def)
  obtain a' b' where a': "assembly_deliver cfg [pe] a2 b1 = Some (RESOLVER_IPC_ASSEMBLY_COMPLETE, a', b')" "as_state a' = RESOLVER_IPC_ASSEMBLY_STATE_COMPLETE"
      "as_status a' = as_status a2" "as_completed_at a' = as_completed_at a2" "as_query_type a' = as_query_type a2" "as_expected_name a' = as_expected_name a2"
      "as_payload a' = (as_payload a2)\<lparr>ap_cname_count := as_declared_cname_count a2, ap_record_count := as_declared_record_count a2\<rparr>"
    using closing_delivered [OF a2(3,4) a1(5) rc e] by blast
  have "as_status a2 = rb_status x" "as_completed_at a2 = rb_completed_at x" using b2(1) by (auto simp: begin_of_def)
  moreover have "assembly_deliver cfg ((pb # pcs) @ prs @ [pe]) a b = Some (RESOLVER_IPC_ASSEMBLY_COMPLETE, a', b')"
    using deliver_append [OF a1(1)] deliver_append [OF a2(1)] a'(1) by metis
  moreover have "payload_address (as_payload a') =
        \<lparr>ad_addresses = response_array rs, ad_canonical_name = rb_canonical_name x, ad_cnames = response_array cs, ad_negative = rb_negative x,
         ad_question_name = rb_question_name x, ad_rcode = rb_rcode x\<rparr>"
    using completed_payload(1) [OF a2(3,4) a'(7)] assms(8) s a1(10) a2(5,6) b2 by simp
  ultimately show ?thesis using a' s a1(10) b2(2) by auto
qed

lemma srv_response_delivered:
  assumes "assembly_ok cfg a" "as_state a = RESOLVER_IPC_ASSEMBLY_STATE_BEGIN" "histograms_ok b" "resolver_ipc_response_begin_decode (Some pb) True = (RESOLVER_IPC_CODEC_OK, x)"
    and "response_shape a x cs (length rs)" "room cfg (as_query_type a) (length cs) (length rs) b"
    and "numbered resolver_ipc_response_cname_decode (cname_message (as_query_id a)) 0 cs pcs" "as_query_type a = ns_t_srv"
    and "numbered resolver_ipc_response_srv_decode (srv_message (as_query_id a)) 0 rs prs" "srvs_ok cs rs"
    and "resolver_ipc_response_end_decode (Some pe) True = (RESOLVER_IPC_CODEC_OK, \<lparr>re_cname_count = length cs, re_query_id = as_query_id a, re_record_count = length rs\<rparr>)"
  shows "\<exists>a' b'. assembly_deliver cfg ((pb # pcs) @ prs @ [pe]) a b = Some (RESOLVER_IPC_ASSEMBLY_COMPLETE, a', b')
    \<and> as_state a' = RESOLVER_IPC_ASSEMBLY_STATE_COMPLETE \<and> as_status a' = rb_status x \<and> as_completed_at a' = rb_completed_at x
    \<and> as_query_type a' = as_query_type a \<and> as_expected_name a' = as_expected_name a
    \<and> payload_srv (as_payload a') =
        \<lparr>sr_canonical_name = rb_canonical_name x, sr_cnames = response_array cs, sr_negative = rb_negative x,
         sr_question_name = rb_question_name x, sr_rcode = rb_rcode x, sr_records = response_array rs\<rparr>"
proof -
  obtain a1 b1 where a1: "assembly_deliver cfg (pb # pcs) a b = Some (RESOLVER_IPC_ASSEMBLY_OK, a1, b1)" "assembly_ok cfg a1" "stage a1" "begin_of a1 = x" "histograms_ok b1"
    "received_cnames a1 = cs" "as_received_cname_count a1 = as_declared_cname_count a1" "as_received_record_count a1 = 0"
    "as_query_id a1 = as_query_id a" "as_query_type a1 = as_query_type a" "as_expected_name a1 = as_expected_name a"
    "as_declared_cname_count a1 = length cs" "as_declared_record_count a1 = length rs" "resolver_ipc_response_count_valid (as_query_type a) (length cs) (length rs)"
    using opening_delivered [OF assms(1-7)] by blast
  have "length rs \<le> DNS_SRV_RECORD_LIMIT" using a1(14) assms(8) by (auto simp: resolver_ipc_response_count_valid_def split: if_splits)
  then obtain a2 where a2: "assembly_deliver cfg prs a1 b1 = Some (RESOLVER_IPC_ASSEMBLY_OK, a2, b1)" "same_request a1 a2" "assembly_ok cfg a2"
      "as_state a2 = RESOLVER_IPC_ASSEMBLY_STATE_END" "received_cnames a2 = cs" "received_records a2 = rs"
    using srvs_delivered [of a1 rs prs cfg b1] assms(8-10) a1 by (auto simp: srvs_ok_def received_records_def)
  note s = same_request_D [OF a2(2)]
  have b2: "begin_of a2 = x" "as_expected_name a2 = as_expected_name a" using a2(2) a1(4,11) by (simp_all add: same_request_def)
  have e: "resolver_ipc_response_end_decode (Some pe) True
      = (RESOLVER_IPC_CODEC_OK, \<lparr>re_cname_count = as_declared_cname_count a2, re_query_id = as_query_id a2, re_record_count = as_declared_record_count a2\<rparr>)"
    using assms(11) s a1(9,12,13) by simp
  have rc: "response_complete (begin_of a2) (received_cnames a2)" using assms(5) b2 a2(5) by (simp add: response_shape_def)
  obtain a' b' where a': "assembly_deliver cfg [pe] a2 b1 = Some (RESOLVER_IPC_ASSEMBLY_COMPLETE, a', b')" "as_state a' = RESOLVER_IPC_ASSEMBLY_STATE_COMPLETE"
      "as_status a' = as_status a2" "as_completed_at a' = as_completed_at a2" "as_query_type a' = as_query_type a2" "as_expected_name a' = as_expected_name a2"
      "as_payload a' = (as_payload a2)\<lparr>ap_cname_count := as_declared_cname_count a2, ap_record_count := as_declared_record_count a2\<rparr>"
    using closing_delivered [OF a2(3,4) a1(5) rc e] by blast
  have "as_status a2 = rb_status x" "as_completed_at a2 = rb_completed_at x" using b2(1) by (auto simp: begin_of_def)
  moreover have "assembly_deliver cfg ((pb # pcs) @ prs @ [pe]) a b = Some (RESOLVER_IPC_ASSEMBLY_COMPLETE, a', b')"
    using deliver_append [OF a1(1)] deliver_append [OF a2(1)] a'(1) by metis
  moreover have "payload_srv (as_payload a') =
        \<lparr>sr_canonical_name = rb_canonical_name x, sr_cnames = response_array cs, sr_negative = rb_negative x,
         sr_question_name = rb_question_name x, sr_rcode = rb_rcode x, sr_records = response_array rs\<rparr>"
    using completed_payload(2) [OF a2(3,4) a'(7)] assms(8) s a1(10) a2(5,6) b2 by simp
  ultimately show ?thesis using a' s a1(10) b2(2) by auto
qed

section \<open>Delivery to a live assembly\<close>

text \<open>Consuming a packet neither reads nor writes the list of assemblies.\<close>

definition with_assemblies :: "(nat \<times> resolver_ipc_assembly) list \<Rightarrow> resolver_ipc_assembly_budget \<Rightarrow> resolver_ipc_assembly_budget" where
  "with_assemblies xs b = b\<lparr>ab_assemblies := xs\<rparr>"

lemma with_assemblies_fields [simp]:
  "ab_assemblies (with_assemblies xs b) = xs" "ab_owned_bytes (with_assemblies xs b) = ab_owned_bytes b" "ab_metrics (with_assemblies xs b) = ab_metrics b"
  "with_assemblies ys (with_assemblies xs b) = with_assemblies ys b"
  by (simp_all add: with_assemblies_def)

lemma with_assemblies_frame:
  "resolver_ipc_assembly_metrics_increment q k (with_assemblies xs b) = with_assemblies xs (resolver_ipc_assembly_metrics_increment q k b)"
  "budget_return n (with_assemblies xs b) = with_assemblies xs (budget_return n b)"
  "with_assemblies xs b\<lparr>ab_owned_bytes := n, ab_metrics := m\<rparr> = with_assemblies xs (b\<lparr>ab_owned_bytes := n, ab_metrics := m\<rparr>)"
  "with_assemblies xs b\<lparr>ab_metrics := m\<rparr> = with_assemblies xs (b\<lparr>ab_metrics := m\<rparr>)"
  by (simp_all add: with_assemblies_def resolver_ipc_assembly_metrics_increment_def budget_return_def Let_def split: prod.splits)

definition framed_result where
  "framed_result xs r = map_option (\<lambda>(st, a, b). (st, a, with_assemblies xs b)) r"

lemma framed_result_simps [simp]: "framed_result xs None = None" "framed_result xs (Some (st, a, b)) = Some (st, a, with_assemblies xs b)"
  by (simp_all add: framed_result_def)

lemma terminal_framed:
  "resolver_ipc_assembly_metrics_terminal_record a st (with_assemblies xs b) = map_option (with_assemblies xs) (resolver_ipc_assembly_metrics_terminal_record a st b)"
proof -
  define q where "q = resolver_ipc_assembly_metrics_query_type (as_query_type a)"
  show ?thesis
    unfolding resolver_ipc_assembly_metrics_terminal_record_def Let_def q_def [symmetric] with_assemblies_fields
    by (cases "metrics_size_histogram_observe (am_result_size (ab_metrics b) q) (as_dynamic_bytes a) (am_saturation_total (ab_metrics b))"; cases "st = RESOLVER_IPC_ASSEMBLY_COMPLETE")
      (simp_all add: with_assemblies_frame case_prod_beta)
qed

lemma fail_framed: "resolver_ipc_assembly_fail st a (with_assemblies xs b) = framed_result xs (resolver_ipc_assembly_fail st a b)"
  by (cases "resolver_ipc_assembly_metrics_terminal_record a st b")
    (simp_all add: resolver_ipc_assembly_fail_def resolver_ipc_assembly_data_clear_def terminal_framed with_assemblies_frame)

lemma begin_framed:
  "resolver_ipc_assembly_begin_consume cfg alloc pk a (with_assemblies xs b) =
     (case resolver_ipc_assembly_begin_consume cfg alloc pk a b of (st, a, b) \<Rightarrow> (st, a, with_assemblies xs b))"
proof -
  have al: "resolver_ipc_assembly_arrays_allocate cfg alloc c n a (with_assemblies xs b) =
     (case resolver_ipc_assembly_arrays_allocate cfg alloc c n a b of (st, a, b) \<Rightarrow> (st, a, with_assemblies xs b))" for c n
  proof -
    define cb where "cb = (if c > 0 then resolver_size_multiply DNS_CNAME_DEPTH_LIMIT (sizeof_cname_record (ac_cache cfg)) else Some 0)"
    define rb where "rb = resolver_size_multiply n (if as_query_type a = ns_t_srv then sizeof_srv_record (ac_cache cfg) else sizeof_address_record (ac_cache cfg))"
    note eq = resolver_ipc_assembly_arrays_allocate_def [of cfg alloc c n a, unfolded Let_def resolver_ipc_assembly_metrics_limit_record_def,
        folded cb_def rb_def, folded arrays_payload_def [unfolded Let_def]]
    show ?thesis
      unfolding eq by (cases "resolver_size_add (the cb) (the rb)") (simp_all add: with_assemblies_frame)
  qed
  show ?thesis by (simp add: resolver_ipc_assembly_begin_consume_def al split: prod.split)
qed

lemma end_framed: "resolver_ipc_assembly_end_consume pk a (with_assemblies xs b) = framed_result xs (resolver_ipc_assembly_end_consume pk a b)"
proof (cases "resolver_ipc_assembly_complete_check a")
  case None
  then show ?thesis by (simp add: resolver_ipc_assembly_end_consume_def split: prod.split)
next
  case (Some ok)
  define a1 where "a1 = a\<lparr>as_payload := (as_payload a)\<lparr>ap_cname_count := as_declared_cname_count a, ap_record_count := as_declared_record_count a\<rparr>\<rparr>"
  show ?thesis
    using Some by (cases "resolver_ipc_assembly_metrics_terminal_record a1 RESOLVER_IPC_ASSEMBLY_COMPLETE b")
      (simp_all add: resolver_ipc_assembly_end_consume_def terminal_framed Let_def a1_def [symmetric] split: prod.split)
qed

lemma keep_framed: "keep_budget (with_assemblies xs b) r = framed_result xs (keep_budget b r)"
  by (cases r) (auto simp: keep_budget_def)

lemma finish_framed:
  "(do { (st, a, b) \<leftarrow> framed_result xs r; if st = RESOLVER_IPC_ASSEMBLY_OK \<or> st = RESOLVER_IPC_ASSEMBLY_COMPLETE then Some (st, a, b) else resolver_ipc_assembly_fail st a b })
   = framed_result xs (do { (st, a, b) \<leftarrow> r; if st = RESOLVER_IPC_ASSEMBLY_OK \<or> st = RESOLVER_IPC_ASSEMBLY_COMPLETE then Some (st, a, b) else resolver_ipc_assembly_fail st a b })"
  by (cases r) (auto simp: fail_framed)

lemma consume_framed: "assembly_consume cfg alloc pk a (with_assemblies xs b) = framed_result xs (assembly_consume cfg alloc pk a b)"
proof -
  obtain i h where i: "resolver_ipc_packet_inspect pk True = (i, h)" by fastforce
  let ?r = "\<lambda>b. case as_state a of
      RESOLVER_IPC_ASSEMBLY_STATE_BEGIN \<Rightarrow>
        Some (if ph_kind h = RESOLVER_IPC_PACKET_RESPONSE_BEGIN then resolver_ipc_assembly_begin_consume cfg alloc pk a b
              else (RESOLVER_IPC_ASSEMBLY_PROTOCOL, a, b))
    | RESOLVER_IPC_ASSEMBLY_STATE_CNAME \<Rightarrow>
        keep_budget b (if ph_kind h = RESOLVER_IPC_PACKET_RESPONSE_CNAME then resolver_ipc_assembly_cname_consume pk a
                       else Some (RESOLVER_IPC_ASSEMBLY_PROTOCOL, a))
    | RESOLVER_IPC_ASSEMBLY_STATE_RECORD \<Rightarrow>
        keep_budget b (if as_query_type a = ns_t_srv
          then (if ph_kind h = RESOLVER_IPC_PACKET_RESPONSE_SRV then resolver_ipc_assembly_record_srv_consume pk a
                else Some (RESOLVER_IPC_ASSEMBLY_PROTOCOL, a))
          else (if ph_kind h = RESOLVER_IPC_PACKET_RESPONSE_ADDRESS then resolver_ipc_assembly_record_address_consume pk a
                else Some (RESOLVER_IPC_ASSEMBLY_PROTOCOL, a)))
    | RESOLVER_IPC_ASSEMBLY_STATE_END \<Rightarrow>
        (if ph_kind h = RESOLVER_IPC_PACKET_RESPONSE_END then resolver_ipc_assembly_end_consume pk a b
         else Some (RESOLVER_IPC_ASSEMBLY_PROTOCOL, a, b))
    | _ \<Rightarrow> Some (RESOLVER_IPC_ASSEMBLY_PROTOCOL, a, b)"
  have "?r (with_assemblies xs b) = framed_result xs (?r b)"
    by (cases "as_state a") (simp_all add: keep_framed end_framed begin_framed split: prod.split)
  then show ?thesis
    unfolding assembly_consume_def i prod.case by (simp add: fail_framed finish_framed del: resolver_ipc_assembly_state.case)
qed

fun packets_consume ::
  "assembly_config \<Rightarrow> nat \<Rightarrow> bytes list \<Rightarrow> resolver_ipc_assembly_budget \<Rightarrow> (resolver_ipc_assembly_status \<times> resolver_ipc_assembly_budget) option" where
  "packets_consume cfg p [] b = Some (RESOLVER_IPC_ASSEMBLY_OK, b)"
| "packets_consume cfg p (q # qs) b =
     (case resolver_ipc_assembly_packet_consume cfg (True, True) (Some p) (Some q) b of
        None \<Rightarrow> None
      | Some (st, b) \<Rightarrow> if st = RESOLVER_IPC_ASSEMBLY_OK then packets_consume cfg p qs b else Some (st, b))"

lemma deliver_framed: "assembly_deliver cfg qs a (with_assemblies xs b) = framed_result xs (assembly_deliver cfg qs a b)"
proof (induction qs arbitrary: a b)
  case (Cons q qs)
  then show ?case
    by (cases "assembly_consume cfg (True, True) (Some q) a b") (auto simp: consume_framed)
qed simp

lemma entry_put_twice: "entry_put p a (entry_put p c xs) = entry_put p a xs"
  by (induction p c xs rule: entry_put.induct) auto

lemma entry_put_of: "p \<in> fst ` set xs \<Longrightarrow> map_of (entry_put p a xs) p = Some a"
  by (induction p a xs rule: entry_put.induct) auto

lemma put_with: "assembly_put p a b = with_assemblies (entry_put p a (ab_assemblies b)) b"
  by (simp add: assembly_put_def with_assemblies_def)

lemma deliver_packets:
  assumes "assembly_at p b = Some a" "assembly_deliver cfg qs a b = Some (st, a', b')" "qs \<noteq> []"
  shows "packets_consume cfg p qs b = Some (st, with_assemblies (entry_put p a' (ab_assemblies b)) b')"
  using assms
proof (induction qs arbitrary: a b st b')
  case (Cons q qs)
  obtain s1 a1 b1 where c: "assembly_consume cfg (True, True) (Some q) a b = Some (s1, a1, b1)"
    using Cons.prems(2) by (auto split: option.splits)
  have k: "ab_assemblies b1 = ab_assemblies b"
  proof -
    have "Some (s1, a1, b1) = framed_result (ab_assemblies b) (Some (s1, a1, b1))"
      using consume_framed [of cfg "(True, True)" "Some q" a "ab_assemblies b" b] c by (simp add: with_assemblies_def)
    then show ?thesis by (metis framed_result_simps(2) option.inject prod.inject with_assemblies_fields(1))
  qed
  define b2 where "b2 = with_assemblies (entry_put p a1 (ab_assemblies b)) b1"
  have m: "p \<in> fst ` set (ab_assemblies b)" using Cons.prems(1) by (force simp: assembly_at_def dest: map_of_SomeD)
  then have at: "assembly_at p b2 = Some a1" by (simp add: assembly_at_def b2_def entry_put_of)
  have e: "resolver_ipc_assembly_packet_consume cfg (True, True) (Some p) (Some q) b = Some (s1, b2)"
    using Cons.prems(1) c by (simp add: resolver_ipc_assembly_packet_consume_def put_with k b2_def)
  show ?case
  proof (cases "s1 = RESOLVER_IPC_ASSEMBLY_OK \<and> qs \<noteq> []")
    case True
    then have "assembly_deliver cfg qs a1 b1 = Some (st, a', b')" using Cons.prems(2) c by simp
    then have "assembly_deliver cfg qs a1 b2 = Some (st, a', with_assemblies (entry_put p a1 (ab_assemblies b)) b')"
      by (simp add: b2_def deliver_framed)
    from Cons.IH [OF at this] True e show ?thesis by (simp add: b2_def entry_put_twice)
  next
    case False
    then show ?thesis using Cons.prems(2) c e by (cases qs) (auto simp: b2_def split: if_splits)
  qed
qed simp

lemma packets_steps:
  "packets_consume cfg p qs (sys_budget s) = Some (st, b') \<Longrightarrow> (assembly_step cfg)\<^sup>*\<^sup>* s (s\<lparr>sys_budget := b'\<rparr>)"
proof (induction qs arbitrary: s)
  case (Cons q qs)
  obtain s1 b1 where c: "resolver_ipc_assembly_packet_consume cfg (True, True) (Some p) (Some q) (sys_budget s) = Some (s1, b1)"
    using Cons.prems by (auto split: option.splits)
  have "assembly_step cfg s (s\<lparr>sys_budget := b1\<rparr>)" using c by (rule step_consume)
  moreover have "(assembly_step cfg)\<^sup>*\<^sup>* (s\<lparr>sys_budget := b1\<rparr>) (s\<lparr>sys_budget := b'\<rparr>)"
    using Cons.prems Cons.IH [of "s\<lparr>sys_budget := b1\<rparr>"] c by (cases "s1 = RESOLVER_IPC_ASSEMBLY_OK") auto
  ultimately show ?case by (rule converse_rtranclp_into_rtranclp)
next
  case Nil
  then show ?case by (cases s) auto
qed

section \<open>Properties\<close>

text \<open>The bytes of the arrays that a payload holds, one element at a time.\<close>

definition array_bytes :: "nat \<Rightarrow> 'a list option \<Rightarrow> nat" where
  "array_bytes element_size xs = (case xs of None \<Rightarrow> 0 | Some l \<Rightarrow> sum_list (map (\<lambda>_. element_size) l))"

definition held_bytes :: "assembly_config \<Rightarrow> resolver_ipc_assembly_payload \<Rightarrow> nat" where
  "held_bytes cfg p =
     array_bytes (sizeof_cname_record (ac_cache cfg)) (ap_cnames p) + array_bytes (sizeof_address_record (ac_cache cfg)) (ap_addresses p)
     + array_bytes (sizeof_srv_record (ac_cache cfg)) (ap_records p)"

lemma array_bytes_of: "array_of n capacity xs \<Longrightarrow> array_bytes k xs = (if n = 0 then 0 else capacity * k)"
  by (auto simp: array_of_def array_bytes_def map_replicate_const sum_list_replicate split: option.splits)

lemma held_bytes_ok: "assembly_ok cfg a \<Longrightarrow> held_bytes cfg (as_payload a) = as_dynamic_bytes a"
proof -
  assume ok: "assembly_ok cfg a"
  have none: "array_bytes k None = 0" for k by (simp add: array_bytes_def)
  have "held_bytes cfg (as_payload a) = as_dynamic_bytes a" if "response_ok cfg a"
    using that by (auto simp: response_ok_def held_bytes_def arrays_size_def none array_bytes_of split: if_splits)
  moreover have "held_bytes cfg resolver_ipc_assembly_payload_zero = 0"
    by (simp add: held_bytes_def none resolver_ipc_assembly_payload_zero_def)
  ultimately show ?thesis
    using ok by (auto simp: assembly_ok_def split: resolver_ipc_assembly_state.splits)
qed

lemma held_bytes_charged:
  assumes "assembly_inv cfg s"
  shows "charges cfg (ab_assemblies (sys_budget s)) = (\<Sum>(p, a) \<leftarrow> ab_assemblies (sys_budget s). sizeof_assembly cfg + held_bytes cfg (as_payload a))"
    and "sum_list (map at_dynamic_bytes (sys_results s)) = (\<Sum>r \<leftarrow> sys_results s. held_bytes cfg (at_payload r))"
proof -
  have "assembly_ok cfg a" if "(p, a) \<in> set (ab_assemblies (sys_budget s))" for p a
    using assms that by (auto simp: assembly_inv_def Let_def)
  then show "charges cfg (ab_assemblies (sys_budget s)) = (\<Sum>(p, a) \<leftarrow> ab_assemblies (sys_budget s). sizeof_assembly cfg + held_bytes cfg (as_payload a))"
    unfolding charges_def using held_bytes_ok by (intro arg_cong [of _ _ sum_list] map_cong) auto
  have "\<exists>a. assembly_ok cfg a \<and> r = result_of a" if "r \<in> set (sys_results s)" for r
    using assms that by (auto simp: assembly_inv_def Let_def)
  then have "held_bytes cfg (at_payload r) = at_dynamic_bytes r" if "r \<in> set (sys_results s)" for r
    using that held_bytes_ok by (fastforce simp: result_of_def)
  then show "sum_list (map at_dynamic_bytes (sys_results s)) = (\<Sum>r \<leftarrow> sys_results s. held_bytes cfg (at_payload r))"
    by (intro arg_cong [of _ _ sum_list] map_cong) auto
qed

text \<open>
  C3: the assembly budget is safe and exact. After any sequence of creations, packets, destructions and takings, with any contents of the packets
  and any outcome of the allocations: the bytes charged are exactly those of the budget, of its assemblies, and of every element of every array that
  the assemblies and the results still held have allocated; they never exceed the limit; and on each live assembly, every further packet, and
  its destruction, are free of undefined behaviour.
\<close>

theorem assembly_budget_safe:
  assumes "assembly_init cfg s0" "(assembly_step cfg)\<^sup>*\<^sup>* s0 s"
  shows "ab_owned_bytes (sys_budget s) =
        sizeof_assembly_budget cfg + (\<Sum>(p, a) \<leftarrow> ab_assemblies (sys_budget s). sizeof_assembly cfg + held_bytes cfg (as_payload a))
        + (\<Sum>r \<leftarrow> sys_results s. held_bytes cfg (at_payload r))
    \<and> ab_owned_bytes (sys_budget s) \<le> RESOLVER_REPLY_ASSEMBLY_BYTE_LIMIT cfg
    \<and> distinct (map fst (ab_assemblies (sys_budget s)))
    \<and> (\<forall>p alloc packet. assembly_at p (sys_budget s) \<noteq> None \<longrightarrow>
         resolver_ipc_assembly_packet_consume cfg alloc (Some p) packet (sys_budget s) \<noteq> None \<and> resolver_ipc_assembly_destroy cfg p (sys_budget s) \<noteq> None)"
proof -
  have i: "assembly_inv cfg s" using assembly_machine.inv_reachable [OF assms] .
  have "resolver_ipc_assembly_packet_consume cfg alloc (Some p) packet (sys_budget s) \<noteq> None" "resolver_ipc_assembly_destroy cfg p (sys_budget s) \<noteq> None"
    if "assembly_at p (sys_budget s) \<noteq> None" for p alloc packet
    using consume_defined [OF i that, of alloc packet] destroy_defined [OF i that] by auto
  with i show ?thesis unfolding assembly_inv_def Let_def held_bytes_charged [OF i] by blast
qed

text \<open>
  The verdict of the cache on a lookup's result, passed on with the resolver's own status as the supervisor does: the records of a
  positive answer count with the least of their times to live, an absence with its negative time to live; everything else is refused.
\<close>

definition address_verdict :: "resolver_ipc_lookup_status \<Rightarrow> dns_address_result \<Rightarrow> (nat \<times> resolver_cache_view_status) option" where
  "address_verdict status d =
     (if status = RESOLVER_IPC_LOOKUP_OK then Some (foldl min UINT32_MAX (map ar_effective_ttl (the (ad_addresses d))), RESOLVER_CACHE_VIEW_FRESH_POSITIVE)
      else if status = RESOLVER_IPC_LOOKUP_NODATA \<and> ad_question_name d \<noteq> [] then Some (neg_effective_ttl (ad_negative d), RESOLVER_CACHE_VIEW_FRESH_NODATA)
      else if status = RESOLVER_IPC_LOOKUP_NOT_FOUND \<and> ad_rcode d = ns_r_nxdomain then Some (neg_effective_ttl (ad_negative d), RESOLVER_CACHE_VIEW_FRESH_NXDOMAIN)
      else None)"

definition srv_verdict :: "resolver_ipc_lookup_status \<Rightarrow> dns_srv_result \<Rightarrow> (nat \<times> resolver_cache_view_status) option" where
  "srv_verdict status d =
     (if status = RESOLVER_IPC_LOOKUP_OK then Some (foldl min UINT32_MAX (map srv_effective_ttl (the (sr_records d))), RESOLVER_CACHE_VIEW_FRESH_POSITIVE)
      else if status = RESOLVER_IPC_LOOKUP_NODATA \<and> sr_question_name d \<noteq> [] then Some (neg_effective_ttl (sr_negative d), RESOLVER_CACHE_VIEW_FRESH_NODATA)
      else if status = RESOLVER_IPC_LOOKUP_NOT_FOUND \<and> sr_rcode d = ns_r_nxdomain then Some (neg_effective_ttl (sr_negative d), RESOLVER_CACHE_VIEW_FRESH_NXDOMAIN)
      else None)"

definition judged :: "('s \<Rightarrow> 'v option) \<Rightarrow> 's option \<Rightarrow> 'v option \<Rightarrow> bool" where
  "judged validate status verdict \<longleftrightarrow> map_option validate status = Some verdict"

lemma name_valid_nil: "\<not> resolver_cache_name_valid []"
  by (simp add: resolver_cache_name_valid_def name_normalize_text normalize_text_def)

lemma address_validate_refuses:
  "ls \<notin> {DNS_ADDRESS_LOOKUP_OK, DNS_ADDRESS_LOOKUP_NODATA, DNS_ADDRESS_LOOKUP_NOT_FOUND} \<Longrightarrow> resolver_cache_address_result_validate e ls d = None"
  "ad_canonical_name d = [] \<Longrightarrow> resolver_cache_address_result_validate e ls d = None"
  "ad_rcode d \<noteq> ns_r_nxdomain \<Longrightarrow> resolver_cache_address_result_validate e DNS_ADDRESS_LOOKUP_NOT_FOUND d = None"
  by (auto simp: resolver_cache_address_result_validate_def name_valid_nil)

lemma srv_validate_refuses:
  "ls \<notin> {DNS_SRV_LOOKUP_OK, DNS_SRV_LOOKUP_NODATA, DNS_SRV_LOOKUP_NOT_FOUND} \<Longrightarrow> resolver_cache_srv_result_validate e ls d = None"
  "sr_canonical_name d = [] \<Longrightarrow> resolver_cache_srv_result_validate e ls d = None"
  "sr_rcode d \<noteq> ns_r_nxdomain \<Longrightarrow> resolver_cache_srv_result_validate e DNS_SRV_LOOKUP_NOT_FOUND d = None"
  by (auto simp: resolver_cache_srv_result_validate_def name_valid_nil)

lemma status_cases:
  assumes "resolver_ipc_lookup_status_valid st"
  shows "(\<exists>ls ss. resolver_ipc_lookup_status_to_address st = Some ls \<and> resolver_ipc_lookup_status_to_srv st = Some ss
      \<and> (if st = RESOLVER_IPC_LOOKUP_OK then ls = DNS_ADDRESS_LOOKUP_OK \<and> ss = DNS_SRV_LOOKUP_OK
         else if st = RESOLVER_IPC_LOOKUP_NODATA then ls = DNS_ADDRESS_LOOKUP_NODATA \<and> ss = DNS_SRV_LOOKUP_NODATA
         else if st = RESOLVER_IPC_LOOKUP_NOT_FOUND then ls = DNS_ADDRESS_LOOKUP_NOT_FOUND \<and> ss = DNS_SRV_LOOKUP_NOT_FOUND
         else ls \<notin> {DNS_ADDRESS_LOOKUP_OK, DNS_ADDRESS_LOOKUP_NODATA, DNS_ADDRESS_LOOKUP_NOT_FOUND}
           \<and> ss \<notin> {DNS_SRV_LOOKUP_OK, DNS_SRV_LOOKUP_NODATA, DNS_SRV_LOOKUP_NOT_FOUND}))"
  using assms
  by (auto simp: resolver_ipc_lookup_status_valid_def resolver_ipc_lookup_status_to_address_def resolver_ipc_lookup_status_to_srv_def
      resolver_ipc_lookup_status_find_def resolver_ipc_lookup_status_maps_def split: if_splits)

lemma complete_shape:
  assumes "assembly_ok cfg a" "as_state a = RESOLVER_IPC_ASSEMBLY_STATE_COMPLETE"
  shows "resolver_ipc_lookup_status_valid (as_status a)"
    and "as_status a = RESOLVER_IPC_LOOKUP_OK \<or> (as_status a = RESOLVER_IPC_LOOKUP_NOT_FOUND \<and> ap_rcode (as_payload a) = ns_r_nxdomain) \<Longrightarrow>
      ap_question_name (as_payload a) \<noteq> []"
    and "as_status a = RESOLVER_IPC_LOOKUP_NODATA \<Longrightarrow> ap_question_name (as_payload a) = [] \<Longrightarrow> ap_canonical_name (as_payload a) = []"
proof -
  have r: "response_ok cfg a" using assms by (simp add: assembly_ok_def)
  then show "resolver_ipc_lookup_status_valid (as_status a)" by (simp add: response_ok_def begin_ok_def begin_of_def)
  have b: "resolver_ipc_assembly_begin_check a (begin_of a)" using r by (simp add: response_ok_def)
  show "as_status a = RESOLVER_IPC_LOOKUP_OK \<or> (as_status a = RESOLVER_IPC_LOOKUP_NOT_FOUND \<and> ap_rcode (as_payload a) = ns_r_nxdomain) \<Longrightarrow>
      ap_question_name (as_payload a) \<noteq> []"
    using b by (auto simp: resolver_ipc_assembly_begin_check_def begin_of_def Let_def resolver_ipc_assembly_name_normalized_def name_normalize_text normalize_text_def
        split: if_splits)
  show "as_status a = RESOLVER_IPC_LOOKUP_NODATA \<Longrightarrow> ap_question_name (as_payload a) = [] \<Longrightarrow> ap_canonical_name (as_payload a) = []"
    using b by (simp add: resolver_ipc_assembly_begin_check_def begin_of_def Let_def split: if_splits)
qed

lemma complete_judged:
  assumes "assembly_ok cfg a" "as_state a = RESOLVER_IPC_ASSEMBLY_STATE_COMPLETE" "ce_query_type e = as_query_type a" "ce_name e = as_expected_name a"
  defines "ad \<equiv> payload_address (as_payload a)" and "sd \<equiv> payload_srv (as_payload a)"
  shows "as_query_type a \<noteq> ns_t_srv \<Longrightarrow>
      judged (\<lambda>ls. resolver_cache_address_result_validate e ls ad) (resolver_ipc_lookup_status_to_address (as_status a)) (address_verdict (as_status a) ad)"
    and "as_query_type a = ns_t_srv \<Longrightarrow>
      judged (\<lambda>ls. resolver_cache_srv_result_validate e ls sd) (resolver_ipc_lookup_status_to_srv (as_status a)) (srv_verdict (as_status a) sd)"
proof -
  note sh = complete_shape [OF assms(1,2)]
  have f: "ad_question_name ad = ap_question_name (as_payload a)" "ad_canonical_name ad = ap_canonical_name (as_payload a)" "ad_rcode ad = ap_rcode (as_payload a)"
      "sr_question_name sd = ap_question_name (as_payload a)" "sr_canonical_name sd = ap_canonical_name (as_payload a)" "sr_rcode sd = ap_rcode (as_payload a)"
    by (simp_all add: ad_def sd_def payload_address_def payload_srv_def)
  show "judged (\<lambda>ls. resolver_cache_address_result_validate e ls ad) (resolver_ipc_lookup_status_to_address (as_status a)) (address_verdict (as_status a) ad)"
    if "as_query_type a \<noteq> ns_t_srv"
    using status_cases [OF sh(1)] sh(2,3) complete_address_valid [OF assms(1,2) that assms(3,4), folded ad_def]
    by (auto simp: judged_def address_verdict_def f address_validate_refuses split: if_splits)
  show "judged (\<lambda>ls. resolver_cache_srv_result_validate e ls sd) (resolver_ipc_lookup_status_to_srv (as_status a)) (srv_verdict (as_status a) sd)"
    if "as_query_type a = ns_t_srv"
    using status_cases [OF sh(1)] sh(2,3) complete_srv_valid [OF assms(1,2) that assms(3,4), folded sd_def]
    by (auto simp: judged_def srv_verdict_def f srv_validate_refuses split: if_splits)
qed

text \<open>
  C4: the cache's verdict on everything the assembly hands over. Take the result of any live assembly after any history of packets, whatever
  a helper sent. It carries the identifier and type of the request and the status of the response, and for the cache entry of the name and type
  that was asked, validated under its status as the supervisor converts it: a positive result is accepted with the least of its times to live;
  an absence of records for the name with its negative time to live; a name that does not exist with its negative time to live if the server
  said so; and every other result, an error, an absence without a question or a name not found without the server's word, is refused.
\<close>

theorem assembly_results_cacheable:
  assumes "assembly_init cfg s0" "(assembly_step cfg)\<^sup>*\<^sup>* s0 s" "assembly_at p (sys_budget s) = Some a"
    and "resolver_ipc_assembly_result_take (Some p) True (sys_budget s) = Some (Some r, b')"
    and "ce_query_type e = as_query_type a" "ce_name e = as_expected_name a"
  shows "at_query_id r = as_query_id a \<and> at_query_type r = as_query_type a \<and> at_status r = as_status a
    \<and> (if at_query_type r = ns_t_srv
       then map_option (\<lambda>ls. resolver_cache_srv_result_validate e ls (payload_srv (at_payload r))) (resolver_ipc_lookup_status_to_srv (at_status r))
         = Some (srv_verdict (at_status r) (payload_srv (at_payload r)))
       else map_option (\<lambda>ls. resolver_cache_address_result_validate e ls (payload_address (at_payload r))) (resolver_ipc_lookup_status_to_address (at_status r))
         = Some (address_verdict (at_status r) (payload_address (at_payload r))))"
proof -
  have "assembly_ok cfg a" using live_charge(2) [OF assembly_machine.inv_reachable [OF assms(1,2)] assms(3)] .
  moreover have "as_state a = RESOLVER_IPC_ASSEMBLY_STATE_COMPLETE" "r = result_of a"
    using assms(3,4) by (auto simp: resolver_ipc_assembly_result_take_def result_of_def split: if_splits)
  ultimately show ?thesis using complete_judged [of cfg a e] assms(5,6) by (simp add: result_of_def judged_def)
qed

text \<open>
  C20: destroying a budget ends and leaves nothing. The loop that destroys the first assembly until the list is empty terminates from every
  reachable state without undefined behaviour; afterwards no assembly is left and only the budget itself and the results still held are charged.
\<close>

theorem budget_destroy_ends:
  assumes "assembly_init cfg s0" "(assembly_step cfg)\<^sup>*\<^sup>* s0 s"
  shows "\<exists>b'. resolver_ipc_assembly_budget_destroy cfg (sys_budget s) = Some b' \<and> ab_assemblies b' = []
    \<and> ab_owned_bytes b' = sizeof_assembly_budget cfg + sum_list (map at_dynamic_bytes (sys_results s))"
  using budget_destroy_complete [OF assembly_machine.inv_reachable [OF assms]] .

section \<open>Examples\<close>

definition sample_assembly_config :: assembly_config where
  "sample_assembly_config =
     \<lparr>ac_cache = \<lparr>RESOLVER_CACHE_ENTRY_LIMIT = 8, RESOLVER_CACHE_OWNED_BYTE_LIMIT = 65536, RESOLVER_CACHE_RESULT_BYTE_LIMIT = 16384,
        sizeof_cache = 4096, sizeof_pointer = 8, sizeof_entry = 1096, sizeof_payload = 2200, sizeof_address_record = 32,
        sizeof_cname_record = 2056, sizeof_srv_record = 1040\<rparr>,
      RESOLVER_REPLY_ASSEMBLY_BYTE_LIMIT = 65536, sizeof_assembly = 4096, sizeof_assembly_budget = 4096\<rparr>"

definition sample_begin :: resolver_ipc_response_begin where
  "sample_begin =
     \<lparr>rb_canonical_name = [0x6D, 0x63], rb_cname_count = 0, rb_completed_at = \<lparr>tv_sec = 1, tv_nsec = 0\<rparr>, rb_negative = dns_negative_zero,
      rb_question_name = [0x6D, 0x63], rb_query_class = ns_c_in, rb_query_id = 1, rb_query_type = ns_t_a, rb_rcode = 0, rb_record_count = 1,
      rb_status = RESOLVER_IPC_LOOKUP_OK\<rparr>"

definition sample_address :: dns_address_record where
  "sample_address = \<lparr>ar_address = net_addr_zero\<lparr>addr_family := AF_INET\<rparr>, ar_effective_ttl = 30, ar_record_ttl = 30\<rparr>"

definition sample_packets :: "bytes list" where
  "sample_packets =
     [frame RESOLVER_IPC_PACKET_RESPONSE_BEGIN 1 (begin_payload sample_begin),
      frame RESOLVER_IPC_PACKET_RESPONSE_ADDRESS 1 (address_payload (address_message 1 0 sample_address)),
      frame RESOLVER_IPC_PACKET_RESPONSE_END 1 (end_payload \<lparr>re_cname_count = 0, re_query_id = 1, re_record_count = 1\<rparr>)]"

definition sample_budget :: resolver_ipc_assembly_budget where
  "sample_budget = the (resolver_ipc_assembly_budget_create sample_assembly_config True)"

definition sample_system :: assembly_system where
  "sample_system = \<lparr>sys_budget = fst (snd (resolver_ipc_assembly_create sample_assembly_config (Some 7) sample_budget [0x6D, 0x63] ns_c_in ns_t_a 1 True)), sys_results = []\<rparr>"

definition sample_assembly :: resolver_ipc_assembly where
  "sample_assembly = resolver_ipc_assembly_zero\<lparr>as_expected_name := [0x6D, 0x63], as_query_class := ns_c_in, as_query_id := 1,
     as_query_type := ns_t_a, as_state := RESOLVER_IPC_ASSEMBLY_STATE_BEGIN\<rparr>"

lemma sample_init: "assembly_init sample_assembly_config \<lparr>sys_budget = sample_budget, sys_results = []\<rparr>"
  by (simp add: assembly_init_def sample_budget_def resolver_ipc_assembly_budget_create_def sample_assembly_config_def)

lemma sample_name: "name_normalize [0x6D, 0x63] = Some [0x6D, 0x63]"
  by (simp add: name_normalize_text normalize_text_def lower_char_def)

lemma sample_assembly_create:
  "\<exists>b. resolver_ipc_assembly_create sample_assembly_config (Some 7) sample_budget [0x6D, 0x63] ns_c_in ns_t_a 1 True = (RESOLVER_IPC_ASSEMBLY_OK, b, Some 7)
     \<and> sys_budget sample_system = b \<and> assembly_at 7 b = Some sample_assembly \<and> ab_owned_bytes b = 8192 \<and> assembly_at 7 sample_budget = None"
  by (simp add: sample_system_def resolver_ipc_assembly_create_def sample_name Let_def sample_budget_def resolver_ipc_assembly_budget_create_def
      sample_assembly_config_def assembly_at_def sample_assembly_def)

lemma sample_step: "assembly_step sample_assembly_config \<lparr>sys_budget = sample_budget, sys_results = []\<rparr> sample_system"
proof -
  obtain b where b: "resolver_ipc_assembly_create sample_assembly_config (Some 7) sample_budget [0x6D, 0x63] ns_c_in ns_t_a 1 True = (RESOLVER_IPC_ASSEMBLY_OK, b, Some 7)"
      "sys_budget sample_system = b" "assembly_at 7 sample_budget = None"
    using sample_assembly_create by blast
  have "assembly_step sample_assembly_config \<lparr>sys_budget = sample_budget, sys_results = []\<rparr> (\<lparr>sys_budget = sample_budget, sys_results = []\<rparr>\<lparr>sys_budget := b\<rparr>)"
    using b(1,3) by (intro step_create) auto
  then show ?thesis using b(1) by (simp add: sample_system_def)
qed

lemma sample_reachable:
  "(assembly_step sample_assembly_config)\<^sup>*\<^sup>* \<lparr>sys_budget = sample_budget, sys_results = []\<rparr> sample_system"
  using sample_step by (rule r_into_rtranclp)

lemma sample_delivered:
  "\<exists>a b. packets_consume sample_assembly_config 7 sample_packets (sys_budget sample_system) = Some (RESOLVER_IPC_ASSEMBLY_COMPLETE, b)
     \<and> assembly_at 7 b = Some a \<and> as_state a = RESOLVER_IPC_ASSEMBLY_STATE_COMPLETE \<and> as_expected_name a = [0x6D, 0x63] \<and> as_query_type a = ns_t_a
     \<and> as_status a = RESOLVER_IPC_LOOKUP_OK \<and> ad_addresses (payload_address (as_payload a)) = Some [sample_address]"
proof -
  let ?cfg = sample_assembly_config and ?a = sample_assembly
  obtain b where b: "sys_budget sample_system = b" "assembly_at 7 b = Some ?a" "ab_owned_bytes b = 8192" using sample_assembly_create by blast
  have i: "assembly_inv ?cfg sample_system" using assembly_machine.inv_reachable [OF sample_init sample_reachable] .
  have ok: "assembly_ok ?cfg ?a" "histograms_ok b" using live_charge [OF i] b by auto
  have f: "as_state ?a = RESOLVER_IPC_ASSEMBLY_STATE_BEGIN" "as_query_id ?a = 1" "as_query_type ?a = ns_t_a" "as_expected_name ?a = [0x6D, 0x63]"
    by (simp_all add: sample_assembly_def)
  have d1: "resolver_ipc_response_begin_decode (Some (frame RESOLVER_IPC_PACKET_RESPONSE_BEGIN 1 (begin_payload sample_begin))) True = (RESOLVER_IPC_CODEC_OK, sample_begin)"
    unfolding resolver_ipc_response_begin_decode_def
    by (subst begin_packet.decode_iff) (simp add: sample_begin_def begin_wf_def begin_ok_def timespec_range_def name_array_def name_ok_def dns_negative_zero_def
        resolver_ipc_query_type_valid_def resolver_ipc_lookup_status_valid_def resolver_ipc_lookup_status_find_def resolver_ipc_lookup_status_maps_def
        resolver_ipc_negative_valid_def resolver_ipc_response_count_valid_def timeutil_valid_def)
  have d2: "resolver_ipc_response_address_decode (Some (frame RESOLVER_IPC_PACKET_RESPONSE_ADDRESS 1 (address_payload (address_message 1 0 sample_address)))) True
      = (RESOLVER_IPC_CODEC_OK, address_message 1 0 sample_address)"
    unfolding resolver_ipc_response_address_decode_def
    by (subst address_packet.decode_iff) (simp add: address_message_def sample_address_def address_wf_def address_ok_def address_norm_def net_addr_norm_def address_size_def net_addr_zero_def
        replicate_add [symmetric])
  have d3: "resolver_ipc_response_end_decode (Some (frame RESOLVER_IPC_PACKET_RESPONSE_END 1 (end_payload \<lparr>re_cname_count = 0, re_query_id = 1, re_record_count = 1\<rparr>))) True
      = (RESOLVER_IPC_CODEC_OK, \<lparr>re_cname_count = 0, re_query_id = 1, re_record_count = 1\<rparr>)"
    unfolding resolver_ipc_response_end_decode_def by (subst end_packet.decode_iff) (simp add: end_wf_def end_ok_def)
  have shape: "response_shape ?a sample_begin [] 1"
    by (simp add: response_shape_def resolver_ipc_assembly_begin_check_def sample_begin_def sample_assembly_def resolver_ipc_assembly_name_normalized_def sample_name
        response_complete_def dns_negative_zero_def Let_def)
  have "room ?cfg ns_t_a 0 1 b"
    by (simp add: room_def b(3) arrays_size_def sample_assembly_config_def resolver_cache_result_classify_def resolver_size_multiply_def resolver_size_add_def Let_def)
  moreover have "addresses_ok ns_t_a [] [sample_address]"
    by (simp add: addresses_ok_def sample_address_def resolver_ipc_assembly_ttl_expected_def chain_ttl_def)
  ultimately obtain a' b' where r: "assembly_deliver ?cfg sample_packets ?a b = Some (RESOLVER_IPC_ASSEMBLY_COMPLETE, a', b')"
      "as_state a' = RESOLVER_IPC_ASSEMBLY_STATE_COMPLETE" "as_status a' = rb_status sample_begin" "as_query_type a' = as_query_type ?a" "as_expected_name a' = as_expected_name ?a"
      "ad_addresses (payload_address (as_payload a')) = Some [sample_address]"
    using address_response_delivered [OF ok(1) f(1) ok(2) d1, of "[]" "[sample_address]" "[]" "[sample_packets ! 1]" "sample_packets ! 2"] shape d2 d3
    by (auto simp: f sample_packets_def response_array_def simp del: assembly_deliver.simps)
  have "7 \<in> fst ` set (ab_assemblies b)" using b(2) by (force simp: assembly_at_def dest: map_of_SomeD)
  then have "assembly_at 7 (with_assemblies (entry_put 7 a' (ab_assemblies b)) b') = Some a'" by (simp add: assembly_at_def entry_put_of)
  then show ?thesis
    using deliver_packets [OF b(2) r(1)] r(2-6) unfolding b(1)
    by (intro exI [of _ a'] exI [of _ "with_assemblies (entry_put 7 a' (ab_assemblies b)) b'"]) (simp add: f sample_packets_def sample_begin_def del: packets_consume.simps)
qed

lemma sample_complete:
  "\<exists>s a. (assembly_step sample_assembly_config)\<^sup>*\<^sup>* \<lparr>sys_budget = sample_budget, sys_results = []\<rparr> s \<and> assembly_at 7 (sys_budget s) = Some a
     \<and> as_state a = RESOLVER_IPC_ASSEMBLY_STATE_COMPLETE \<and> as_expected_name a = [0x6D, 0x63] \<and> as_query_type a = ns_t_a \<and> as_status a = RESOLVER_IPC_LOOKUP_OK
     \<and> ad_addresses (payload_address (as_payload a)) = Some [sample_address]"
proof -
  obtain a b where d: "packets_consume sample_assembly_config 7 sample_packets (sys_budget sample_system) = Some (RESOLVER_IPC_ASSEMBLY_COMPLETE, b)"
    "assembly_at 7 b = Some a" "as_state a = RESOLVER_IPC_ASSEMBLY_STATE_COMPLETE" "as_expected_name a = [0x6D, 0x63]" "as_query_type a = ns_t_a" "as_status a = RESOLVER_IPC_LOOKUP_OK"
    "ad_addresses (payload_address (as_payload a)) = Some [sample_address]"
    using sample_delivered by blast
  have "(assembly_step sample_assembly_config)\<^sup>*\<^sup>* \<lparr>sys_budget = sample_budget, sys_results = []\<rparr> (sample_system\<lparr>sys_budget := b\<rparr>)"
    using sample_reachable packets_steps [OF d(1)] by (rule rtranclp_trans)
  then show ?thesis using d(2-7) by (intro exI [of _ "sample_system\<lparr>sys_budget := b\<rparr>"] exI [of _ a]) simp
qed

theorem assembly_budget_safe_witness:
  "\<exists>(s :: assembly_system) a. assembly_at 7 (sys_budget s) = Some a \<and> ad_addresses (payload_address (as_payload a)) = Some [sample_address]
   \<and> ab_owned_bytes (sys_budget s) =
       4096 + (\<Sum>(p, a) \<leftarrow> ab_assemblies (sys_budget s). 4096 + held_bytes sample_assembly_config (as_payload a))
       + (\<Sum>r \<leftarrow> sys_results s. held_bytes sample_assembly_config (at_payload r))
   \<and> ab_owned_bytes (sys_budget s) \<le> 65536
   \<and> resolver_ipc_assembly_packet_consume sample_assembly_config (True, True) (Some 7) (Some [0]) (sys_budget s) \<noteq> None"
proof -
  obtain s a where s: "(assembly_step sample_assembly_config)\<^sup>*\<^sup>* \<lparr>sys_budget = sample_budget, sys_results = []\<rparr> s" "assembly_at 7 (sys_budget s) = Some a"
      "ad_addresses (payload_address (as_payload a)) = Some [sample_address]"
    using sample_complete by blast
  have c: "sizeof_assembly_budget sample_assembly_config = 4096" "sizeof_assembly sample_assembly_config = 4096"
      "RESOLVER_REPLY_ASSEMBLY_BYTE_LIMIT sample_assembly_config = 65536"
    by (simp_all add: sample_assembly_config_def)
  show ?thesis
    using assembly_budget_safe [OF sample_init s(1)] s(2,3) unfolding c by (intro exI [of _ s] exI [of _ a]) simp
qed

theorem assembly_results_cacheable_witness:
  "\<exists>(s :: assembly_system) a r b'. assembly_at 7 (sys_budget s) = Some a
     \<and> resolver_ipc_assembly_result_take (Some 7) True (sys_budget s) = Some (Some r, b') \<and> at_status r = RESOLVER_IPC_LOOKUP_OK
     \<and> map_option (\<lambda>ls. resolver_cache_address_result_validate
           \<lparr>ce_hash = 0, ce_id = 1, ce_name = [0x6D, 0x63], ce_payload = None, ce_query_type = ns_t_a, ce_reference_count = 1\<rparr> ls (payload_address (at_payload r)))
         (resolver_ipc_lookup_status_to_address (at_status r)) = Some (Some (30, RESOLVER_CACHE_VIEW_FRESH_POSITIVE))"
proof -
  obtain s a where d: "(assembly_step sample_assembly_config)\<^sup>*\<^sup>* \<lparr>sys_budget = sample_budget, sys_results = []\<rparr> s" "assembly_at 7 (sys_budget s) = Some a"
      "as_state a = RESOLVER_IPC_ASSEMBLY_STATE_COMPLETE" "as_expected_name a = [0x6D, 0x63]" "as_query_type a = ns_t_a" "as_status a = RESOLVER_IPC_LOOKUP_OK"
      "ad_addresses (payload_address (as_payload a)) = Some [sample_address]"
    using sample_complete by blast
  obtain r b' where t: "resolver_ipc_assembly_result_take (Some 7) True (sys_budget s) = Some (Some r, b')" "at_status r = RESOLVER_IPC_LOOKUP_OK" "at_query_type r = ns_t_a"
      "at_payload r = as_payload a"
    using d by (simp add: resolver_ipc_assembly_result_take_def)
  have v: "address_verdict RESOLVER_IPC_LOOKUP_OK (payload_address (as_payload a)) = Some (30, RESOLVER_CACHE_VIEW_FRESH_POSITIVE)"
    by (simp add: address_verdict_def d(7) sample_address_def)
  show ?thesis
    using assembly_results_cacheable [OF sample_init d(1,2) t(1),
        of "\<lparr>ce_hash = 0, ce_id = 1, ce_name = [0x6D, 0x63], ce_payload = None, ce_query_type = ns_t_a, ce_reference_count = 1\<rparr>"] t d(2,4,5) v
    by (intro exI [of _ s] exI [of _ a] exI [of _ r] exI [of _ b']) simp
qed

theorem budget_destroy_ends_witness:
  "\<exists>b'. ab_assemblies (sys_budget sample_system) \<noteq> [] \<and> resolver_ipc_assembly_budget_destroy sample_assembly_config (sys_budget sample_system) = Some b' \<and> ab_assemblies b' = []"
  using budget_destroy_ends [OF sample_init sample_reachable] sample_assembly_create by (auto simp: assembly_at_def)

end
