(* ===== verification/Helper.thy ===== *)
theory Helper
  imports Relay Ipc_Assembly_Correct
begin

text \<open>
  The resolver helper process (\<open>src/resolver/helper.c\<close>): it receives requests on a sequenced-packet socket, looks the names up and
  sends the answer as a sequence of packets.

  The operating system is the script of replies of the relay: a call whose reply is not in the script blocks, and the functions then return
  \<open>None\<close> as their status. The DNS lookups (\<open>src/resolver/dns.c\<close>) are the argument \<open>dns\<close>, functions of what has
  been exchanged so far, the name and the family, so that they may answer differently each time. The outermost \<open>None\<close> is undefined behaviour in an encoder. The arrays that packets are encoded into
  are uninitialised in the code; only their encoded prefix is sent, so they start as zeros here.
\<close>

section \<open>Types\<close>

datatype resolver_helper_status =
    RESOLVER_HELPER_OK
  | RESOLVER_HELPER_BAD_ARGUMENT
  | RESOLVER_HELPER_INTERNAL
  | RESOLVER_HELPER_IO
  | RESOLVER_HELPER_PROTOCOL

datatype resolver_helper_receive_status =
    RESOLVER_HELPER_RECEIVE_DATA
  | RESOLVER_HELPER_RECEIVE_END
  | RESOLVER_HELPER_RECEIVE_IO
  | RESOLVER_HELPER_RECEIVE_PROTOCOL

text \<open>One byte more than \<open>RESOLVER_IPC_PACKET_BYTE_LIMIT\<close>, which detects oversized packets.\<close>

abbreviation RESOLVER_HELPER_RECEIVE_BYTE_CAPACITY :: nat where "RESOLVER_HELPER_RECEIVE_BYTE_CAPACITY \<equiv> 4097"

record dns_functions =
  dns_address_lookup :: "relay_event list \<Rightarrow> bytes \<Rightarrow> sa_family \<Rightarrow> dns_address_lookup_status \<times> dns_address_result"
  dns_srv_lookup :: "relay_event list \<Rightarrow> bytes \<Rightarrow> dns_srv_lookup_status \<times> dns_srv_result"

definition revents_none :: revents where
  "revents_none = \<lparr>POLLIN = False, POLLRDHUP = False, POLLOUT = False, POLLHUP = False, POLLERR = False, POLLNVAL = False\<rparr>"

section \<open>Local functions\<close>

text \<open>\<open>poll\<close> on one descriptor: the second one of \<open>sys_poll\<close> is ignored. What is awaited is a pair, reading and writing.\<close>

lemma poll_consume:
  "sys_poll i out os = (Sys_err, os') \<Longrightarrow> length (replies os') < length (replies os)"
  "sys_poll i out os = (Sys_ret r, os') \<Longrightarrow> length (replies os') < length (replies os)"
  by (auto simp: sys_poll_def sys_failed_def reply_next_def split: list.splits os_reply.splits if_splits)

function resolver_helper_event_wait :: "bool \<times> bool \<Rightarrow> bool \<Rightarrow> relay_os \<Rightarrow> (resolver_helper_status \<times> revents) option \<times> relay_os" where
  "resolver_helper_event_wait events result_ok os =
     (if \<not> result_ok then (Some (RESOLVER_HELPER_BAD_ARGUMENT, revents_none), os)
      else
        (case sys_poll events (False, False) os of
           (Sys_none, os') \<Rightarrow> (None, os')
         | (Sys_err, os') \<Rightarrow>
             if os_errno os' = EINTR then resolver_helper_event_wait events result_ok os'
             else (Some (RESOLVER_HELPER_IO, revents_none), os')
         | (Sys_ret None, os') \<Rightarrow> (Some (RESOLVER_HELPER_IO, revents_none), os')
         | (Sys_ret (Some (r, _)), os') \<Rightarrow>
             if POLLNVAL r then (Some (RESOLVER_HELPER_IO, revents_none), os') else (Some (RESOLVER_HELPER_OK, r), os')))"
  by pat_completeness auto

termination
  by (relation "measure (\<lambda>(events, result_ok, os). length (replies os))") (auto dest: poll_consume [OF sym])

declare resolver_helper_event_wait.simps [simp del]

lemma event_wait_consume: "resolver_helper_event_wait events True os = (Some x, os') \<Longrightarrow> length (replies os') < length (replies os)"
proof (induction "length (replies os)" arbitrary: os rule: less_induct)
  case less
  from less.prems show ?case
    by (subst (asm) resolver_helper_event_wait.simps)
      (auto split: prod.splits sys.splits option.splits if_splits dest: poll_consume dest!: less.hyps [rotated] intro: less_trans)
qed

text \<open>\<open>recv\<close> with \<open>MSG_PEEK\<close> leaves the data where it is.\<close>

definition sys_peek :: "nat \<Rightarrow> relay_os \<Rightarrow> nat sys \<times> relay_os" where
  "sys_peek n os =
     (case replies os of
        Rep_count k # _ \<Rightarrow> if k \<le> n then (Sys_ret k, reply_next os) else (Sys_none, os)
      | Rep_fail e # _ \<Rightarrow> sys_failed e os
      | _ \<Rightarrow> (Sys_none, os))"

lemma peek_consume:
  "sys_peek n os = (Sys_err, os') \<Longrightarrow> length (replies os') < length (replies os)"
  "sys_peek n os = (Sys_ret k, os') \<Longrightarrow> length (replies os') < length (replies os)"
  by (auto simp: sys_peek_def sys_failed_def reply_next_def split: list.splits os_reply.splits if_splits)

text \<open>The loop that looks whether the peer has closed, after an empty packet.\<close>

function helper_peek :: "relay_os \<Rightarrow> resolver_helper_receive_status option \<times> relay_os" where
  "helper_peek os =
     (case sys_peek 1 os of
        (Sys_none, os') \<Rightarrow> (None, os')
      | (Sys_err, os') \<Rightarrow>
          if os_errno os' = EINTR then helper_peek os'
          else (Some (if os_errno os' = EAGAIN then RESOLVER_HELPER_RECEIVE_PROTOCOL else RESOLVER_HELPER_RECEIVE_IO), os')
      | (Sys_ret peeked, os') \<Rightarrow>
          (Some (if peeked = 0 then RESOLVER_HELPER_RECEIVE_END else RESOLVER_HELPER_RECEIVE_PROTOCOL), os'))"
  by pat_completeness auto

termination
  by (relation "measure (\<lambda>os. length (replies os))") (auto dest: peek_consume [OF sym])

declare helper_peek.simps [simp del]

lemma recv_consume':
  "sys_recv fd n os = (Sys_err, os') \<Longrightarrow> length (replies os') < length (replies os)"
  "sys_recv fd n os = (Sys_ret d, os') \<Longrightarrow> length (replies os') < length (replies os)"
  by (auto simp: sys_recv_def sys_failed_def reply_next_def record_event_def split: list.splits os_reply.splits if_splits)

function resolver_helper_packet_receive ::
  "int \<Rightarrow> nat \<Rightarrow> relay_os \<Rightarrow> (resolver_helper_receive_status \<times> bytes) option \<times> relay_os" where
  "resolver_helper_packet_receive fd packet_capacity os =
     (if packet_capacity \<le> RESOLVER_IPC_PACKET_BYTE_LIMIT then (Some (RESOLVER_HELPER_RECEIVE_PROTOCOL, []), os)
      else
        (case resolver_helper_event_wait (True, False) True os of
           (None, os') \<Rightarrow> (None, os')
         | (Some (status, events), os') \<Rightarrow>
             if status \<noteq> RESOLVER_HELPER_OK then (Some (RESOLVER_HELPER_RECEIVE_IO, []), os')
             else if \<not> POLLIN events
             then (Some (if POLLHUP events then RESOLVER_HELPER_RECEIVE_END else RESOLVER_HELPER_RECEIVE_IO, []), os')
             else
               (case sys_recv fd packet_capacity os' of
                  (Sys_none, os'') \<Rightarrow> (None, os'')
                | (Sys_ret received, os'') \<Rightarrow>
                    if received \<noteq> [] then
                      (if length received > RESOLVER_IPC_PACKET_BYTE_LIMIT then (Some (RESOLVER_HELPER_RECEIVE_PROTOCOL, []), os'')
                       else (Some (RESOLVER_HELPER_RECEIVE_DATA, received), os''))
                    else
                      (case helper_peek os'' of
                         (None, os''') \<Rightarrow> (None, os''')
                       | (Some st, os''') \<Rightarrow> (Some (st, []), os'''))
                | (Sys_err, os'') \<Rightarrow>
                    if os_errno os'' \<noteq> EINTR \<and> os_errno os'' \<noteq> EAGAIN then (Some (RESOLVER_HELPER_RECEIVE_IO, []), os'')
                    else resolver_helper_packet_receive fd packet_capacity os'')))"
  by pat_completeness auto

termination
  by (relation "measure (\<lambda>(fd, n, os). length (replies os))") (auto dest!: event_wait_consume [OF sym] recv_consume' [OF sym] intro: less_trans)

declare resolver_helper_packet_receive.simps [simp del]

lemma send_consume':
  "sys_send fd buf os = (Sys_err, os') \<Longrightarrow> length (replies os') < length (replies os)"
  "sys_send fd buf os = (Sys_ret d, os') \<Longrightarrow> length (replies os') < length (replies os)"
  by (auto simp: sys_send_def sys_failed_def reply_next_def record_event_def split: list.splits os_reply.splits if_splits)

function resolver_helper_packet_send :: "int \<Rightarrow> bytes \<Rightarrow> relay_os \<Rightarrow> resolver_helper_status option \<times> relay_os" where
  "resolver_helper_packet_send fd packet os =
     (if length packet = 0 \<or> length packet > RESOLVER_IPC_PACKET_BYTE_LIMIT then (Some RESOLVER_HELPER_INTERNAL, os)
      else
        (case sys_send fd packet os of
           (Sys_none, os') \<Rightarrow> (None, os')
         | (Sys_ret sent, os') \<Rightarrow> (Some (if sent = length packet then RESOLVER_HELPER_OK else RESOLVER_HELPER_IO), os')
         | (Sys_err, os') \<Rightarrow>
             if os_errno os' = EINTR then resolver_helper_packet_send fd packet os'
             else if os_errno os' \<noteq> EAGAIN then (Some RESOLVER_HELPER_IO, os')
             else
               (case resolver_helper_event_wait (False, True) True os' of
                  (None, os'') \<Rightarrow> (None, os'')
                | (Some (status, events), os'') \<Rightarrow>
                    if status \<noteq> RESOLVER_HELPER_OK \<or> \<not> POLLOUT events then (Some RESOLVER_HELPER_IO, os'')
                    else resolver_helper_packet_send fd packet os'')))"
  by pat_completeness auto

termination
  by (relation "measure (\<lambda>(fd, packet, os). length (replies os))") (auto dest!: event_wait_consume [OF sym] send_consume' [OF sym] intro: less_trans)

declare resolver_helper_packet_send.simps [simp del]

text \<open>The five functions that encode a response into an array and send it.\<close>

definition encoded_send ::
  "('a option \<Rightarrow> bytes option \<Rightarrow> bool \<Rightarrow> (resolver_ipc_codec_status \<times> bytes option \<times> nat) option) \<Rightarrow> int \<Rightarrow> 'a \<Rightarrow> relay_os \<Rightarrow>
     (resolver_helper_status option \<times> relay_os) option" where
  "encoded_send encode fd response os = do {
     (status, packet, packet_size) \<leftarrow> encode (Some response) (Some (replicate RESOLVER_IPC_PACKET_BYTE_LIMIT 0)) True;
     if status \<noteq> RESOLVER_IPC_CODEC_OK then Some (Some RESOLVER_HELPER_INTERNAL, os)
     else Some (resolver_helper_packet_send fd (take packet_size (the packet)) os)
   }"

definition resolver_helper_response_address_packet_send :: "int \<Rightarrow> resolver_ipc_response_address \<Rightarrow> relay_os \<Rightarrow> (resolver_helper_status option \<times> relay_os) option" where
  "resolver_helper_response_address_packet_send = encoded_send resolver_ipc_response_address_encode"

definition resolver_helper_response_begin_send :: "int \<Rightarrow> resolver_ipc_response_begin \<Rightarrow> relay_os \<Rightarrow> (resolver_helper_status option \<times> relay_os) option" where
  "resolver_helper_response_begin_send = encoded_send resolver_ipc_response_begin_encode"

definition resolver_helper_response_cname_send :: "int \<Rightarrow> resolver_ipc_response_cname \<Rightarrow> relay_os \<Rightarrow> (resolver_helper_status option \<times> relay_os) option" where
  "resolver_helper_response_cname_send = encoded_send resolver_ipc_response_cname_encode"

definition resolver_helper_response_end_send :: "int \<Rightarrow> resolver_ipc_response_end \<Rightarrow> relay_os \<Rightarrow> (resolver_helper_status option \<times> relay_os) option" where
  "resolver_helper_response_end_send = encoded_send resolver_ipc_response_end_encode"

definition resolver_helper_response_srv_packet_send :: "int \<Rightarrow> resolver_ipc_response_srv \<Rightarrow> relay_os \<Rightarrow> (resolver_helper_status option \<times> relay_os) option" where
  "resolver_helper_response_srv_packet_send = encoded_send resolver_ipc_response_srv_encode"

text \<open>Going on while the status is \<open>RESOLVER_HELPER_OK\<close>, and the loops that send one packet per element.\<close>

definition and_then ::
  "(resolver_helper_status option \<times> relay_os) option \<Rightarrow> (relay_os \<Rightarrow> (resolver_helper_status option \<times> relay_os) option) \<Rightarrow> (resolver_helper_status option \<times> relay_os) option" where
  "and_then r continue = (case r of Some (Some RESOLVER_HELPER_OK, os) \<Rightarrow> continue os | _ \<Rightarrow> r)"

fun send_each ::
  "('x \<Rightarrow> relay_os \<Rightarrow> (resolver_helper_status option \<times> relay_os) option) \<Rightarrow> (nat \<Rightarrow> 'a \<Rightarrow> 'x) \<Rightarrow> nat \<Rightarrow> 'a list \<Rightarrow> relay_os \<Rightarrow>
     (resolver_helper_status option \<times> relay_os) option" where
  "send_each send response index [] os = Some (Some RESOLVER_HELPER_OK, os)"
| "send_each send response index (x # xs) os = and_then (send (response index x) os) (send_each send response (Suc index) xs)"

definition array_elements :: "'a list option \<Rightarrow> 'a list" where
  "array_elements xs = (case xs of None \<Rightarrow> [] | Some l \<Rightarrow> l)"

definition resolver_helper_response_address_send ::
  "dns_functions \<Rightarrow> int \<Rightarrow> resolver_ipc_request \<Rightarrow> relay_os \<Rightarrow> (resolver_helper_status option \<times> relay_os) option" where
  "resolver_helper_response_address_send dns fd request os =
     (let family = (if rq_query_type request = ns_t_a then AF_INET else AF_INET6);
          (lookup_status, result) = dns_address_lookup dns (trace os) (rq_query_name request) family in
      case resolver_ipc_lookup_status_from_address lookup_status of
        None \<Rightarrow> Some (Some RESOLVER_HELPER_INTERNAL, os)
      | Some response_status \<Rightarrow>
          (case sys_clock_gettime os of
             (Sys_none, os') \<Rightarrow> Some (None, os')
           | (Sys_err, os') \<Rightarrow> Some (Some RESOLVER_HELPER_INTERNAL, os')
           | (Sys_ret completed_at, os') \<Rightarrow>
               and_then (resolver_helper_response_begin_send fd
                 \<lparr>rb_canonical_name = ad_canonical_name result, rb_cname_count = array_count (ad_cnames result), rb_completed_at = completed_at,
                  rb_negative = ad_negative result, rb_question_name = ad_question_name result, rb_query_class = rq_query_class request,
                  rb_query_id = rq_query_id request, rb_query_type = rq_query_type request, rb_rcode = ad_rcode result,
                  rb_record_count = array_count (ad_addresses result), rb_status = response_status\<rparr> os')
               (\<lambda>os. and_then (send_each (resolver_helper_response_cname_send fd)
                 (\<lambda>index c. \<lparr>rc_record = c, rc_index = of_nat index, rc_query_id = rq_query_id request\<rparr>) 0 (array_elements (ad_cnames result)) os)
               (\<lambda>os. and_then (send_each (resolver_helper_response_address_packet_send fd)
                 (\<lambda>index r. \<lparr>ra_index = of_nat index, ra_query_id = rq_query_id request, ra_record = r\<rparr>) 0 (array_elements (ad_addresses result)) os)
               (resolver_helper_response_end_send fd
                 \<lparr>re_cname_count = array_count (ad_cnames result), re_query_id = rq_query_id request, re_record_count = array_count (ad_addresses result)\<rparr>)))))"

definition resolver_helper_response_srv_send ::
  "dns_functions \<Rightarrow> int \<Rightarrow> resolver_ipc_request \<Rightarrow> relay_os \<Rightarrow> (resolver_helper_status option \<times> relay_os) option" where
  "resolver_helper_response_srv_send dns fd request os =
     (let (lookup_status, result) = dns_srv_lookup dns (trace os) (rq_query_name request) in
      case resolver_ipc_lookup_status_from_srv lookup_status of
        None \<Rightarrow> Some (Some RESOLVER_HELPER_INTERNAL, os)
      | Some response_status \<Rightarrow>
          (case sys_clock_gettime os of
             (Sys_none, os') \<Rightarrow> Some (None, os')
           | (Sys_err, os') \<Rightarrow> Some (Some RESOLVER_HELPER_INTERNAL, os')
           | (Sys_ret completed_at, os') \<Rightarrow>
               and_then (resolver_helper_response_begin_send fd
                 \<lparr>rb_canonical_name = sr_canonical_name result, rb_cname_count = array_count (sr_cnames result), rb_completed_at = completed_at,
                  rb_negative = sr_negative result, rb_question_name = sr_question_name result, rb_query_class = rq_query_class request,
                  rb_query_id = rq_query_id request, rb_query_type = rq_query_type request, rb_rcode = sr_rcode result,
                  rb_record_count = array_count (sr_records result), rb_status = response_status\<rparr> os')
               (\<lambda>os. and_then (send_each (resolver_helper_response_cname_send fd)
                 (\<lambda>index c. \<lparr>rc_record = c, rc_index = of_nat index, rc_query_id = rq_query_id request\<rparr>) 0 (array_elements (sr_cnames result)) os)
               (\<lambda>os. and_then (send_each (resolver_helper_response_srv_packet_send fd)
                 (\<lambda>index r. \<lparr>rv_index = of_nat index, rv_query_id = rq_query_id request, rv_record = r\<rparr>) 0 (array_elements (sr_records result)) os)
               (resolver_helper_response_end_send fd
                 \<lparr>re_cname_count = array_count (sr_cnames result), re_query_id = rq_query_id request, re_record_count = array_count (sr_records result)\<rparr>)))))"

section \<open>Exported functions\<close>

text \<open>No function adds replies to the script, which bounds the loop of \<open>resolver_helper_run\<close>.\<close>

definition shortens :: "relay_os \<Rightarrow> (resolver_helper_status option \<times> relay_os) option \<Rightarrow> bool" where
  "shortens os r \<longleftrightarrow> (\<forall>st os'. r = Some (st, os') \<longrightarrow> length (replies os') \<le> length (replies os))"

lemma none_keeps:
  "sys_send fd buf os = (Sys_none, os') \<Longrightarrow> os' = os" "sys_clock_gettime os = (Sys_none, os') \<Longrightarrow> os' = os"
  "sys_poll i out os = (Sys_none, os') \<Longrightarrow> os' = os" "sys_recv fd n os = (Sys_none, os') \<Longrightarrow> os' = os"
  by (auto simp: sys_send_def sys_clock_gettime_def sys_poll_def sys_recv_def sys_failed_def split: list.splits os_reply.splits if_splits)

lemma event_wait_shortens: "resolver_helper_event_wait events True os = (r, os') \<Longrightarrow> length (replies os') \<le> length (replies os)"
proof (induction "length (replies os)" arbitrary: os rule: less_induct)
  case less
  from less.prems show ?case
    by (subst (asm) resolver_helper_event_wait.simps)
      (auto split: prod.splits sys.splits option.splits if_splits dest: poll_consume none_keeps intro: less_imp_le dest!: less.hyps [rotated] intro: order.trans)
qed

lemma packet_send_shortens: "shortens os (Some (resolver_helper_packet_send fd packet os))"
proof (induction "length (replies os)" arbitrary: os rule: less_induct)
  case less
  obtain r os1 where s: "sys_send fd packet os = (r, os1)" by fastforce
  obtain w os2 where w: "resolver_helper_event_wait (False, True) True os1 = (w, os2)" by fastforce
  have l: "length (replies os1) \<le> length (replies os)" "r \<noteq> Sys_none \<Longrightarrow> length (replies os1) < length (replies os)" "length (replies os2) \<le> length (replies os1)"
    using s none_keeps(1) send_consume' event_wait_shortens [OF w] by (cases r; fastforce)+
  show ?case
    using less.hyps [of os1] less.hyps [of os2] l
    by (subst resolver_helper_packet_send.simps) (auto simp: shortens_def s w split: sys.splits option.splits prod.splits if_splits)
qed

lemma encoded_send_shortens: "shortens os (encoded_send encode fd response os)"
  using packet_send_shortens by (auto simp: shortens_def encoded_send_def bind_eq_Some_conv split: if_splits)

lemma and_then_shortens: "shortens os r \<Longrightarrow> (\<And>os'. shortens os' (k os')) \<Longrightarrow> shortens os (and_then r k)"
  unfolding shortens_def and_then_def by (fastforce split: option.splits prod.splits resolver_helper_status.splits)

lemma send_each_shortens: "(\<And>x os. shortens os (send x os)) \<Longrightarrow> shortens os (send_each send response i xs os)"
  by (induction xs arbitrary: i os) (auto intro!: and_then_shortens, simp add: shortens_def)

lemmas sends_shorten = encoded_send_shortens send_each_shortens

lemma clock_shortens: "sys_clock_gettime os = (r, os') \<Longrightarrow> length (replies os') \<le> length (replies os)"
  by (auto simp: sys_clock_gettime_def sys_failed_def reply_next_def split: list.splits os_reply.splits if_splits)

lemma shortens_trans: "shortens os' r \<Longrightarrow> length (replies os') \<le> length (replies os) \<Longrightarrow> shortens os r"
  by (auto simp: shortens_def)

lemma response_send_shortens:
  "shortens os (resolver_helper_response_address_send dns fd request os)" "shortens os (resolver_helper_response_srv_send dns fd request os)"
  unfolding resolver_helper_response_address_send_def resolver_helper_response_srv_send_def Let_def resolver_helper_response_begin_send_def
    resolver_helper_response_cname_send_def resolver_helper_response_address_packet_send_def resolver_helper_response_srv_packet_send_def resolver_helper_response_end_send_def
  by (auto split: prod.splits option.splits sys.splits intro!: and_then_shortens sends_shorten intro: shortens_trans [OF _ clock_shortens])
    (auto simp: shortens_def dest: clock_shortens)

lemma receive_consume:
  "resolver_helper_packet_receive fd RESOLVER_HELPER_RECEIVE_BYTE_CAPACITY os = (Some x, os') \<Longrightarrow> length (replies os') < length (replies os)"
proof (induction "length (replies os)" arbitrary: os rule: less_induct)
  case less
  obtain w os1 where w: "resolver_helper_event_wait (True, False) True os = (w, os1)" by fastforce
  obtain r os2 where r: "sys_recv fd RESOLVER_HELPER_RECEIVE_BYTE_CAPACITY os1 = (r, os2)" by fastforce
  have p: "helper_peek o1 = (y, o2) \<Longrightarrow> length (replies o2) \<le> length (replies o1)" for o1 o2 y
  proof (induction "length (replies o1)" arbitrary: o1 rule: less_induct)
    case less
    from less.prems show ?case
      by (subst (asm) helper_peek.simps)
        (auto split: prod.splits sys.splits if_splits dest: peek_consume less_imp_le dest!: less.hyps [rotated] intro: order.trans,
         auto simp: sys_peek_def sys_failed_def reply_next_def split: list.splits os_reply.splits if_splits)
  qed
  have l: "w \<noteq> None \<Longrightarrow> length (replies os1) < length (replies os)" "r \<noteq> Sys_none \<Longrightarrow> length (replies os2) < length (replies os1)"
    using event_wait_consume w recv_consume' r by (cases w; cases r; fastforce)+
  show ?case
    using less.prems less.hyps [of os2] l
    by (subst (asm) resolver_helper_packet_receive.simps) (auto simp: w r split: option.splits prod.splits sys.splits if_splits dest!: p)
qed

function resolver_helper_run :: "dns_functions \<Rightarrow> int \<Rightarrow> relay_os \<Rightarrow> (resolver_helper_status option \<times> relay_os) option" where
  "resolver_helper_run dns fd os =
     (if fd < 0 then Some (Some RESOLVER_HELPER_BAD_ARGUMENT, os)
      else
        (case resolver_helper_packet_receive fd RESOLVER_HELPER_RECEIVE_BYTE_CAPACITY os of
           (None, os') \<Rightarrow> Some (None, os')
         | (Some (receive_status, packet), os') \<Rightarrow>
             if receive_status = RESOLVER_HELPER_RECEIVE_END then Some (Some RESOLVER_HELPER_OK, os')
             else if receive_status = RESOLVER_HELPER_RECEIVE_IO then Some (Some RESOLVER_HELPER_IO, os')
             else if receive_status \<noteq> RESOLVER_HELPER_RECEIVE_DATA then Some (Some RESOLVER_HELPER_PROTOCOL, os')
             else
               (case resolver_ipc_request_decode (Some packet) True of
                  (decoded, request) \<Rightarrow>
                    if decoded \<noteq> RESOLVER_IPC_CODEC_OK then Some (Some RESOLVER_HELPER_PROTOCOL, os')
                    else
                      (case (if rq_query_type request = ns_t_srv then resolver_helper_response_srv_send dns fd request os'
                             else resolver_helper_response_address_send dns fd request os') of
                         None \<Rightarrow> None
                       | Some (None, os'') \<Rightarrow> Some (None, os'')
                       | Some (Some status, os'') \<Rightarrow>
                           if status \<noteq> RESOLVER_HELPER_OK then Some (Some status, os'') else resolver_helper_run dns fd os''))))"
  by pat_completeness auto

termination
proof (relation "measure (\<lambda>(dns, fd, os). length (replies os))")
  fix dns fd os x os' y receive_status packet z decoded request w v os'' u status
  assume a: "(x, os') = resolver_helper_packet_receive fd RESOLVER_HELPER_RECEIVE_BYTE_CAPACITY os" "x = Some y"
    "(if rq_query_type request = ns_t_srv then resolver_helper_response_srv_send dns fd request os'
      else resolver_helper_response_address_send dns fd request os') = Some v" "(w, os'') = v"
  have "length (replies os'') \<le> length (replies os')"
    using a(3,4) response_send_shortens [of os' dns fd request] by (auto simp: shortens_def split: if_splits)
  also have "\<dots> < length (replies os)" using a(1,2) receive_consume by (metis (no_types))
  finally show "((dns, fd, os''), (dns, fd, os)) \<in> measure (\<lambda>(dns, fd, os). length (replies os))" by simp
qed auto

declare resolver_helper_run.simps [simp del]

end
