(* ===== verification/Helper_Correct.thy ===== *)
theory Helper_Correct
  imports Helper
begin

text \<open>
  Correctness of the resolver helper: each response function sends the packets of its answer in order or stops; the packets it sends are assembled by the
  listener to the result the lookup gave; and the helper's loop answers every request and ends when the peer shuts down.
\<close>

section \<open>What is sent\<close>

text \<open>The packet an encoder produces, and the sequence of sends that the responses amount to.\<close>

definition encoded :: "('a option \<Rightarrow> bytes option \<Rightarrow> bool \<Rightarrow> (resolver_ipc_codec_status \<times> bytes option \<times> nat) option) \<Rightarrow> 'a \<Rightarrow> bytes option" where
  "encoded encode x =
     (case encode (Some x) (Some (replicate RESOLVER_IPC_PACKET_BYTE_LIMIT 0)) True of
        Some (RESOLVER_IPC_CODEC_OK, Some packet, n) \<Rightarrow> Some (take n packet) | _ \<Rightarrow> None)"

fun send_all :: "int \<Rightarrow> bytes option list \<Rightarrow> relay_os \<Rightarrow> resolver_helper_status option \<times> relay_os" where
  "send_all fd [] os = (Some RESOLVER_HELPER_OK, os)"
| "send_all fd (None # ps) os = (Some RESOLVER_HELPER_INTERNAL, os)"
| "send_all fd (Some p # ps) os =
     (case resolver_helper_packet_send fd p os of (Some RESOLVER_HELPER_OK, os') \<Rightarrow> send_all fd ps os' | r \<Rightarrow> r)"

lemma send_all_append:
  "send_all fd (ps @ qs) os = (case send_all fd ps os of (Some RESOLVER_HELPER_OK, os') \<Rightarrow> send_all fd qs os' | r \<Rightarrow> r)"
  by (induction fd ps os rule: send_all.induct) (auto split: prod.splits option.splits resolver_helper_status.splits)

lemma and_then_all: "and_then (Some (send_all fd ps os)) (\<lambda>os. Some (send_all fd qs os)) = Some (send_all fd (ps @ qs) os)"
  by (auto simp: send_all_append and_then_def split: prod.splits option.splits resolver_helper_status.splits)

context ipc_packet
begin

lemma encoded_frame:
  assumes "wf x"
  shows "encoded encode x = (if ok x \<and> query x \<noteq> 0 then Some (frame kind (query x) (payload x)) else None)"
  using payload_limit [OF assms] by (auto simp: encoded_def encode_eq [OF assms] encode_result_def)

lemma encoded_send_all:
  assumes "wf x"
  shows "encoded_send encode fd x os = Some (send_all fd [encoded encode x] os)"
  using payload_limit [OF assms]
  by (auto simp: encoded_send_def encoded_def encode_eq [OF assms] encode_result_def split: prod.splits option.splits resolver_helper_status.splits)

lemma send_each_all:
  assumes "\<And>i x. x \<in> set xs \<Longrightarrow> wf (mk i x)"
  shows "send_each (encoded_send encode fd) mk i xs os = Some (send_all fd (map (\<lambda>(j, x). encoded encode (mk j x)) (enumerate i xs)) os)"
  using assms
proof (induction xs arbitrary: i os)
  case (Cons x xs)
  have "send_each (encoded_send encode fd) mk (Suc i) xs = (\<lambda>os. Some (send_all fd (map (\<lambda>(j, x). encoded encode (mk j x)) (enumerate (Suc i) xs)) os))"
    using Cons by (intro ext) simp
  then show ?case using Cons.prems by (simp add: encoded_send_all and_then_all del: send_all.simps)
qed simp

lemma encoded_decode:
  "wf x \<Longrightarrow> encoded encode x = Some p \<Longrightarrow> packet_decode kind zero contents (Some p) True = (RESOLVER_IPC_CODEC_OK, norm x)"
  using norm by (auto simp: encoded_frame decode_iff split: if_splits)

end

lemma sys_trace:
  "sys_poll i out os = (r, os') \<Longrightarrow> trace os' = trace os" "sys_clock_gettime os = (t, os') \<Longrightarrow> trace os' = trace os"
  "sys_send fd buf os = (Sys_err, os') \<Longrightarrow> trace os' = trace os" "sys_send fd buf os = (Sys_none, os') \<Longrightarrow> trace os' = trace os"
  "sys_send fd buf os = (Sys_ret n, os') \<Longrightarrow> n \<le> length buf \<and> trace os' = trace os @ [Sent fd (take n buf)]"
  by (auto simp: sys_poll_def sys_clock_gettime_def sys_send_def sys_failed_def reply_next_def record_event_def split: list.splits os_reply.splits if_splits)

lemma event_wait_trace: "resolver_helper_event_wait events True os = (r, os') \<Longrightarrow> trace os' = trace os"
proof (induction "length (replies os)" arbitrary: os rule: less_induct)
  case less
  from less.prems show ?case
    by (subst (asm) resolver_helper_event_wait.simps)
      (auto split: prod.splits sys.splits option.splits if_splits dest: sys_trace dest!: less.hyps [rotated] intro: poll_consume)
qed

text \<open>A packet is sent whole, once, or the status is not \<open>RESOLVER_HELPER_OK\<close>.\<close>

lemma packet_send_trace:
  assumes "resolver_helper_packet_send fd p os = (r, os')"
  shows "if r = Some RESOLVER_HELPER_OK then trace os' = trace os @ [Sent fd p]
    else trace os' = trace os \<or> (\<exists>n < length p. trace os' = trace os @ [Sent fd (take n p)])"
  using assms
proof (induction "length (replies os)" arbitrary: os rule: less_induct)
  case less
  obtain s os1 where s: "sys_send fd p os = (s, os1)" by fastforce
  obtain w os2 where w: "resolver_helper_event_wait (False, True) True os1 = (w, os2)" by fastforce
  have l: "s \<noteq> Sys_none \<Longrightarrow> length (replies os1) < length (replies os)" "length (replies os2) \<le> length (replies os1)"
    using s send_consume' event_wait_shortens [OF w] by (cases s; fastforce)+
  note t = event_wait_trace [OF w]
  show ?case
  proof (cases s)
    case (Sys_ret n)
    then show ?thesis
      using less.prems s sys_trace(5) [of fd p os n os1]
      by (subst (asm) resolver_helper_packet_send.simps) (auto split: if_splits simp: le_less)
  next
    case Sys_err
    have t1: "trace os1 = trace os" using s Sys_err sys_trace(3) by blast
    show ?thesis
      using less.prems less.hyps [of os1] less.hyps [of os2] l Sys_err s w t t1
      by (subst (asm) resolver_helper_packet_send.simps) (auto split: if_splits option.splits prod.splits)
  next
    case Sys_none
    then show ?thesis
      using less.prems s none_keeps(1) by (subst (asm) resolver_helper_packet_send.simps) (auto split: if_splits)
  qed
qed

lemma send_all_ok:
  "send_all fd ps os = (Some RESOLVER_HELPER_OK, os') \<Longrightarrow> \<exists>qs. ps = map Some qs \<and> trace os' = trace os @ map (Sent fd) qs"
proof (induction fd ps os rule: send_all.induct)
  case (3 fd p ps os)
  then obtain os1 where s: "resolver_helper_packet_send fd p os = (Some RESOLVER_HELPER_OK, os1)" "send_all fd ps os1 = (Some RESOLVER_HELPER_OK, os')"
    by (auto split: prod.splits option.splits resolver_helper_status.splits)
  obtain qs where "ps = map Some qs" "trace os' = trace os1 @ map (Sent fd) qs" using "3.IH" [OF s(1) [symmetric] refl refl s(2)] by blast
  then show ?case using packet_send_trace [OF s(1)] by (intro exI [of _ "p # qs"]) simp
qed auto

section \<open>Responses\<close>

text \<open>The range of the C types in a lookup's result.\<close>

definition negative_wf :: "dns_negative_record \<Rightarrow> bool" where
  "negative_wf n \<longleftrightarrow> name_array (neg_owner n) \<and> neg_effective_ttl n \<le> UINT32_MAX \<and> neg_minimum n \<le> UINT32_MAX \<and> neg_record_ttl n \<le> UINT32_MAX"

definition cname_record_wf :: "dns_cname_record \<Rightarrow> bool" where
  "cname_record_wf c \<longleftrightarrow> cn_ttl c \<le> UINT32_MAX \<and> name_array (cn_owner c) \<and> name_array (cn_target c)"

definition address_result_wf :: "dns_address_result \<Rightarrow> bool" where
  "address_result_wf r \<longleftrightarrow>
     name_array (ad_question_name r) \<and> name_array (ad_canonical_name r) \<and> negative_wf (ad_negative r) \<and> list_all cname_record_wf (array_elements (ad_cnames r))
     \<and> list_all (\<lambda>a. ar_record_ttl a \<le> UINT32_MAX \<and> ar_effective_ttl a \<le> UINT32_MAX \<and> length (addr_bytes (ar_address a)) = 16) (array_elements (ad_addresses r))
     \<and> array_count (ad_cnames r) \<le> SIZE_MAX \<and> array_count (ad_addresses r) \<le> SIZE_MAX"

definition srv_result_wf :: "dns_srv_result \<Rightarrow> bool" where
  "srv_result_wf r \<longleftrightarrow>
     name_array (sr_question_name r) \<and> name_array (sr_canonical_name r) \<and> negative_wf (sr_negative r) \<and> list_all cname_record_wf (array_elements (sr_cnames r))
     \<and> list_all (\<lambda>a. srv_record_ttl a \<le> UINT32_MAX \<and> srv_effective_ttl a \<le> UINT32_MAX \<and> name_array (srv_target a)) (array_elements (sr_records r))
     \<and> array_count (sr_cnames r) \<le> SIZE_MAX \<and> array_count (sr_records r) \<le> SIZE_MAX"

definition address_begin :: "resolver_ipc_request \<Rightarrow> resolver_ipc_lookup_status \<Rightarrow> dns_address_result \<Rightarrow> timespec \<Rightarrow> resolver_ipc_response_begin" where
  "address_begin request status result t =
     \<lparr>rb_canonical_name = ad_canonical_name result, rb_cname_count = array_count (ad_cnames result), rb_completed_at = t,
      rb_negative = ad_negative result, rb_question_name = ad_question_name result, rb_query_class = rq_query_class request,
      rb_query_id = rq_query_id request, rb_query_type = rq_query_type request, rb_rcode = ad_rcode result,
      rb_record_count = array_count (ad_addresses result), rb_status = status\<rparr>"

definition srv_begin :: "resolver_ipc_request \<Rightarrow> resolver_ipc_lookup_status \<Rightarrow> dns_srv_result \<Rightarrow> timespec \<Rightarrow> resolver_ipc_response_begin" where
  "srv_begin request status result t =
     \<lparr>rb_canonical_name = sr_canonical_name result, rb_cname_count = array_count (sr_cnames result), rb_completed_at = t,
      rb_negative = sr_negative result, rb_question_name = sr_question_name result, rb_query_class = rq_query_class request,
      rb_query_id = rq_query_id request, rb_query_type = rq_query_type request, rb_rcode = sr_rcode result,
      rb_record_count = array_count (sr_records result), rb_status = status\<rparr>"

text \<open>The packets of an answer, \<open>None\<close> where the encoder refuses.\<close>

definition answer_frame :: "u64 \<Rightarrow> resolver_ipc_response_begin \<Rightarrow> dns_cname_record list option \<Rightarrow> bytes option list \<Rightarrow> bytes option list" where
  "answer_frame query_id begin cnames records =
     [encoded resolver_ipc_response_begin_encode begin]
     @ map (\<lambda>(i, c). encoded resolver_ipc_response_cname_encode (cname_message query_id i c)) (enumerate 0 (array_elements cnames))
     @ records
     @ [encoded resolver_ipc_response_end_encode
          \<lparr>re_cname_count = array_count cnames, re_query_id = query_id, re_record_count = rb_record_count begin\<rparr>]"

definition address_answer :: "resolver_ipc_request \<Rightarrow> resolver_ipc_lookup_status \<Rightarrow> dns_address_result \<Rightarrow> timespec \<Rightarrow> bytes option list" where
  "address_answer request status result t =
     answer_frame (rq_query_id request) (address_begin request status result t) (ad_cnames result)
       (map (\<lambda>(i, r). encoded resolver_ipc_response_address_encode (address_message (rq_query_id request) i r)) (enumerate 0 (array_elements (ad_addresses result))))"

definition srv_answer :: "resolver_ipc_request \<Rightarrow> resolver_ipc_lookup_status \<Rightarrow> dns_srv_result \<Rightarrow> timespec \<Rightarrow> bytes option list" where
  "srv_answer request status result t =
     answer_frame (rq_query_id request) (srv_begin request status result t) (sr_cnames result)
       (map (\<lambda>(i, r). encoded resolver_ipc_response_srv_encode (srv_message (rq_query_id request) i r)) (enumerate 0 (array_elements (sr_records result))))"

lemma sends_all:
  assumes "begin_wf x" "list_all cname_record_wf (array_elements cnames)" "array_count cnames \<le> SIZE_MAX" "rb_record_count x \<le> SIZE_MAX"
    and "\<And>os. records os = Some (send_all fd ps os)"
  shows "and_then (resolver_helper_response_begin_send fd x os)
      (\<lambda>os. and_then (send_each (resolver_helper_response_cname_send fd) (\<lambda>index c. \<lparr>rc_record = c, rc_index = of_nat index, rc_query_id = query_id\<rparr>) 0 (array_elements cnames) os)
      (\<lambda>os. and_then (records os)
      (resolver_helper_response_end_send fd \<lparr>re_cname_count = array_count cnames, re_query_id = query_id, re_record_count = rb_record_count x\<rparr>)))
    = Some (send_all fd (answer_frame query_id x cnames ps) os)"
proof -
  have b: "resolver_helper_response_begin_send fd x os = Some (send_all fd [encoded resolver_ipc_response_begin_encode x] os)" for os
    unfolding resolver_helper_response_begin_send_def using assms(1) by (rule begin_packet.encoded_send_all)
  have e: "resolver_helper_response_end_send fd \<lparr>re_cname_count = array_count cnames, re_query_id = query_id, re_record_count = rb_record_count x\<rparr>
      = (\<lambda>os. Some (send_all fd [encoded resolver_ipc_response_end_encode \<lparr>re_cname_count = array_count cnames, re_query_id = query_id, re_record_count = rb_record_count x\<rparr>] os))"
    unfolding resolver_helper_response_end_send_def using assms(3,4) by (intro ext end_packet.encoded_send_all) (simp add: end_wf_def)
  have c: "send_each (resolver_helper_response_cname_send fd) (\<lambda>index c. \<lparr>rc_record = c, rc_index = of_nat index, rc_query_id = query_id\<rparr>) 0 (array_elements cnames) os
      = Some (send_all fd (map (\<lambda>(i, c). encoded resolver_ipc_response_cname_encode (cname_message query_id i c)) (enumerate 0 (array_elements cnames))) os)" for os
    unfolding resolver_helper_response_cname_send_def cname_message_def
    using assms(2) by (intro cname_packet.send_each_all) (auto simp: cname_wf_def cname_record_wf_def list_all_iff)
  show ?thesis unfolding b c e assms(5) and_then_all answer_frame_def append.assoc ..
qed

lemma address_send_eq:
  assumes "dns_address_lookup dns (trace os) (rq_query_name request) (if rq_query_type request = ns_t_a then AF_INET else AF_INET6) = (lookup, result)"
    and "address_result_wf result" "resolver_ipc_lookup_status_from_address lookup = Some status" "sys_clock_gettime os = (Sys_ret t, os')" "timespec_range t"
  shows "resolver_helper_response_address_send dns fd request os = Some (send_all fd (address_answer request status result t) os')"
proof -
  have w: "begin_wf (address_begin request status result t)" using assms(2,5) by (simp add: begin_wf_def address_begin_def address_result_wf_def negative_wf_def)
  have r: "send_each (resolver_helper_response_address_packet_send fd) (\<lambda>index r. \<lparr>ra_index = of_nat index, ra_query_id = rq_query_id request, ra_record = r\<rparr>) 0 (array_elements (ad_addresses result)) os
      = Some (send_all fd (map (\<lambda>(i, r). encoded resolver_ipc_response_address_encode (address_message (rq_query_id request) i r)) (enumerate 0 (array_elements (ad_addresses result)))) os)" for os
    unfolding resolver_helper_response_address_packet_send_def address_message_def
    using assms(2) by (intro address_packet.send_each_all) (auto simp: address_wf_def address_result_wf_def list_all_iff)
  show ?thesis
    unfolding resolver_helper_response_address_send_def Let_def assms(1,3,4) prod.case option.case sys.case address_answer_def
    using sends_all [OF w _ _ _ r, where cnames = "ad_cnames result" and query_id = "rq_query_id request" and os = os'] assms(2) by (simp add: address_begin_def address_result_wf_def)
qed

lemma srv_send_eq:
  assumes "dns_srv_lookup dns (trace os) (rq_query_name request) = (lookup, result)"
    and "srv_result_wf result" "resolver_ipc_lookup_status_from_srv lookup = Some status" "sys_clock_gettime os = (Sys_ret t, os')" "timespec_range t"
  shows "resolver_helper_response_srv_send dns fd request os = Some (send_all fd (srv_answer request status result t) os')"
proof -
  have w: "begin_wf (srv_begin request status result t)" using assms(2,5) by (simp add: begin_wf_def srv_begin_def srv_result_wf_def negative_wf_def)
  have r: "send_each (resolver_helper_response_srv_packet_send fd) (\<lambda>index r. \<lparr>rv_index = of_nat index, rv_query_id = rq_query_id request, rv_record = r\<rparr>) 0 (array_elements (sr_records result)) os
      = Some (send_all fd (map (\<lambda>(i, r). encoded resolver_ipc_response_srv_encode (srv_message (rq_query_id request) i r)) (enumerate 0 (array_elements (sr_records result)))) os)" for os
    unfolding resolver_helper_response_srv_packet_send_def srv_message_def
    using assms(2) by (intro srv_packet.send_each_all) (auto simp: srv_wf_def srv_result_wf_def list_all_iff)
  show ?thesis
    unfolding resolver_helper_response_srv_send_def Let_def assms(1,3,4) prod.case option.case sys.case srv_answer_def
    using sends_all [OF w _ _ _ r, where cnames = "sr_cnames result" and query_id = "rq_query_id request" and os = os'] assms(2) by (simp add: srv_begin_def srv_result_wf_def)
qed

section \<open>From the helper to the listener\<close>

context ipc_packet
begin

lemma numbered_encoded:
  assumes "\<And>i x. x \<in> set xs \<Longrightarrow> wf (mk i x)" "map (\<lambda>(j, x). encoded encode (mk j x)) (enumerate i xs) = map Some ps"
  shows "numbered (packet_decode kind zero contents) (\<lambda>j x. norm (mk j x)) i xs ps"
  using assms
proof (induction xs arbitrary: i ps)
  case (Cons x xs)
  then obtain p qs where "ps = p # qs" "encoded encode (mk i x) = Some p" "map (\<lambda>(j, x). encoded encode (mk j x)) (enumerate (Suc i) xs) = map Some qs"
    by (cases ps) auto
  with Cons show ?case using encoded_decode [of "mk i x" p] by simp
qed simp

end

lemma numbered_map: "numbered d (\<lambda>i x. f i (g x)) i xs ps \<longleftrightarrow> numbered d f i (map g xs) ps"
  by (induction d "\<lambda>i x. f i (g x)" i xs ps rule: numbered.induct) auto

lemma answer_parts:
  assumes "answer_frame query_id x cnames records = map Some qs"
  obtains pb pcs prs pe where "qs = (pb # pcs) @ prs @ [pe]" "encoded resolver_ipc_response_begin_encode x = Some pb"
    "map (\<lambda>(i, c). encoded resolver_ipc_response_cname_encode (cname_message query_id i c)) (enumerate 0 (array_elements cnames)) = map Some pcs"
    "records = map Some prs"
    "encoded resolver_ipc_response_end_encode \<lparr>re_cname_count = array_count cnames, re_query_id = query_id, re_record_count = rb_record_count x\<rparr> = Some pe"
  using assms unfolding answer_frame_def append_eq_map_conv by auto

definition record_norm :: "dns_address_record \<Rightarrow> dns_address_record" where
  "record_norm r = r\<lparr>ar_address := net_addr_norm (ar_address r)\<rparr>"

text \<open>What the listener gets of a result: an IPv4 address without the unused bytes of its union, and empty arrays as absent ones.\<close>

definition address_result_sent :: "dns_address_result \<Rightarrow> dns_address_result" where
  "address_result_sent r =
     r\<lparr>ad_addresses := response_array (map record_norm (array_elements (ad_addresses r))), ad_cnames := response_array (array_elements (ad_cnames r))\<rparr>"

definition srv_result_sent :: "dns_srv_result \<Rightarrow> dns_srv_result" where
  "srv_result_sent r = r\<lparr>sr_cnames := response_array (array_elements (sr_cnames r)), sr_records := response_array (array_elements (sr_records r))\<rparr>"

lemma array_count_elements: "array_count xs = length (array_elements xs)"
  by (simp add: array_count_def array_elements_def split: option.splits)

lemma begin_decoded: "begin_wf x \<Longrightarrow> encoded resolver_ipc_response_begin_encode x = Some p \<Longrightarrow> resolver_ipc_response_begin_decode (Some p) True = (RESOLVER_IPC_CODEC_OK, x)"
  using begin_packet.encoded_decode [of x p] by (simp add: resolver_ipc_response_begin_decode_def)

lemma end_decoded: "end_wf x \<Longrightarrow> encoded resolver_ipc_response_end_encode x = Some p \<Longrightarrow> resolver_ipc_response_end_decode (Some p) True = (RESOLVER_IPC_CODEC_OK, x)"
  using end_packet.encoded_decode [of x p] by (simp add: resolver_ipc_response_end_decode_def)

lemma message_wf:
  "cname_wf (cname_message query_id i c) = cname_record_wf c"
  "srv_wf (srv_message query_id i r) \<longleftrightarrow> srv_record_ttl r \<le> UINT32_MAX \<and> srv_effective_ttl r \<le> UINT32_MAX \<and> name_array (srv_target r)"
  "address_wf (address_message query_id i x) \<longleftrightarrow> ar_record_ttl x \<le> UINT32_MAX \<and> ar_effective_ttl x \<le> UINT32_MAX \<and> length (addr_bytes (ar_address x)) = 16"
  by (simp_all add: cname_wf_def cname_message_def cname_record_wf_def srv_wf_def srv_message_def address_wf_def address_message_def)

lemma cnames_decoded:
  assumes "list_all cname_record_wf cs" "map (\<lambda>(i, c). encoded resolver_ipc_response_cname_encode (cname_message query_id i c)) (enumerate 0 cs) = map Some pcs"
  shows "numbered resolver_ipc_response_cname_decode (cname_message query_id) 0 cs pcs"
  using cname_packet.numbered_encoded [OF _ assms(2)] assms(1)
  by (simp add: resolver_ipc_response_cname_decode_def message_wf list_all_iff)

lemma srvs_decoded:
  assumes "list_all (\<lambda>a. srv_record_ttl a \<le> UINT32_MAX \<and> srv_effective_ttl a \<le> UINT32_MAX \<and> name_array (srv_target a)) rs"
    and "map (\<lambda>(i, r). encoded resolver_ipc_response_srv_encode (srv_message query_id i r)) (enumerate 0 rs) = map Some prs"
  shows "numbered resolver_ipc_response_srv_decode (srv_message query_id) 0 rs prs"
  using srv_packet.numbered_encoded [OF _ assms(2)] assms(1)
  by (simp add: resolver_ipc_response_srv_decode_def message_wf list_all_iff)

lemma addresses_decoded:
  assumes "list_all (\<lambda>a. ar_record_ttl a \<le> UINT32_MAX \<and> ar_effective_ttl a \<le> UINT32_MAX \<and> length (addr_bytes (ar_address a)) = 16) rs"
    and "map (\<lambda>(i, r). encoded resolver_ipc_response_address_encode (address_message query_id i r)) (enumerate 0 rs) = map Some prs"
  shows "numbered resolver_ipc_response_address_decode (address_message query_id) 0 (map record_norm rs) prs"
proof -
  have "(\<lambda>j x. address_norm (address_message query_id j x)) = (\<lambda>j x. address_message query_id j (record_norm x))"
    by (simp add: address_norm_def address_message_def record_norm_def fun_eq_iff)
  then show ?thesis
    unfolding resolver_ipc_response_address_decode_def numbered_map [symmetric]
    using address_packet.numbered_encoded [OF _ assms(2)] assms(1) by (simp add: message_wf list_all_iff)
qed

lemma addresses_ok_norm: "addresses_ok q cs (map record_norm rs) = addresses_ok q cs rs"
  by (auto simp: addresses_ok_def record_norm_def net_addr_norm_def)

lemma address_answer_delivered:
  assumes "assembly_ok cfg a" "as_state a = RESOLVER_IPC_ASSEMBLY_STATE_BEGIN" "histograms_ok b" "assembly_at p b = Some a"
    and "address_result_wf result" "timespec_range t" "address_answer request status result t = map Some packets"
    and "as_query_id a = rq_query_id request" "as_query_type a = rq_query_type request" "rq_query_type request \<noteq> ns_t_srv"
    and "response_shape a (address_begin request status result t) (array_elements (ad_cnames result)) (array_count (ad_addresses result))"
    and "addresses_ok (rq_query_type request) (array_elements (ad_cnames result)) (array_elements (ad_addresses result))"
    and "room cfg (rq_query_type request) (array_count (ad_cnames result)) (array_count (ad_addresses result)) b"
  shows "\<exists>a' b'. packets_consume cfg p packets b = Some (RESOLVER_IPC_ASSEMBLY_COMPLETE, b') \<and> assembly_at p b' = Some a'
    \<and> as_state a' = RESOLVER_IPC_ASSEMBLY_STATE_COMPLETE \<and> as_status a' = status \<and> as_completed_at a' = t \<and> payload_address (as_payload a') = address_result_sent result"
proof -
  define cs where "cs = array_elements (ad_cnames result)"
  define rs where "rs = map record_norm (array_elements (ad_addresses result))"
  have n: "array_count (ad_cnames result) = length cs" "array_count (ad_addresses result) = length rs" by (simp_all add: cs_def rs_def array_count_elements)
  let ?x = "address_begin request status result t"
  have w: "begin_wf ?x" using assms(5,6) by (simp add: begin_wf_def address_begin_def address_result_wf_def negative_wf_def)
  obtain pb pcs prs pe where q: "packets = (pb # pcs) @ prs @ [pe]" "encoded resolver_ipc_response_begin_encode ?x = Some pb"
    "map (\<lambda>(i, c). encoded resolver_ipc_response_cname_encode (cname_message (rq_query_id request) i c)) (enumerate 0 (array_elements (ad_cnames result))) = map Some pcs"
    "map (\<lambda>(i, r). encoded resolver_ipc_response_address_encode (address_message (rq_query_id request) i r)) (enumerate 0 (array_elements (ad_addresses result))) = map Some prs"
    "encoded resolver_ipc_response_end_encode \<lparr>re_cname_count = array_count (ad_cnames result), re_query_id = rq_query_id request, re_record_count = rb_record_count ?x\<rparr> = Some pe"
    by (rule answer_parts [OF assms(7) [unfolded address_answer_def]])
  have c: "numbered resolver_ipc_response_cname_decode (cname_message (as_query_id a)) 0 cs pcs"
    using cnames_decoded q(3) assms(5,8) by (simp add: cs_def address_result_wf_def)
  have r: "numbered resolver_ipc_response_address_decode (address_message (as_query_id a)) 0 rs prs"
    using addresses_decoded q(4) assms(5,8) by (simp add: rs_def address_result_wf_def)
  have e: "resolver_ipc_response_end_decode (Some pe) True = (RESOLVER_IPC_CODEC_OK, \<lparr>re_cname_count = length cs, re_query_id = as_query_id a, re_record_count = length rs\<rparr>)"
    using end_decoded [OF _ q(5)] assms(5,8) n by (simp add: end_wf_def address_result_wf_def address_begin_def)
  have s: "response_shape a ?x cs (length rs)" "room cfg (as_query_type a) (length cs) (length rs) b" "addresses_ok (as_query_type a) cs rs" "as_query_type a \<noteq> ns_t_srv"
    using assms(9-13) n by (simp_all add: cs_def rs_def addresses_ok_norm)
  obtain a' b' where d: "assembly_deliver cfg packets a b = Some (RESOLVER_IPC_ASSEMBLY_COMPLETE, a', b')"
    "as_state a' = RESOLVER_IPC_ASSEMBLY_STATE_COMPLETE" "as_status a' = rb_status ?x" "as_completed_at a' = rb_completed_at ?x"
    "payload_address (as_payload a') =
        \<lparr>ad_addresses = response_array rs, ad_canonical_name = rb_canonical_name ?x, ad_cnames = response_array cs, ad_negative = rb_negative ?x,
         ad_question_name = rb_question_name ?x, ad_rcode = rb_rcode ?x\<rparr>"
    using address_response_delivered [OF assms(1-3) begin_decoded [OF w q(2)] s(1,2) c s(4) r s(3) e] unfolding q(1) by blast
  have "p \<in> fst ` set (ab_assemblies b)" using assms(4) by (force simp: assembly_at_def dest: map_of_SomeD)
  then have "assembly_at p (with_assemblies (entry_put p a' (ab_assemblies b)) b') = Some a'" by (simp add: assembly_at_def entry_put_of)
  moreover have "packets \<noteq> []" by (simp add: q(1))
  ultimately show ?thesis
    using deliver_packets [OF assms(4) d(1)] d by (intro exI [of _ a'] exI [of _ "with_assemblies (entry_put p a' (ab_assemblies b)) b'"])
      (simp add: address_begin_def address_result_sent_def cs_def rs_def)
qed

lemma srv_answer_delivered:
  assumes "assembly_ok cfg a" "as_state a = RESOLVER_IPC_ASSEMBLY_STATE_BEGIN" "histograms_ok b" "assembly_at p b = Some a"
    and "srv_result_wf result" "timespec_range t" "srv_answer request status result t = map Some packets"
    and "as_query_id a = rq_query_id request" "as_query_type a = rq_query_type request" "rq_query_type request = ns_t_srv"
    and "response_shape a (srv_begin request status result t) (array_elements (sr_cnames result)) (array_count (sr_records result))"
    and "srvs_ok (array_elements (sr_cnames result)) (array_elements (sr_records result))"
    and "room cfg (rq_query_type request) (array_count (sr_cnames result)) (array_count (sr_records result)) b"
  shows "\<exists>a' b'. packets_consume cfg p packets b = Some (RESOLVER_IPC_ASSEMBLY_COMPLETE, b') \<and> assembly_at p b' = Some a'
    \<and> as_state a' = RESOLVER_IPC_ASSEMBLY_STATE_COMPLETE \<and> as_status a' = status \<and> as_completed_at a' = t \<and> payload_srv (as_payload a') = srv_result_sent result"
proof -
  define cs where "cs = array_elements (sr_cnames result)"
  define rs where "rs = array_elements (sr_records result)"
  have n: "array_count (sr_cnames result) = length cs" "array_count (sr_records result) = length rs" by (simp_all add: cs_def rs_def array_count_elements)
  let ?x = "srv_begin request status result t"
  have w: "begin_wf ?x" using assms(5,6) by (simp add: begin_wf_def srv_begin_def srv_result_wf_def negative_wf_def)
  obtain pb pcs prs pe where q: "packets = (pb # pcs) @ prs @ [pe]" "encoded resolver_ipc_response_begin_encode ?x = Some pb"
    "map (\<lambda>(i, c). encoded resolver_ipc_response_cname_encode (cname_message (rq_query_id request) i c)) (enumerate 0 (array_elements (sr_cnames result))) = map Some pcs"
    "map (\<lambda>(i, r). encoded resolver_ipc_response_srv_encode (srv_message (rq_query_id request) i r)) (enumerate 0 (array_elements (sr_records result))) = map Some prs"
    "encoded resolver_ipc_response_end_encode \<lparr>re_cname_count = array_count (sr_cnames result), re_query_id = rq_query_id request, re_record_count = rb_record_count ?x\<rparr> = Some pe"
    by (rule answer_parts [OF assms(7) [unfolded srv_answer_def]])
  have c: "numbered resolver_ipc_response_cname_decode (cname_message (as_query_id a)) 0 cs pcs"
    using cnames_decoded q(3) assms(5,8) by (simp add: cs_def srv_result_wf_def)
  have r: "numbered resolver_ipc_response_srv_decode (srv_message (as_query_id a)) 0 rs prs"
    using srvs_decoded q(4) assms(5,8) by (simp add: rs_def srv_result_wf_def)
  have e: "resolver_ipc_response_end_decode (Some pe) True = (RESOLVER_IPC_CODEC_OK, \<lparr>re_cname_count = length cs, re_query_id = as_query_id a, re_record_count = length rs\<rparr>)"
    using end_decoded [OF _ q(5)] assms(5,8) n by (simp add: end_wf_def srv_result_wf_def srv_begin_def)
  have s: "response_shape a ?x cs (length rs)" "room cfg (as_query_type a) (length cs) (length rs) b" "srvs_ok cs rs" "as_query_type a = ns_t_srv"
    using assms(9-13) n by (simp_all add: cs_def rs_def )
  obtain a' b' where d: "assembly_deliver cfg packets a b = Some (RESOLVER_IPC_ASSEMBLY_COMPLETE, a', b')"
    "as_state a' = RESOLVER_IPC_ASSEMBLY_STATE_COMPLETE" "as_status a' = rb_status ?x" "as_completed_at a' = rb_completed_at ?x"
    "payload_srv (as_payload a') =
        \<lparr>sr_canonical_name = rb_canonical_name ?x, sr_cnames = response_array cs, sr_negative = rb_negative ?x,
         sr_question_name = rb_question_name ?x, sr_rcode = rb_rcode ?x, sr_records = response_array rs\<rparr>"
    using srv_response_delivered [OF assms(1-3) begin_decoded [OF w q(2)] s(1,2) c s(4) r s(3) e] unfolding q(1) by blast
  have "p \<in> fst ` set (ab_assemblies b)" using assms(4) by (force simp: assembly_at_def dest: map_of_SomeD)
  then have "assembly_at p (with_assemblies (entry_put p a' (ab_assemblies b)) b') = Some a'" by (simp add: assembly_at_def entry_put_of)
  moreover have "packets \<noteq> []" by (simp add: q(1))
  ultimately show ?thesis
    using deliver_packets [OF assms(4) d(1)] d by (intro exI [of _ a'] exI [of _ "with_assemblies (entry_put p a' (ab_assemblies b)) b'"])
      (simp add: srv_begin_def srv_result_sent_def cs_def rs_def)
qed

text \<open>
  A result the listener can take over: its values are in the range of their C types, the listener's checks of the beginning, of the alias chain and of the
  absence hold of it, its records belong to the question and have the times to live that follow from the chain, and there is room for it.
\<close>

definition address_orderly :: "assembly_config \<Rightarrow> resolver_ipc_assembly \<Rightarrow> resolver_ipc_assembly_budget \<Rightarrow> resolver_ipc_request \<Rightarrow> dns_address_lookup_status \<times> dns_address_result \<Rightarrow> bool" where
  "address_orderly cfg a b request = (\<lambda>(lookup, result).
     address_result_wf result
     \<and> (\<forall>status t. resolver_ipc_lookup_status_from_address lookup = Some status \<longrightarrow>
          response_shape a (address_begin request status result t) (array_elements (ad_cnames result)) (array_count (ad_addresses result)))
     \<and> addresses_ok (rq_query_type request) (array_elements (ad_cnames result)) (array_elements (ad_addresses result))
     \<and> room cfg (rq_query_type request) (array_count (ad_cnames result)) (array_count (ad_addresses result)) b)"

definition srv_orderly :: "assembly_config \<Rightarrow> resolver_ipc_assembly \<Rightarrow> resolver_ipc_assembly_budget \<Rightarrow> resolver_ipc_request \<Rightarrow> dns_srv_lookup_status \<times> dns_srv_result \<Rightarrow> bool" where
  "srv_orderly cfg a b request = (\<lambda>(lookup, result).
     srv_result_wf result
     \<and> (\<forall>status t. resolver_ipc_lookup_status_from_srv lookup = Some status \<longrightarrow>
          response_shape a (srv_begin request status result t) (array_elements (sr_cnames result)) (array_count (sr_records result)))
     \<and> srvs_ok (array_elements (sr_cnames result)) (array_elements (sr_records result))
     \<and> room cfg (rq_query_type request) (array_count (sr_cnames result)) (array_count (sr_records result)) b)"

lemma status_from_total:
  "\<exists>status. resolver_ipc_lookup_status_from_address lookup = Some status \<and> resolver_ipc_lookup_status_to_address status = Some lookup"
  "\<exists>status. resolver_ipc_lookup_status_from_srv l = Some status \<and> resolver_ipc_lookup_status_to_srv status = Some l"
  using lookup_status_roundtrip(1) [of lookup] lookup_status_roundtrip(2) [of l]
  by (cases "resolver_ipc_lookup_status_from_address lookup"; cases "resolver_ipc_lookup_status_from_srv l"; simp)+

lemma clock_time:
  assumes "sys_clock_gettime os = (Sys_ret t, os')"
  shows "replies os = Rep_time t # replies os' \<and> trace os' = trace os"
  using assms by (auto simp: sys_clock_gettime_def sys_failed_def reply_next_def split: list.splits os_reply.splits if_splits)

lemma address_assembled:
  assumes "dns_address_lookup dns (trace os) (rq_query_name request) (if rq_query_type request = ns_t_a then AF_INET else AF_INET6) = (lookup, result)"
    and "address_orderly cfg a (sys_budget s) request (lookup, result)" "rq_query_type request \<noteq> ns_t_srv" "\<forall>t. Rep_time t \<in> set (replies os) \<longrightarrow> timespec_range t"
    and "resolver_helper_response_address_send dns fd request os = Some (Some RESOLVER_HELPER_OK, os')"
    and "assembly_inv cfg s" "assembly_at p (sys_budget s) = Some a" "as_state a = RESOLVER_IPC_ASSEMBLY_STATE_BEGIN"
    and "as_query_id a = rq_query_id request" "as_query_type a = rq_query_type request"
  shows "\<exists>t packets a' b'. hd (replies os) = Rep_time t \<and> trace os' = trace os @ map (Sent fd) packets
    \<and> packets_consume cfg p packets (sys_budget s) = Some (RESOLVER_IPC_ASSEMBLY_COMPLETE, b') \<and> assembly_at p b' = Some a'
    \<and> as_state a' = RESOLVER_IPC_ASSEMBLY_STATE_COMPLETE \<and> as_completed_at a' = t
    \<and> resolver_ipc_lookup_status_to_address (as_status a') = Some lookup \<and> payload_address (as_payload a') = address_result_sent result"
proof -
  obtain status where st: "resolver_ipc_lookup_status_from_address lookup = Some status" "resolver_ipc_lookup_status_to_address status = Some lookup"
    using status_from_total(1) by blast
  have w: "address_result_wf result" "addresses_ok (rq_query_type request) (array_elements (ad_cnames result)) (array_elements (ad_addresses result))"
      "room cfg (rq_query_type request) (array_count (ad_cnames result)) (array_count (ad_addresses result)) (sys_budget s)"
      "response_shape a (address_begin request status result t) (array_elements (ad_cnames result)) (array_count (ad_addresses result))" for t
    using assms(2) st(1) by (simp_all add: address_orderly_def)
  obtain r os1 where c: "sys_clock_gettime os = (r, os1)" by fastforce
  obtain t where t: "r = Sys_ret t"
    using assms(1,5) st(1) c by (cases r) (auto simp: resolver_helper_response_address_send_def Let_def)
  have k: "replies os = Rep_time t # replies os1" "trace os1 = trace os" using clock_time c t by auto
  then have range: "timespec_range t" using assms(4) by simp
  have "send_all fd (address_answer request status result t) os1 = (Some RESOLVER_HELPER_OK, os')"
    using address_send_eq [OF assms(1) w(1) st(1) c [unfolded t] range, of fd] assms(5) by simp
  then obtain packets where q: "address_answer request status result t = map Some packets" "trace os' = trace os1 @ map (Sent fd) packets"
    using send_all_ok by blast
  note l = live_charge(2,3) [OF assms(6,7)]
  show ?thesis
    using address_answer_delivered [OF l(1) assms(8) l(2) assms(7) w(1) range q(1) assms(9,10,3) w(4,2,3)] q(2) k st(2) by auto
qed

lemma srv_assembled:
  assumes "dns_srv_lookup dns (trace os) (rq_query_name request) = (lookup, result)"
    and "srv_orderly cfg a (sys_budget s) request (lookup, result)" "rq_query_type request = ns_t_srv" "\<forall>t. Rep_time t \<in> set (replies os) \<longrightarrow> timespec_range t"
    and "resolver_helper_response_srv_send dns fd request os = Some (Some RESOLVER_HELPER_OK, os')"
    and "assembly_inv cfg s" "assembly_at p (sys_budget s) = Some a" "as_state a = RESOLVER_IPC_ASSEMBLY_STATE_BEGIN"
    and "as_query_id a = rq_query_id request" "as_query_type a = rq_query_type request"
  shows "\<exists>t packets a' b'. hd (replies os) = Rep_time t \<and> trace os' = trace os @ map (Sent fd) packets
    \<and> packets_consume cfg p packets (sys_budget s) = Some (RESOLVER_IPC_ASSEMBLY_COMPLETE, b') \<and> assembly_at p b' = Some a'
    \<and> as_state a' = RESOLVER_IPC_ASSEMBLY_STATE_COMPLETE \<and> as_completed_at a' = t
    \<and> resolver_ipc_lookup_status_to_srv (as_status a') = Some lookup \<and> payload_srv (as_payload a') = srv_result_sent result"
proof -
  obtain status where st: "resolver_ipc_lookup_status_from_srv lookup = Some status" "resolver_ipc_lookup_status_to_srv status = Some lookup"
    using status_from_total(2) by blast
  have w: "srv_result_wf result" "srvs_ok (array_elements (sr_cnames result)) (array_elements (sr_records result))"
      "room cfg (rq_query_type request) (array_count (sr_cnames result)) (array_count (sr_records result)) (sys_budget s)"
      "response_shape a (srv_begin request status result t) (array_elements (sr_cnames result)) (array_count (sr_records result))" for t
    using assms(2) st(1) by (simp_all add: srv_orderly_def)
  obtain r os1 where c: "sys_clock_gettime os = (r, os1)" by fastforce
  obtain t where t: "r = Sys_ret t"
    using assms(1,5) st(1) c by (cases r) (auto simp: resolver_helper_response_srv_send_def Let_def)
  have k: "replies os = Rep_time t # replies os1" "trace os1 = trace os" using clock_time c t by auto
  then have range: "timespec_range t" using assms(4) by simp
  have "send_all fd (srv_answer request status result t) os1 = (Some RESOLVER_HELPER_OK, os')"
    using srv_send_eq [OF assms(1) w(1) st(1) c [unfolded t] range, of fd] assms(5) by simp
  then obtain packets where q: "srv_answer request status result t = map Some packets" "trace os' = trace os1 @ map (Sent fd) packets"
    using send_all_ok by blast
  note l = live_charge(2,3) [OF assms(6,7)]
  show ?thesis
    using srv_answer_delivered [OF l(1) assms(8) l(2) assms(7) w(1) range q(1) assms(9,10,3) w(4,2,3)] q(2) k st(2) by auto
qed

text \<open>
  C5: an answer crosses the process boundary unchanged. Suppose the helper answers an address or service request and all its sends succeed, however often the
  system interrupted or delayed them. Suppose the lookup's result is orderly for the listener (\<open>address_orderly\<close>, \<open>srv_orderly\<close>): its values are in the range of their C types;
  the listener's check of the beginning holds of it, its aliases form a chain of normalized names from the question to the canonical name, and a
  negative record encloses the canonical name (\<open>response_shape\<close>); its records have the family asked for or normalized targets, and
  the times to live that the chain allows (\<open>addresses_ok\<close>, \<open>srvs_ok\<close>); and its arrays fit the listener's limits and its budget (\<open>room\<close>). Then
  the packets that were sent, consumed in order by the listener's assembly for that request in any reachable state, complete the assembly; and the
  listener holds the lookup's status, the time the helper read from its clock, and the lookup's result with every name, count and
  record (an IPv4 address without the unused bytes of its union).
\<close>

theorem helper_answer_assembled:
  assumes "assembly_init cfg s0" "(assembly_step cfg)\<^sup>*\<^sup>* s0 s" "assembly_at p (sys_budget s) = Some a" "as_state a = RESOLVER_IPC_ASSEMBLY_STATE_BEGIN"
    and "as_query_id a = rq_query_id request" "as_query_type a = rq_query_type request" "\<forall>t. Rep_time t \<in> set (replies os) \<longrightarrow> timespec_range t"
    and "(if rq_query_type request = ns_t_srv then resolver_helper_response_srv_send dns fd request os
          else resolver_helper_response_address_send dns fd request os) = Some (Some RESOLVER_HELPER_OK, os')"
  defines "srv \<equiv> dns_srv_lookup dns (trace os) (rq_query_name request)"
    and "address \<equiv> dns_address_lookup dns (trace os) (rq_query_name request) (if rq_query_type request = ns_t_a then AF_INET else AF_INET6)"
  assumes "if rq_query_type request = ns_t_srv then srv_orderly cfg a (sys_budget s) request srv else address_orderly cfg a (sys_budget s) request address"
  shows "\<exists>t packets a' b'. hd (replies os) = Rep_time t \<and> trace os' = trace os @ map (Sent fd) packets
    \<and> packets_consume cfg p packets (sys_budget s) = Some (RESOLVER_IPC_ASSEMBLY_COMPLETE, b') \<and> assembly_at p b' = Some a'
    \<and> as_state a' = RESOLVER_IPC_ASSEMBLY_STATE_COMPLETE \<and> as_completed_at a' = t
    \<and> (if rq_query_type request = ns_t_srv
       then resolver_ipc_lookup_status_to_srv (as_status a') = Some (fst srv) \<and> payload_srv (as_payload a') = srv_result_sent (snd srv)
       else resolver_ipc_lookup_status_to_address (as_status a') = Some (fst address) \<and> payload_address (as_payload a') = address_result_sent (snd address))"
proof (cases "rq_query_type request = ns_t_srv")
  case True
  have "dns_srv_lookup dns (trace os) (rq_query_name request) = (fst srv, snd srv)" "srv_orderly cfg a (sys_budget s) request (fst srv, snd srv)"
      "resolver_helper_response_srv_send dns fd request os = Some (Some RESOLVER_HELPER_OK, os')"
    using assms(8,11) True by (simp_all add: srv_def)
  from srv_assembled [OF this(1,2) True assms(7) this(3) assembly_machine.inv_reachable [OF assms(1,2)] assms(3-6)] show ?thesis using True by simp
next
  case False
  have "dns_address_lookup dns (trace os) (rq_query_name request) (if rq_query_type request = ns_t_a then AF_INET else AF_INET6) = (fst address, snd address)"
      "address_orderly cfg a (sys_budget s) request (fst address, snd address)"
      "resolver_helper_response_address_send dns fd request os = Some (Some RESOLVER_HELPER_OK, os')"
    using assms(8,11) False by (simp_all add: address_def)
  from address_assembled [OF this(1,2) False assms(7) this(3) assembly_machine.inv_reachable [OF assms(1,2)] assms(3-6)] show ?thesis using False by simp
qed

section \<open>Serving requests\<close>

definition dns_wf :: "dns_functions \<Rightarrow> bool" where
  "dns_wf dns \<longleftrightarrow> (\<forall>h n f. address_result_wf (snd (dns_address_lookup dns h n f)) \<and> srv_result_wf (snd (dns_srv_lookup dns h n)))"

text \<open>The packets that answer a request, after the exchanges so far.\<close>

definition answer :: "dns_functions \<Rightarrow> relay_event list \<Rightarrow> resolver_ipc_request \<Rightarrow> timespec \<Rightarrow> bytes option list" where
  "answer dns h request t =
     (if rq_query_type request = ns_t_srv then
        (let (lookup, result) = dns_srv_lookup dns h (rq_query_name request) in srv_answer request (the (resolver_ipc_lookup_status_from_srv lookup)) result t)
      else
        (let (lookup, result) = dns_address_lookup dns h (rq_query_name request) (if rq_query_type request = ns_t_a then AF_INET else AF_INET6) in
         address_answer request (the (resolver_ipc_lookup_status_from_address lookup)) result t))"

lemma status_from_the:
  "resolver_ipc_lookup_status_from_address lookup = Some (the (resolver_ipc_lookup_status_from_address lookup))"
  "resolver_ipc_lookup_status_from_srv l = Some (the (resolver_ipc_lookup_status_from_srv l))"
  using status_from_total(1) [of lookup] status_from_total(2) [of l] by auto

lemma response_send_eq:
  assumes "dns_wf dns" "sys_clock_gettime os = (Sys_ret t, os')" "timespec_range t"
  shows "(if rq_query_type request = ns_t_srv then resolver_helper_response_srv_send dns fd request os else resolver_helper_response_address_send dns fd request os)
    = Some (send_all fd (answer dns (trace os) request t) os')"
proof (cases "rq_query_type request = ns_t_srv")
  case True
  obtain l r where l: "dns_srv_lookup dns (trace os) (rq_query_name request) = (l, r)" by fastforce
  have "srv_result_wf r" using assms(1) l unfolding dns_wf_def by (metis snd_conv)
  then show ?thesis using srv_send_eq [OF l _ status_from_the(2) assms(2,3), of fd] True by (simp add: answer_def l)
next
  case False
  obtain l r where l: "dns_address_lookup dns (trace os) (rq_query_name request) (if rq_query_type request = ns_t_a then AF_INET else AF_INET6) = (l, r)" by fastforce
  have "address_result_wf r" using assms(1) l unfolding dns_wf_def by (metis snd_conv)
  then show ?thesis using address_send_eq [OF l _ status_from_the(1) assms(2,3), of fd] False by (simp add: answer_def l)
qed

text \<open>Encoded packets can be sent.\<close>

definition fits :: "bytes option list \<Rightarrow> bool" where
  "fits ps \<longleftrightarrow> (\<forall>p. Some p \<in> set ps \<longrightarrow> 0 < length p \<and> length p \<le> RESOLVER_IPC_PACKET_BYTE_LIMIT)"

lemma fits_append: "fits (ps @ qs) \<longleftrightarrow> fits ps \<and> fits qs"
  by (auto simp: fits_def)

lemma frame_nonempty: "frame kind query_id payload \<noteq> []"
  using length_frame [of kind query_id payload] by (metis add_is_0 list.size(3) zero_neq_numeral)

context ipc_packet
begin

lemma encoded_fits: "wf x \<Longrightarrow> fits [encoded encode x]"
  using payload_limit [of x] length_frame [of kind "query x" "payload x"] by (auto simp: fits_def encoded_frame frame_nonempty)

lemma each_fits: "(\<And>i x. x \<in> set xs \<Longrightarrow> wf (mk i x)) \<Longrightarrow> fits (map (\<lambda>(j, x). encoded encode (mk j x)) (enumerate i xs))"
proof (induction xs arbitrary: i)
  case (Cons x xs)
  then have "fits ([encoded encode (mk i x)] @ map (\<lambda>(j, x). encoded encode (mk j x)) (enumerate (Suc i) xs))"
    unfolding fits_append by (simp add: encoded_fits)
  then show ?case by simp
qed (simp add: fits_def)

end

lemma answer_frame_fits:
  assumes "begin_wf x" "list_all cname_record_wf (array_elements cnames)" "array_count cnames \<le> SIZE_MAX" "rb_record_count x \<le> SIZE_MAX" "fits records"
  shows "fits (answer_frame query_id x cnames records)"
  unfolding answer_frame_def fits_append
  using assms by (intro conjI begin_packet.encoded_fits cname_packet.each_fits end_packet.encoded_fits) (auto simp: message_wf list_all_iff end_wf_def)

lemma answer_fits:
  assumes "dns_wf dns" "timespec_range t"
  shows "fits (answer dns h request t)"
proof (cases "rq_query_type request = ns_t_srv")
  case True
  obtain l r where l: "dns_srv_lookup dns h (rq_query_name request) = (l, r)" by fastforce
  have w: "srv_result_wf r" using assms(1) l unfolding dns_wf_def by (metis snd_conv)
  then have "fits (srv_answer request s r t)" for s
    unfolding srv_answer_def using assms(2)
    by (intro answer_frame_fits srv_packet.each_fits) (auto simp: message_wf srv_result_wf_def list_all_iff begin_wf_def srv_begin_def negative_wf_def)
  then show ?thesis using True by (simp add: answer_def l)
next
  case False
  obtain l r where l: "dns_address_lookup dns h (rq_query_name request) (if rq_query_type request = ns_t_a then AF_INET else AF_INET6) = (l, r)" by fastforce
  have w: "address_result_wf r" using assms(1) l unfolding dns_wf_def by (metis snd_conv)
  then have "fits (address_answer request s r t)" for s
    unfolding address_answer_def using assms(2)
    by (intro answer_frame_fits address_packet.each_fits) (auto simp: message_wf address_result_wf_def list_all_iff begin_wf_def address_begin_def negative_wf_def)
  then show ?thesis using False by (simp add: answer_def l)
qed

text \<open>
  The replies of a system on which every call succeeds in the end: any number of interrupted waits before the one that reports the descriptor ready; any number of
  receptions that were interrupted or found nothing before the one that yields data; any number of interrupted or refused sends, each refusal followed by a wait, before a
  packet is accepted; and any number of interrupted peeks before the end of file is seen.
\<close>

inductive waits :: "bool \<times> bool \<Rightarrow> (revents \<Rightarrow> bool) \<Rightarrow> os_reply list \<Rightarrow> bool" for want ready where
  wait_ready: "ready r \<Longrightarrow> \<not> POLLNVAL r \<Longrightarrow> revents_any r \<Longrightarrow> revents_possible (fst want) (snd want) r \<Longrightarrow> waits want ready [Rep_poll r revents_none]"
| wait_interrupted: "waits want ready rs \<Longrightarrow> waits want ready (Rep_fail EINTR # rs)"

abbreviation waits_in :: "os_reply list \<Rightarrow> bool" where "waits_in \<equiv> waits (True, False) POLLIN"
abbreviation waits_out :: "os_reply list \<Rightarrow> bool" where "waits_out \<equiv> waits (False, True) POLLOUT"

inductive receives :: "bytes \<Rightarrow> os_reply list \<Rightarrow> bool" for d where
  receive_now: "waits_in ws \<Longrightarrow> receives d (ws @ [Rep_data d])"
| receive_again: "waits_in ws \<Longrightarrow> e = EINTR \<or> e = EAGAIN \<Longrightarrow> receives d rs \<Longrightarrow> receives d (ws @ Rep_fail e # rs)"

inductive sends :: "nat \<Rightarrow> os_reply list \<Rightarrow> bool" for n where
  send_now: "sends n [Rep_count n]"
| send_interrupted: "sends n rs \<Longrightarrow> sends n (Rep_fail EINTR # rs)"
| send_refused: "waits_out ws \<Longrightarrow> sends n rs \<Longrightarrow> sends n (Rep_fail EAGAIN # ws @ rs)"

inductive sends_each :: "bytes list \<Rightarrow> os_reply list \<Rightarrow> bool" where
  sends_none: "sends_each [] []"
| sends_more: "sends (length q) rs \<Longrightarrow> sends_each qs ss \<Longrightarrow> sends_each (q # qs) (rs @ ss)"

inductive peeks_end :: "os_reply list \<Rightarrow> bool" where
  peek_end: "peeks_end [Rep_count 0]"
| peek_interrupted: "peeks_end rs \<Longrightarrow> peeks_end (Rep_fail EINTR # rs)"

text \<open>
  A service: requests handed over one valid packet each and, in between, the packets of their answers accepted; then the peer shuts down, seen as an empty packet or as a
  hang-up. The history before and after is what was exchanged.
\<close>

inductive service :: "dns_functions \<Rightarrow> int \<Rightarrow> relay_event list \<Rightarrow> bytes list \<Rightarrow> os_reply list \<Rightarrow> relay_event list \<Rightarrow> bool" for dns fd where
  service_end: "receives [] rs \<Longrightarrow> peeks_end ks \<Longrightarrow> service dns fd h [] (rs @ ks) (h @ [Eof fd])"
| service_hangup: "waits (True, False) (\<lambda>r. POLLHUP r \<and> \<not> POLLIN r) ws \<Longrightarrow> service dns fd h [] ws h"
| service_request: "receives p rs \<Longrightarrow> resolver_ipc_request_decode (Some p) True = (RESOLVER_IPC_CODEC_OK, request) \<Longrightarrow>
     timeutil_valid (Some t) \<Longrightarrow> timespec_range t \<Longrightarrow> answer dns (h @ [Received fd p]) request t = map Some qs \<Longrightarrow> sends_each qs ss \<Longrightarrow>
     service dns fd (h @ [Received fd p] @ map (Sent fd) qs) ps script h' \<Longrightarrow> service dns fd h (p # ps) (rs @ Rep_time t # ss @ script) h'"

lemma waits_wait:
  assumes "waits want ready ws" "replies os = ws @ later"
  shows "\<exists>r os'. resolver_helper_event_wait want True os = (Some (RESOLVER_HELPER_OK, r), os') \<and> ready r \<and> replies os' = later \<and> trace os' = trace os"
  using assms
proof (induction ws arbitrary: os rule: waits.induct)
  case (wait_ready r)
  then show ?case
    by (subst resolver_helper_event_wait.simps) (simp add: sys_poll_def revents_possible_def revents_any_def revents_none_def reply_next_def)
next
  case (wait_interrupted ws)
  have "replies (os\<lparr>replies := ws @ later, os_errno := EINTR\<rparr>) = ws @ later" by simp
  from wait_interrupted.IH [OF this] show ?case
    using wait_interrupted.prems by (subst resolver_helper_event_wait.simps) (simp add: sys_poll_def sys_failed_def reply_next_def)
qed

lemma receives_packet:
  assumes "receives p rs" "replies os = rs @ later" "p \<noteq> []" "length p \<le> RESOLVER_IPC_PACKET_BYTE_LIMIT"
  shows "\<exists>os'. resolver_helper_packet_receive fd RESOLVER_HELPER_RECEIVE_BYTE_CAPACITY os = (Some (RESOLVER_HELPER_RECEIVE_DATA, p), os')
    \<and> replies os' = later \<and> trace os' = trace os @ [Received fd p]"
  using assms(1,2)
proof (induction rs arbitrary: os rule: receives.induct)
  case (receive_now ws)
  obtain r os1 where w: "resolver_helper_event_wait (True, False) True os = (Some (RESOLVER_HELPER_OK, r), os1)" "POLLIN r" "replies os1 = Rep_data p # later" "trace os1 = trace os"
    using waits_wait [OF receive_now(1), of os "Rep_data p # later"] receive_now(2) by auto
  then show ?case
    using assms(3,4) by (subst resolver_helper_packet_receive.simps) (simp add: sys_recv_def reply_next_def record_event_def)
next
  case (receive_again ws e rs)
  obtain r os1 where w: "resolver_helper_event_wait (True, False) True os = (Some (RESOLVER_HELPER_OK, r), os1)" "POLLIN r" "replies os1 = Rep_fail e # rs @ later" "trace os1 = trace os"
    using waits_wait [OF receive_again(1), of os "Rep_fail e # rs @ later"] receive_again.prems by auto
  have "replies (os1\<lparr>replies := rs @ later, os_errno := e\<rparr>) = rs @ later" by simp
  from receive_again.IH [OF this] show ?case
    using w receive_again(2) by (subst resolver_helper_packet_receive.simps) (auto simp: sys_recv_def sys_failed_def reply_next_def)
qed

lemma peeks_peek: "peeks_end ks \<Longrightarrow> replies os = ks \<Longrightarrow> \<exists>os'. helper_peek os = (Some RESOLVER_HELPER_RECEIVE_END, os') \<and> replies os' = [] \<and> trace os' = trace os"
proof (induction ks arbitrary: os rule: peeks_end.induct)
  case peek_end
  then show ?case by (subst helper_peek.simps) (simp add: sys_peek_def reply_next_def)
next
  case (peek_interrupted rs)
  have "replies (os\<lparr>replies := rs, os_errno := EINTR\<rparr>) = rs" by simp
  from peek_interrupted.IH [OF this] show ?case
    using peek_interrupted.prems by (subst helper_peek.simps) (simp add: sys_peek_def sys_failed_def reply_next_def)
qed

lemma receives_end:
  assumes "receives [] rs" "peeks_end ks" "replies os = rs @ ks"
  shows "\<exists>os'. resolver_helper_packet_receive fd RESOLVER_HELPER_RECEIVE_BYTE_CAPACITY os = (Some (RESOLVER_HELPER_RECEIVE_END, []), os')
    \<and> replies os' = [] \<and> trace os' = trace os @ [Eof fd]"
  using assms(1,3)
proof (induction rs arbitrary: os rule: receives.induct)
  case (receive_now ws)
  obtain r os1 where w: "resolver_helper_event_wait (True, False) True os = (Some (RESOLVER_HELPER_OK, r), os1)" "POLLIN r" "replies os1 = Rep_data [] # ks" "trace os1 = trace os"
    using waits_wait [OF receive_now(1), of os "Rep_data [] # ks"] receive_now(2) by auto
  have r: "sys_recv fd RESOLVER_HELPER_RECEIVE_BYTE_CAPACITY os1 = (Sys_ret [], os1\<lparr>replies := ks, trace := trace os @ [Eof fd]\<rparr>)"
    using w(3,4) by (simp add: sys_recv_def reply_next_def record_event_def)
  have "replies (os1\<lparr>replies := ks, trace := trace os @ [Eof fd]\<rparr>) = ks" by simp
  from peeks_peek [OF assms(2) this] show ?case
    using w r by (subst resolver_helper_packet_receive.simps) auto
next
  case (receive_again ws e rs)
  obtain r os1 where w: "resolver_helper_event_wait (True, False) True os = (Some (RESOLVER_HELPER_OK, r), os1)" "POLLIN r" "replies os1 = Rep_fail e # rs @ ks" "trace os1 = trace os"
    using waits_wait [OF receive_again(1), of os "Rep_fail e # rs @ ks"] receive_again.prems by auto
  have "replies (os1\<lparr>replies := rs @ ks, os_errno := e\<rparr>) = rs @ ks" by simp
  from receive_again.IH [OF this] show ?case
    using w receive_again(2) by (subst resolver_helper_packet_receive.simps) (auto simp: sys_recv_def sys_failed_def reply_next_def)
qed

lemma receives_hangup:
  assumes "waits (True, False) (\<lambda>r. POLLHUP r \<and> \<not> POLLIN r) ws" "replies os = ws"
  shows "\<exists>os'. resolver_helper_packet_receive fd RESOLVER_HELPER_RECEIVE_BYTE_CAPACITY os = (Some (RESOLVER_HELPER_RECEIVE_END, []), os')
    \<and> replies os' = [] \<and> trace os' = trace os"
  using waits_wait [OF assms(1), of os "[]"] assms(2) by (subst resolver_helper_packet_receive.simps) auto

lemma sends_packet:
  assumes "sends n rs" "replies os = rs @ later" "length p = n" "0 < n" "n \<le> RESOLVER_IPC_PACKET_BYTE_LIMIT"
  shows "\<exists>os'. resolver_helper_packet_send fd p os = (Some RESOLVER_HELPER_OK, os') \<and> replies os' = later \<and> trace os' = trace os @ [Sent fd p]"
  using assms(1,2)
proof (induction rs arbitrary: os rule: sends.induct)
  case send_now
  then show ?case
    using assms(3-5) by (subst resolver_helper_packet_send.simps) (simp add: sys_send_def reply_next_def record_event_def)
next
  case (send_interrupted rs)
  have "replies (os\<lparr>replies := rs @ later, os_errno := EINTR\<rparr>) = rs @ later" by simp
  from send_interrupted.IH [OF this] show ?case
    using send_interrupted.prems assms(3-5) by (subst resolver_helper_packet_send.simps) (auto simp: sys_send_def sys_failed_def reply_next_def)
next
  case (send_refused ws rs)
  define os1 where "os1 = os\<lparr>replies := ws @ rs @ later, os_errno := EAGAIN\<rparr>"
  obtain r os2 where w: "resolver_helper_event_wait (False, True) True os1 = (Some (RESOLVER_HELPER_OK, r), os2)" "POLLOUT r" "replies os2 = rs @ later" "trace os2 = trace os1"
    using waits_wait [OF send_refused(1), of os1 "rs @ later"] by (auto simp: os1_def)
  have "sys_send fd p os = (Sys_err, os1)" "trace os1 = trace os" "os_errno os1 = EAGAIN"
    using send_refused.prems by (simp_all add: sys_send_def sys_failed_def reply_next_def os1_def)
  with send_refused.IH [OF w(3)] show ?case
    using w assms(3-5) by (subst resolver_helper_packet_send.simps) auto
qed

lemma sends_each_all:
  assumes "sends_each qs ss" "replies os = ss @ later" "\<forall>p \<in> set qs. 0 < length p \<and> length p \<le> RESOLVER_IPC_PACKET_BYTE_LIMIT"
  shows "\<exists>os'. send_all fd (map Some qs) os = (Some RESOLVER_HELPER_OK, os') \<and> replies os' = later \<and> trace os' = trace os @ map (Sent fd) qs"
  using assms
proof (induction qs ss arbitrary: os rule: sends_each.induct)
  case (sends_more q rs qs ss)
  obtain os1 where s: "resolver_helper_packet_send fd q os = (Some RESOLVER_HELPER_OK, os1)" "replies os1 = ss @ later" "trace os1 = trace os @ [Sent fd q]"
    using sends_packet [OF sends_more.hyps(1), of os "ss @ later" q fd] sends_more.prems by auto
  show ?case using sends_more.IH [OF s(2)] sends_more.prems(2) s(1,3) by auto
qed simp

lemma request_length:
  assumes "resolver_ipc_request_decode (Some p) True = (RESOLVER_IPC_CODEC_OK, x)"
  shows "p \<noteq> []" "length p \<le> RESOLVER_IPC_PACKET_BYTE_LIMIT"
proof -
  have "request_wf x" "request_ok x" "p = frame RESOLVER_IPC_PACKET_REQUEST (rq_query_id x) (request_payload x)"
    using assms request_packet.decode_iff [of p x] by (simp_all add: resolver_ipc_request_decode_def)
  then show "p \<noteq> []" "length p \<le> RESOLVER_IPC_PACKET_BYTE_LIMIT"
    using request_packet.payload_limit [of x] length_frame [of RESOLVER_IPC_PACKET_REQUEST "rq_query_id x" "request_payload x"] by (auto simp: frame_nonempty)
qed

text \<open>
  C6: the helper serves. Whatever requests a system hands over, one valid packet each, whatever the lookups answer, and however often waits, receptions, sends and peeks are interrupted or find
  the socket not ready before they succeed: if the encoders can express the answers, the helper sends to each request exactly the packets of its answer, each once and
  whole, in order, before it receives the next request, and returns \<open>RESOLVER_HELPER_OK\<close> when the peer shuts down, seen as an end of file or as a hang-up.
\<close>

theorem helper_serves:
  assumes "0 \<le> fd" "dns_wf dns" "service dns fd (trace os) requests (replies os) h"
  shows "\<exists>os'. resolver_helper_run dns fd os = Some (Some RESOLVER_HELPER_OK, os') \<and> trace os' = h \<and> replies os' = []"
proof -
  have "\<exists>os'. resolver_helper_run dns fd os = Some (Some RESOLVER_HELPER_OK, os') \<and> trace os' = h \<and> replies os' = []"
    if "service dns fd h0 requests script h" "h0 = trace os" "script = replies os" for h0 script
    using that
  proof (induction h0 requests script h arbitrary: os rule: service.induct)
    case (service_end rs ks h)
    then show ?case
      using assms(1) receives_end [OF service_end(1,2), of os fd] by (subst resolver_helper_run.simps) auto
  next
    case (service_hangup ws h)
    then show ?case
      using assms(1) receives_hangup [OF service_hangup(1), of os fd] by (subst resolver_helper_run.simps) auto
  next
    case (service_request p rs request t h qs ss ps script h')
    obtain os1 where r: "resolver_helper_packet_receive fd RESOLVER_HELPER_RECEIVE_BYTE_CAPACITY os = (Some (RESOLVER_HELPER_RECEIVE_DATA, p), os1)"
        "replies os1 = Rep_time t # ss @ script" "trace os1 = trace os @ [Received fd p]"
      using receives_packet [OF service_request(1) _ request_length [OF service_request(2)], of os "Rep_time t # ss @ script" fd] service_request.prems by auto
    have c: "sys_clock_gettime os1 = (Sys_ret t, os1\<lparr>replies := ss @ script\<rparr>)"
      using service_request(3) r(2) by (simp add: sys_clock_gettime_def reply_next_def)
    have f: "\<forall>p \<in> set qs. 0 < length p \<and> length p \<le> RESOLVER_IPC_PACKET_BYTE_LIMIT"
      using answer_fits [OF assms(2) service_request(4), of "h @ [Received fd p]" request] by (auto simp: service_request(5) fits_def)
    obtain os2 where s: "send_all fd (map Some qs) (os1\<lparr>replies := ss @ script\<rparr>) = (Some RESOLVER_HELPER_OK, os2)" "replies os2 = script" "trace os2 = trace os1 @ map (Sent fd) qs"
      using sends_each_all [OF service_request(6) _ f, of "os1\<lparr>replies := ss @ script\<rparr>" script fd] by auto
    have "(if rq_query_type request = ns_t_srv then resolver_helper_response_srv_send dns fd request os1 else resolver_helper_response_address_send dns fd request os1)
        = Some (Some RESOLVER_HELPER_OK, os2)"
      using response_send_eq [OF assms(2) c service_request(4), of request fd] s(1) service_request(5) service_request.prems r(3) by simp
    moreover have "h @ [Received fd p] @ map (Sent fd) qs = trace os2" "script = replies os2"
      using s(2,3) r(3) service_request.prems by simp_all
    ultimately show ?case
      using service_request.IH [of os2] assms(1) r(1) service_request(2) by (subst resolver_helper_run.simps) simp
  qed
  with assms(3) show ?thesis by blast
qed

section \<open>Examples\<close>

definition sample_request :: resolver_ipc_request where
  "sample_request = \<lparr>rq_query_name = [0x6D, 0x63], rq_query_class = ns_c_in, rq_query_id = 1, rq_query_type = ns_t_a\<rparr>"

definition sample_lookup :: dns_address_result where
  "sample_lookup = dns_address_result_zero
     \<lparr>ad_question_name := [0x6D, 0x63], ad_canonical_name := [0x6D, 0x63], ad_addresses := Some [sample_address]\<rparr>"

definition sample_dns :: dns_functions where
  "sample_dns = \<lparr>dns_address_lookup = (\<lambda>h n f. (DNS_ADDRESS_LOOKUP_OK, sample_lookup)), dns_srv_lookup = (\<lambda>h n. (DNS_SRV_LOOKUP_NODATA, dns_srv_result_zero))\<rparr>"

definition sample_time :: timespec where
  "sample_time = \<lparr>tv_sec = 1, tv_nsec = 0\<rparr>"

definition sample_request_packet :: bytes where
  "sample_request_packet = frame RESOLVER_IPC_PACKET_REQUEST 1 (request_payload sample_request)"

lemma sample_wf: "address_result_wf sample_lookup" "dns_wf sample_dns" "timespec_range sample_time" "timeutil_valid (Some sample_time)"
  by (simp_all add: dns_wf_def sample_dns_def address_result_wf_def srv_result_wf_def negative_wf_def sample_lookup_def dns_address_result_zero_def dns_srv_result_zero_def
      dns_negative_zero_def array_elements_def array_count_def sample_address_def net_addr_zero_def name_array_def sample_time_def timespec_range_def timeutil_valid_def)

lemma sample_status: "resolver_ipc_lookup_status_from_address DNS_ADDRESS_LOOKUP_OK = Some RESOLVER_IPC_LOOKUP_OK"
  by (simp add: resolver_ipc_lookup_status_from_address_def resolver_ipc_lookup_status_find_def resolver_ipc_lookup_status_maps_def)

lemma sample_begin_eq: "address_begin sample_request RESOLVER_IPC_LOOKUP_OK sample_lookup sample_time = sample_begin"
  by (simp add: address_begin_def sample_request_def sample_lookup_def sample_begin_def dns_address_result_zero_def array_count_def sample_time_def)

lemma sample_answer: "address_answer sample_request RESOLVER_IPC_LOOKUP_OK sample_lookup sample_time = map Some sample_packets"
proof -
  have b: "begin_wf sample_begin" "begin_ok sample_begin" "rb_query_id sample_begin = 1" "rb_record_count sample_begin = 1"
    by (simp_all add: sample_begin_def begin_wf_def begin_ok_def timespec_range_def name_array_def name_ok_def dns_negative_zero_def
        resolver_ipc_query_type_valid_def resolver_ipc_lookup_status_valid_def resolver_ipc_lookup_status_find_def resolver_ipc_lookup_status_maps_def
        resolver_ipc_negative_valid_def resolver_ipc_response_count_valid_def timeutil_valid_def)
  have a: "address_wf (address_message 1 0 sample_address)" "address_ok (address_message 1 0 sample_address)" "ra_query_id (address_message 1 0 sample_address) = 1"
    by (simp_all add: address_message_def sample_address_def address_wf_def address_ok_def net_addr_zero_def)
  have r: "array_elements (ad_cnames sample_lookup) = []" "array_elements (ad_addresses sample_lookup) = [sample_address]" "array_count (ad_cnames sample_lookup) = 0" "rq_query_id sample_request = 1"
    by (simp_all add: sample_lookup_def dns_address_result_zero_def array_elements_def array_count_def sample_request_def)
  show ?thesis
    unfolding address_answer_def answer_frame_def sample_begin_eq r
    by (simp add: begin_packet.encoded_frame address_packet.encoded_frame end_packet.encoded_frame a b end_wf_def end_ok_def sample_packets_def)
qed

lemma sample_answers: "answer sample_dns h sample_request sample_time = map Some sample_packets"
  using sample_answer by (simp add: answer_def sample_dns_def sample_status [unfolded One_nat_def] sample_request_def)

lemma sample_shape:
  "response_shape sample_assembly (address_begin sample_request RESOLVER_IPC_LOOKUP_OK sample_lookup t) [] 1"
  by (simp add: response_shape_def resolver_ipc_assembly_begin_check_def address_begin_def sample_request_def sample_lookup_def dns_address_result_zero_def array_count_def
      sample_assembly_def resolver_ipc_assembly_name_normalized_def sample_name response_complete_def dns_negative_zero_def Let_def)

definition sample_readable :: os_reply where
  "sample_readable = Rep_poll (revents_none\<lparr>POLLIN := True\<rparr>) revents_none"

definition sample_writable :: os_reply where
  "sample_writable = Rep_poll (revents_none\<lparr>POLLOUT := True\<rparr>) revents_none"

text \<open>Every send is interrupted, refused, its wait interrupted, and then accepted.\<close>

definition sample_send :: "bytes \<Rightarrow> os_reply list" where
  "sample_send p = [Rep_fail EINTR, Rep_fail EAGAIN, Rep_fail EINTR, sample_writable, Rep_count (length p)]"

lemma sample_waits: "waits_in [sample_readable]" "waits_out [Rep_fail EINTR, sample_writable]"
proof -
  show "waits_in [sample_readable]"
    unfolding sample_readable_def by (rule wait_ready) (simp_all add: revents_none_def revents_any_def revents_possible_def)
  have "waits_out [sample_writable]"
    unfolding sample_writable_def by (rule wait_ready) (simp_all add: revents_none_def revents_any_def revents_possible_def)
  then show "waits_out [Rep_fail EINTR, sample_writable]" by (rule wait_interrupted)
qed

lemma sample_sends: "sends_each qs (concat (map sample_send qs))"
proof (induction qs)
  case (Cons q qs)
  have "sends (length q) (sample_send q)"
    unfolding sample_send_def using send_interrupted [OF send_refused [OF sample_waits(2) send_now]] by simp
  from sends_more [OF this Cons] show ?case by simp
qed (simp add: sends_none)

theorem helper_answer_assembled_witness:
  "\<exists>(os :: relay_os) os' t packets a' b'. resolver_helper_response_address_send sample_dns 3 sample_request os = Some (Some RESOLVER_HELPER_OK, os')
    \<and> hd (replies os) = Rep_time t \<and> trace os' = trace os @ map (Sent 3) packets
    \<and> packets_consume sample_assembly_config 7 packets (sys_budget sample_system) = Some (RESOLVER_IPC_ASSEMBLY_COMPLETE, b') \<and> assembly_at 7 b' = Some a'
    \<and> as_state a' = RESOLVER_IPC_ASSEMBLY_STATE_COMPLETE \<and> as_completed_at a' = t
    \<and> resolver_ipc_lookup_status_to_address (as_status a') = Some DNS_ADDRESS_LOOKUP_OK \<and> payload_address (as_payload a') = address_result_sent sample_lookup"
proof -
  define os where "os = \<lparr>replies = Rep_time sample_time # concat (map sample_send sample_packets), trace = [], os_errno = EINTR\<rparr>"
  have f: "\<forall>p \<in> set sample_packets. 0 < length p \<and> length p \<le> RESOLVER_IPC_PACKET_BYTE_LIMIT"
    using answer_fits [OF sample_wf(2,3), of "[]" sample_request] unfolding sample_answers fits_def by auto
  have l: "dns_address_lookup sample_dns h n (if rq_query_type sample_request = ns_t_a then AF_INET else AF_INET6) = (DNS_ADDRESS_LOOKUP_OK, sample_lookup)" for h n
    by (simp add: sample_dns_def)
  have c: "sys_clock_gettime os = (Sys_ret sample_time, os\<lparr>replies := concat (map sample_send sample_packets)\<rparr>)"
    using sample_wf(4) by (simp add: sys_clock_gettime_def os_def reply_next_def)
  obtain os' where s: "resolver_helper_response_address_send sample_dns 3 sample_request os = Some (Some RESOLVER_HELPER_OK, os')"
    using address_send_eq [OF l sample_wf(1) sample_status c sample_wf(3), of 3]
      sends_each_all [OF sample_sends _ f, of "os\<lparr>replies := concat (map sample_send sample_packets)\<rparr>" "[]" 3] by (auto simp: sample_answer)
  obtain b where b: "sys_budget sample_system = b" "assembly_at 7 b = Some sample_assembly" "ab_owned_bytes b = 8192" using sample_assembly_create by blast
  have e: "array_elements (ad_cnames sample_lookup) = []" "array_elements (ad_addresses sample_lookup) = [sample_address]" "array_count (ad_cnames sample_lookup) = 0"
      "array_count (ad_addresses sample_lookup) = 1" "rq_query_type sample_request = ns_t_a" "rq_query_id sample_request = 1"
    by (simp_all add: sample_lookup_def dns_address_result_zero_def array_elements_def array_count_def sample_request_def)
  have "room sample_assembly_config ns_t_a 0 1 b"
    by (simp add: room_def b(3) arrays_size_def sample_assembly_config_def resolver_cache_result_classify_def resolver_size_multiply_def resolver_size_add_def Let_def)
  moreover have "addresses_ok ns_t_a [] [sample_address]"
    by (simp add: addresses_ok_def sample_address_def resolver_ipc_assembly_ttl_expected_def chain_ttl_def)
  ultimately have o: "address_orderly sample_assembly_config sample_assembly (sys_budget sample_system) sample_request (DNS_ADDRESS_LOOKUP_OK, sample_lookup)"
    using sample_wf(1) sample_shape sample_status by (simp add: address_orderly_def e b(1))
  have r: "\<forall>t. Rep_time t \<in> set (replies os) \<longrightarrow> timespec_range t" using sample_wf(3) by (auto simp: os_def sample_send_def sample_writable_def)
  have a: "as_state sample_assembly = RESOLVER_IPC_ASSEMBLY_STATE_BEGIN" "as_query_id sample_assembly = rq_query_id sample_request" "as_query_type sample_assembly = rq_query_type sample_request"
      "rq_query_type sample_request \<noteq> ns_t_srv"
    by (simp_all add: e sample_assembly_def)
  have at: "assembly_at 7 (sys_budget sample_system) = Some sample_assembly" using b by simp
  show ?thesis
    using helper_answer_assembled [OF sample_init sample_reachable at a(1-3) r, of sample_dns 3 os'] s o a(4) unfolding l if_not_P [OF a(4)] fst_conv snd_conv by blast
qed

text \<open>A reception that is interrupted while it waits, finds nothing, and then yields a packet or the end of file.\<close>

definition sample_receive :: "bytes \<Rightarrow> os_reply list" where
  "sample_receive d = [Rep_fail EINTR, sample_readable, Rep_fail EAGAIN, sample_readable, Rep_data d]"

definition sample_script :: "os_reply list" where
  "sample_script =
     sample_receive sample_request_packet @ Rep_time sample_time # concat (map sample_send sample_packets) @ sample_receive [] @ [Rep_fail EINTR, Rep_count 0]"

lemma sample_receives: "receives d (sample_receive d)"
  unfolding sample_receive_def
  using receive_again [OF wait_interrupted [OF sample_waits(1)], of EAGAIN d] receive_now [OF sample_waits(1), of d] by simp

lemma sample_service:
  "service sample_dns 3 [] [sample_request_packet] sample_script ([Received 3 sample_request_packet] @ map (Sent 3) sample_packets @ [Eof 3])"
proof -
  have d: "resolver_ipc_request_decode (Some sample_request_packet) True = (RESOLVER_IPC_CODEC_OK, sample_request)"
    unfolding resolver_ipc_request_decode_def sample_request_packet_def
    by (subst request_packet.decode_iff) (simp add: sample_request_def request_wf_def request_ok_def name_array_def name_ok_def resolver_ipc_query_type_valid_def)
  have "peeks_end [Rep_fail EINTR, Rep_count 0]" by (rule peek_interrupted [OF peek_end])
  from service_request [OF sample_receives d sample_wf(4,3) sample_answers sample_sends service_end [OF sample_receives this], of 3 "[]"]
  show ?thesis by (simp add: sample_script_def)
qed

theorem helper_serves_witness:
  "\<exists>os'. resolver_helper_run sample_dns 3 \<lparr>replies = sample_script, trace = [], os_errno = EINTR\<rparr> = Some (Some RESOLVER_HELPER_OK, os')
     \<and> trace os' = [Received 3 sample_request_packet] @ map (Sent 3) sample_packets @ [Eof 3] \<and> replies os' = []"
  using helper_serves [OF _ sample_wf(2), of 3 "\<lparr>replies = sample_script, trace = [], os_errno = EINTR\<rparr>"] sample_service by simp

end
