(* ===== verification/Spec2Isabelle.thy ===== *)
theory Spec2Isabelle
  imports Base64 Proto_Common Handshake Handshake_Legacy Network Proxy Timeutil Metrics Resolver_Util Cache_Correct Relay Hosts Route_Table Helper_Correct
begin

text \<open>
  \<^bold>\<open>A verification library for mcrelay, a relay server for Minecraft connections\<close>

  \<^bold>\<open>The program.\<close> A listener accepts a client, reads its handshake, finds the route configured for the virtual host the client asked for, resolves
  and connects to the destination, passes the handshake on (possibly rewritten, possibly behind a PROXY header) and then copies bytes in both directions. Names are
  resolved by helper processes: the listener sends a request packet to a helper, the helper looks the name up and answers with a sequence of
  packets, the listener assembles them under a memory budget, and the result is published in a cache. The sources are the C files
  under \<open>src/src\<close>; file names below are relative to it.

  \<^bold>\<open>Theories and sources.\<close>
    \<^item> \<open>Prelude\<close>: machine types, byte buffers with checked access (\<open>buf_at\<close>, \<open>buf_read\<close>, \<open>buf_write\<close>), C strings, and the interfaces
      \<open>codec\<close> (encoder and decoder) and \<open>invariant_system\<close> (transition system with an invariant).
    \<^item> \<open>Basic\<close>, \<open>Base64\<close>: \<open>basic.c\<close>; variable-length integers, 16-bit padding, log escaping, string splitting, base64.
    \<^item> \<open>Proto_Common\<close>: \<open>protocol/common.c\<close>; identification of protocol versions (\<open>protocol_identify\<close>), framing (\<open>protocol_packet_length\<close>), wire integers.
    \<^item> \<open>Handshake\<close>: \<open>protocol/handshake.c\<close>; \<open>packet_read\<close>, \<open>packet_write\<close>, \<open>make_kickreason\<close>, \<open>make_motd\<close>.
    \<^item> \<open>Handshake_Legacy\<close>: \<open>protocol/handshake_legacy.c\<close>; the login layouts L1 to L4, the ping M3, the replies in 16-bit characters.
    \<^item> \<open>Proxy\<close>: \<open>protocol/proxy.c\<close>; the PROXY header, version 1.
    \<^item> \<open>Network\<close>, \<open>Relay\<close>: \<open>network.c\<close>; addresses, connecting and listening, and the byte relay \<open>net_relay\<close> with its two bounded queues.
    \<^item> \<open>Timeutil\<close>, \<open>Metrics\<close>: \<open>timeutil.c\<close> and \<open>metrics.c\<close>; checked time arithmetic, saturating counters and histograms.
    \<^item> \<open>Resolver_Util\<close>, \<open>Hosts\<close>: \<open>resolver/util.c\<close> and \<open>resolver/hosts.c\<close>; names, checked sizes, the hosts table.
    \<^item> \<open>Route_Table\<close>: \<open>route/table.c\<close>; the configured proxies as routes and deduplicated destinations.
    \<^item> \<open>Dns_Types\<close>, \<open>Cache\<close>, \<open>Cache_Correct\<close>: the result types of \<open>resolver/dns.h\<close> and the cache of \<open>resolver/cache.c\<close>.
    \<^item> \<open>Ipc\<close>, \<open>Ipc_Correct\<close>: \<open>resolver/ipc.c\<close>; the six packet kinds between listener and helper.
    \<^item> \<open>Ipc_Assembly\<close>, \<open>Ipc_Assembly_Inv\<close>, \<open>Ipc_Assembly_Correct\<close>: \<open>resolver/ipc_assembly.c\<close>; assembling responses under the budget.
    \<^item> \<open>Helper\<close>, \<open>Helper_Correct\<close>: \<open>resolver/helper.c\<close>; the request loop of a helper process and its responses.

  \<^bold>\<open>How the code is modelled.\<close> Definitions keep the names of the functions, and the order of their checks; loops are recursive functions. A structure is a record; enumerations are datatypes, or the integers they
  are in C where decoded values are compared with them. Words have their width; \<open>size_t\<close> values are natural numbers, with the wrap-around written out where
  the code does not exclude it. A pointer that the code compares with NULL is an option; arguments that no caller passes as NULL are the objects themselves. The outer option of a result is undefined behaviour: an access outside an object, or the
  use of a freed one. Owners on the heap are maps from identifiers to contents (cache entries) or association lists (assemblies); a linked list is the list of its nodes.

  \<^bold>\<open>Parameters.\<close> Code that is not part of the sources is an argument: the text conversions of addresses (\<open>inet\<close>, with their documented contract
  \<open>inet_contract\<close>), the accessors of cJSON (\<open>cjson\<close>), the outcomes of allocations, the contents of the hosts file, the compile-time limits and
  structure sizes (\<open>cache_config\<close>, \<open>assembly_config\<close>, \<open>relay_config\<close>), and the lookups of a helper (\<open>dns_functions\<close>). The operating
  system under the relay and the helper is a script of replies to system calls with a trace of their effects (\<open>relay_os\<close>): statements quantify over
  all scripts, so over all schedules, partial transfers, interruptions and failures; a call without a reply blocks.

  \<^bold>\<open>What is shown.\<close>
    \<^item> Byte streams: varints and wire integers round-trip; framing reads only what has arrived, always asks for more than it has, and its verdict does not depend on how TCP cuts the stream.
    \<^item> Handshakes: parsing is memory safe on every input, re-encoding stores exactly the specified frames or nothing, canonical records round-trip, the proxy's own
      replies are exact, and which legacy logins survive the proxy is characterised.
    \<^item> PROXY header: never truncated, round-trips, and only header lines are accepted.
    \<^item> Relay: each socket gets a prefix of what was received for it, half-closes follow delivery, both descriptors are closed exactly once.
    \<^item> Routes: the table holds exactly what the configuration describes, and a name finds its first route.
    \<^item> Hosts: any file gives a bounded, duplicate-free table in which localhost is loopback; lookups are exact.
    \<^item> Cache: the invariant of chains, reference counts and accounting under every operation, the refinement to a finite map, visibility of publications for exactly their time to live, complete destruction.
    \<^item> Packets and assembly: the codecs are inverse to each other and accept one encoding only; the budget's charge is exactly what is allocated; the cache's verdict on every assembled result.
    \<^item> Helper: answers cross the process boundary unchanged, and every request is answered in spite of interruptions.
    \<^item> Base64, escaping, times, histograms and names: equivalence with their specifications.

  \<^bold>\<open>Interfaces.\<close> \<open>codec\<close> is interpreted by varints, escape units and wire integers, \<open>ipc_packet\<close> by the six packet kinds, \<open>invariant_system\<close> by the cache and
  by the assemblies of a budget.

  \<^bold>\<open>Bounds.\<close> The functions terminate: the loops over the operating system's script by its length, the others by their data. Only
  the walk along a hash chain of the route table has fuel, one step per destination, which suffices on the chains the table builds. Statements about a destination's content assume that its size is below the
  range of \<open>size_t\<close>, as objects are.

  \<^bold>\<open>Not modelled.\<close> The event loops and state machines over epoll, signals and processes (\<open>listener.c\<close>, \<open>resolver/supervisor.c\<close>, \<open>connection/\<close>, the other files of \<open>route/\<close>), the DNS parser built on the
  resolver library (\<open>resolver/dns.c\<close>), configuration files on cJSON (\<open>config.c\<close>), logging and the text of exported metrics, inotify (\<open>resolver/hosts_watch.c\<close>), reading a file (\<open>freadall\<close>) and starting a helper
  process. Reads of the packet reader of \<open>resolver/ipc.c\<close> are lists cut at its own bound; that they stay inside the packet is its bound check.
\<close>

end
